(* ===== verification/Cbor.thy ===== *)
theory Cbor
  imports Prelude
begin

text \<open>
  The canonical CBOR profile of \<open>ec-policy-eval/src/cbor.rs\<close> (ADR 0044). A writer method is
  modelled by the bytes it appends (\<open>put_*\<close>, so \<open>enc(|w| w.text(s))\<close> is \<open>put_text s\<close>), the
  reader by a record of its buffer, position and open-map frames (the innermost frame first),
  and each reader method by a function from a reader to an error or a value and the next reader.
  The two are tied by the interface \<open>codec\<close>: what the writer emits the reader reads back, and
  whatever the reader accepts is what the writer would have emitted.
\<close>

section \<open>Writer\<close>

definition MAJOR_UINT :: byte where "MAJOR_UINT = 0"
definition MAJOR_NEGINT :: byte where "MAJOR_NEGINT = 1"
definition MAJOR_BYTES :: byte where "MAJOR_BYTES = 2"
definition MAJOR_TEXT :: byte where "MAJOR_TEXT = 3"
definition MAJOR_ARRAY :: byte where "MAJOR_ARRAY = 4"
definition MAJOR_MAP :: byte where "MAJOR_MAP = 5"
definition MAJOR_SIMPLE :: byte where "MAJOR_SIMPLE = 7"

definition MAX_MAP_DEPTH :: nat where "MAX_MAP_DEPTH = 8"

lemmas major_defs = MAJOR_UINT_def MAJOR_NEGINT_def MAJOR_BYTES_def MAJOR_TEXT_def
  MAJOR_ARRAY_def MAJOR_MAP_def MAJOR_SIMPLE_def

datatype cbor_error = Eof | NotCanonical | Unsupported | Type | Trailing | TooDeep | Unbalanced

definition put_head :: "byte \<Rightarrow> u64 \<Rightarrow> byte list" where
  "put_head major arg =
    (let m = push_bit 5 major in
     if arg < 24 then [m OR ucast arg]
     else if arg \<le> 0xFF then [m OR 24, ucast arg]
     else if arg \<le> 0xFFFF then (m OR 25) # be_bytes 2 (unat arg)
     else if arg \<le> 0xFFFFFFFF then (m OR 26) # be_bytes 4 (unat arg)
     else (m OR 27) # be_bytes 8 (unat arg))"

definition put_u64 :: "u64 \<Rightarrow> byte list" where
  "put_u64 v = put_head MAJOR_UINT v"

text \<open>The argument is an \<open>i64\<close>: an integer between \<open>-2^63\<close> and \<open>2^63 - 1\<close>.\<close>

definition put_i64 :: "int \<Rightarrow> byte list" where
  "put_i64 v = (if 0 \<le> v then put_head MAJOR_UINT (word_of_int v)
                else put_head MAJOR_NEGINT (word_of_int (- v - 1)))"

definition put_bytes :: "byte list \<Rightarrow> byte list" where
  "put_bytes b = put_head MAJOR_BYTES (word_of_nat (length b)) @ b"

definition put_text :: "string \<Rightarrow> byte list" where
  "put_text s = put_head MAJOR_TEXT (word_of_nat (length s)) @ str_bytes s"

definition put_bool :: "bool \<Rightarrow> byte list" where
  "put_bool b = [push_bit 5 MAJOR_SIMPLE OR (if b then 21 else 20)]"

definition put_null :: "byte list" where
  "put_null = [push_bit 5 MAJOR_SIMPLE OR 22]"

definition put_array :: "nat \<Rightarrow> byte list" where
  "put_array len = put_head MAJOR_ARRAY (word_of_nat len)"

definition put_map :: "nat \<Rightarrow> byte list" where
  "put_map len = put_head MAJOR_MAP (word_of_nat len)"

subsection \<open>MapBuilder\<close>

type_synonym mapb = "(byte list \<times> byte list) list"

text \<open>The duplicate-key test of \<open>insert\<close> is a debug assertion: it is absent from a release build.\<close>

definition mb_insert :: "mapb \<Rightarrow> string \<Rightarrow> byte list \<Rightarrow> mapb" where
  "mb_insert m k v = m @ [(put_text k, v)]"

definition mb_insert_opt :: "mapb \<Rightarrow> string \<Rightarrow> byte list option \<Rightarrow> mapb" where
  "mb_insert_opt m k v = (case v of None \<Rightarrow> m | Some v \<Rightarrow> mb_insert m k v)"

definition mb_insert_int :: "mapb \<Rightarrow> int \<Rightarrow> byte list \<Rightarrow> mapb" where
  "mb_insert_int m k v = m @ [(put_i64 k, v)]"

definition mb_finish :: "mapb \<Rightarrow> byte list" where
  "mb_finish m = put_head MAJOR_MAP (word_of_nat (length m))
     @ concat (map (\<lambda>(k, v). k @ v) (sort_key fst m))"

section \<open>Reader\<close>

type_synonym frames = "(byte list option \<times> u64) list"

record reader =
  r_buf :: "byte list"
  r_pos :: nat
  r_maps :: frames

type_synonym ('e, 'a) parser = "reader \<Rightarrow> 'e + ('a \<times> reader)"

definition ret :: "'a \<Rightarrow> ('e, 'a) parser" where
  "ret x = (\<lambda>r. Inr (x, r))"

definition fail :: "'e \<Rightarrow> ('e, 'a) parser" where
  "fail e = (\<lambda>r. Inl e)"

definition andthen :: "('e, 'a) parser \<Rightarrow> ('a \<Rightarrow> ('e, 'b) parser) \<Rightarrow> ('e, 'b) parser" where
  "andthen p f = (\<lambda>r. case p r of Inl e \<Rightarrow> Inl e | Inr (x, r') \<Rightarrow> f x r')"

text \<open>\<open>?\<close> in a function whose error type wraps the codec's.\<close>

definition lift_err :: "('e \<Rightarrow> 'f) \<Rightarrow> ('e, 'a) parser \<Rightarrow> ('f, 'a) parser" where
  "lift_err g p = (\<lambda>r. map_err g (p r))"

text \<open>\<open>.ok_or(e)?\<close> and \<open>?\<close> on a plain result, inside a parser.\<close>

definition of_result :: "'e + 'a \<Rightarrow> ('e, 'a) parser" where
  "of_result x = (case x of Inl e \<Rightarrow> fail e | Inr a \<Rightarrow> ret a)"

text \<open>\<open>for _ in 0..n\<close> with the loop's variables as \<open>s\<close>.\<close>

primrec loop_n :: "nat \<Rightarrow> ('s \<Rightarrow> ('e, 's) parser) \<Rightarrow> 's \<Rightarrow> ('e, 's) parser" where
  "loop_n 0 f s = ret s"
| "loop_n (Suc n) f s = andthen (f s) (loop_n n f)"

definition reader_new :: "byte list \<Rightarrow> reader" where
  "reader_new buf = \<lparr>r_buf = buf, r_pos = 0, r_maps = []\<rparr>"

definition rd_finish :: "(cbor_error, unit) parser" where
  "rd_finish r = (if r_maps r \<noteq> [] then Inl Unbalanced
                  else if r_pos r \<noteq> length (r_buf r) then Inl Trailing
                  else Inr ((), r))"

text \<open>An overflowing \<open>checked_add\<close> and a failed \<open>get\<close> are the same error.\<close>

definition rd_take :: "nat \<Rightarrow> (cbor_error, byte list) parser" where
  "rd_take n r = (if r_pos r + n \<le> length (r_buf r)
     then Inr (take n (drop (r_pos r) (r_buf r)), r\<lparr>r_pos := r_pos r + n\<rparr>)
     else Inl Eof)"

definition rd_long :: "nat \<Rightarrow> u64 \<Rightarrow> byte \<Rightarrow> (cbor_error, byte \<times> u64) parser" where
  "rd_long k short major = andthen (rd_take k) (\<lambda>bs.
     let v = (word_of_nat (from_be bs) :: u64) in
     if v \<le> short then fail NotCanonical else ret (major, v))"

definition rd_arg :: "byte \<Rightarrow> byte \<Rightarrow> (cbor_error, byte \<times> u64) parser" where
  "rd_arg major low =
     (if major = MAJOR_SIMPLE \<and> 24 \<le> low then fail Unsupported
      else if low \<le> 23 then ret (major, ucast low)
      else if low = 24 then rd_long 1 23 major
      else if low = 25 then rd_long 2 0xFF major
      else if low = 26 then rd_long 4 0xFFFF major
      else if low = 27 then rd_long 8 0xFFFFFFFF major
      else fail NotCanonical)"

definition rd_head :: "(cbor_error, byte \<times> u64) parser" where
  "rd_head = andthen (rd_take 1) (\<lambda>s. case s of [] \<Rightarrow> fail Eof
     | b # _ \<Rightarrow> rd_arg (drop_bit 5 b) (b AND 0x1f))"

definition rd_expect :: "byte \<Rightarrow> (cbor_error, u64) parser" where
  "rd_expect major = andthen rd_head (\<lambda>(m, arg). if m \<noteq> major then fail Type else ret arg)"

definition rd_u64 :: "(cbor_error, u64) parser" where
  "rd_u64 = rd_expect MAJOR_UINT"

definition rd_i64 :: "(cbor_error, int) parser" where
  "rd_i64 = andthen rd_head (\<lambda>(m, arg).
     if m = MAJOR_UINT then (if uint arg < 2 ^ 63 then ret (uint arg) else fail Type)
     else if m = MAJOR_NEGINT then (if - (2 ^ 63) \<le> - uint arg - 1 then ret (- uint arg - 1) else fail Type)
     else fail Type)"

definition rd_bytes :: "(cbor_error, byte list) parser" where
  "rd_bytes = andthen (rd_expect MAJOR_BYTES) (\<lambda>n. rd_take (unat n))"

definition rd_byte_array :: "nat \<Rightarrow> (cbor_error, byte list) parser" where
  "rd_byte_array n = andthen rd_bytes (\<lambda>b. if length b = n then ret b else fail Type)"

definition rd_text :: "(cbor_error, string) parser" where
  "rd_text = andthen (rd_expect MAJOR_TEXT) (\<lambda>n. andthen (rd_take (unat n)) (\<lambda>s.
     if utf8_valid s then ret (bytes_str s) else fail Type))"

definition rd_bool :: "(cbor_error, bool) parser" where
  "rd_bool = andthen rd_head (\<lambda>(m, arg).
     if m = MAJOR_SIMPLE \<and> arg = 20 then ret False
     else if m = MAJOR_SIMPLE \<and> arg = 21 then ret True
     else fail Type)"

definition rd_array_len :: "(cbor_error, u64) parser" where
  "rd_array_len = rd_expect MAJOR_ARRAY"

definition push_frame :: "u64 \<Rightarrow> (cbor_error, unit) parser" where
  "push_frame n r = (if MAX_MAP_DEPTH \<le> length (r_maps r) then Inl TooDeep
     else Inr ((), r\<lparr>r_maps := (None, n) # r_maps r\<rparr>))"

definition rd_map_begin :: "(cbor_error, u64) parser" where
  "rd_map_begin = andthen (rd_expect MAJOR_MAP) (\<lambda>n. andthen (push_frame n) (\<lambda>_. ret n))"

text \<open>The order check both \<open>key\<close> and \<open>int_key\<close> make on the encoded bytes since \<open>start\<close>.\<close>

definition check_key :: "nat \<Rightarrow> (cbor_error, unit) parser" where
  "check_key start r =
     (let encoded = take (r_pos r - start) (drop start (r_buf r)) in
      case r_maps r of
        [] \<Rightarrow> Inl Unbalanced
      | (prev, left) # fs \<Rightarrow>
          if left = 0 then Inl Unbalanced
          else if (case prev of Some p \<Rightarrow> encoded \<le> p | None \<Rightarrow> False) then Inl NotCanonical
          else Inr ((), r\<lparr>r_maps := (Some encoded, left - 1) # fs\<rparr>))"

definition rd_key :: "(cbor_error, string) parser" where
  "rd_key r = andthen rd_text (\<lambda>s. andthen (check_key (r_pos r)) (\<lambda>_. ret s)) r"

definition rd_int_key :: "(cbor_error, int) parser" where
  "rd_int_key r = andthen rd_i64 (\<lambda>v. andthen (check_key (r_pos r)) (\<lambda>_. ret v)) r"

definition rd_map_end :: "(cbor_error, unit) parser" where
  "rd_map_end r = (case r_maps r of
     [] \<Rightarrow> Inl Unbalanced
   | (prev, left) # fs \<Rightarrow> if left \<noteq> 0 then Inl Unbalanced else Inr ((), r\<lparr>r_maps := fs\<rparr>))"

text \<open>
  \<open>Reader::skip\<close> recurses into arrays and maps. The fuel bounds the nesting; every level reads a
  head first, so one unit per byte left is enough (\<open>skip_enough\<close> below), and running out is
  \<open>None\<close>, never an error of the reader.
\<close>

type_synonym 'a fparser = "reader \<Rightarrow> (cbor_error + ('a \<times> reader)) option"

definition fthen :: "'a fparser \<Rightarrow> ('a \<Rightarrow> 'b fparser) \<Rightarrow> 'b fparser" where
  "fthen p f = (\<lambda>r. case p r of None \<Rightarrow> None | Some (Inl e) \<Rightarrow> Some (Inl e)
                   | Some (Inr (x, r')) \<Rightarrow> f x r')"

definition fret :: "(cbor_error, 'a) parser \<Rightarrow> 'a fparser" where
  "fret p = (\<lambda>r. Some (p r))"

primrec floop :: "nat \<Rightarrow> unit fparser \<Rightarrow> unit fparser" where
  "floop 0 p = fret (ret ())"
| "floop (Suc n) p = fthen p (\<lambda>_. floop n p)"

definition skip_body :: "unit fparser \<Rightarrow> byte \<times> u64 \<Rightarrow> unit fparser" where
  "skip_body skip = (\<lambda>(m, arg).
     if m = MAJOR_UINT \<or> m = MAJOR_NEGINT then fret (ret ())
     else if m = MAJOR_BYTES \<or> m = MAJOR_TEXT then fthen (fret (rd_take (unat arg))) (\<lambda>_. fret (ret ()))
     else if m = MAJOR_ARRAY then floop (unat arg) skip
     else if m = MAJOR_MAP then
       fthen (fret (push_frame arg)) (\<lambda>_.
         fthen (floop (unat arg) (fthen (fret rd_key) (\<lambda>_. skip))) (\<lambda>_. fret rd_map_end))
     else if m = MAJOR_SIMPLE \<and> 20 \<le> arg \<and> arg \<le> 22 then fret (ret ())
     else fret (fail Unsupported))"

primrec skip_fuel :: "nat \<Rightarrow> unit fparser" where
  "skip_fuel 0 = (\<lambda>r. None)"
| "skip_fuel (Suc fuel) = fthen (fret rd_head) (skip_body (skip_fuel fuel))"

definition rd_skip :: "(cbor_error, unit) parser" where
  "rd_skip r = (case skip_fuel (Suc (length (r_buf r) - r_pos r)) r of
     Some x \<Rightarrow> x | None \<Rightarrow> Inl Eof)"

text \<open>The shape every map decoder has: open, one step per key, close.\<close>

definition rd_map :: "(cbor_error \<Rightarrow> 'e) \<Rightarrow> (string \<Rightarrow> 's \<Rightarrow> ('e, 's) parser) \<Rightarrow> 's \<Rightarrow> ('e, 's) parser" where
  "rd_map g step s = andthen (lift_err g rd_map_begin) (\<lambda>n.
     andthen (loop_n (unat n) (\<lambda>s. andthen (lift_err g rd_key) (\<lambda>k. step k s)) s) (\<lambda>s'.
     andthen (lift_err g rd_map_end) (\<lambda>_. ret s')))"

text \<open>\<open>n\<close> items, collected into a vector.\<close>

definition rd_many :: "nat \<Rightarrow> ('e, 'a) parser \<Rightarrow> ('e, 'a list) parser" where
  "rd_many n p = loop_n n (\<lambda>acc. andthen p (\<lambda>x. ret (acc @ [x]))) []"

text \<open>A parser run over a whole buffer: \<open>Reader::new\<close>, the read, then \<open>finish\<close>.\<close>

definition run_whole :: "(cbor_error \<Rightarrow> 'e) \<Rightarrow> ('e, 'a) parser \<Rightarrow> byte list \<Rightarrow> 'e + 'a" where
  "run_whole g p buf = map_sum id fst (andthen p (\<lambda>x. andthen (lift_err g rd_finish) (\<lambda>_. ret x)) (reader_new buf))"

end
