(* ===== verification/Task_Obj.thy ===== *)
theory Task_Obj
  imports Cbor "HOL-Library.Product_Lexorder"
begin

text \<open>
  Task objects: \<open>ec-policy-eval/src/task.rs\<close>. Identity (ULIDs), the state machine of a task, the
  rate-windowed counters and their codec.
\<close>

section \<open>ULIDs\<close>

datatype ulid = Ulid (ulid_bytes: "byte list")

text \<open>A \<open>[u8; 16]\<close>.\<close>

definition ulid_ok :: "ulid \<Rightarrow> bool" where
  "ulid_ok u \<longleftrightarrow> length (ulid_bytes u) = 16"

definition CROCKFORD :: string where
  "CROCKFORD = ''0123456789ABCDEFGHJKMNPQRSTVWXYZ''"

definition ulid_from_parts :: "u64 \<Rightarrow> byte list \<Rightarrow> ulid" where
  "ulid_from_parts ms entropy = Ulid (drop 2 (be_bytes 8 (unat ms)) @ entropy)"

definition ulid_timestamp_ms :: "ulid \<Rightarrow> u64" where
  "ulid_timestamp_ms u = word_of_nat (from_be ([0, 0] @ take 6 (ulid_bytes u)))"

definition ulid_to_text :: "ulid \<Rightarrow> string" where
  "ulid_to_text u =
     (let n = (word_of_nat (from_be (ulid_bytes u)) :: u128) in
      map (\<lambda>i. let v = (if i = 0 then unat (drop_bit 125 n) else unat (drop_bit (125 - i * 5) n AND 0x1f))
               in CROCKFORD ! v) [0..<26])"

section \<open>The state machine\<close>

datatype close_reason = Completed | Cancelled | Expired | Failed

fun close_reason_as_str :: "close_reason \<Rightarrow> string" where
  "close_reason_as_str Completed = ''completed''"
| "close_reason_as_str Cancelled = ''cancelled''"
| "close_reason_as_str Expired = ''expired''"
| "close_reason_as_str Failed = ''failed''"

definition close_reason_parse :: "string \<Rightarrow> close_reason option" where
  "close_reason_parse s =
    (if s = ''completed'' then Some Completed
     else if s = ''cancelled'' then Some Cancelled
     else if s = ''expired'' then Some Expired
     else if s = ''failed'' then Some Failed
     else None)"

datatype task_state = Active | Paused | Draining | Closed close_reason

datatype task_event = Pause | Resume | Drain | Drained | Cancel | Deadline | Fault

datatype illegal_transition = IllegalTransition (it_from: task_state) (it_event: task_event)

fun is_live :: "task_state \<Rightarrow> bool" where
  "is_live (Closed r) = False"
| "is_live _ = True"

fun accepts_acting_requests :: "task_state \<Rightarrow> bool" where
  "accepts_acting_requests Active = True"
| "accepts_acting_requests _ = False"

fun transition :: "task_state \<Rightarrow> task_event \<Rightarrow> illegal_transition + task_state" where
  "transition Active Pause = Inr Paused"
| "transition Paused Resume = Inr Active"
| "transition Active Drain = Inr Draining"
| "transition Paused Drain = Inr Draining"
| "transition Draining Drained = Inr (Closed Completed)"
| "transition Active Cancel = Inr (Closed Cancelled)"
| "transition Paused Cancel = Inr (Closed Cancelled)"
| "transition Draining Cancel = Inr (Closed Cancelled)"
| "transition Active Deadline = Inr (Closed Expired)"
| "transition Paused Deadline = Inr (Closed Expired)"
| "transition Draining Deadline = Inr (Closed Expired)"
| "transition Active Fault = Inr (Closed Failed)"
| "transition Paused Fault = Inr (Closed Failed)"
| "transition Draining Fault = Inr (Closed Failed)"
| "transition s e = Inl (IllegalTransition s e)"

fun task_state_as_str :: "task_state \<Rightarrow> string" where
  "task_state_as_str Active = ''active''"
| "task_state_as_str Paused = ''paused''"
| "task_state_as_str Draining = ''draining''"
| "task_state_as_str (Closed _) = ''closed''"

datatype origin = OriginHuman | ParentTask

fun origin_as_str :: "origin \<Rightarrow> string" where
  "origin_as_str OriginHuman = ''human''"
| "origin_as_str ParentTask = ''parent_task''"

definition origin_parse :: "string \<Rightarrow> origin option" where
  "origin_parse s = (if s = ''human'' then Some OriginHuman
     else if s = ''parent_task'' then Some ParentTask else None)"

section \<open>Rate-windowed counters\<close>

definition RATE_RING :: nat where "RATE_RING = 32"

type_synonym rate_ring = "u64 list"

definition ring_prune :: "rate_ring \<Rightarrow> u64 \<Rightarrow> u64 \<Rightarrow> rate_ring" where
  "ring_prune stamps now window = filter (\<lambda>t. sat_sub now t < window) stamps"

definition ring_record :: "rate_ring \<Rightarrow> u64 \<Rightarrow> u64 \<Rightarrow> nat \<times> rate_ring" where
  "ring_record stamps now window =
     (let s = ring_prune stamps now window;
          s = (if length s = RATE_RING then tl s else s);
          s = s @ [now]
      in (length s, s))"

definition ring_count :: "rate_ring \<Rightarrow> u64 \<Rightarrow> u64 \<Rightarrow> nat" where
  "ring_count stamps now window = length (filter (\<lambda>t. sat_sub now t < window) stamps)"

definition HOUR_MS :: u64 where "HOUR_MS = 3600000"

record counters =
  prompts_shown :: u32
  prompts_allowed :: u32
  irreversible :: rate_ring
  irreversible_by_class :: "(string \<times> rate_ring) list"
  denied_irreversible_streak :: u32
  retries :: u32
  egress_bytes_up :: u64
  channel_messages :: u32

definition counters_default :: counters where
  "counters_default = \<lparr>prompts_shown = 0, prompts_allowed = 0, irreversible = [],
     irreversible_by_class = [], denied_irreversible_streak = 0, retries = 0,
     egress_bytes_up = 0, channel_messages = 0\<rparr>"

definition IRREVERSIBLE_PER_HOUR :: nat where "IRREVERSIBLE_PER_HOUR = 20"
definition DENIED_IRREVERSIBLE_STREAK_PAUSE :: u32 where "DENIED_IRREVERSIBLE_STREAK_PAUSE = 3"
definition PROMPT_BUDGET :: u32 where "PROMPT_BUDGET = 3"

text \<open>
  \<open>class_ring_mut\<close> hands out a mutable reference into the list: the model returns the index it
  points at, after inserting an empty ring and re-sorting (stably) when the class is new.
\<close>

definition position :: "('a \<Rightarrow> bool) \<Rightarrow> 'a list \<Rightarrow> nat option" where
  "position P xs = (let i = length (takeWhile (\<lambda>x. \<not> P x) xs) in if i < length xs then Some i else None)"

definition class_ring_mut :: "counters \<Rightarrow> string \<Rightarrow> nat option \<times> counters" where
  "class_ring_mut c cls =
     (case position (\<lambda>(k, _). k = cls) (irreversible_by_class c) of
        Some i \<Rightarrow> (Some i, c)
      | None \<Rightarrow>
          let l = sort_key (\<lambda>(k, _). (length k, str_bytes k)) (irreversible_by_class c @ [(cls, [])])
          in (position (\<lambda>(k, _). k = cls) l, c\<lparr>irreversible_by_class := l\<rparr>))"

section \<open>Codec\<close>

definition encode_ring :: "rate_ring \<Rightarrow> byte list" where
  "encode_ring ring = put_array (length ring) @ concat (map put_u64 ring)"

definition decode_ring :: "(cbor_error, rate_ring) parser" where
  "decode_ring = andthen rd_array_len (\<lambda>n.
     if RATE_RING < unat n then fail Type else rd_many (unat n) rd_u64)"

definition small :: "u64 \<Rightarrow> cbor_error + u32" where
  "small v = (if unat v < 2 ^ 32 then Inr (ucast v) else Inl Type)"

definition rd_small :: "(cbor_error, u32) parser" where
  "rd_small = andthen rd_u64 (\<lambda>v. of_result (small v))"

definition counters_encode :: "counters \<Rightarrow> byte list" where
  "counters_encode c =
    (let m = mb_insert [] ''prompts_shown'' (put_u64 (ucast (prompts_shown c)));
         m = mb_insert m ''prompts_allowed'' (put_u64 (ucast (prompts_allowed c)));
         m = mb_insert m ''irreversible'' (encode_ring (irreversible c));
         by_class = foldl (\<lambda>b (cls, ring). mb_insert b cls (encode_ring ring)) [] (irreversible_by_class c);
         m = mb_insert m ''irreversible_by_class'' (mb_finish by_class);
         m = mb_insert m ''denied_irreversible_streak'' (put_u64 (ucast (denied_irreversible_streak c)));
         m = mb_insert m ''retries'' (put_u64 (ucast (retries c)));
         m = mb_insert m ''egress_bytes_up'' (put_u64 (egress_bytes_up c));
         m = mb_insert m ''channel_messages'' (put_u64 (ucast (channel_messages c)))
     in mb_finish m)"

definition rd_by_class :: "(string \<times> rate_ring) list \<Rightarrow> (cbor_error, (string \<times> rate_ring) list) parser" where
  "rd_by_class = rd_map id (\<lambda>cls l. andthen decode_ring (\<lambda>ring. ret (l @ [(cls, ring)])))"

definition counters_step :: "string \<Rightarrow> counters \<Rightarrow> (cbor_error, counters) parser" where
  "counters_step k c =
    (if k = ''prompts_shown'' then andthen rd_small (\<lambda>v. ret (c\<lparr>prompts_shown := v\<rparr>))
     else if k = ''prompts_allowed'' then andthen rd_small (\<lambda>v. ret (c\<lparr>prompts_allowed := v\<rparr>))
     else if k = ''irreversible'' then andthen decode_ring (\<lambda>v. ret (c\<lparr>irreversible := v\<rparr>))
     else if k = ''irreversible_by_class'' then
       andthen (rd_by_class (irreversible_by_class c)) (\<lambda>v. ret (c\<lparr>irreversible_by_class := v\<rparr>))
     else if k = ''denied_irreversible_streak'' then
       andthen rd_small (\<lambda>v. ret (c\<lparr>denied_irreversible_streak := v\<rparr>))
     else if k = ''retries'' then andthen rd_small (\<lambda>v. ret (c\<lparr>retries := v\<rparr>))
     else if k = ''egress_bytes_up'' then andthen rd_u64 (\<lambda>v. ret (c\<lparr>egress_bytes_up := v\<rparr>))
     else if k = ''channel_messages'' then andthen rd_small (\<lambda>v. ret (c\<lparr>channel_messages := v\<rparr>))
     else andthen rd_skip (\<lambda>_. ret c))"

definition counters_decode :: "(cbor_error, counters) parser" where
  "counters_decode = rd_map id counters_step counters_default"

section \<open>Tasks\<close>

record task =
  t_id :: ulid
  t_principal :: string
  t_origin :: origin
  t_origin_ref :: string
  t_statement :: string
  t_agent_note :: "string option"
  t_parent_task_id :: "ulid option"
  t_depth :: u32
  t_state :: task_state
  t_opened_ms :: u64
  t_deadline_ms :: u64
  t_chain_root :: string
  t_counters :: counters

end
