(* ===== verification/Cbor_Laws.thy ===== *)
theory Cbor_Laws
  imports Cbor
begin
unbundle bit_operations_syntax

text \<open>
  The laws of the codec. \<open>reads d p bs v\<close>: on any reader whose remaining input starts with
  \<open>bs\<close> and whose open maps leave room for \<open>d\<close> more, \<open>p\<close> returns \<open>v\<close> and moves past \<open>bs\<close>.
  \<open>exact p Q\<close>: whatever \<open>p\<close> accepts, the value and the bytes it consumed satisfy \<open>Q\<close>. Both
  compose along \<open>andthen\<close>, so an encoder and a decoder are related field by field.
\<close>

definition rest :: "reader \<Rightarrow> byte list" where
  "rest r = drop (r_pos r) (r_buf r)"

definition inb :: "reader \<Rightarrow> bool" where
  "inb r \<longleftrightarrow> r_pos r \<le> length (r_buf r)"

definition adv :: "nat \<Rightarrow> reader \<Rightarrow> reader" where
  "adv n r = r\<lparr>r_pos := r_pos r + n\<rparr>"

lemma adv_simps [simp]:
  "adv 0 r = r" "adv m (adv n r) = adv (n + m) r" "r_maps (adv n r) = r_maps r"
  "r_buf (adv n r) = r_buf r" "r_pos (adv n r) = r_pos r + n"
  by (simp_all add: adv_def)

lemma rest_adv: "rest r = bs @ s \<Longrightarrow> rest (adv (length bs) r) = s"
  by (simp add: rest_def adv_def add.commute [of "r_pos r"] flip: drop_drop [of "length bs"])

lemma length_rest: "length (rest r) = length (r_buf r) - r_pos r"
  by (simp add: rest_def)

lemma inb_adv: "inb r \<Longrightarrow> rest r = bs @ s \<Longrightarrow> inb (adv (length bs) r)"
  using length_rest [of r] by (auto simp: inb_def)

section \<open>What a parser reads\<close>

definition reads :: "nat \<Rightarrow> ('e, 'a) parser \<Rightarrow> byte list \<Rightarrow> 'a \<Rightarrow> bool" where
  "reads d p bs v \<longleftrightarrow> (\<forall>r s. inb r \<and> rest r = bs @ s \<and> length (r_maps r) + d \<le> MAX_MAP_DEPTH
     \<longrightarrow> p r = Inr (v, adv (length bs) r))"

lemma readsD:
  "reads d p bs v \<Longrightarrow> inb r \<Longrightarrow> rest r = bs @ s \<Longrightarrow> length (r_maps r) + d \<le> MAX_MAP_DEPTH
   \<Longrightarrow> p r = Inr (v, adv (length bs) r)"
  by (auto simp: reads_def)

lemma readsI:
  "(\<And>r s. inb r \<Longrightarrow> rest r = bs @ s \<Longrightarrow> length (r_maps r) + d \<le> MAX_MAP_DEPTH
     \<Longrightarrow> p r = Inr (v, adv (length bs) r)) \<Longrightarrow> reads d p bs v"
  by (auto simp: reads_def)

lemma reads_ret [simp, intro]: "reads d (ret v) [] v"
  by (simp add: reads_def ret_def)

lemma reads_andthen:
  assumes "reads d p as x" "reads d (f x) bs y"
  shows "reads d (andthen p f) (as @ bs) y"
proof (rule readsI)
  fix r s assume r: "inb r" "rest r = (as @ bs) @ s" "length (r_maps r) + d \<le> MAX_MAP_DEPTH"
  then have "p r = Inr (x, adv (length as) r)"
    using readsD [OF assms(1), of r "bs @ s"] by simp
  moreover have "f x (adv (length as) r) = Inr (y, adv (length bs) (adv (length as) r))"
    using r rest_adv [of r as "bs @ s"] inb_adv [of r as "bs @ s"]
    by (intro readsD [OF assms(2), of _ s]) auto
  ultimately show "andthen p f r = Inr (y, adv (length (as @ bs)) r)"
    by (simp add: andthen_def)
qed

lemma reads_andthen1: "reads d p as x \<Longrightarrow> reads d (f x) [] y \<Longrightarrow> reads d (andthen p f) as y"
  using reads_andthen [of d p as x f "[]" y] by simp

lemma reads_andthen0: "reads d p [] x \<Longrightarrow> reads d (f x) bs y \<Longrightarrow> reads d (andthen p f) bs y"
  using reads_andthen [of d p "[]" x f bs y] by simp

lemma reads_mono: "reads d p bs v \<Longrightarrow> d \<le> d' \<Longrightarrow> reads d' p bs v"
  by (auto simp: reads_def)

lemma reads_lift [simp, intro]: "reads d p bs v \<Longrightarrow> reads d (lift_err g p) bs v"
  by (simp add: reads_def lift_err_def)

lemma reads_of_result [simp, intro]: "reads d (of_result (Inr v)) [] v"
  by (simp add: of_result_def)

lemma reads_take: "length bs = n \<Longrightarrow> reads d (rd_take n) bs bs"
proof (rule readsI)
  fix r s assume n: "length bs = n" and r: "inb r" "rest r = bs @ s"
  then have "r_pos r + n \<le> length (r_buf r)"
    using length_rest [of r] by (auto simp: inb_def)
  moreover have "take n (drop (r_pos r) (r_buf r)) = bs" using r(2) n by (simp add: rest_def)
  ultimately show "rd_take n r = Inr (bs, adv (length bs) r)"
    using n by (simp add: rd_take_def adv_def)
qed

section \<open>Heads\<close>

lemma small_bit:
  fixes w :: "'a :: len word"
  assumes "unat w < 2 ^ k" "k \<le> n"
  shows "\<not> bit w n"
proof
  assume b: "bit w n"
  then have "bit (unat w) n" using bit_imp_le_length [OF b] by (simp add: bit_unsigned_iff)
  moreover have "unat w < 2 ^ n"
    using assms by (meson less_le_trans one_le_numeral power_increasing)
  ultimately show False by (simp add: bit_iff_odd)
qed

lemma mask5: "(31 :: byte) = mask 5"
  by (simp add: mask_eq_exp_minus_1)

lemma head_byte_bits:
  fixes m l :: byte
  assumes "m < 8" "l < 32"
  shows "drop_bit 5 (push_bit 5 m OR l) = m" "(push_bit 5 m OR l) AND 31 = l"
proof -
  have l: "\<not> bit l n" if "5 \<le> n" for n
    by (rule small_bit [OF _ that]) (use assms(2) in \<open>simp add: word_less_nat_alt\<close>)
  have m: "\<not> bit m n" if "3 \<le> n" for n
    by (rule small_bit [OF _ that]) (use assms(1) in \<open>simp add: word_less_nat_alt\<close>)
  show "drop_bit 5 (push_bit 5 m OR l) = m"
  proof (rule bit_word_eqI)
    fix n assume "n < LENGTH(8)"
    moreover have "bit m n \<Longrightarrow> n < 3" using m [of n] by (meson not_less)
    ultimately show "bit (drop_bit 5 (push_bit 5 m OR l)) n = bit m n"
      using l [of "n + 5"] by (auto simp: bit_drop_bit_eq bit_or_iff bit_push_bit_iff add.commute)
  qed
  have "n < 5" if "bit l n" for n using l that by (meson not_less)
  then show "(push_bit 5 m OR l) AND 31 = l"
    unfolding mask5
    by (auto intro!: bit_word_eqI simp: bit_and_iff bit_or_iff bit_push_bit_iff bit_mask_iff)
qed

lemma head_byte_eq: "push_bit 5 (drop_bit 5 b) OR (b AND 31) = (b :: byte)"
  unfolding mask5
  by (auto intro!: bit_word_eqI simp: bit_and_iff bit_or_iff bit_push_bit_iff bit_mask_iff bit_drop_bit_eq not_less)

lemma drop5_less: "drop_bit 5 (b :: byte) < 8"
  by (simp add: word_less_nat_alt unat_drop_bit_eq drop_bit_nat_def less_mult_imp_div_less)

lemma and31_less: "(b :: byte) AND 31 < 32"
  using word_and_le1 [of b 31] by (simp add: word_le_nat_alt word_less_nat_alt)


lemma reads_long:
  assumes "short < arg" "unat arg < 256 ^ k"
  shows "reads d (rd_long k short m) (be_bytes k (unat arg)) (m, arg)"
  unfolding rd_long_def
proof (rule reads_andthen1)
  show "reads d (rd_take k) (be_bytes k (unat arg)) (be_bytes k (unat arg))"
    by (rule reads_take) simp
  have "(word_of_nat (from_be (be_bytes k (unat arg))) :: u64) = arg"
    using assms(2) by (simp add: from_be_be_bytes)
  then show "reads d (let v = word_of_nat (from_be (be_bytes k (unat arg))) in
      if v \<le> short then fail NotCanonical else ret (m, v)) [] (m, arg)"
    using assms(1) by (simp add: Let_def flip: not_less)
qed

lemma reads_head_byte:
  assumes "m < 8" "l < 32" "reads d (rd_arg m l) bs (m, arg)"
  shows "reads d rd_head ((push_bit 5 m OR l) # bs) (m, arg)"
proof -
  define b where "b = push_bit 5 m OR l"
  have b: "drop_bit 5 b = m" "b AND 31 = l"
    unfolding b_def by (rule head_byte_bits [OF assms(1,2)])+
  have "reads d rd_head ([b] @ bs) (m, arg)"
    unfolding rd_head_def
    by (rule reads_andthen [where x = "[b]"], rule reads_take) (simp_all add: b assms(3))
  then show ?thesis by (simp add: b_def)
qed

lemma unat_ucast_byte: "unat (ucast (arg :: u64) :: byte) = unat arg mod 256"
  by (simp only: unsigned_ucast_eq unsigned_take_bit_eq) (simp add: take_bit_eq_mod)

lemma unat_ucast_u64: "unat (ucast (b :: byte) :: u64) = unat b"
proof -
  have "unat b < 2 ^ 64" by (rule less_trans [OF byte_bound]) simp
  then show ?thesis by (simp add: unsigned_ucast_eq unsigned_take_bit_eq take_bit_nat_eq_self)
qed

lemma unat_ucast_small: "arg < 24 \<Longrightarrow> unat (ucast (arg :: u64) :: byte) = unat arg"
  by (simp add: unat_ucast_byte word_less_nat_alt)

lemma ucast_ucast_small: "arg < 24 \<Longrightarrow> ucast (ucast arg :: byte) = (arg :: u64)"
  by (simp only: word_unat_eq_iff unat_ucast_u64 unat_ucast_small)

lemma put_head_cases:
  "arg < 24 \<Longrightarrow> put_head m arg = [push_bit 5 m OR ucast arg]"
  "23 < arg \<Longrightarrow> unat arg < 256 ^ 1 \<Longrightarrow> put_head m arg = (push_bit 5 m OR 24) # be_bytes 1 (unat arg)"
  "0xFF < arg \<Longrightarrow> unat arg < 256 ^ 2 \<Longrightarrow> put_head m arg = (push_bit 5 m OR 25) # be_bytes 2 (unat arg)"
  "0xFFFF < arg \<Longrightarrow> unat arg < 256 ^ 4 \<Longrightarrow> put_head m arg = (push_bit 5 m OR 26) # be_bytes 4 (unat arg)"
  "0xFFFFFFFF < arg \<Longrightarrow> put_head m arg = (push_bit 5 m OR 27) # be_bytes 8 (unat arg)"
  by (simp_all add: put_head_def Let_def word_less_nat_alt word_le_nat_alt)

lemma reads_head:
  assumes m: "m < 8" and simple: "m = MAJOR_SIMPLE \<longrightarrow> arg < 24"
  shows "reads d rd_head (put_head m arg) (m, arg)"
proof -
  have "unat arg < 24 \<or> 23 < unat arg \<and> unat arg < 256 \<or> 255 < unat arg \<and> unat arg < 65536
    \<or> 65535 < unat arg \<and> unat arg < 4294967296 \<or> 4294967295 < unat arg" by linarith
  then consider "arg < 24" | "23 < arg" "unat arg < 256 ^ 1" | "0xFF < arg" "unat arg < 256 ^ 2"
    | "0xFFFF < arg" "unat arg < 256 ^ 4" | "0xFFFFFFFF < arg"
    by (elim disjE conjE) (simp_all add: word_less_nat_alt)
  then show ?thesis
  proof cases
    case 1
    then have "ucast arg \<le> (23 :: byte)" "ucast arg < (32 :: byte)" "\<not> 24 \<le> (ucast arg :: byte)"
      using unat_ucast_small [OF 1] by (simp_all add: word_less_nat_alt word_le_nat_alt)
    then show ?thesis
      using 1 m by (auto intro!: reads_head_byte simp: rd_arg_def put_head_cases(1) ucast_ucast_small)
  next
    case 2
    moreover have "\<not> arg < 24" using 2 by (simp add: word_less_nat_alt)
    moreover have "reads d (rd_long 1 23 m) (be_bytes 1 (unat arg)) (m, arg)"
      using 2 by (intro reads_long)
    ultimately show ?thesis
      using m simple unfolding put_head_cases(2) [OF 2] by (auto intro!: reads_head_byte simp: rd_arg_def)
  next
    case 3
    moreover have "\<not> arg < 24" using 3 by (simp add: word_less_nat_alt)
    moreover have "reads d (rd_long 2 0xFF m) (be_bytes 2 (unat arg)) (m, arg)"
      using 3 by (intro reads_long)
    ultimately show ?thesis
      using m simple unfolding put_head_cases(3) [OF 3] by (auto intro!: reads_head_byte simp: rd_arg_def)
  next
    case 4
    moreover have "\<not> arg < 24" using 4 by (simp add: word_less_nat_alt)
    moreover have "reads d (rd_long 4 0xFFFF m) (be_bytes 4 (unat arg)) (m, arg)"
      using 4 by (intro reads_long)
    ultimately show ?thesis
      using m simple unfolding put_head_cases(4) [OF 4] by (auto intro!: reads_head_byte simp: rd_arg_def)
  next
    case 5
    moreover have "\<not> arg < 24" using 5 by (simp add: word_less_nat_alt)
    moreover have "reads d (rd_long 8 0xFFFFFFFF m) (be_bytes 8 (unat arg)) (m, arg)"
      using 5 by (intro reads_long) simp_all
    ultimately show ?thesis
      using m simple unfolding put_head_cases(5) [OF 5] by (auto intro!: reads_head_byte simp: rd_arg_def)
  qed
qed

section \<open>What a parser accepts\<close>

definition exact :: "('e, 'a) parser \<Rightarrow> ('a \<Rightarrow> byte list \<Rightarrow> bool) \<Rightarrow> bool" where
  "exact p Q \<longleftrightarrow> (\<forall>r v r'. inb r \<and> p r = Inr (v, r') \<longrightarrow>
     (\<exists>bs s. rest r = bs @ s \<and> r' = adv (length bs) r \<and> Q v bs))"

lemma exactI:
  "(\<And>r v r'. inb r \<Longrightarrow> p r = Inr (v, r') \<Longrightarrow>
     \<exists>bs s. rest r = bs @ s \<and> r' = adv (length bs) r \<and> Q v bs) \<Longrightarrow> exact p Q"
  by (simp add: exact_def)

lemma exactE:
  assumes "exact p Q" "inb r" "p r = Inr (v, r')"
  obtains bs s where "rest r = bs @ s" "r' = adv (length bs) r" "inb r'" "rest r' = s" "Q v bs"
proof -
  from assms obtain bs s where *: "rest r = bs @ s" "r' = adv (length bs) r" "Q v bs"
    unfolding exact_def by blast
  show thesis
    by (rule that [OF *(1,2)]) (simp_all add: * rest_adv [OF *(1)] inb_adv [OF assms(2) *(1)])
qed

lemma exact_mono: "exact p Q \<Longrightarrow> (\<And>v bs. Q v bs \<Longrightarrow> R v bs) \<Longrightarrow> exact p R"
  unfolding exact_def by blast

lemma exact_ret [simp]: "exact (ret x) Q \<longleftrightarrow> Q x []"
proof
  assume "exact (ret x) Q"
  moreover have "inb (reader_new [])" "ret x (reader_new []) = Inr (x, reader_new [])"
    by (simp_all add: inb_def reader_new_def ret_def)
  ultimately obtain bs s where "rest (reader_new []) = bs @ s" "Q x bs"
    by (rule exactE)
  then show "Q x []" by (simp add: rest_def reader_new_def)
next
  assume Q: "Q x []"
  show "exact (ret x) Q"
  proof (rule exactI)
    fix r v r' assume "ret x r = Inr (v, r')"
    then have "rest r = [] @ rest r \<and> r' = adv (length []) r \<and> Q v []" using Q by (simp add: ret_def)
    then show "\<exists>bs s. rest r = bs @ s \<and> r' = adv (length bs) r \<and> Q v bs" by blast
  qed
qed

lemma exact_fail [simp]: "exact (fail e) Q"
  by (simp add: exact_def fail_def)

lemma exact_if: "(c \<Longrightarrow> exact p Q) \<Longrightarrow> (\<not> c \<Longrightarrow> exact q Q) \<Longrightarrow> exact (if c then p else q) Q"
  by simp

lemma exact_andthen:
  assumes "exact p Q" "\<And>x a. Q x a \<Longrightarrow> exact (f x) (\<lambda>y b. R y (a @ b))"
  shows "exact (andthen p f) R"
proof (rule exactI)
  fix r v r' assume r: "inb r" and "andthen p f r = Inr (v, r')"
  then obtain x r1 where x: "p r = Inr (x, r1)" and y: "f x r1 = Inr (v, r')"
    by (auto simp: andthen_def split: sum.splits)
  from exactE [OF assms(1) r x] obtain a s where
    a: "rest r = a @ s" "r1 = adv (length a) r" "inb r1" "rest r1 = s" "Q x a" .
  from exactE [OF assms(2) [OF a(5)] a(3) y] obtain b t where
    b: "rest r1 = b @ t" "r' = adv (length b) r1" "R v (a @ b)" .
  have "rest r = (a @ b) @ t" "r' = adv (length (a @ b)) r"
    using a b by simp_all
  then show "\<exists>bs s. rest r = bs @ s \<and> r' = adv (length bs) r \<and> R v bs"
    using b(3) by blast
qed

lemma exact_lift [simp, intro]: "exact p Q \<Longrightarrow> exact (lift_err g p) Q"
  unfolding exact_def lift_err_def map_err_Inr_iff by blast

lemma exact_of_result: "(\<And>a. x = Inr a \<Longrightarrow> Q a []) \<Longrightarrow> exact (of_result x) Q"
  by (cases x) (simp_all add: of_result_def)

lemma exact_take: "exact (rd_take n) (\<lambda>v bs. bs = v \<and> length v = n)"
proof (rule exactI)
  fix r v r' assume "inb r" and p: "rd_take n r = Inr (v, r')"
  then have v: "v = take n (rest r)" "r' = adv n r" and le: "r_pos r + n \<le> length (r_buf r)"
    by (auto simp: rd_take_def rest_def adv_def split: if_splits)
  have "length v = n" using v(1) le length_rest [of r] by simp
  moreover have "rest r = v @ drop n (rest r)" by (simp add: v(1))
  ultimately show "\<exists>bs s. rest r = bs @ s \<and> r' = adv (length bs) r \<and> bs = v \<and> length v = n"
    using v(2) by blast
qed

lemma exact_long:
  assumes "k \<le> 8"
  shows "exact (rd_long k short m)
    (\<lambda>h bs. fst h = m \<and> short < snd h \<and> unat (snd h) < 256 ^ k \<and> bs = be_bytes k (unat (snd h)))"
  unfolding rd_long_def
proof (rule exact_andthen [OF exact_take])
  fix v a :: "byte list" assume a: "a = v \<and> length v = k"
  have b: "from_be v < 256 ^ k" using from_be_bound [of v] a by simp
  moreover have "(256 :: nat) ^ k \<le> 256 ^ 8" using assms by (intro power_increasing) auto
  ultimately have "unat (word_of_nat (from_be v) :: u64) = from_be v"
    by (simp add: unat_of_nat)
  then show "exact (let v = word_of_nat (from_be v) in if v \<le> short then fail NotCanonical else ret (m, v))
     (\<lambda>y b. fst y = m \<and> short < snd y \<and> unat (snd y) < 256 ^ k \<and> a @ b = be_bytes k (unat (snd y)))"
    using a b be_bytes_from_be [of v] by (simp add: Let_def not_le)
qed

definition head_ok :: "byte \<times> u64 \<Rightarrow> bool" where
  "head_ok = (\<lambda>(m, arg). m < 8 \<and> (m = MAJOR_SIMPLE \<longrightarrow> arg < 24))"

lemma exact_arg_long:
  assumes "m < 8" "m \<noteq> MAJOR_SIMPLE" "k \<le> 8"
    and "\<And>arg. short < arg \<Longrightarrow> unat arg < 256 ^ k \<Longrightarrow>
      put_head m arg = (push_bit 5 m OR l) # be_bytes k (unat arg)"
  shows "exact (rd_long k short m)
    (\<lambda>h bs. head_ok h \<and> (push_bit 5 m OR l) # bs = put_head (fst h) (snd h))"
  by (rule exact_mono [OF exact_long]) (use assms in \<open>auto simp: head_ok_def\<close>)

lemma exact_arg:
  assumes m: "m < 8"
  shows "exact (rd_arg m l) (\<lambda>h bs. head_ok h \<and> (push_bit 5 m OR l) # bs = put_head (fst h) (snd h))"
proof -
  consider "m = MAJOR_SIMPLE \<and> 24 \<le> l" | "l \<le> 23" | "\<not> (m = MAJOR_SIMPLE \<and> 24 \<le> l)" "\<not> l \<le> 23"
    by blast
  then show ?thesis
  proof cases
    case 1
    then show ?thesis by (simp add: rd_arg_def)
  next
    case 2
    then have l: "unat l \<le> 23" by (simp add: word_le_nat_alt)
    then have "ucast l < (24 :: u64)" by (simp add: word_less_nat_alt unat_ucast_u64)
    moreover have "ucast (ucast l :: u64) = l"
      using l by (simp only: word_unat_eq_iff unat_ucast_byte unat_ucast_u64) simp
    moreover have "\<not> 24 \<le> l" using l by (simp add: word_le_nat_alt)
    ultimately show ?thesis
      using 2 m by (simp add: rd_arg_def put_head_cases(1) head_ok_def)
  next
    case 3
    then have "24 \<le> l" by (simp add: word_le_nat_alt)
    with 3 have ns: "m \<noteq> MAJOR_SIMPLE" by simp
    note long = exact_arg_long [OF m ns]
    show ?thesis
      unfolding rd_arg_def using 3 ns
      by (auto intro!: long put_head_cases(2-) [simplified])
  qed
qed

lemma exact_head: "exact rd_head (\<lambda>h bs. head_ok h \<and> bs = put_head (fst h) (snd h))"
  unfolding rd_head_def
proof (rule exact_andthen [OF exact_take])
  fix v a :: "byte list" assume "a = v \<and> length v = 1"
  then obtain b where "a = [b]" "v = [b]" by (auto simp: length_Suc_conv)
  moreover have "exact (rd_arg (drop_bit 5 b) (b AND 31))
    (\<lambda>h bs. head_ok h \<and> b # bs = put_head (fst h) (snd h))"
    using exact_arg [OF drop5_less, of b "b AND 31"] by (simp add: head_byte_eq)
  ultimately show "exact (case v of [] \<Rightarrow> fail Eof | b # _ \<Rightarrow> rd_arg (drop_bit 5 b) (b AND 31))
      (\<lambda>y c. head_ok y \<and> a @ c = put_head (fst y) (snd y))"
    by simp
qed

lemma put_head_inject:
  assumes "head_ok (m, arg)" "head_ok (m', arg')" "put_head m arg @ s = put_head m' arg' @ s'"
  shows "m = m' \<and> arg = arg' \<and> s = s'"
proof -
  let ?r = "reader_new (put_head m arg @ s)"
  have r: "inb ?r" "rest ?r = put_head m arg @ s" "rest ?r = put_head m' arg' @ s'" "length (r_maps ?r) + 0 \<le> MAX_MAP_DEPTH"
    using assms(3) by (auto simp: inb_def rest_def reader_new_def)
  have "reads 0 rd_head (put_head m arg) (m, arg)" "reads 0 rd_head (put_head m' arg') (m', arg')"
    using assms(1,2) by (auto intro!: reads_head simp: head_ok_def)
  from readsD [OF this(1) r(1,2,4)] readsD [OF this(2) r(1,3,4)] show ?thesis
    using assms(3) by simp
qed

section \<open>The codec interface\<close>

text \<open>
  What every reader of a single item promises about its writer: it reads back what was put. \<open>ok\<close> is the range of the Rust
  type (a \<open>String\<close> is UTF-8), \<open>depth\<close> the map nesting of an item.
\<close>

locale put_get =
  fixes put :: "'a \<Rightarrow> byte list"
    and get :: "('e, 'a) parser"
    and ok :: "'a \<Rightarrow> bool"
    and depth :: nat
  assumes reads_put: "ok v \<Longrightarrow> reads depth get (put v) v"
begin

lemma prefix_free:
  assumes "ok v" "ok w" "put v @ s = put w @ t" "depth \<le> MAX_MAP_DEPTH"
  shows "v = w \<and> s = t"
proof -
  let ?r = "reader_new (put v @ s)"
  have r: "inb ?r" "rest ?r = put v @ s" "rest ?r = put w @ t" "length (r_maps ?r) + depth \<le> MAX_MAP_DEPTH"
    using assms by (auto simp: inb_def rest_def reader_new_def)
  from readsD [OF reads_put [OF assms(1)] r(1,2,4)] readsD [OF reads_put [OF assms(2)] r(1,3,4)]
  show ?thesis using assms(3) by simp
qed

lemma reads_loop_acc:
  "\<forall>v \<in> set vs. ok v \<Longrightarrow> reads depth (loop_n (length vs) (\<lambda>acc. andthen get (\<lambda>x. ret (acc @ [x]))) acc)
     (concat (map put vs)) (acc @ vs)"
proof (induction vs arbitrary: acc)
  case Nil
  then show ?case by simp
next
  case (Cons v vs)
  have "reads depth (andthen get (\<lambda>x. ret (acc @ [x]))) (put v) (acc @ [v])"
    by (rule reads_andthen1 [OF reads_put]) (use Cons.prems in auto)
  moreover have "reads depth (loop_n (length vs) (\<lambda>acc. andthen get (\<lambda>x. ret (acc @ [x]))) (acc @ [v]))
     (concat (map put vs)) (acc @ v # vs)"
    using Cons.IH [of "acc @ [v]"] Cons.prems by simp
  ultimately show ?case by (simp add: reads_andthen)
qed

lemma reads_many:
  "\<forall>v \<in> set vs. ok v \<Longrightarrow> n = length vs \<Longrightarrow> reads depth (rd_many n get) (concat (map put vs)) vs"
  using reads_loop_acc [of vs "[]"] by (simp add: rd_many_def)

end

text \<open>A canonical codec also accepts nothing but what its writer emits.\<close>

locale codec = put_get put get ok depth
  for put :: "'a \<Rightarrow> byte list" and get :: "('e, 'a) parser" and ok depth +
  assumes exact_get: "exact get (\<lambda>v bs. ok v \<and> bs = put v)"
begin

lemma exact_loop_acc:
  "exact (loop_n n (\<lambda>acc. andthen get (\<lambda>x. ret (acc @ [x]))) acc)
     (\<lambda>vs bs. \<exists>ws. vs = acc @ ws \<and> length ws = n \<and> (\<forall>v \<in> set ws. ok v) \<and> bs = concat (map put ws))"
proof (induction n arbitrary: acc)
  case 0
  then show ?case by simp
next
  case (Suc n)
  have "exact (andthen get (\<lambda>x. ret (acc @ [x]))) (\<lambda>a bs. \<exists>x. a = acc @ [x] \<and> ok x \<and> bs = put x)"
    by (rule exact_andthen [OF exact_get]) simp
  then show ?case
    unfolding loop_n.simps
  proof (rule exact_andthen, elim exE conjE)
    fix a bs x assume a: "a = acc @ [x]" "ok x" "bs = put x"
    show "exact (loop_n n (\<lambda>acc. andthen get (\<lambda>x. ret (acc @ [x]))) a)
      (\<lambda>vs b. \<exists>ws. vs = acc @ ws \<and> length ws = Suc n \<and> (\<forall>v \<in> set ws. ok v) \<and> bs @ b = concat (map put ws))"
      by (rule exact_mono [OF Suc.IH]) (use a in \<open>force intro: exI [of _ "x # ws" for ws]\<close>)
  qed
qed

lemma exact_many:
  "exact (rd_many n get) (\<lambda>vs bs. length vs = n \<and> (\<forall>v \<in> set vs. ok v) \<and> bs = concat (map put vs))"
  unfolding rd_many_def by (rule exact_mono [OF exact_loop_acc]) auto

end

lemma major_less [simp]:
  "MAJOR_UINT < 8" "MAJOR_NEGINT < 8" "MAJOR_BYTES < 8" "MAJOR_TEXT < 8" "MAJOR_ARRAY < 8"
  "MAJOR_MAP < 8" "MAJOR_SIMPLE < 8"
  by (simp_all add: major_defs)

lemma major_not_simple [simp]:
  "MAJOR_UINT \<noteq> MAJOR_SIMPLE" "MAJOR_NEGINT \<noteq> MAJOR_SIMPLE" "MAJOR_BYTES \<noteq> MAJOR_SIMPLE"
  "MAJOR_TEXT \<noteq> MAJOR_SIMPLE" "MAJOR_ARRAY \<noteq> MAJOR_SIMPLE" "MAJOR_MAP \<noteq> MAJOR_SIMPLE"
  "MAJOR_UINT \<noteq> MAJOR_NEGINT" "MAJOR_NEGINT \<noteq> MAJOR_UINT"
  by (simp_all add: major_defs)

lemma reads_expect: "m < 8 \<Longrightarrow> m \<noteq> MAJOR_SIMPLE \<Longrightarrow> reads d (rd_expect m) (put_head m n) n"
  unfolding rd_expect_def by (rule reads_andthen1 [OF reads_head]) auto

lemma exact_expect: "exact (rd_expect m) (\<lambda>n bs. bs = put_head m n)"
  unfolding rd_expect_def
  by (rule exact_andthen [OF exact_head]) (auto intro!: exact_if split: prod.splits)

lemma word_of_nat_length: "length s = unat (n :: u64) \<Longrightarrow> word_of_nat (length s) = n"
  by simp

interpretation u64c: codec put_u64 rd_u64 "\<lambda>_. True" 0
  by unfold_locales (auto simp: put_u64_def rd_u64_def intro: reads_expect exact_mono [OF exact_expect])

lemma unat_word_of_nat64: "n < 2 ^ 64 \<Longrightarrow> unat (word_of_nat n :: u64) = n"
  by (simp add: unat_of_nat)

interpretation bytesc: codec put_bytes rd_bytes "\<lambda>b. length b < 2 ^ 64" 0
proof
  fix v :: "byte list" assume v: "length v < 2 ^ 64"
  show "reads 0 rd_bytes (put_bytes v) v"
    unfolding rd_bytes_def put_bytes_def
    by (rule reads_andthen [OF reads_expect reads_take]) (simp_all add: unat_word_of_nat64 [OF v])
next
  show "exact rd_bytes (\<lambda>v bs. length v < 2 ^ 64 \<and> bs = put_bytes v)"
    unfolding rd_bytes_def
    by (rule exact_andthen [OF exact_expect], rule exact_mono [OF exact_take]) (auto simp: put_bytes_def)
qed

interpretation textc: codec put_text rd_text rstr 0
proof
  fix v assume v: "rstr v"
  then have "length (str_bytes v) < 2 ^ 64" by (simp add: rstr_def)
  then show "reads 0 rd_text (put_text v) v"
    unfolding rd_text_def put_text_def
    by (intro reads_andthen [OF reads_expect] reads_andthen1 [OF reads_take])
      (use v in \<open>simp_all add: rstr_def utf8_def unat_word_of_nat64\<close>)
next
  show "exact rd_text (\<lambda>v bs. rstr v \<and> bs = put_text v)"
    unfolding rd_text_def
    by (rule exact_andthen [OF exact_expect], rule exact_andthen [OF exact_take])
      (auto intro!: exact_if simp: put_text_def rstr_def utf8_def)
qed

interpretation boolc: codec put_bool rd_bool "\<lambda>_. True" 0
proof
  have b: "put_bool b = put_head MAJOR_SIMPLE (if b then 21 else 20)" for b
    by (simp add: put_bool_def put_head_def Let_def)
  fix v
  have "reads 0 rd_head (put_bool v) (MAJOR_SIMPLE, if v then 21 else 20)"
    unfolding b by (rule reads_head) auto
  then show "reads 0 rd_bool (put_bool v) v"
    unfolding rd_bool_def by (rule reads_andthen1) (cases v, auto)
  show "exact rd_bool (\<lambda>v bs. True \<and> bs = put_bool v)"
    unfolding rd_bool_def
    by (rule exact_andthen [OF exact_head]) (auto intro!: exact_if simp: b split: prod.splits)
qed

lemma reads_byte_array:
  "length v = n \<Longrightarrow> n < 2 ^ 64 \<Longrightarrow> reads d (rd_byte_array n) (put_bytes v) v"
  unfolding rd_byte_array_def
  by (rule reads_andthen1 [OF reads_mono [OF bytesc.reads_put]]) auto

lemma exact_byte_array: "exact (rd_byte_array n) (\<lambda>v bs. length v = n \<and> bs = put_bytes v)"
  unfolding rd_byte_array_def
  by (rule exact_andthen [OF bytesc.exact_get]) (auto intro!: exact_if)

interpretation id16c: codec put_bytes "rd_byte_array 16" "\<lambda>v. length v = 16" 0
  by unfold_locales (auto intro: reads_byte_array exact_byte_array)

interpretation i64c: codec put_i64 rd_i64 "\<lambda>v. - (2 ^ 63) \<le> v \<and> v < 2 ^ 63" 0
proof
  have u: "uint (word_of_int w :: u64) = w" if "0 \<le> w" "w < 2 ^ 64" for w
    using that by (simp add: uint_word_of_int_eq take_bit_int_eq_self)
  fix v :: int assume v: "- (2 ^ 63) \<le> v \<and> v < 2 ^ 63"
  show "reads 0 rd_i64 (put_i64 v) v"
  proof (cases "0 \<le> v")
    case True
    then have "uint (word_of_int v :: u64) = v" using v by (intro u) auto
    then have "reads 0 rd_i64 (put_head MAJOR_UINT (word_of_int v)) v"
      unfolding rd_i64_def by (intro reads_andthen1 [OF reads_head]) (use v in auto)
    then show ?thesis using True by (simp add: put_i64_def)
  next
    case False
    then have "uint (word_of_int (- v - 1) :: u64) = - v - 1"
      using v by (intro u) auto
    then have "reads 0 rd_i64 (put_head MAJOR_NEGINT (word_of_int (- v - 1))) v"
      unfolding rd_i64_def by (intro reads_andthen1 [OF reads_head]) (use v in auto)
    then show ?thesis using False by (simp add: put_i64_def)
  qed
next
  show "exact rd_i64 (\<lambda>v bs. (- (2 ^ 63) \<le> v \<and> v < 2 ^ 63) \<and> bs = put_i64 v)"
    unfolding rd_i64_def
  proof (rule exact_andthen [OF exact_head], elim conjE)
    fix h :: "byte \<times> u64" and a assume a: "a = put_head (fst h) (snd h)"
    obtain m n where h: "h = (m, n)" by fastforce
    have u: "- 9223372036854775808 \<le> uint n" "- uint n < 9223372036854775809"
      using uint_ge_0 [of n] by linarith+
    show "exact (case h of (m, arg) \<Rightarrow>
        if m = MAJOR_UINT then if uint arg < 2 ^ 63 then ret (uint arg) else fail Type
        else if m = MAJOR_NEGINT then if - (2 ^ 63) \<le> - uint arg - 1 then ret (- uint arg - 1) else fail Type
        else fail Type) (\<lambda>y b. (- (2 ^ 63) \<le> y \<and> y < 2 ^ 63) \<and> a @ b = put_i64 y)"
      using a h u by (auto intro!: exact_if simp: put_i64_def)
  qed
qed


section \<open>Maps\<close>

type_synonym entries = "(string \<times> byte list) list"

definition put_pairs :: "entries \<Rightarrow> byte list" where
  "put_pairs es = concat (map (\<lambda>(k, v). put_text k @ v) es)"

definition put_entries :: "entries \<Rightarrow> byte list" where
  "put_entries es = put_map (length es) @ put_pairs es"

lemma put_pairs_simps [simp]:
  "put_pairs [] = []" "put_pairs ((k, v) # es) = put_text k @ v @ put_pairs es"
  "put_pairs (es @ fs) = put_pairs es @ put_pairs fs"
  by (simp_all add: put_pairs_def)

text \<open>Strictly increasing encoded keys: the canonical order.\<close>

definition canonical :: "entries \<Rightarrow> bool" where
  "canonical es \<longleftrightarrow> sorted_wrt (<) (map (\<lambda>(k, v). put_text k) es)
     \<and> (\<forall>(k, v) \<in> set es. rstr k) \<and> length es < 2 ^ 64"

definition mb_of :: "entries \<Rightarrow> mapb" where
  "mb_of es = map (\<lambda>(k, v). (put_text k, v)) es"

lemma mb_of_simps [simp]:
  "mb_insert (mb_of es) k v = mb_of (es @ [(k, v)])"
  "mb_insert_opt (mb_of es) k None = mb_of es"
  "mb_insert_opt (mb_of es) k (Some v) = mb_of (es @ [(k, v)])"
  by (simp_all add: mb_of_def mb_insert_def mb_insert_opt_def)

lemma mb_insert_Nil: "mb_insert [] k v = mb_of [(k, v)]" "mb_insert_opt [] k None = mb_of []"
  "mb_insert_opt [] k (Some v) = mb_of [(k, v)]"
  by (simp_all add: mb_of_def mb_insert_def mb_insert_opt_def)

lemma mb_finish_eq:
  assumes "mset es = mset fs" "sorted_wrt (<) (map (\<lambda>(k, v). put_text k) fs)"
  shows "mb_finish (mb_of es) = put_entries fs"
proof -
  have "map fst (mb_of fs) = map (\<lambda>(k, v). put_text k) fs"
    by (simp add: mb_of_def case_prod_unfold)
  moreover have "mset (mb_of es) = mset (mb_of fs)"
    using assms(1) by (simp add: mb_of_def)
  ultimately have "sort_key fst (mb_of es) = mb_of fs"
    using assms(2) by (intro sort_key_unique) auto
  moreover have "length es = length fs" using assms(1) by (rule mset_eq_length)
  ultimately show ?thesis
    by (simp add: mb_finish_def put_entries_def put_map_def put_pairs_def)
      (simp add: mb_of_def comp_def case_prod_unfold)
qed

fun steps :: "nat \<Rightarrow> (string \<Rightarrow> 's \<Rightarrow> ('e, 's) parser) \<Rightarrow> 's \<Rightarrow> entries \<Rightarrow> 's \<Rightarrow> bool" where
  "steps d step s [] s' \<longleftrightarrow> s' = s"
| "steps d step s ((k, v) # es) s' \<longleftrightarrow> (\<exists>s1. reads d (step k s) v s1 \<and> steps d step s1 es s')"

lemma steps_append:
  "steps d step s (es @ fs) s'' \<longleftrightarrow> (\<exists>s'. steps d step s es s' \<and> steps d step s' fs s'')"
  by (induction es arbitrary: s) (auto, blast+)

lemma stepsI:
  "s' = s \<Longrightarrow> steps d step s [] s'"
  "reads d (step k s) v s1 \<Longrightarrow> steps d step s1 es s' \<Longrightarrow> steps d step s ((k, v) # es) s'"
  by auto

lemma rd_key_reads:
  assumes "inb r" "rest r = put_text k @ s" "rstr k" "r_maps r = (prev, left) # fs" "left \<noteq> 0"
    "length (r_maps r) \<le> MAX_MAP_DEPTH"
    "\<forall>p. prev = Some p \<longrightarrow> p < put_text k"
  shows "rd_key r = Inr (k, (adv (length (put_text k)) r)\<lparr>r_maps := (Some (put_text k), left - 1) # fs\<rparr>)"
proof -
  have "rd_text r = Inr (k, adv (length (put_text k)) r)"
    by (rule readsD [OF textc.reads_put [OF assms(3)] assms(1,2)]) (use assms(6) in simp)
  moreover have "take (length (put_text k)) (drop (r_pos r) (r_buf r)) = put_text k"
    using assms(2) by (simp add: rest_def)
  ultimately show ?thesis
    using assms(4-7)
    by (auto simp: rd_key_def andthen_def check_key_def ret_def Let_def not_less [symmetric]
        split: option.splits)
qed

lemma reads_pairs:
  assumes "steps d step s es s'" "canonical es" "inb r" "rest r = put_pairs es @ t"
    "r_maps r = (prev, word_of_nat (length es)) # fs" "Suc (length fs) + d \<le> MAX_MAP_DEPTH"
    "\<forall>p. prev = Some p \<longrightarrow> (\<forall>(k, v) \<in> set es. p < put_text k)"
  shows "\<exists>prev'. loop_n (length es) (\<lambda>s. andthen (lift_err g rd_key) (\<lambda>k. step k s)) s r
     = Inr (s', (adv (length (put_pairs es)) r)\<lparr>r_maps := (prev', 0) # fs\<rparr>)"
  using assms
proof (induction es arbitrary: s r prev)
  case Nil
  then show ?case by (auto simp: ret_def intro!: exI [of _ prev])
next
  case (Cons e es)
  obtain k v where e: "e = (k, v)" by fastforce
  from Cons.prems(1) obtain s1 where v: "reads d (step k s) v s1" and rec: "steps d step s1 es s'"
    by (auto simp: e)
  have len: "length (e # es) < 2 ^ 64" using Cons.prems(2) by (simp add: canonical_def)
  have left: "(word_of_nat (length (e # es)) :: u64) \<noteq> 0"
    using unat_word_of_nat64 [OF len] by (metis length_Cons nat.distinct(1) unat_0)
  have left1: "(word_of_nat (length (e # es)) :: u64) - 1 = word_of_nat (length es)" by simp
  let ?r1 = "(adv (length (put_text k)) r)\<lparr>r_maps := (Some (put_text k), word_of_nat (length es)) # fs\<rparr>"
  have key: "rd_key r = Inr (k, ?r1)"
    using rd_key_reads [OF Cons.prems(3) _ _ Cons.prems(5) left, of k "v @ put_pairs es @ t"] Cons.prems left1
    by (auto simp: e canonical_def)
  have "rest ?r1 = v @ put_pairs es @ t"
    using rest_adv [of r "put_text k" "v @ put_pairs es @ t"] Cons.prems(4) by (simp add: e rest_def)
  moreover have "inb ?r1"
    using inb_adv [OF Cons.prems(3), of "put_text k"] Cons.prems(4) by (simp add: e inb_def)
  ultimately have val: "step k s ?r1 = Inr (s1, adv (length v) ?r1)"
    and r2: "rest (adv (length v) ?r1) = put_pairs es @ t" "inb (adv (length v) ?r1)"
    using readsD [OF v, of ?r1] rest_adv [of ?r1 v] inb_adv [of ?r1 v] Cons.prems(6) by auto
  have can: "canonical es" and ord: "\<forall>(k', v') \<in> set es. put_text k < put_text k'"
    using Cons.prems(2) by (auto simp: canonical_def e)
  from Cons.IH [OF rec can r2(2,1), of "Some (put_text k)"] Cons.prems(6) ord
  obtain prev' where "loop_n (length es) (\<lambda>s. andthen (lift_err g rd_key) (\<lambda>k. step k s)) s1 (adv (length v) ?r1)
     = Inr (s', (adv (length (put_pairs es)) (adv (length v) ?r1))\<lparr>r_maps := (prev', 0) # fs\<rparr>)"
    by auto
  then show ?case
    using key val by (auto simp: e andthen_def lift_err_def adv_def add.assoc add.commute add.left_commute)
qed

text \<open>A map decoder after its head: what \<open>rd_map\<close> and \<open>skip\<close> share.\<close>

definition map_body :: "(cbor_error \<Rightarrow> 'e) \<Rightarrow> (string \<Rightarrow> 's \<Rightarrow> ('e, 's) parser) \<Rightarrow> u64 \<Rightarrow> 's \<Rightarrow> ('e, 's) parser" where
  "map_body g step n s = andthen (lift_err g (push_frame n)) (\<lambda>_.
     andthen (loop_n (unat n) (\<lambda>s. andthen (lift_err g rd_key) (\<lambda>k. step k s)) s) (\<lambda>s'.
     andthen (lift_err g rd_map_end) (\<lambda>_. ret s')))"

lemma rd_map_eq: "rd_map g step s = andthen (lift_err g (rd_expect MAJOR_MAP)) (\<lambda>n. map_body g step n s)"
  by (auto simp: rd_map_def rd_map_begin_def map_body_def andthen_def lift_err_def map_err_def ret_def fun_eq_iff
      split: sum.splits)

lemma reads_map_body:
  assumes "steps d step s es s'" "canonical es"
  shows "reads (Suc d) (map_body g step (word_of_nat (length es)) s) (put_pairs es) s'"
proof (rule readsI)
  fix r t assume r: "inb r" "rest r = put_pairs es @ t" "length (r_maps r) + Suc d \<le> MAX_MAP_DEPTH"
  let ?n = "word_of_nat (length es) :: u64"
  have n: "unat ?n = length es" using assms(2) by (simp add: canonical_def unat_word_of_nat64)
  let ?r1 = "r\<lparr>r_maps := (None, ?n) # r_maps r\<rparr>"
  have r1: "inb ?r1" "rest ?r1 = put_pairs es @ t" using r by (simp_all add: rest_def inb_def)
  from reads_pairs [OF assms r1, of None "r_maps r" g] r(3)
  obtain prev' where
    "loop_n (length es) (\<lambda>s. andthen (lift_err g rd_key) (\<lambda>k. step k s)) s ?r1
     = Inr (s', (adv (length (put_pairs es)) ?r1)\<lparr>r_maps := (prev', 0) # r_maps r\<rparr>)"
    by auto
  moreover have "push_frame ?n r = Inr ((), ?r1)"
    using r(3) by (simp add: push_frame_def)
  ultimately show "map_body g step ?n s r = Inr (s', adv (length (put_pairs es)) r)"
    using n by (simp add: map_body_def andthen_def lift_err_def rd_map_end_def ret_def adv_def)
qed

lemma reads_map:
  assumes "steps d step s es s'" "canonical es"
  shows "reads (Suc d) (rd_map g step s) (put_entries es) s'"
  unfolding rd_map_eq put_entries_def put_map_def
  by (rule reads_andthen [where x = "word_of_nat (length es)"], rule reads_lift, rule reads_expect)
    (simp_all add: reads_map_body [OF assms])

lemma length_put_head: "length (put_head m a) \<le> 9"
  by (simp add: put_head_def Let_def)

end
