(* ===== verification/Cbor_Skip.thy ===== *)
theory Cbor_Skip
  imports Cbor_Laws
begin

text \<open>
  What a map decoder accepts, and \<open>Reader::skip\<close>: the fuel of \<open>skip_fuel\<close> always suffices, the
  result satisfies the recursion of the source, and the bytes skipped are exactly the encodings
  of canonical values (\<open>cval\<close>).
\<close>

section \<open>What a map decoder accepts\<close>

fun trace :: "(string \<Rightarrow> 's \<Rightarrow> byte list \<Rightarrow> 's \<Rightarrow> bool) \<Rightarrow> 's \<Rightarrow> entries \<Rightarrow> 's \<Rightarrow> bool" where
  "trace St s [] s' \<longleftrightarrow> s' = s"
| "trace St s ((k, v) # es) s' \<longleftrightarrow> (\<exists>s1. St k s v s1 \<and> trace St s1 es s')"

lemma rd_key_exact:
  assumes "inb r" "rd_key r = Inr (k, r')"
  shows "\<exists>prev left fs t. r_maps r = (prev, left) # fs \<and> left \<noteq> 0 \<and> rstr k \<and> rest r = put_text k @ t
    \<and> (\<forall>p. prev = Some p \<longrightarrow> p < put_text k)
    \<and> r' = (adv (length (put_text k)) r)\<lparr>r_maps := (Some (put_text k), left - 1) # fs\<rparr>"
proof -
  obtain r1 where t: "rd_text r = Inr (k, r1)" and c: "check_key (r_pos r) r1 = Inr ((), r')"
    using assms(2) by (auto simp: rd_key_def andthen_def ret_def split: sum.splits)
  from exactE [OF textc.exact_get assms(1) t] obtain bs s where
    *: "rest r = bs @ s" "r1 = adv (length bs) r" "rstr k \<and> bs = put_text k" .
  then have "take (length (put_text k)) (drop (r_pos r) (r_buf r)) = put_text k"
    by (simp add: rest_def)
  then show ?thesis
    using c * by (auto simp: check_key_def Let_def not_le split: list.splits if_splits option.splits)
qed

lemma exact_pairs:
  assumes St: "\<And>k s. exact (step k s) (\<lambda>s' v. St k s v s')"
  shows "inb r \<Longrightarrow> r_maps r = (prev, left) # fs \<Longrightarrow>
    loop_n n (\<lambda>s. andthen (lift_err g rd_key) (\<lambda>k. step k s)) s r = Inr (s', r') \<Longrightarrow>
    \<exists>es t prev'. length es = n \<and> rest r = put_pairs es @ t \<and> trace St s es s'
      \<and> sorted_wrt (<) (map (\<lambda>(k, v). put_text k) es) \<and> (\<forall>(k, v) \<in> set es. rstr k)
      \<and> (\<forall>p. prev = Some p \<longrightarrow> (\<forall>(k, v) \<in> set es. p < put_text k))
      \<and> r' = (adv (length (put_pairs es)) r)\<lparr>r_maps := (prev', left - word_of_nat n) # fs\<rparr>"
proof (induction n arbitrary: r prev left s)
  case 0
  then have "rest r = put_pairs [] @ rest r \<and> s' = s \<and> r' = (adv 0 r)\<lparr>r_maps := (prev, left - 0) # fs\<rparr>"
    by (auto simp: ret_def)
  then show ?case by (intro exI [of _ "[]"] exI [of _ "rest r"] exI [of _ prev]) simp
next
  case (Suc n)
  from Suc.prems(3) obtain k r1 s1 r2 where
    k: "rd_key r = Inr (k, r1)" and s1: "step k s r1 = Inr (s1, r2)"
    and rec: "loop_n n (\<lambda>s. andthen (lift_err g rd_key) (\<lambda>k. step k s)) s1 r2 = Inr (s', r')"
    by (auto simp: andthen_def lift_err_def map_err_def split: sum.splits)
  from rd_key_exact [OF Suc.prems(1) k] Suc.prems(2) obtain t where
    r: "rstr k" "rest r = put_text k @ t" "\<forall>p. prev = Some p \<longrightarrow> p < put_text k"
      "r1 = (adv (length (put_text k)) r)\<lparr>r_maps := (Some (put_text k), left - 1) # fs\<rparr>"
    by auto
  have r1: "inb r1" "rest r1 = t"
    using rest_adv [OF r(2)] inb_adv [OF Suc.prems(1) r(2)] by (simp_all add: r(4) inb_def rest_def)
  from exactE [OF St r1(1) s1] obtain v u where
    v: "rest r1 = v @ u" "r2 = adv (length v) r1" "inb r2" "rest r2 = u" "St k s v s1" .
  have "r_maps r2 = (Some (put_text k), left - 1) # fs" by (simp add: v(2) r(4))
  from Suc.IH [OF v(3) this rec] obtain es t' prev' where
    es: "length es = n" "rest r2 = put_pairs es @ t'" "trace St s1 es s'"
      "sorted_wrt (<) (map (\<lambda>(k, v). put_text k) es)" "\<forall>(k, v) \<in> set es. rstr k"
      "\<forall>(k', v') \<in> set es. put_text k < put_text k'"
      "r' = (adv (length (put_pairs es)) r2)\<lparr>r_maps := (prev', left - 1 - word_of_nat n) # fs\<rparr>"
    by auto
  show ?case
  proof (intro exI [of _ "(k, v) # es"] exI [of _ t'] exI [of _ prev'] conjI)
    show "rest r = put_pairs ((k, v) # es) @ t'"
      using r(2) r1(2) v(1,4) es(2) by simp
    show "r' = (adv (length (put_pairs ((k, v) # es))) r)\<lparr>r_maps := (prev', left - word_of_nat (Suc n)) # fs\<rparr>"
      by (simp add: es(7) v(2) r(4) adv_def add.assoc algebra_simps)
    show "\<forall>p. prev = Some p \<longrightarrow> (\<forall>(k', v') \<in> set ((k, v) # es). p < put_text k')"
      using r(3) es(6) by (auto dest!: bspec intro: less_trans)
  qed (use r es v in \<open>auto simp: case_prod_unfold\<close>)
qed

lemma exact_map_body:
  assumes St: "\<And>k s. exact (step k s) (\<lambda>s' v. St k s v s')"
  shows "exact (map_body g step n s)
    (\<lambda>s' bs. \<exists>es. length es = unat n \<and> canonical es \<and> bs = put_pairs es \<and> trace St s es s')"
proof (rule exactI)
  fix r s' r' assume r: "inb r" and p: "map_body g step n s r = Inr (s', r')"
  from p obtain r1 r2 where r1: "r1 = r\<lparr>r_maps := (None, n) # r_maps r\<rparr>"
    and l: "loop_n (unat n) (\<lambda>s. andthen (lift_err g rd_key) (\<lambda>k. step k s)) s r1 = Inr (s', r2)"
    and e: "rd_map_end r2 = Inr ((), r')"
    by (auto simp: map_body_def push_frame_def andthen_def lift_err_def map_err_def ret_def
        split: sum.splits if_splits)
  have i1: "inb r1" "r_maps r1 = (None, n) # r_maps r" using r by (simp_all add: r1 inb_def)
  from exact_pairs [OF St i1 l] obtain es t' prev' where
    es: "length es = unat n" "rest r1 = put_pairs es @ t'" "trace St s es s'"
      "sorted_wrt (<) (map (\<lambda>(k, v). put_text k) es)" "\<forall>(k, v) \<in> set es. rstr k"
      "r2 = (adv (length (put_pairs es)) r1)\<lparr>r_maps := (prev', 0) # r_maps r\<rparr>"
    by auto
  have "rest r = put_pairs es @ t'" using es(2) by (simp add: r1 rest_def)
  moreover have "r' = adv (length (put_pairs es)) r"
    using e by (simp add: es(6) rd_map_end_def r1 adv_def)
  moreover have "canonical es"
    using es(1,4,5) u64_bound [of n] by (simp add: canonical_def)
  ultimately show "\<exists>bs u. rest r = bs @ u \<and> r' = adv (length bs) r
      \<and> (\<exists>es. length es = unat n \<and> canonical es \<and> bs = put_pairs es \<and> trace St s es s')"
    using es(1,3) by blast
qed

lemma exact_map:
  assumes St: "\<And>k s. exact (step k s) (\<lambda>s' v. St k s v s')"
  shows "exact (rd_map g step s) (\<lambda>s' bs. \<exists>es. canonical es \<and> bs = put_entries es \<and> trace St s es s')"
  unfolding rd_map_eq
proof (rule exact_andthen [OF exact_lift [OF exact_expect]])
  fix n a assume a: "a = put_head MAJOR_MAP n"
  show "exact (map_body g step n s)
     (\<lambda>s' b. \<exists>es. canonical es \<and> a @ b = put_entries es \<and> trace St s es s')"
    by (rule exact_mono [OF exact_map_body [OF St]]) (auto simp: a put_entries_def put_map_def)
qed

section \<open>Skipping an item\<close>

definition rem :: "reader \<Rightarrow> nat" where
  "rem r = length (r_buf r) - r_pos r"

definition flt :: "'a fparser \<Rightarrow> 'a fparser \<Rightarrow> bool" where
  "flt p q \<longleftrightarrow> (\<forall>r x. p r = Some x \<longrightarrow> q r = Some x)"

lemma flt_refl [simp]: "flt p p"
  by (simp add: flt_def)

lemma flt_fthen: "flt p p' \<Longrightarrow> (\<And>x. flt (f x) (f' x)) \<Longrightarrow> flt (fthen p f) (fthen p' f')"
  by (fastforce simp: flt_def fthen_def split: option.splits sum.splits)

lemma flt_floop: "flt p p' \<Longrightarrow> flt (floop n p) (floop n p')"
  by (induction n) (auto intro: flt_fthen)

lemma flt_body: "flt p q \<Longrightarrow> flt (skip_body p h) (skip_body q h)"
  unfolding skip_body_def by (auto intro!: flt_fthen flt_floop split: prod.splits)

lemma skip_fuel_mono1: "flt (skip_fuel f) (skip_fuel (Suc f))"
proof (induction f)
  case 0
  then show ?case by (simp add: flt_def)
next
  case (Suc f)
  show ?case
    unfolding skip_fuel.simps(2) [of f] unfolding skip_fuel.simps(2) [of "Suc f"]
    by (intro flt_fthen flt_refl flt_body Suc)
qed

lemma skip_fuel_mono: "f \<le> f' \<Longrightarrow> skip_fuel f r = Some x \<Longrightarrow> skip_fuel f' r = Some x"
proof (induction f' rule: dec_induct)
  case (step n)
  then show ?case using skip_fuel_mono1 [of n] by (simp add: flt_def del: skip_fuel.simps)
qed simp

text \<open>Running out of fuel: never, with one unit more than the bytes left.\<close>

definition returns :: "nat \<Rightarrow> 'a fparser \<Rightarrow> bool" where
  "returns n p \<longleftrightarrow> (\<forall>r. rem r \<le> n \<longrightarrow> (\<exists>x. p r = Some x \<and> (\<forall>v r'. x = Inr (v, r') \<longrightarrow> rem r' \<le> rem r)))"

lemma returns_fthen: "returns n p \<Longrightarrow> (\<And>x. returns n (f x)) \<Longrightarrow> returns n (fthen p f)"
  unfolding returns_def fthen_def
proof (intro allI impI)
  fix r assume p: "\<forall>r. rem r \<le> n \<longrightarrow> (\<exists>x. p r = Some x \<and> (\<forall>v r'. x = Inr (v, r') \<longrightarrow> rem r' \<le> rem r))"
    and f: "\<And>x. \<forall>r. rem r \<le> n \<longrightarrow> (\<exists>y. f x r = Some y \<and> (\<forall>v r'. y = Inr (v, r') \<longrightarrow> rem r' \<le> rem r))"
    and r: "rem r \<le> n"
  from p r obtain y where y: "p r = Some y" "\<forall>v r'. y = Inr (v, r') \<longrightarrow> rem r' \<le> rem r" by blast
  show "\<exists>x. (case p r of None \<Rightarrow> None | Some (Inl e) \<Rightarrow> Some (Inl e) | Some (Inr (x, r')) \<Rightarrow> f x r') = Some x
     \<and> (\<forall>v r'. x = Inr (v, r') \<longrightarrow> rem r' \<le> rem r)"
  proof (cases y)
    case (Inl e)
    then show ?thesis using y by simp
  next
    case (Inr z)
    obtain v r1 where z: "z = (v, r1)" by fastforce
    then have "rem r1 \<le> rem r" using y Inr by simp
    with f [of v] r obtain w where "f v r1 = Some w" "\<forall>u r'. w = Inr (u, r') \<longrightarrow> rem r' \<le> rem r1"
      by (meson le_trans)
    then show ?thesis using y Inr z \<open>rem r1 \<le> rem r\<close> by fastforce
  qed
qed

definition shrinks :: "('e, 'a) parser \<Rightarrow> bool" where
  "shrinks p \<longleftrightarrow> (\<forall>r v r'. p r = Inr (v, r') \<longrightarrow> rem r' \<le> rem r)"

lemma returns_fret: "shrinks p \<Longrightarrow> returns n (fret p)"
  by (simp add: shrinks_def returns_def fret_def)

lemma shrinks_basic [simp]:
  "shrinks (ret x)" "shrinks (fail e)" "shrinks (rd_take n)" "shrinks (push_frame k)" "shrinks rd_map_end"
  "shrinks (check_key i)"
  by (auto simp: shrinks_def ret_def fail_def rd_take_def push_frame_def rd_map_end_def check_key_def rem_def Let_def
      split: if_splits list.splits)

lemma shrinks_andthen: "shrinks p \<Longrightarrow> (\<And>x. shrinks (f x)) \<Longrightarrow> shrinks (andthen p f)"
  unfolding shrinks_def andthen_def by (auto split: sum.splits) (meson le_trans)

lemma rem_rd_head: 
  assumes "rd_head r = Inr (h, r')"
  shows "rem r' < rem r"
proof -
  have "r_pos r + 1 \<le> length (r_buf r)"
    using assms by (auto simp: rd_head_def andthen_def rd_take_def split: if_splits)
  then have "inb r" by (simp add: inb_def)
  from exactE [OF exact_head this assms] obtain bs s where
    *: "rest r = bs @ s" "r' = adv (length bs) r" "bs = put_head (fst h) (snd h)" by blast
  have "bs \<noteq> []" by (simp add: *(3) put_head_def Let_def)
  then have "0 < length bs" by simp
  moreover have "length bs \<le> rem r" using *(1) length_rest [of r] by (simp add: rem_def)
  moreover have "rem r' = rem r - length bs" by (simp add: *(2) rem_def)
  ultimately show ?thesis by linarith
qed

lemma shrinks_head [simp]: "shrinks rd_head"
  using rem_rd_head by (force simp: shrinks_def)

lemma shrinks_key [simp]: "shrinks rd_key"
proof -
  have "shrinks (andthen rd_text (\<lambda>s. andthen (check_key i) (\<lambda>_. ret s)))" for i
    unfolding rd_text_def rd_expect_def
    by (intro shrinks_andthen) (auto split: prod.splits)
  then show ?thesis unfolding shrinks_def rd_key_def by blast
qed

lemma returns_floop: "returns n p \<Longrightarrow> returns n (floop k p)"
proof (induction k)
  case 0
  then show ?case by (simp add: returns_fret)
next
  case (Suc k)
  then show ?case unfolding floop.simps by (intro returns_fthen) auto
qed

lemma returns_body: "returns n p \<Longrightarrow> returns n (skip_body p h)"
  unfolding skip_body_def
  by (cases h) (auto intro!: returns_fthen returns_floop returns_fret)

lemma returns_skip_fuel: "n < f \<Longrightarrow> returns n (skip_fuel f)"
proof (induction f arbitrary: n)
  case 0
  then show ?case by simp
next
  case (Suc f)
  show ?case
    unfolding returns_def
  proof (intro allI impI)
    fix r assume r: "rem r \<le> n"
    show "\<exists>x. skip_fuel (Suc f) r = Some x \<and> (\<forall>v r'. x = Inr (v, r') \<longrightarrow> rem r' \<le> rem r)"
    proof (cases "rd_head r")
      case (Inl e)
      then show ?thesis by (simp add: fthen_def fret_def)
    next
      case (Inr hr)
      obtain h r1 where hr: "hr = (h, r1)" by fastforce
      then have lt: "rem r1 < rem r" using Inr rem_rd_head by simp
      then have "returns (rem r1) (skip_fuel f)" using Suc r by simp
      then have "returns (rem r1) (skip_body (skip_fuel f) h)" by (rule returns_body)
      then obtain x where "skip_body (skip_fuel f) h r1 = Some x"
        "\<forall>v r'. x = Inr (v, r') \<longrightarrow> rem r' \<le> rem r1"
        unfolding returns_def by blast
      then show ?thesis using Inr hr lt by (fastforce simp: fthen_def fret_def)
    qed
  qed
qed

lemma skip_enough: "rem r < f \<Longrightarrow> skip_fuel f r = Some (rd_skip r)"
proof -
  assume f: "rem r < f"
  obtain x where x: "skip_fuel (Suc (rem r)) r = Some x"
    using returns_skip_fuel [of "rem r" "Suc (rem r)"] by (auto simp: returns_def)
  then have "rd_skip r = x" by (simp add: rd_skip_def rem_def del: skip_fuel.simps)
  then show ?thesis using skip_fuel_mono [OF _ x, of f] f by simp
qed

text \<open>The recursion of the source, with its loops: no fuel left in sight.\<close>

lemma floop_loop_n:
  assumes "\<And>r. rem r \<le> n \<Longrightarrow> p r = Some (q r)" "shrinks q" "rem r \<le> n"
  shows "floop k p r = Some (loop_n k (\<lambda>_. q) () r)"
  using assms(3)
proof (induction k arbitrary: r)
  case 0
  then show ?case by (simp add: fret_def)
next
  case (Suc k)
  then show ?case
    using assms(1) [of r] assms(2)
    by (auto simp: fthen_def andthen_def shrinks_def split: sum.splits) (metis le_trans old.unit.exhaust)
qed

lemma shrinks_skip [simp]: "shrinks rd_skip"
  unfolding shrinks_def
proof (intro allI impI)
  fix r v r' assume "rd_skip r = Inr (v, r')"
  then show "rem r' \<le> rem r"
    using returns_skip_fuel [of "rem r" "Suc (rem r)"] skip_enough [of r "Suc (rem r)"]
    by (auto simp: returns_def)
qed

definition skip_step :: "(cbor_error, unit) parser \<Rightarrow> byte \<times> u64 \<Rightarrow> (cbor_error, unit) parser" where
  "skip_step sk = (\<lambda>(m, arg).
     if m = MAJOR_UINT \<or> m = MAJOR_NEGINT then ret ()
     else if m = MAJOR_BYTES \<or> m = MAJOR_TEXT then andthen (rd_take (unat arg)) (\<lambda>_. ret ())
     else if m = MAJOR_ARRAY then loop_n (unat arg) (\<lambda>_. sk) ()
     else if m = MAJOR_MAP then map_body id (\<lambda>_ _. sk) arg ()
     else if m = MAJOR_SIMPLE \<and> 20 \<le> arg \<and> arg \<le> 22 then ret ()
     else fail Unsupported)"

lemma lift_err_id [simp]: "lift_err id p = p"
  by (auto simp: lift_err_def map_err_def fun_eq_iff split: sum.splits)

lemma map_body_unit:
  "map_body id (\<lambda>_ _. sk) arg () = andthen (push_frame arg) (\<lambda>_.
     andthen (loop_n (unat arg) (\<lambda>_. andthen rd_key (\<lambda>_. sk)) ()) (\<lambda>_. rd_map_end))"
  by (auto simp: map_body_def andthen_def ret_def fun_eq_iff split: sum.splits)

lemma fthen_some:
  assumes "p r = Some (q r)" "\<And>x r'. q r = Inr (x, r') \<Longrightarrow> f x r' = Some (h x r')"
  shows "fthen p f r = Some (andthen q h r)"
  using assms by (auto simp: fthen_def andthen_def split: sum.splits)

lemma shrinksD: "shrinks p \<Longrightarrow> p r = Inr (x, r') \<Longrightarrow> rem r \<le> n \<Longrightarrow> rem r' \<le> n"
  unfolding shrinks_def using le_trans by blast

lemma skip_body_step:
  assumes p: "\<And>r. rem r \<le> n \<Longrightarrow> p r = Some (rd_skip r)" and r: "rem r \<le> n"
  shows "skip_body p h r = Some (skip_step rd_skip h r)"
proof -
  obtain m arg where h: "h = (m, arg)" by fastforce
  have loop: "floop k p r = Some (loop_n k (\<lambda>_. rd_skip) () r)" for k
    by (rule floop_loop_n [OF p _ r]) auto
  have kv: "fthen (fret rd_key) (\<lambda>_. p) r = Some (andthen rd_key (\<lambda>_. rd_skip) r)" if "rem r \<le> n" for r
    by (rule fthen_some) (auto simp: fret_def intro: p shrinksD [OF shrinks_key _ that])
  have kloop: "floop k (fthen (fret rd_key) (\<lambda>_. p)) r = Some (loop_n k (\<lambda>_. andthen rd_key (\<lambda>_. rd_skip)) () r)"
    if "rem r \<le> n" for k r
    by (rule floop_loop_n [OF kv _ that]) (auto intro: shrinks_andthen)
  have "fthen (fret (push_frame arg)) (\<lambda>_.
         fthen (floop (unat arg) (fthen (fret rd_key) (\<lambda>_. p))) (\<lambda>_. fret rd_map_end)) r
      = Some (map_body id (\<lambda>_ _. rd_skip) arg () r)"
    unfolding map_body_unit
    by (intro fthen_some kloop) (auto simp: fret_def intro: shrinksD [OF shrinks_basic(4) _ r])
  moreover have "fthen (fret (rd_take (unat arg))) (\<lambda>_. fret (ret ())) r = Some (andthen (rd_take (unat arg)) (\<lambda>_. ret ()) r)"
    by (rule fthen_some) (auto simp: fret_def)
  ultimately show ?thesis
    using loop by (simp add: h skip_body_def skip_step_def fret_def)
qed

lemma skip_unfold: "rd_skip = andthen rd_head (skip_step rd_skip)"
proof
  fix r
  have "skip_fuel (Suc (rem r)) r = Some (andthen rd_head (skip_step rd_skip) r)"
    unfolding skip_fuel.simps
  proof (rule fthen_some)
    fix h r' assume "rd_head r = Inr (h, r')"
    then have "rem r' < rem r" by (rule rem_rd_head)
    then show "skip_body (skip_fuel (rem r)) h r' = Some (skip_step rd_skip h r')"
      by (intro skip_body_step [where n = "rem r - 1"] skip_enough) auto
  qed (simp add: fret_def)
  then show "rd_skip r = andthen rd_head (skip_step rd_skip) r"
    using skip_enough [of r "Suc (rem r)"] by simp
qed

section \<open>Canonical values\<close>

text \<open>The values of the profile; a text is kept as its bytes, because \<open>skip\<close> does not decode it.\<close>

datatype cval = CUInt u64 | CNeg u64 | CBytes "byte list" | CText "byte list"
  | CArr "cval list" | CMap "(string \<times> cval) list" | CFalse | CTrue | CNull

fun put_val :: "cval \<Rightarrow> byte list" where
  "put_val (CUInt n) = put_head MAJOR_UINT n"
| "put_val (CNeg n) = put_head MAJOR_NEGINT n"
| "put_val (CBytes b) = put_bytes b"
| "put_val (CText b) = put_head MAJOR_TEXT (word_of_nat (length b)) @ b"
| "put_val (CArr vs) = put_array (length vs) @ concat (map put_val vs)"
| "put_val (CMap es) = put_entries (map (\<lambda>(k, v). (k, put_val v)) es)"
| "put_val CFalse = put_bool False"
| "put_val CTrue = put_bool True"
| "put_val CNull = put_null"

fun cdepth :: "cval \<Rightarrow> nat" where
  "cdepth (CArr vs) = foldr max (map cdepth vs) 0"
| "cdepth (CMap es) = Suc (foldr max (map (\<lambda>(k, v). cdepth v) es) 0)"
| "cdepth _ = 0"

fun cval_ok :: "cval \<Rightarrow> bool" where
  "cval_ok (CBytes b) \<longleftrightarrow> length b < 2 ^ 64"
| "cval_ok (CText b) \<longleftrightarrow> length b < 2 ^ 64"
| "cval_ok (CArr vs) \<longleftrightarrow> length vs < 2 ^ 64 \<and> (\<forall>v \<in> set vs. cval_ok v)"
| "cval_ok (CMap es) \<longleftrightarrow> canonical (map (\<lambda>(k, v). (k, put_val v)) es) \<and> (\<forall>(k, v) \<in> set es. cval_ok v)"
| "cval_ok _ \<longleftrightarrow> True"

lemma foldr_max_ge: "x \<in> set xs \<Longrightarrow> (x :: nat) \<le> foldr max xs 0"
  by (induction xs) auto

lemma reads_skipI:
  "m < 8 \<Longrightarrow> (m = MAJOR_SIMPLE \<longrightarrow> n < 24) \<Longrightarrow> reads d (skip_step rd_skip (m, n)) bs () \<Longrightarrow>
   reads d rd_skip (put_head m n @ bs) ()"
  by (subst skip_unfold) (rule reads_andthen [OF reads_head])

lemma reads_skip_loop:
  "(\<forall>b \<in> set bs. reads d sk b ()) \<Longrightarrow> reads d (loop_n (length bs) (\<lambda>_. sk) ()) (concat bs) ()"
  by (induction bs) (auto intro: reads_andthen)

lemma reads_take_unit: "n = length b \<Longrightarrow> reads d (andthen (rd_take n) (\<lambda>_. ret ())) b ()"
  by (rule reads_andthen1 [OF reads_take]) auto

lemma steps_skip: "(\<forall>(k, v) \<in> set es. reads d sk v ()) \<Longrightarrow> steps d (\<lambda>_ _. sk) () es ()"
  by (induction es) auto

lemma reads_skip: "cval_ok v \<Longrightarrow> cdepth v \<le> d \<Longrightarrow> reads d rd_skip (put_val v) ()"
proof (induction v arbitrary: d)
  case (CUInt n)
  show ?case using reads_skipI [of MAJOR_UINT n d "[]"] by (simp add: skip_step_def)
next
  case (CNeg n)
  show ?case using reads_skipI [of MAJOR_NEGINT n d "[]"] by (simp add: skip_step_def)
next
  case (CBytes b)
  then have "reads d (skip_step rd_skip (MAJOR_BYTES, word_of_nat (length b))) b ()"
    by (simp add: skip_step_def major_defs reads_take_unit unat_word_of_nat64)
  then show ?case by (simp add: put_bytes_def reads_skipI)
next
  case (CText b)
  then have "reads d (skip_step rd_skip (MAJOR_TEXT, word_of_nat (length b))) b ()"
    by (simp add: skip_step_def major_defs reads_take_unit unat_word_of_nat64)
  then show ?case by (simp add: reads_skipI)
next
  case (CArr vs)
  have "reads d rd_skip (put_val v) ()" if "v \<in> set vs" for v
  proof (rule CArr.IH [OF that])
    show "cval_ok v" using CArr.prems(1) that by simp
    have "cdepth v \<le> foldr max (map cdepth vs) 0" using that by (intro foldr_max_ge) simp
    then show "cdepth v \<le> d" using CArr.prems(2) by simp
  qed
  then have "reads d (loop_n (length (map put_val vs)) (\<lambda>_. rd_skip) ()) (concat (map put_val vs)) ()"
    by (intro reads_skip_loop) simp
  then have "reads d (skip_step rd_skip (MAJOR_ARRAY, word_of_nat (length vs))) (concat (map put_val vs)) ()"
    using CArr.prems by (simp add: skip_step_def major_defs unat_word_of_nat64)
  then show ?case by (simp add: put_array_def reads_skipI)
next
  case (CMap es)
  then obtain d' where d': "d = Suc d'" by (cases d) auto
  let ?es = "map (\<lambda>(k, v). (k, put_val v)) es"
  have "reads d' rd_skip (put_val v) ()" if "(k, v) \<in> set es" for k v
  proof (rule CMap.IH [OF that])
    show "v \<in> Basic_BNFs.snds (k, v)" by simp
    show "cval_ok v" using CMap.prems(1) that by auto
    have "cdepth v \<le> foldr max (map (\<lambda>(k, v). cdepth v) es) 0" using that by (intro foldr_max_ge) force
    then show "cdepth v \<le> d'" using CMap.prems(2) d' by simp
  qed
  then have "steps d' (\<lambda>_ _. rd_skip) () ?es ()" by (intro steps_skip) auto
  then have "reads d (map_body id (\<lambda>_ _. rd_skip) (word_of_nat (length ?es)) ()) (put_pairs ?es) ()"
    unfolding d' using CMap.prems(1) by (intro reads_map_body) simp_all
  then have "reads d (skip_step rd_skip (MAJOR_MAP, word_of_nat (length ?es))) (put_pairs ?es) ()"
    by (simp add: skip_step_def major_defs)
  then show ?case unfolding put_val.simps put_entries_def put_map_def by (intro reads_skipI) simp_all
next
  case CFalse
  have "reads d rd_skip (put_head MAJOR_SIMPLE 20 @ []) ()"
    by (rule reads_skipI) (simp_all add: skip_step_def major_defs)
  then show ?case by (simp add: put_bool_def put_head_def Let_def)
next
  case CTrue
  have "reads d rd_skip (put_head MAJOR_SIMPLE 21 @ []) ()"
    by (rule reads_skipI) (simp_all add: skip_step_def major_defs)
  then show ?case by (simp add: put_bool_def put_head_def Let_def)
next
  case CNull
  have "reads d rd_skip (put_head MAJOR_SIMPLE 22 @ []) ()"
    by (rule reads_skipI) (simp_all add: skip_step_def major_defs)
  then show ?case by (simp add: put_null_def put_head_def Let_def)
qed

subsection \<open>Nothing else is skipped\<close>

definition un :: "'a fparser \<Rightarrow> (cbor_error, 'a) parser" where
  "un p r = (case p r of Some x \<Rightarrow> x | None \<Rightarrow> Inl Eof)"

lemma un_fret [simp]: "un (fret p) = p"
  by (simp add: un_def fret_def fun_eq_iff)

lemma un_fthen [simp]: "un (fthen p f) = andthen (un p) (\<lambda>x. un (f x))"
  by (auto simp: un_def fthen_def andthen_def fun_eq_iff split: option.splits sum.splits)

lemma un_floop [simp]: "un (floop k p) = loop_n k (\<lambda>_. un p) ()"
  by (induction k) (simp_all add: andthen_def fun_eq_iff split: sum.splits)

lemma un_body: "un (skip_body p h) = skip_step (un p) h"
  by (cases h) (simp add: skip_body_def skip_step_def map_body_unit)

definition is_item :: "byte list \<Rightarrow> bool" where
  "is_item bs \<longleftrightarrow> (\<exists>v. cval_ok v \<and> bs = put_val v)"

lemma is_itemI: "cval_ok v \<Longrightarrow> bs = put_val v \<Longrightarrow> is_item bs"
  by (auto simp: is_item_def)

lemma exact_skip_loop:
  assumes "exact sk (\<lambda>_. is_item)"
  shows "exact (loop_n n (\<lambda>_. sk) ()) (\<lambda>_ b. \<exists>vs. length vs = n \<and> (\<forall>v \<in> set vs. cval_ok v) \<and> b = concat (map put_val vs))"
proof (induction n)
  case 0
  then show ?case by simp
next
  case (Suc n)
  show ?case
    unfolding loop_n.simps
  proof (rule exact_andthen [OF assms])
    fix x :: unit and a assume "is_item a"
    then obtain v where v: "cval_ok v" "a = put_val v" by (auto simp: is_item_def)
    show "exact (loop_n n (\<lambda>_. sk) x)
      (\<lambda>_ b. \<exists>vs. length vs = Suc n \<and> (\<forall>v \<in> set vs. cval_ok v) \<and> a @ b = concat (map put_val vs))"
    proof (rule exact_mono)
      show "exact (loop_n n (\<lambda>_. sk) x) (\<lambda>_ b. \<exists>vs. length vs = n \<and> (\<forall>v \<in> set vs. cval_ok v) \<and> b = concat (map put_val vs))"
        using Suc by simp
      fix b assume "\<exists>vs. length vs = n \<and> (\<forall>v \<in> set vs. cval_ok v) \<and> b = concat (map put_val vs)"
      then obtain vs where "length vs = n" "\<forall>v \<in> set vs. cval_ok v" "b = concat (map put_val vs)" by blast
      then show "\<exists>vs. length vs = Suc n \<and> (\<forall>v \<in> set vs. cval_ok v) \<and> a @ b = concat (map put_val vs)"
        using v by (intro exI [of _ "v # vs"]) simp
    qed
  qed
qed

lemma trace_items:
  "trace (\<lambda>_ _ v _. is_item v) s es s' \<Longrightarrow>
   \<exists>cs. es = map (\<lambda>(k, v). (k, put_val v)) cs \<and> (\<forall>(k, v) \<in> set cs. cval_ok v)"
proof (induction es arbitrary: s)
  case (Cons e es)
  obtain k b where e: "e = (k, b)" by fastforce
  with Cons.prems obtain v s1 where v: "cval_ok v" "b = put_val v" "trace (\<lambda>_ _ v _. is_item v) s1 es s'"
    by (auto simp: is_item_def)
  from Cons.IH [OF v(3)] obtain cs where "es = map (\<lambda>(k, v). (k, put_val v)) cs" "\<forall>(k, v) \<in> set cs. cval_ok v"
    by blast
  then show ?case using v by (intro exI [of _ "(k, v) # cs"]) (auto simp: e)
qed simp

lemma simple_args: "20 \<le> (n :: u64) \<Longrightarrow> n \<le> 22 \<Longrightarrow> n = 20 \<or> n = 21 \<or> n = 22"
  by (auto simp: word_le_nat_alt word_unat_eq_iff)

lemma exact_skip_step:
  assumes sk: "exact sk (\<lambda>_. is_item)" and h: "head_ok h"
  shows "exact (skip_step sk h) (\<lambda>_ b. is_item (put_head (fst h) (snd h) @ b))"
proof -
  obtain m n where mn: "h = (m, n)" by fastforce
  have bytes: "is_item (put_head MAJOR_BYTES n @ b)" if "length b = unat n" for b
    using that u64_bound [of n] by (intro is_itemI [of "CBytes b"]) (simp_all add: put_bytes_def)
  have texts: "is_item (put_head MAJOR_TEXT n @ b)" if "length b = unat n" for b
    using that u64_bound [of n] by (intro is_itemI [of "CText b"]) simp_all
  have take: "exact (andthen (rd_take (unat n)) (\<lambda>_. ret ())) (\<lambda>_ b. length b = unat n)"
    by (rule exact_andthen [OF exact_take]) simp
  have arr: "exact (loop_n (unat n) (\<lambda>_. sk) ()) (\<lambda>_ b. is_item (put_head MAJOR_ARRAY n @ b))"
  proof (rule exact_mono [OF exact_skip_loop [OF sk]])
    fix b assume "\<exists>vs. length vs = unat n \<and> (\<forall>v \<in> set vs. cval_ok v) \<and> b = concat (map put_val vs)"
    then obtain vs where vs: "length vs = unat n" "\<forall>v \<in> set vs. cval_ok v" "b = concat (map put_val vs)" by blast
    then show "is_item (put_head MAJOR_ARRAY n @ b)"
      using u64_bound [of n] by (intro is_itemI [of "CArr vs"]) (simp_all add: put_array_def)
  qed
  have mapp: "exact (map_body id (\<lambda>_ _. sk) n ()) (\<lambda>_ b. is_item (put_head MAJOR_MAP n @ b))"
  proof (rule exact_mono [OF exact_map_body])
    show "exact sk (\<lambda>s' v. (\<lambda>_ _ v _. is_item v) k s v s')" for k :: string and s :: unit by (rule sk)
    fix x :: unit and b
    assume "\<exists>es. length es = unat n \<and> canonical es \<and> b = put_pairs es \<and> trace (\<lambda>_ _ v _. is_item v) () es x"
    then obtain es where es: "length es = unat n" "canonical es" "b = put_pairs es" "trace (\<lambda>_ _ v _. is_item v) () es x"
      by blast
    from trace_items [OF es(4)] obtain cs where
      cs: "es = map (\<lambda>(k, v). (k, put_val v)) cs" "\<forall>(k, v) \<in> set cs. cval_ok v" by blast
    have "put_head MAJOR_MAP n @ b = put_val (CMap cs)"
      using es(1,3) by (simp add: cs(1) put_entries_def put_map_def)
    then show "is_item (put_head MAJOR_MAP n @ b)"
      using es(2) cs by (intro is_itemI [of "CMap cs"]) auto
  qed
  have simple: "is_item (put_head MAJOR_SIMPLE n @ [])" if "20 \<le> n" "n \<le> 22"
    using simple_args [OF that]
    by (auto intro: is_itemI [of CFalse] is_itemI [of CTrue] is_itemI [of CNull]
        simp: put_head_def Let_def put_bool_def put_null_def)
  have ints: "is_item (put_head MAJOR_UINT n @ [])" "is_item (put_head MAJOR_NEGINT n @ [])"
    by (auto intro: is_itemI [of "CUInt n"] is_itemI [of "CNeg n"])
  show ?thesis
    unfolding mn skip_step_def
    using ints arr mapp simple
    by (auto intro!: exact_if exact_mono [OF take] dest: bytes texts)
qed

lemma exact_skip_fuel: "exact (un (skip_fuel f)) (\<lambda>_. is_item)"
proof (induction f)
  case 0
  then show ?case by (simp add: un_def exact_def)
next
  case (Suc f)
  show ?case
    unfolding skip_fuel.simps un_fthen un_fret un_body
    by (rule exact_andthen [OF exact_head]) (use exact_skip_step [OF Suc] in auto)
qed

lemma exact_skip: "exact rd_skip (\<lambda>_. is_item)"
proof (rule exactI)
  fix r v r' assume "inb r" "rd_skip r = Inr (v, r')"
  moreover from this have "un (skip_fuel (Suc (rem r))) r = Inr (v, r')"
    by (simp add: un_def skip_enough del: skip_fuel.simps)
  ultimately show "\<exists>bs s. rest r = bs @ s \<and> r' = adv (length bs) r \<and> is_item bs"
    using exact_skip_fuel unfolding exact_def by blast
qed

end
