(* ===== verification/Cbor_Keys.thy ===== *)
theory Cbor_Keys
  imports Cbor_Skip
begin

text \<open>
  The canonical order of text keys, in the form the component codecs use: a list of literal keys is
  checked once by evaluation (\<open>keys_ok\<close>), and from it follow the shape of the built map
  (\<open>keys_ok_finish\<close>) and that a reader accepts it (\<open>keys_ok_canonical\<close>).
\<close>

section \<open>The order of map keys\<close>

lemma append_less_append:
  fixes xs ys :: "'a :: linorder list"
  assumes "length xs = length ys"
  shows "xs @ u < ys @ v \<longleftrightarrow> xs < ys \<or> xs = ys \<and> u < v"
  using assms by (induction xs ys rule: list_induct2) auto

lemma less_div_mod: "(a :: nat) < b \<longleftrightarrow> a div d < b div d \<or> a div d = b div d \<and> a mod d < b mod d"
proof (cases "a div d = b div d")
  case True
  have "a = d * (a div d) + a mod d" "b = d * (b div d) + b mod d" by simp_all
  then have "a < b \<longleftrightarrow> a mod d < b mod d" unfolding True by (metis nat_add_left_cancel_less)
  then show ?thesis using True by simp
next
  case False
  have "a \<le> b \<Longrightarrow> a div d \<le> b div d" "b \<le> a \<Longrightarrow> b div d \<le> a div d" by (simp_all add: div_le_mono)
  then show ?thesis using False by linarith
qed

lemma be_bytes_less: "a < 256 ^ k \<Longrightarrow> b < 256 ^ k \<Longrightarrow> be_bytes k a < be_bytes k b \<longleftrightarrow> a < b"
proof (induction k arbitrary: a b)
  case 0
  then show ?case by simp
next
  case (Suc k)
  have d: "a div 256 < 256 ^ k" "b div 256 < 256 ^ k"
    using Suc.prems by (simp_all add: div_less_iff_less_mult mult.commute)
  have eq: "be_bytes k (a div 256) = be_bytes k (b div 256) \<longleftrightarrow> a div 256 = b div 256"
    using be_bytes_inject [OF _ d] by auto
  have "be_bytes (Suc k) a < be_bytes (Suc k) b \<longleftrightarrow>
      a div 256 < b div 256 \<or> a div 256 = b div 256 \<and> a mod 256 < b mod 256"
    by (simp add: append_less_append Suc.IH [OF d] eq word_less_nat_alt)
  also have "\<dots> \<longleftrightarrow> a < b" by (rule less_div_mod [symmetric])
  finally show ?case .
qed

lemma text_byte:
  assumes "l < 32"
  shows "unat (push_bit 5 MAJOR_TEXT OR l :: byte) = 96 + unat l"
proof -
  have "\<forall>i \<in> set [0..<32]. unat (push_bit 5 MAJOR_TEXT OR word_of_nat i :: byte) = 96 + i"
    by code_simp
  then have "unat (push_bit 5 MAJOR_TEXT OR word_of_nat (unat l) :: byte) = 96 + unat l"
    by (rule bspec) (use assms in \<open>simp add: word_less_nat_alt\<close>)
  then show ?thesis by simp
qed

text \<open>The head of a text, by the size of its argument.\<close>

definition text_head :: "nat \<Rightarrow> byte list" where
  "text_head n = (if n < 24 then be_bytes 1 (96 + n)
     else if n < 2 ^ 8 then be_bytes 1 120 @ be_bytes 1 n
     else if n < 2 ^ 16 then be_bytes 1 121 @ be_bytes 2 n
     else if n < 2 ^ 32 then be_bytes 1 122 @ be_bytes 4 n
     else be_bytes 1 123 @ be_bytes 8 n)"

lemma put_head_text: "put_head MAJOR_TEXT arg = text_head (unat arg)"
proof -
  have b: "(push_bit 5 MAJOR_TEXT OR l :: byte) = word_of_nat (96 + unat l)" if "l < 32" for l
    using text_byte [OF that, symmetric] by simp
  have k: "(push_bit 5 MAJOR_TEXT OR 24 :: byte) = 120" "(push_bit 5 MAJOR_TEXT OR 25 :: byte) = 121"
    "(push_bit 5 MAJOR_TEXT OR 26 :: byte) = 122" "(push_bit 5 MAJOR_TEXT OR 27 :: byte) = 123"
    by (simp_all add: MAJOR_TEXT_def)
  have w: "word_of_nat (unat arg) = (ucast arg :: byte)" by simp
  show ?thesis
  proof (cases "arg < 24")
    case True
    then have "unat (ucast arg :: byte) = unat arg" by (rule unat_ucast_small)
    moreover from this have "(ucast arg :: byte) < 32" using True by (simp add: word_less_nat_alt)
    ultimately show ?thesis using b [of "ucast arg"] True
      by (simp add: put_head_cases text_head_def word_less_nat_alt)
  next
    case False
    then show ?thesis
      by (auto simp: put_head_def Let_def text_head_def k word_less_nat_alt word_le_nat_alt w)
  qed
qed

lemma text_head_less: "a < b \<Longrightarrow> b < 2 ^ 64 \<Longrightarrow> text_head a @ u < text_head b @ v"
  by (simp only: text_head_def append_assoc split: if_split)
    (auto simp: append_less_append be_bytes_less simp del: be_bytes.simps)

text \<open>The same order as a test that evaluates, for the literal keys of a message.\<close>

definition key_lt :: "string \<Rightarrow> string \<Rightarrow> bool" where
  "key_lt k l \<longleftrightarrow> length k < length l \<or> length k = length l \<and> str_bytes k < str_bytes l"

definition keys_ok :: "string list \<Rightarrow> bool" where
  "keys_ok ks \<longleftrightarrow> sorted_wrt key_lt ks \<and> list_all (\<lambda>k. list_all (\<lambda>c. (of_char c :: nat) < 128) k \<and> length k < 256) ks"

lemma put_text_less_iff:
  assumes "length k < 2 ^ 64" "length l < 2 ^ 64"
  shows "put_text k < put_text l \<longleftrightarrow> key_lt k l"
proof -
  have p: "put_text k = text_head (length k) @ str_bytes k" "put_text l = text_head (length l) @ str_bytes l"
    using assms by (simp_all add: put_text_def put_head_text unat_word_of_nat64)
  consider "length k < length l" | "length l < length k" | "length k = length l" by linarith
  then show ?thesis
  proof cases
    case 1
    then show ?thesis using text_head_less [OF 1 assms(2)] by (simp add: key_lt_def p)
  next
    case 2
    then show ?thesis using text_head_less [OF 2 assms(1), of "str_bytes l" "str_bytes k"] by (simp add: key_lt_def p)
  next
    case 3
    then show ?thesis by (simp add: key_lt_def p append_less_append)
  qed
qed

text \<open>Canonical key order is shorter first, then bytewise: the order of the encoded keys is the
  order of the pairs of length and bytes.\<close>

theorem text_key_order:
  assumes "length k < 2 ^ 64" "length l < 2 ^ 64"
  shows "put_text k < put_text l \<longleftrightarrow>
    length k < length l \<or> length k = length l \<and> str_bytes k < str_bytes l"
  by (simp add: put_text_less_iff [OF assms] key_lt_def)

lemma text_key_order_witness: "put_text ''v'' < put_text ''key''"
  using text_key_order [of "''v''" "''key''"] by simp

lemma keys_ok_keys:
  assumes "keys_ok ks" "k \<in> set ks"
  shows "length k < 2 ^ 64" "rstr k"
  using assms utf8_ascii by (fastforce simp: keys_ok_def list_all_iff rstr_def)+

lemma keys_ok_sorted: "keys_ok (map fst es) \<Longrightarrow> sorted_wrt (<) (map (\<lambda>(k, v). put_text k) es)"
proof -
  assume ok: "keys_ok (map fst es)"
  then have "sorted_wrt key_lt (map fst es)" by (simp add: keys_ok_def)
  then have "sorted_wrt (\<lambda>a b. put_text a < put_text b) (map fst es)"
    by (rule sorted_wrt_mono_rel [rotated]) (use put_text_less_iff keys_ok_keys(1) [OF ok] in blast)
  then show ?thesis by (simp add: sorted_wrt_map case_prod_unfold)
qed

lemma keys_ok_canonical: "keys_ok (map fst es) \<Longrightarrow> length es < 2 ^ 64 \<Longrightarrow> canonical es"
  using keys_ok_sorted [of es] keys_ok_keys(2) [of "map fst es"] by (force simp: canonical_def)

lemma keys_ok_finish: "keys_ok (map fst fs) \<Longrightarrow> mset es = mset fs \<Longrightarrow> mb_finish (mb_of es) = put_entries fs"
  by (rule mb_finish_eq [OF _ keys_ok_sorted])

section \<open>Rules for component codecs\<close>

lemma reads_field: "reads d p bs v \<Longrightarrow> reads d (andthen p (\<lambda>v. ret (f v))) bs (f v)"
  by (erule reads_andthen1) simp

lemma reads_at: "reads 0 p bs v \<Longrightarrow> reads d p bs v"
  by (erule reads_mono) simp

lemmas reads_u64 = reads_at [OF u64c.reads_put [OF TrueI]]
lemmas reads_text = reads_at [OF textc.reads_put]
lemmas reads_bytes = reads_at [OF bytesc.reads_put]
lemmas reads_bool = reads_at [OF boolc.reads_put [OF TrueI]]
lemmas reads_id16 = reads_at [OF id16c.reads_put]
lemmas reads_i64 = reads_at [OF i64c.reads_put]

lemma reads_array_len: "n < 2 ^ 64 \<Longrightarrow> reads d rd_array_len (put_array n) (word_of_nat n)"
  by (simp add: rd_array_len_def put_array_def reads_expect)


lemma run_whole_reads:
  assumes "reads d p bs v" "d \<le> MAX_MAP_DEPTH"
  shows "run_whole g p bs = Inr v"
proof -
  have "p (reader_new bs) = Inr (v, adv (length bs) (reader_new bs))"
    using readsD [OF assms(1), of "reader_new bs" "[]"] assms(2) by (simp add: inb_def rest_def reader_new_def)
  then show ?thesis
    by (simp add: run_whole_def andthen_def lift_err_def rd_finish_def adv_def reader_new_def ret_def)
qed

lemma run_whole_exact:
  assumes "exact p Q" "run_whole g p bs = Inr v"
  shows "Q v bs"
proof -
  from assms(2) obtain r r2 where p: "p (reader_new bs) = Inr (v, r)" and f: "rd_finish r = Inr ((), r2)"
    by (auto simp: run_whole_def andthen_def lift_err_def map_err_def ret_def split: sum.splits)
  have "inb (reader_new bs)" by (simp add: inb_def reader_new_def)
  from exactE [OF assms(1) this p] obtain xs s where
    x: "rest (reader_new bs) = xs @ s" "r = adv (length xs) (reader_new bs)" "Q v xs" .
  have "bs = xs @ s" using x(1) by (simp add: rest_def reader_new_def)
  moreover have "length xs = length bs" using f x(2) by (auto simp: rd_finish_def adv_def reader_new_def split: if_splits)
  ultimately show ?thesis using x(3) by simp
qed

lemma andthen_ret [simp]: "andthen (ret x) f = f x"
  by (simp add: andthen_def ret_def)

lemma andthen_fail [simp]: "andthen (fail e) f = fail e"
  by (simp add: andthen_def fail_def)

lemma of_result_simps [simp]: "of_result (Inr x) = ret x" "of_result (Inl e) = fail e"
  by (simp_all add: of_result_def)

lemma reads_retI: "v = w \<Longrightarrow> reads d (ret v) [] w"
  by simp

end
