(* ===== verification/Task_Laws.thy ===== *)
theory Task_Laws
  imports Task_Obj Cbor_Keys
begin

text \<open>
  Laws of task objects: the counter codec, runs of the state machine, what a rate ring counts
  compared with the full history of events, and ULIDs.
\<close>

section \<open>The counter codec\<close>

lemma unat_ucast_u32: "unat (ucast (v :: u32) :: u64) = unat v"
proof -
  have "unat v < 2 ^ 64" by (rule less_le_trans [OF u32_bound]) simp
  then show ?thesis by (simp add: unsigned_ucast_eq take_bit_nat_eq_self)
qed

lemma reads_small: "reads d rd_small (put_u64 (ucast (v :: u32))) v"
proof -
  have "take_bit 32 (unat v) = unat v" using u32_bound [of v] by (simp add: take_bit_nat_eq_self)
  then have "unat (ucast (ucast v :: u64) :: u32) = unat v"
    by (simp only: unsigned_ucast_eq [of "ucast v :: u64"] unat_ucast_u32) simp
  then have "(ucast (ucast v :: u64) :: u32) = v" by (simp only: word_unat_eq_iff)
  then have "small (ucast v) = Inr v"
    using u32_bound [of v] by (simp add: small_def unat_ucast_u32)
  then show ?thesis
    unfolding rd_small_def by (intro reads_andthen1 [OF reads_u64]) simp
qed

definition ring_ok :: "rate_ring \<Rightarrow> bool" where
  "ring_ok ring \<longleftrightarrow> length ring \<le> RATE_RING"

lemma reads_ring:
  assumes "ring_ok ring"
  shows "reads d decode_ring (encode_ring ring) ring"
proof -
  have n: "unat (word_of_nat (length ring) :: u64) = length ring"
    using assms by (intro unat_word_of_nat64) (simp add: ring_ok_def RATE_RING_def)
  have "reads d (rd_many (length ring) rd_u64) (concat (map put_u64 ring)) ring"
    by (rule reads_at, rule u64c.reads_many) simp_all
  then have "reads d (if RATE_RING < unat (word_of_nat (length ring) :: u64) then fail Type
      else rd_many (unat (word_of_nat (length ring) :: u64)) rd_u64) (concat (map put_u64 ring)) ring"
    using assms by (simp add: n ring_ok_def not_less)
  moreover have "reads d rd_array_len (put_array (length ring)) (word_of_nat (length ring))"
    using assms by (intro reads_array_len) (simp add: ring_ok_def RATE_RING_def)
  ultimately show ?thesis
    unfolding decode_ring_def encode_ring_def by (intro reads_andthen)
qed

definition counters_ok :: "counters \<Rightarrow> bool" where
  "counters_ok c \<longleftrightarrow> ring_ok (irreversible c) \<and>
     sorted_wrt key_lt (map fst (irreversible_by_class c)) \<and> length (irreversible_by_class c) < 2 ^ 64 \<and>
     (\<forall>(cls, ring) \<in> set (irreversible_by_class c). rstr cls \<and> ring_ok ring)"

lemma fold_insert_mb:
  "foldl (\<lambda>b (cls, ring). mb_insert b cls (f ring)) (mb_of es) xs = mb_of (es @ map (\<lambda>(cls, ring). (cls, f ring)) xs)"
  by (induction xs arbitrary: es) auto

lemma mb_of_Nil: "[] = mb_of []"
  by (simp add: mb_of_def)

lemma steps_by_class:
  "\<forall>(cls, ring) \<in> set xs. ring_ok ring \<Longrightarrow>
   steps d (\<lambda>cls l. andthen decode_ring (\<lambda>ring. ret (l @ [(cls, ring)]))) l
     (map (\<lambda>(cls, ring). (cls, encode_ring ring)) xs) (l @ xs)"
proof (induction xs arbitrary: l)
  case (Cons x xs)
  obtain cls ring where x: "x = (cls, ring)" by fastforce
  then have "reads d (andthen decode_ring (\<lambda>ring. ret (l @ [(cls, ring)]))) (encode_ring ring) (l @ [(cls, ring)])"
    using Cons.prems by (auto intro!: reads_field reads_ring)
  moreover have "steps d (\<lambda>cls l. andthen decode_ring (\<lambda>ring. ret (l @ [(cls, ring)]))) (l @ [(cls, ring)])
     (map (\<lambda>(cls, ring). (cls, encode_ring ring)) xs) ((l @ [(cls, ring)]) @ xs)"
    using Cons.prems by (intro Cons.IH) simp
  ultimately show ?case by (auto simp: x)
qed simp

lemma by_class_canonical:
  assumes "counters_ok c"
  shows "canonical (map (\<lambda>(cls, ring). (cls, encode_ring ring)) (irreversible_by_class c))"
proof -
  let ?ks = "map fst (irreversible_by_class c)"
  have str: "rstr k" if "k \<in> set ?ks" for k using assms that by (auto simp: counters_ok_def)
  have "sorted_wrt key_lt ?ks" using assms by (simp add: counters_ok_def)
  then have "sorted_wrt (\<lambda>a b. put_text a < put_text b) ?ks"
    by (rule sorted_wrt_mono_rel [rotated]) (use str put_text_less_iff rstr_def in blast)
  then show ?thesis
    using assms str by (force simp: canonical_def sorted_wrt_map case_prod_unfold comp_def counters_ok_def)
qed

lemma reads_by_class:
  assumes "counters_ok c"
  shows "reads 1 (rd_by_class []) (mb_finish (foldl (\<lambda>b (cls, ring). mb_insert b cls (encode_ring ring)) []
    (irreversible_by_class c))) (irreversible_by_class c)"
proof -
  let ?es = "map (\<lambda>(cls, ring). (cls, encode_ring ring)) (irreversible_by_class c)"
  have can: "canonical ?es" by (rule by_class_canonical [OF assms])
  have "foldl (\<lambda>b (cls, ring). mb_insert b cls (encode_ring ring)) [] (irreversible_by_class c) = mb_of ?es"
    using fold_insert_mb [of encode_ring "[]"] by (simp add: mb_of_def)
  moreover have "mb_finish (mb_of ?es) = put_entries ?es"
    using can by (intro mb_finish_eq) (simp_all add: canonical_def)
  moreover have "reads 1 (rd_by_class []) (put_entries ?es) (irreversible_by_class c)"
    unfolding rd_by_class_def One_nat_def
    using steps_by_class [of "irreversible_by_class c" 0 "[]"] can assms
    by (intro reads_map) (auto simp: counters_ok_def)
  ultimately show ?thesis by simp
qed

lemma counters_keys: "keys_ok [''retries'', ''irreversible'', ''prompts_shown'', ''egress_bytes_up'',
   ''prompts_allowed'', ''channel_messages'', ''irreversible_by_class'', ''denied_irreversible_streak'']"
  by code_simp

lemma counters_steps:
  "reads d (counters_step ''retries'' a) (put_u64 (ucast v)) (a\<lparr>retries := v\<rparr>)"
  "ring_ok ring \<Longrightarrow> reads d (counters_step ''irreversible'' a) (encode_ring ring) (a\<lparr>irreversible := ring\<rparr>)"
  "reads d (counters_step ''prompts_shown'' a) (put_u64 (ucast v)) (a\<lparr>prompts_shown := v\<rparr>)"
  "reads d (counters_step ''egress_bytes_up'' a) (put_u64 n) (a\<lparr>egress_bytes_up := n\<rparr>)"
  "reads d (counters_step ''prompts_allowed'' a) (put_u64 (ucast v)) (a\<lparr>prompts_allowed := v\<rparr>)"
  "reads d (counters_step ''channel_messages'' a) (put_u64 (ucast v)) (a\<lparr>channel_messages := v\<rparr>)"
  "reads d (counters_step ''denied_irreversible_streak'' a) (put_u64 (ucast v)) (a\<lparr>denied_irreversible_streak := v\<rparr>)"
  by (simp_all add: counters_step_def)
    (rule reads_andthen1 reads_small reads_u64 reads_ring reads_ret | assumption)+

lemma counters_step_by_class:
  "irreversible_by_class a = [] \<Longrightarrow> counters_ok c \<Longrightarrow>
   reads 1 (counters_step ''irreversible_by_class'' a) (mb_finish (foldl (\<lambda>b (cls, ring). mb_insert b cls (encode_ring ring)) []
    (irreversible_by_class c))) (a\<lparr>irreversible_by_class := irreversible_by_class c\<rparr>)"
  by (simp add: counters_step_def) (rule reads_andthen1 reads_by_class [unfolded One_nat_def] reads_ret | assumption)+

lemma reads_counters:
  assumes "counters_ok c"
  shows "reads 2 counters_decode (counters_encode c) c"
proof -
  let ?rev = "mb_finish (foldl (\<lambda>b (cls, ring). mb_insert b cls (encode_ring ring)) [] (irreversible_by_class c))"
  let ?es = "[(''retries'', put_u64 (ucast (retries c))), (''irreversible'', encode_ring (irreversible c)),
    (''prompts_shown'', put_u64 (ucast (prompts_shown c))), (''egress_bytes_up'', put_u64 (egress_bytes_up c)),
    (''prompts_allowed'', put_u64 (ucast (prompts_allowed c))), (''channel_messages'', put_u64 (ucast (channel_messages c))),
    (''irreversible_by_class'', ?rev),
    (''denied_irreversible_streak'', put_u64 (ucast (denied_irreversible_streak c)))]"
  have ok: "counters_ok c" "ring_ok (irreversible c)" using assms by (simp_all add: counters_ok_def)
  have "counters_encode c = put_entries ?es"
    unfolding counters_encode_def Let_def mb_insert_Nil mb_of_simps
    by (rule keys_ok_finish) (simp_all add: counters_keys add_mset_commute)
  moreover have "steps 1 counters_step counters_default ?es c"
    by (rule stepsI counters_steps counters_step_by_class | simp add: ok counters_default_def)+
  then have "reads 2 counters_decode (put_entries ?es) c"
    unfolding counters_decode_def numeral_2_eq_2 One_nat_def
    by (rule reads_map) (rule keys_ok_canonical, simp_all add: counters_keys)
  ultimately show ?thesis by simp
qed

text \<open>Every counter block the store can hold is read back from its encoding unchanged.\<close>

theorem counters_round_trip:
  assumes "counters_ok c"
  shows "run_whole id counters_decode (counters_encode c) = Inr c"
  by (rule run_whole_reads [OF reads_counters [OF assms]]) (simp add: MAX_MAP_DEPTH_def)

lemma counters_round_trip_witness:
  "let c = counters_default\<lparr>retries := 3, irreversible := [7, 9], irreversible_by_class := [(''a'', [9]), (''bc'', [7])]\<rparr>
   in run_whole id counters_decode (counters_encode c) = Inr c"
  unfolding Let_def
  by (rule counters_round_trip)
    (simp add: counters_ok_def counters_default_def ring_ok_def RATE_RING_def key_lt_def rstr_def utf8_ascii)

section \<open>The state machine\<close>

fun task_run :: "task_state \<Rightarrow> task_event list \<Rightarrow> illegal_transition + task_state" where
  "task_run s [] = Inr s"
| "task_run s (e # es) = rbind (transition s e) (\<lambda>s'. task_run s' es)"

lemma transition_Closed [simp]: "transition (Closed r) e = Inl (IllegalTransition (Closed r) e)"
  by (cases e) simp_all

lemma transition_Inl: "transition s e = Inl x \<Longrightarrow> x = IllegalTransition s e"
  by (cases s; cases e) auto

lemma task_run_append: "task_run s (es @ fs) = rbind (task_run s es) (\<lambda>s'. task_run s' fs)"
  by (induction es arbitrary: s) (auto simp: rbind_def split: sum.splits)

text \<open>A closed task is closed for good, and it is only ever completed by draining first: an
  accepted run of events that ends closed has a live state before its last event and none after
  it, and the reason is \<open>completed\<close> exactly when that last event is \<open>Drained\<close>, taken from the
  draining state, which an earlier \<open>Drain\<close> event entered.\<close>

theorem closed_only_at_the_end:
  assumes "task_run Active es = Inr (Closed r)"
  shows "\<exists>fs e s. es = fs @ [e] \<and> task_run Active fs = Inr s \<and> is_live s \<and>
    (r = Completed \<longleftrightarrow> e = Drained) \<and> (r = Completed \<longrightarrow> s = Draining \<and> Drain \<in> set fs)"
proof -
  have drain: "task_run s fs = Inr Draining \<Longrightarrow> s \<noteq> Draining \<Longrightarrow> Drain \<in> set fs" for s fs
  proof (induction fs arbitrary: s)
    case (Cons e fs)
    then obtain s' where s': "transition s e = Inr s'" "task_run s' fs = Inr Draining"
      by (auto simp: rbind_Inr_iff)
    show ?case
    proof (cases "s' = Draining")
      case True
      then have "e = Drain" using s'(1) by (cases s; cases e) auto
      then show ?thesis by simp
    next
      case False
      then show ?thesis using Cons.IH [OF s'(2)] by simp
    qed
  qed simp
  from assms have "es \<noteq> []" by auto
  then obtain fs e where es: "es = fs @ [e]" by (metis rev_exhaust)
  with assms obtain s where s: "task_run Active fs = Inr s" "transition s e = Inr (Closed r)"
    by (auto simp: task_run_append rbind_Inr_iff)
  have "is_live s" "r = Completed \<longleftrightarrow> e = Drained" "r = Completed \<longrightarrow> s = Draining"
    using s(2) by (cases s; cases e; auto)+
  then show ?thesis using es s drain [of Active fs] by auto
qed

lemma closed_only_at_the_end_witness:
  "task_run Active [Pause, Drain, Drained] = Inr (Closed Completed) \<and> \<not> Drain \<notin> set [Pause, Drain]"
  using closed_only_at_the_end [of "[Pause, Drain, Drained]" Completed] by auto

text \<open>Whatever a task is doing, it can be cancelled, expired and failed until it is closed, and
  then no event at all is accepted; the error names the state and the event that were refused.\<close>

theorem transition_edges:
  "(is_live s \<longleftrightarrow> (\<forall>e \<in> {Cancel, Deadline, Fault}. \<exists>r. transition s e = Inr (Closed r))) \<and>
   (\<not> is_live s \<longleftrightarrow> (\<forall>e. transition s e = Inl (IllegalTransition s e))) \<and>
   (\<forall>e x. transition s e = Inl x \<longrightarrow> it_from x = s \<and> it_event x = e)"
proof -
  have "\<exists>r. transition s Cancel = Inr (Closed r)" if "is_live s" using that by (cases s) auto
  moreover have "\<exists>e. transition s e \<noteq> Inl (IllegalTransition s e)" if "is_live s"
    using that by (cases s) (auto intro: exI [of _ Cancel])
  ultimately show ?thesis
    by (cases s) (auto dest: transition_Inl)
qed

lemma transition_edges_witness: "transition Draining Cancel = Inr (Closed Cancelled)"
  using transition_edges [of Draining] by simp

section \<open>Rate rings\<close>

text \<open>The times of recorded events never run backwards in \<open>hist\<close>.\<close>

definition in_window :: "u64 \<Rightarrow> u64 \<Rightarrow> u64 \<Rightarrow> bool" where
  "in_window now window t \<longleftrightarrow> sat_sub now t < window"

lemma in_window_nat: "in_window now window t \<longleftrightarrow> unat now - unat t < unat window"
  by (simp add: in_window_def word_less_nat_alt unat_sat_sub)

definition ring_after :: "u64 \<Rightarrow> u64 list \<Rightarrow> rate_ring" where
  "ring_after window hist = foldl (\<lambda>r t. snd (ring_record r t window)) [] hist"

definition lasts :: "nat \<Rightarrow> 'a list \<Rightarrow> 'a list" where
  "lasts n xs = drop (length xs - n) xs"

lemma length_lasts [simp]: "length (lasts n xs) = min n (length xs)"
  by (simp add: lasts_def)

lemma lasts_Suc_snoc: "lasts (Suc n) (xs @ [x]) = lasts n xs @ [x]"
  by (simp add: lasts_def)

lemma lasts_all: "length xs \<le> n \<Longrightarrow> lasts n xs = xs"
  by (simp add: lasts_def)

lemma lasts_append: "length ys = n \<Longrightarrow> lasts n (xs @ ys) = ys"
  by (simp add: lasts_def)

lemma filter_lasts:
  fixes xs :: "u64 list"
  assumes "sorted (map unat xs)" "\<And>a b. unat a \<le> unat b \<Longrightarrow> P a \<Longrightarrow> P b"
  shows "filter P (lasts n xs) = lasts n (filter P xs)"
proof -
  define m where "m = length xs - n"
  have F: "filter P xs = filter P (take m xs) @ filter P (drop m xs)"
    by (metis append_take_drop_id filter_append)
  show ?thesis
  proof (cases "filter P (take m xs) = []")
    case True
    have "length (filter P (drop m xs)) \<le> length (drop m xs)" by (rule length_filter_le)
    then have "length (filter P (drop m xs)) \<le> n" by (simp add: m_def)
    then show ?thesis using F True by (simp add: lasts_all lasts_def [of n xs] m_def)
  next
    case False
    then obtain a where a: "a \<in> set (take m xs)" "P a" by (auto simp: filter_empty_conv)
    then have len: "length (drop m xs) = n" by (cases "n \<le> length xs") (auto simp: m_def)
    have "sorted (map unat (take m xs @ drop m xs))" using assms(1) by simp
    then have "unat a \<le> unat b" if "b \<in> set (drop m xs)" for b
      using that a(1) by (auto simp: sorted_append simp del: append_take_drop_id)
    then have "filter P (drop m xs) = drop m xs" using a(2) assms(2) by (auto intro!: filter_True)
    then have "filter P xs = filter P (take m xs) @ drop m xs" using F by simp
    then have "lasts n (filter P xs) = drop m xs" using len by (simp add: lasts_append)
    then show ?thesis using \<open>filter P (drop m xs) = drop m xs\<close> by (simp add: lasts_def [of n xs] m_def)
  qed
qed

lemma in_window_up: "unat a \<le> unat b \<Longrightarrow> in_window now window a \<Longrightarrow> in_window now window b"
  by (simp add: in_window_nat)

lemma in_window_earlier: "unat old \<le> unat now \<Longrightarrow> in_window now window a \<Longrightarrow> in_window old window a"
  by (simp add: in_window_nat)

lemma ring_prune_eq: "ring_prune r now window = filter (in_window now window) r"
  by (simp add: ring_prune_def in_window_def [abs_def])

lemma ring_count_eq: "ring_count r now window = length (filter (in_window now window) r)"
  by (simp add: ring_count_def in_window_def [abs_def])

lemma snd_ring_record: "snd (ring_record r now window) = lasts 31 (filter (in_window now window) r) @ [now]"
  if "length r \<le> RATE_RING"
proof -
  let ?s = "filter (in_window now window) r"
  have "length ?s \<le> 32" using that length_filter_le [of _ r] by (metis RATE_RING_def le_trans)
  then have "(if length ?s = RATE_RING then tl ?s else ?s) = lasts 31 ?s"
    by (cases ?s) (auto simp: lasts_def RATE_RING_def)
  then show ?thesis by (simp add: ring_record_def Let_def ring_prune_eq)
qed

lemma lasts_lasts: "lasts 31 (lasts 32 xs) = lasts 31 xs"
proof (cases "32 \<le> length xs")
  case True
  then have "length xs - 32 + 1 = length xs - 31" by simp
  then show ?thesis using True by (simp add: lasts_def)
qed (simp add: lasts_def)

lemma ring_after_eq:
  "sorted (map unat (hist @ [t])) \<Longrightarrow> 0 < window \<Longrightarrow>
   ring_after window (hist @ [t]) = lasts 32 (filter (in_window t window) (hist @ [t]))"
proof (induction hist arbitrary: t rule: rev_induct)
  case Nil
  then show ?case
    by (simp add: ring_after_def snd_ring_record RATE_RING_def lasts_def in_window_nat word_less_nat_alt)
next
  case (snoc u hist)
  let ?F = "\<lambda>t. filter (in_window t window)"
  have le: "unat u \<le> unat t" and sorted: "sorted (map unat (hist @ [u]))"
    using snoc.prems(1) by (auto simp: sorted_append)
  have ring: "ring_after window (hist @ [u]) = lasts 32 (?F u (hist @ [u]))"
    using sorted snoc.prems(2) by (rule snoc.IH)
  have "?F t (?F u (hist @ [u])) = ?F t (hist @ [u])"
    using in_window_earlier [OF le] by (auto simp: filter_filter intro!: filter_cong)
  moreover have "sorted (map unat (?F u (hist @ [u])))" by (rule sorted_filter [OF sorted])
  ultimately have prune: "?F t (ring_after window (hist @ [u])) = lasts 32 (?F t (hist @ [u]))"
    unfolding ring by (subst filter_lasts) (auto intro: in_window_up)
  have len: "length (ring_after window (hist @ [u])) \<le> RATE_RING" by (simp add: ring RATE_RING_def)
  have "ring_after window ((hist @ [u]) @ [t]) = snd (ring_record (ring_after window (hist @ [u])) t window)"
    by (simp add: ring_after_def)
  also have "\<dots> = lasts 31 (?F t (hist @ [u])) @ [t]"
    by (simp only: snd_ring_record [OF len] prune lasts_lasts)
  also have "\<dots> = lasts 32 (?F t (hist @ [u]) @ [t])"
    by (rule lasts_Suc_snoc [of 31, simplified, symmetric])
  also have "?F t (hist @ [u]) @ [t] = ?F t ((hist @ [u]) @ [t])"
    using snoc.prems(2) by (simp add: in_window_nat word_less_nat_alt)
  finally show ?case .
qed

text \<open>A rate ring decides every ceiling up to its size exactly: for events recorded at
  times that never run backwards, the count a ring reports is the number of events inside the
  window, capped at 32, so it is below a ceiling of at most 32 exactly when the true number is.\<close>

theorem ring_count_exact:
  assumes "sorted (map unat (hist @ [now]))" "0 < window" "ceiling \<le> RATE_RING"
  shows "ring_count (ring_after window hist) now window =
      min RATE_RING (length (filter (in_window now window) hist)) \<and>
    (ring_count (ring_after window hist) now window < ceiling \<longleftrightarrow>
      length (filter (in_window now window) hist) < ceiling) \<and>
    length (ring_after window hist) \<le> RATE_RING"
proof -
  have "filter (in_window now window) (ring_after window hist) = lasts 32 (filter (in_window now window) hist)
    \<and> length (ring_after window hist) \<le> 32"
  proof (cases hist rule: rev_cases)
    case Nil
    then show ?thesis by (simp add: ring_after_def lasts_def)
  next
    case (snoc h u)
    have le: "unat u \<le> unat now" and sorted: "sorted (map unat (h @ [u]))"
      using assms(1) by (auto simp: snoc sorted_append)
    have "filter (in_window now window) (filter (in_window u window) (h @ [u])) = filter (in_window now window) (h @ [u])"
      using in_window_earlier [OF le] by (auto simp: filter_filter intro!: filter_cong)
    moreover have "sorted (map unat (filter (in_window u window) (h @ [u])))" by (rule sorted_filter [OF sorted])
    ultimately show ?thesis
      unfolding snoc ring_after_eq [OF sorted assms(2)] by (subst filter_lasts) (auto intro: in_window_up)
  qed
  then show ?thesis
    using assms(3) by (auto simp: ring_count_eq RATE_RING_def)
qed

lemma ring_count_exact_witness:
  "ring_count (ring_after 10 [1, 5, 12]) 14 10 = 2 \<and> length (filter (in_window 14 10) [1, 5, 12]) = 2"
  using ring_count_exact [of "[1, 5, 12]" 14 10 20]
  by (simp add: in_window_nat RATE_RING_def unat_sat_sub)

section \<open>ULIDs\<close>

lemma be_bytes_add: "be_bytes (j + k) n = be_bytes j (n div 256 ^ k) @ be_bytes k n"
  by (induction k arbitrary: n) (simp_all add: div_mult2_eq)

lemma base_digits_inject:
  "\<forall>i < k. n div b ^ i mod b = m div b ^ i mod b \<Longrightarrow> n < b ^ k \<Longrightarrow> m < b ^ k \<Longrightarrow> (n :: nat) = m"
proof (induction k arbitrary: n m)
  case (Suc k)
  have "n div b ^ Suc i mod b = m div b ^ Suc i mod b" if "i < k" for i
    using Suc.prems(1) that by auto
  then have "\<forall>i < k. n div b div b ^ i mod b = m div b div b ^ i mod b" by (simp add: div_mult2_eq)
  moreover have "n div b < b ^ k" "m div b < b ^ k"
    using Suc.prems(2,3) by (simp_all add: less_mult_imp_div_less mult.commute)
  ultimately have "n div b = m div b" by (rule Suc.IH)
  moreover have "n mod b = m mod b" using Suc.prems(1) by force
  ultimately show ?case by (metis div_mult_mod_eq)
qed simp

lemma CROCKFORD_inject: "i < 32 \<Longrightarrow> j < 32 \<Longrightarrow> CROCKFORD ! i = CROCKFORD ! j \<Longrightarrow> i = j"
proof -
  have "distinct CROCKFORD" "length CROCKFORD = 32" by (simp_all add: CROCKFORD_def)
  then show "i < 32 \<Longrightarrow> j < 32 \<Longrightarrow> CROCKFORD ! i = CROCKFORD ! j \<Longrightarrow> i = j"
    by (simp add: nth_eq_iff_index_eq)
qed

lemma unat_drop_bit128: "unat (drop_bit k (w :: u128)) = unat w div 2 ^ k"
proof -
  have "unat w < 2 ^ 128" using unsigned_less [of w, where ?'a = nat] by simp
  then have "take_bit 128 (unat w) = unat w" by (rule take_bit_nat_eq_self)
  then show ?thesis unfolding unsigned_drop_bit_eq by (simp add: drop_bit_eq_div)
qed

lemma ulid_text_digit:
  assumes "i < 26"
  shows "ulid_to_text u ! i = CROCKFORD ! (from_be (ulid_bytes u) mod 2 ^ 128 div 32 ^ (25 - i) mod 32)"
proof -
  let ?n = "word_of_nat (from_be (ulid_bytes u)) :: u128"
  have n: "unat ?n = from_be (ulid_bytes u) mod 2 ^ 128" by (simp add: unat_of_nat)
  have "(2 :: nat) ^ (5 * (25 - i)) = 32 ^ (25 - i)" by (subst power_mult) simp
  then have sh: "(2 :: nat) ^ (125 - i * 5) = 32 ^ (25 - i)" by (simp add: right_diff_distrib' mult.commute)
  have "(0x1f :: u128) = mask 5" by (simp add: mask_eq_exp_minus_1)
  then have digit: "unat (drop_bit (125 - i * 5) ?n AND 0x1f) = unat ?n div 32 ^ (25 - i) mod 32"
  proof -
    have "unat (drop_bit (125 - i * 5) ?n AND 0x1f) = take_bit 5 (unat (drop_bit (125 - i * 5) ?n))"
      unfolding \<open>0x1f = mask 5\<close> take_bit_eq_mask [symmetric] by (simp add: unsigned_take_bit_eq)
    also have "unat (drop_bit (125 - i * 5) ?n) = unat ?n div 32 ^ (25 - i)"
      unfolding unat_drop_bit128 sh ..
    finally show ?thesis by (simp add: take_bit_eq_mod)
  qed
  show ?thesis
  proof (cases "i = 0")
    case True
    have "unat ?n < 2 ^ 128" using unsigned_less [of ?n] by simp
    then have "unat ?n div 32 ^ 25 < 32" by (simp add: div_less_iff_less_mult)
    then have "unat (drop_bit 125 ?n) = unat ?n div 32 ^ 25 mod 32"
      unfolding unat_drop_bit128 by simp
    then show ?thesis using True by (simp add: ulid_to_text_def n Let_def)
  next
    case False
    then show ?thesis using assms digit by (simp add: ulid_to_text_def Let_def n)
  qed
qed

text \<open>C33: The text of a ULID has 26 characters of the Crockford alphabet and determines the
  identifier: two identifiers with the same text are the same.\<close>

theorem ulid_text_faithful:
  assumes "ulid_ok u" "ulid_ok v"
  shows "length (ulid_to_text u) = 26 \<and> set (ulid_to_text u) \<subseteq> set CROCKFORD \<and>
    (ulid_to_text u = ulid_to_text v \<longrightarrow> u = v)"
proof -
  have val: "from_be (ulid_bytes w) mod 2 ^ 128 = from_be (ulid_bytes w)" if "ulid_ok w" for w
    using that from_be_bound [of "ulid_bytes w"] by (simp add: ulid_ok_def)
  have len: "length (ulid_to_text w) = 26" for w by (simp add: ulid_to_text_def Let_def)
  have "ulid_to_text u ! i \<in> set CROCKFORD" if "i < 26" for i
    unfolding ulid_text_digit [OF that] by (rule nth_mem) (simp add: CROCKFORD_def)
  then have alphabet: "set (ulid_to_text u) \<subseteq> set CROCKFORD"
    by (auto simp: in_set_conv_nth len)
  have "u = v" if eq: "ulid_to_text u = ulid_to_text v"
  proof -
    let ?n = "from_be (ulid_bytes u)" and ?m = "from_be (ulid_bytes v)"
    have "?n div 32 ^ j mod 32 = ?m div 32 ^ j mod 32" if "j < 26" for j
    proof (rule CROCKFORD_inject)
      have "25 - j < 26" "25 - (25 - j) = j" using that by simp_all
      then show "CROCKFORD ! (?n div 32 ^ j mod 32) = CROCKFORD ! (?m div 32 ^ j mod 32)"
        using ulid_text_digit [of "25 - j" u] ulid_text_digit [of "25 - j" v] eq
        unfolding val [OF assms(1)] val [OF assms(2)] by simp
    qed simp_all
    moreover have "?n < 32 ^ 26" "?m < 32 ^ 26"
      using from_be_bound [of "ulid_bytes u"] from_be_bound [of "ulid_bytes v"] assms
      by (auto simp: ulid_ok_def intro: less_trans)
    ultimately have "?n = ?m" using base_digits_inject [of 26 ?n 32 ?m] by blast
    then have "ulid_bytes u = ulid_bytes v"
      using be_bytes_from_be [of "ulid_bytes u"] be_bytes_from_be [of "ulid_bytes v"] assms
      by (simp add: ulid_ok_def)
    then show ?thesis by (rule ulid.expand)
  qed
  then show ?thesis using len alphabet by simp
qed

lemma ulid_text_faithful_witness:
  "length (ulid_to_text (Ulid (replicate 16 0))) = 26 \<and>
   ulid_to_text (Ulid (replicate 16 0)) \<noteq> ulid_to_text (Ulid (replicate 16 1))"
  using ulid_text_faithful [of "Ulid (replicate 16 0)" "Ulid (replicate 16 1)"]
  by (simp add: ulid_ok_def numeral_eq_Suc)

text \<open>A ULID assembled from a millisecond time of at most 48 bits gives that time back.\<close>

theorem ulid_timestamp_round_trip:
  assumes "unat ms < 2 ^ 48" "length entropy = 10"
  shows "ulid_ok (ulid_from_parts ms entropy) \<and> ulid_timestamp_ms (ulid_from_parts ms entropy) = ms"
proof -
  have "unat ms div 256 ^ 6 = 0" using assms(1) by simp
  then have B: "be_bytes 8 (unat ms) = [0, 0] @ be_bytes 6 (unat ms)"
    using be_bytes_add [of 2 6 "unat ms"] by (simp add: numeral_2_eq_2)
  then have u: "ulid_from_parts ms entropy = Ulid (be_bytes 6 (unat ms) @ entropy)"
    by (simp add: ulid_from_parts_def)
  have "from_be (be_bytes 8 (unat ms)) = unat ms" by (rule from_be_be_bytes) simp
  then have "from_be ([0, 0] @ be_bytes 6 (unat ms)) = unat ms" unfolding B .
  then show ?thesis using assms(2) by (simp add: u ulid_ok_def ulid_timestamp_ms_def)
qed

lemma ulid_timestamp_round_trip_witness:
  "ulid_timestamp_ms (ulid_from_parts 1700000000000 (replicate 10 7)) = 1700000000000"
  using ulid_timestamp_round_trip [of 1700000000000 "replicate 10 7"] by simp

end
