(* ===== verification/Grant.thy ===== *)
theory Grant
  imports Task_Obj
begin

text \<open>
  Grants: \<open>ec-policy-eval/src/grant.rs\<close>. Ed25519 and BLAKE3 are third-party crates, so the
  signature check \<open>ed key msg sig\<close> and the hash \<open>b3 bytes\<close> are parameters; a public key is its
  32 bytes. The COSE envelope, the payload codec and the order of the checks are modelled in full.
\<close>

section \<open>Data\<close>

definition ALG_EDDSA :: int where "ALG_EDDSA = - 8"
definition LABEL_ALG :: int where "LABEL_ALG = 1"
definition LABEL_KID :: int where "LABEL_KID = 4"
definition SIG_CONTEXT :: string where "SIG_CONTEXT = ''Signature1''"

datatype verify_error = Malformed cbor_error | WrongAlgorithm | UnknownKey
  | UnprotectedHeaderNotEmpty | BadSignature | VerifyExpired | NotYetValid

definition CLOCK_SKEW_MS :: u64 where "CLOCK_SKEW_MS = 2000"

record capability =
  cap_name :: string
  cap_scopes :: "string list"
  cap_quota :: "string option"

record rate =
  rate_event :: string
  rate_count :: u32
  rate_per_ms :: u64

record constraints =
  c_rates :: "rate list"
  c_prompt_budget :: "u32 option"

definition constraints_default :: constraints where
  "constraints_default = \<lparr>c_rates = [], c_prompt_budget = None\<rparr>"

record grant =
  g_id :: ulid
  g_principal :: string
  g_issued_ms :: u64
  g_expires_ms :: u64
  g_issuer :: string
  g_task_id :: ulid
  g_capabilities :: "capability list"
  g_constraints :: constraints
  g_unattended :: bool

definition UNATTENDED_MAX_MS :: u64 where "UNATTENDED_MAX_MS = 3600000"

definition is_valid_at :: "grant \<Rightarrow> u64 \<Rightarrow> verify_error + unit" where
  "is_valid_at g now =
    (if g_expires_ms g \<le> now then Inl VerifyExpired
     else if sat_add now CLOCK_SKEW_MS < g_issued_ms g then Inl NotYetValid
     else Inr ())"

definition grant_allows :: "grant \<Rightarrow> string \<Rightarrow> string \<Rightarrow> bool" where
  "grant_allows g name scope \<longleftrightarrow>
     (\<exists>c \<in> set (g_capabilities g). cap_name c = name \<and> (\<exists>s \<in> set (cap_scopes c). s = scope))"

section \<open>The payload codec\<close>

definition encode_capability :: "capability \<Rightarrow> byte list" where
  "encode_capability c =
    (let m = mb_insert [] ''name'' (put_text (cap_name c));
         m = mb_insert_opt m ''quota'' (map_option put_text (cap_quota c));
         m = mb_insert m ''scopes'' (put_array (length (cap_scopes c)) @ concat (map put_text (cap_scopes c)))
     in mb_finish m)"

definition encode_rate :: "rate \<Rightarrow> byte list" where
  "encode_rate r =
    (let m = mb_insert [] ''count'' (put_u64 (ucast (rate_count r)));
         m = mb_insert m ''event'' (put_text (rate_event r));
         m = mb_insert m ''per_ms'' (put_u64 (rate_per_ms r))
     in mb_finish m)"

definition encode_constraints :: "constraints \<Rightarrow> byte list" where
  "encode_constraints c =
    (let m = mb_insert_opt [] ''prompt_budget'' (map_option (\<lambda>b. put_u64 (ucast b)) (c_prompt_budget c));
         m = mb_insert m ''rates'' (put_array (length (c_rates c)) @ concat (map encode_rate (c_rates c)))
     in mb_finish m)"

definition grant_encode :: "grant \<Rightarrow> byte list" where
  "grant_encode g =
    (let m = mb_insert [] ''capabilities''
           (put_array (length (g_capabilities g)) @ concat (map encode_capability (g_capabilities g)));
         m = mb_insert m ''constraints'' (encode_constraints (g_constraints g));
         m = mb_insert m ''expires'' (put_u64 (g_expires_ms g));
         m = mb_insert m ''id'' (put_bytes (ulid_bytes (g_id g)));
         m = mb_insert m ''issued'' (put_u64 (g_issued_ms g));
         m = mb_insert m ''issuer'' (put_text (g_issuer g));
         m = mb_insert m ''principal'' (put_text (g_principal g));
         m = mb_insert m ''task_id'' (put_bytes (ulid_bytes (g_task_id g)));
         m = mb_insert m ''unattended'' (put_bool (g_unattended g))
     in mb_finish m)"

text \<open>The loop variables of each decoder are a record of their own.\<close>

record cap_acc =
  ca_name :: "string option"
  ca_quota :: "string option"
  ca_scopes :: "string list"

definition rd_capability_step :: "string \<Rightarrow> cap_acc \<Rightarrow> (cbor_error, cap_acc) parser" where
  "rd_capability_step k a =
    (if k = ''name'' then andthen rd_text (\<lambda>v. ret (a\<lparr>ca_name := Some v\<rparr>))
     else if k = ''quota'' then andthen rd_text (\<lambda>v. ret (a\<lparr>ca_quota := Some v\<rparr>))
     else if k = ''scopes'' then
       andthen rd_array_len (\<lambda>n. andthen (rd_many (unat n) rd_text) (\<lambda>vs.
         ret (a\<lparr>ca_scopes := ca_scopes a @ vs\<rparr>)))
     else fail Type)"

definition rd_capability :: "(cbor_error, capability) parser" where
  "rd_capability =
     andthen (rd_map id rd_capability_step \<lparr>ca_name = None, ca_quota = None, ca_scopes = []\<rparr>) (\<lambda>a.
     andthen (of_result (ok_or Type (ca_name a))) (\<lambda>name.
     ret \<lparr>cap_name = name, cap_scopes = ca_scopes a, cap_quota = ca_quota a\<rparr>))"

record rate_acc =
  ra_count :: "u32 option"
  ra_event :: "string option"
  ra_per_ms :: "u64 option"

definition rd_rate_step :: "string \<Rightarrow> rate_acc \<Rightarrow> (cbor_error, rate_acc) parser" where
  "rd_rate_step k a =
    (if k = ''count'' then andthen rd_small (\<lambda>v. ret (a\<lparr>ra_count := Some v\<rparr>))
     else if k = ''event'' then andthen rd_text (\<lambda>v. ret (a\<lparr>ra_event := Some v\<rparr>))
     else if k = ''per_ms'' then andthen rd_u64 (\<lambda>v. ret (a\<lparr>ra_per_ms := Some v\<rparr>))
     else fail Type)"

definition rd_rate :: "(cbor_error, rate) parser" where
  "rd_rate =
     andthen (rd_map id rd_rate_step \<lparr>ra_count = None, ra_event = None, ra_per_ms = None\<rparr>) (\<lambda>a.
     andthen (of_result (ok_or Type (ra_count a))) (\<lambda>count.
     andthen (of_result (ok_or Type (ra_event a))) (\<lambda>event.
     andthen (of_result (ok_or Type (ra_per_ms a))) (\<lambda>per_ms.
     ret \<lparr>rate_event = event, rate_count = count, rate_per_ms = per_ms\<rparr>))))"

definition rd_constraints_step :: "string \<Rightarrow> constraints \<Rightarrow> (cbor_error, constraints) parser" where
  "rd_constraints_step k c =
    (if k = ''prompt_budget'' then andthen rd_small (\<lambda>v. ret (c\<lparr>c_prompt_budget := Some v\<rparr>))
     else if k = ''rates'' then
       andthen rd_array_len (\<lambda>n. andthen (rd_many (unat n) rd_rate) (\<lambda>vs.
         ret (c\<lparr>c_rates := c_rates c @ vs\<rparr>)))
     else fail Type)"

definition rd_constraints :: "(cbor_error, constraints) parser" where
  "rd_constraints = rd_map id rd_constraints_step constraints_default"

record grant_acc =
  ga_id :: "ulid option"
  ga_task_id :: "ulid option"
  ga_principal :: "string option"
  ga_issuer :: "string option"
  ga_issued :: "u64 option"
  ga_expires :: "u64 option"
  ga_unattended :: "bool option"
  ga_capabilities :: "capability list"
  ga_constraints :: constraints

definition grant_acc_new :: grant_acc where
  "grant_acc_new = \<lparr>ga_id = None, ga_task_id = None, ga_principal = None, ga_issuer = None,
     ga_issued = None, ga_expires = None, ga_unattended = None, ga_capabilities = [],
     ga_constraints = constraints_default\<rparr>"

definition rd_grant_step :: "string \<Rightarrow> grant_acc \<Rightarrow> (cbor_error, grant_acc) parser" where
  "rd_grant_step k a =
    (if k = ''capabilities'' then
       andthen rd_array_len (\<lambda>n. andthen (rd_many (unat n) rd_capability) (\<lambda>vs.
         ret (a\<lparr>ga_capabilities := ga_capabilities a @ vs\<rparr>)))
     else if k = ''constraints'' then andthen rd_constraints (\<lambda>v. ret (a\<lparr>ga_constraints := v\<rparr>))
     else if k = ''expires'' then andthen rd_u64 (\<lambda>v. ret (a\<lparr>ga_expires := Some v\<rparr>))
     else if k = ''id'' then andthen (rd_byte_array 16) (\<lambda>v. ret (a\<lparr>ga_id := Some (Ulid v)\<rparr>))
     else if k = ''issued'' then andthen rd_u64 (\<lambda>v. ret (a\<lparr>ga_issued := Some v\<rparr>))
     else if k = ''issuer'' then andthen rd_text (\<lambda>v. ret (a\<lparr>ga_issuer := Some v\<rparr>))
     else if k = ''principal'' then andthen rd_text (\<lambda>v. ret (a\<lparr>ga_principal := Some v\<rparr>))
     else if k = ''task_id'' then andthen (rd_byte_array 16) (\<lambda>v. ret (a\<lparr>ga_task_id := Some (Ulid v)\<rparr>))
     else if k = ''unattended'' then andthen rd_bool (\<lambda>v. ret (a\<lparr>ga_unattended := Some v\<rparr>))
     else fail Type)"

definition grant_read :: "(cbor_error, grant) parser" where
  "grant_read =
     andthen (rd_map id rd_grant_step grant_acc_new) (\<lambda>a.
     andthen (of_result (ok_or Type (ga_id a))) (\<lambda>gid.
     andthen (of_result (ok_or Type (ga_principal a))) (\<lambda>principal.
     andthen (of_result (ok_or Type (ga_issued a))) (\<lambda>issued.
     andthen (of_result (ok_or Type (ga_expires a))) (\<lambda>expires.
     andthen (of_result (ok_or Type (ga_issuer a))) (\<lambda>issuer.
     andthen (of_result (ok_or Type (ga_task_id a))) (\<lambda>task_id.
     andthen (of_result (ok_or Type (ga_unattended a))) (\<lambda>unattended.
     ret \<lparr>g_id = gid, g_principal = principal, g_issued_ms = issued, g_expires_ms = expires,
          g_issuer = issuer, g_task_id = task_id, g_capabilities = ga_capabilities a,
          g_constraints = ga_constraints a, g_unattended = unattended\<rparr>))))))))"

definition grant_decode :: "byte list \<Rightarrow> cbor_error + grant" where
  "grant_decode buf = run_whole id grant_read buf"

section \<open>The COSE envelope\<close>

definition key_id :: "(byte list \<Rightarrow> byte list) \<Rightarrow> byte list \<Rightarrow> byte list" where
  "key_id b3 key = b3 key"

definition protected_header :: "(byte list \<Rightarrow> byte list) \<Rightarrow> byte list \<Rightarrow> byte list" where
  "protected_header b3 key =
    (let m = mb_insert_int [] LABEL_ALG (put_i64 ALG_EDDSA);
         m = mb_insert_int m LABEL_KID (put_bytes (key_id b3 key))
     in mb_finish m)"

definition rd_protected_step :: "int option \<times> byte list option \<Rightarrow> (verify_error, int option \<times> byte list option) parser" where
  "rd_protected_step = (\<lambda>(alg, kid). andthen (lift_err Malformed rd_int_key) (\<lambda>k.
     if k = LABEL_ALG then andthen (lift_err Malformed rd_i64) (\<lambda>v. ret (Some v, kid))
     else if k = LABEL_KID then andthen (lift_err Malformed (rd_byte_array 32)) (\<lambda>v. ret (alg, Some v))
     else fail (Malformed Type)))"

definition read_protected :: "byte list \<Rightarrow> verify_error + int \<times> byte list" where
  "read_protected prot =
    rbind (run_whole Malformed
        (andthen (lift_err Malformed rd_map_begin) (\<lambda>n.
         andthen (loop_n (unat n) rd_protected_step (None, None)) (\<lambda>a.
         andthen (lift_err Malformed rd_map_end) (\<lambda>_. ret a)))) prot)
      (\<lambda>(alg, kid). rbind (ok_or WrongAlgorithm alg) (\<lambda>alg.
         rbind (ok_or UnknownKey kid) (\<lambda>kid. Inr (alg, kid))))"

definition sig_structure :: "byte list \<Rightarrow> byte list \<Rightarrow> byte list" where
  "sig_structure prot payload =
     put_array 4 @ put_text SIG_CONTEXT @ put_bytes prot @ put_bytes [] @ put_bytes payload"

definition cose_sign1 :: "byte list \<Rightarrow> byte list \<Rightarrow> byte list \<Rightarrow> byte list" where
  "cose_sign1 prot payload sig =
     put_array 4 @ put_bytes prot @ mb_finish [] @ put_bytes payload @ put_bytes sig"

text \<open>The envelope part of \<open>Grant::verify\<close>: everything up to \<open>r.finish()?\<close>.\<close>

definition rd_envelope :: "(verify_error, byte list \<times> byte list \<times> byte list) parser" where
  "rd_envelope =
     andthen (lift_err Malformed rd_array_len) (\<lambda>n. if n \<noteq> 4 then fail (Malformed Type) else
     andthen (lift_err Malformed rd_bytes) (\<lambda>prot.
     andthen (lift_err Malformed rd_map_begin) (\<lambda>k. if k \<noteq> 0 then fail UnprotectedHeaderNotEmpty else
     andthen (lift_err Malformed rd_map_end) (\<lambda>_.
     andthen (lift_err Malformed rd_bytes) (\<lambda>payload.
     andthen (lift_err Malformed (rd_byte_array 64)) (\<lambda>sig. ret (prot, payload, sig)))))))"

definition grant_verify ::
  "(byte list \<Rightarrow> byte list) \<Rightarrow> (byte list \<Rightarrow> byte list \<Rightarrow> byte list \<Rightarrow> bool) \<Rightarrow>
   byte list \<Rightarrow> byte list \<Rightarrow> u64 \<Rightarrow> verify_error + grant" where
  "grant_verify b3 ed cose key now =
     rbind (run_whole Malformed rd_envelope cose) (\<lambda>(prot, payload, sig).
     rbind (read_protected prot) (\<lambda>(alg, kid).
     if alg \<noteq> ALG_EDDSA then Inl WrongAlgorithm
     else if kid \<noteq> key_id b3 key then Inl UnknownKey
     else if \<not> ed key (sig_structure prot payload) sig then Inl BadSignature
     else rbind (map_err Malformed (grant_decode payload)) (\<lambda>g.
          rbind (is_valid_at g now) (\<lambda>_. Inr g))))"

end
