(* ===== verification/Grant_Laws.thy ===== *)
theory Grant_Laws
  imports Grant Task_Laws
begin

text \<open>
  Laws of grants: the payload codec reads back what the issuer writes, the envelope codec is
  exact, and \<open>Grant::verify\<close> is sound and complete with respect to the signature check.
\<close>

section \<open>The payload codec\<close>

definition cap_ok :: "capability \<Rightarrow> bool" where
  "cap_ok c \<longleftrightarrow> rstr (cap_name c) \<and> (\<forall>q. cap_quota c = Some q \<longrightarrow> rstr q) \<and>
     length (cap_scopes c) < 2 ^ 64 \<and> (\<forall>s \<in> set (cap_scopes c). rstr s)"

definition rate_ok :: "rate \<Rightarrow> bool" where
  "rate_ok r \<longleftrightarrow> rstr (rate_event r)"

definition constraints_ok :: "constraints \<Rightarrow> bool" where
  "constraints_ok c \<longleftrightarrow> length (c_rates c) < 2 ^ 64 \<and> (\<forall>r \<in> set (c_rates c). rate_ok r)"

text \<open>The values a \<open>Grant\<close> of the source can hold: strings are UTF-8 and identifiers have 16 bytes.\<close>

definition grant_ok :: "grant \<Rightarrow> bool" where
  "grant_ok g \<longleftrightarrow> ulid_ok (g_id g) \<and> ulid_ok (g_task_id g) \<and> rstr (g_principal g) \<and> rstr (g_issuer g) \<and>
     length (g_capabilities g) < 2 ^ 64 \<and> (\<forall>c \<in> set (g_capabilities g). cap_ok c) \<and>
     constraints_ok (g_constraints g)"

lemma reads_seq:
  assumes "reads d (rd_many (length xs) p) (concat (map f xs)) xs" "length xs < 2 ^ 64"
    "\<And>v. v = xs \<Longrightarrow> reads d (k v) [] y"
  shows "reads d (andthen rd_array_len (\<lambda>n. andthen (rd_many (unat n) p) k))
    (put_array (length xs) @ concat (map f xs)) y"
  by (rule reads_andthen [OF reads_array_len [OF assms(2)]], rule reads_andthen1)
    (use assms in \<open>simp_all add: unat_word_of_nat64\<close>)

lemma rate_keys: "keys_ok [''count'', ''event'', ''per_ms'']" by code_simp

lemma rate_steps:
  "reads d (rd_rate_step ''count'' a) (put_u64 (ucast v)) (a\<lparr>ra_count := Some v\<rparr>)"
  "rstr s \<Longrightarrow> reads d (rd_rate_step ''event'' a) (put_text s) (a\<lparr>ra_event := Some s\<rparr>)"
  "reads d (rd_rate_step ''per_ms'' a) (put_u64 n) (a\<lparr>ra_per_ms := Some n\<rparr>)"
  by (simp_all add: rd_rate_step_def)
    (rule reads_andthen1 reads_small reads_u64 reads_text reads_ret | assumption)+

lemma reads_rate: "rate_ok r \<Longrightarrow> reads 1 rd_rate (encode_rate r) r"
proof -
  assume r: "rate_ok r"
  let ?es = "[(''count'', put_u64 (ucast (rate_count r))), (''event'', put_text (rate_event r)), (''per_ms'', put_u64 (rate_per_ms r))]"
  have e: "encode_rate r = put_entries ?es"
    unfolding encode_rate_def Let_def mb_insert_Nil mb_of_simps
    by (rule keys_ok_finish) (simp_all add: rate_keys)
  have "steps 0 rd_rate_step \<lparr>ra_count = None, ra_event = None, ra_per_ms = None\<rparr> ?es
    \<lparr>ra_count = Some (rate_count r), ra_event = Some (rate_event r), ra_per_ms = Some (rate_per_ms r)\<rparr>"
    by (rule stepsI rate_steps | use r in \<open>simp add: rate_ok_def\<close>)+
  from reads_map [OF this, of id] show ?thesis
    unfolding rd_rate_def e One_nat_def
    by (rule reads_andthen1) (simp_all add: keys_ok_canonical rate_keys reads_retI)
qed

interpretation ratec: put_get encode_rate rd_rate rate_ok 1
  by unfold_locales (rule reads_rate)

lemma cap_keys: "keys_ok [''name'', ''quota'', ''scopes'']" "keys_ok [''name'', ''scopes'']" by code_simp+

lemma reads_scopes:
  assumes "length ss < 2 ^ 64" "\<forall>s \<in> set ss. rstr s"
  shows "reads d (rd_many (length ss) rd_text) (concat (map put_text ss)) ss"
  by (rule reads_at, rule textc.reads_many) (use assms in simp_all)

lemma cap_steps:
  "rstr s \<Longrightarrow> reads d (rd_capability_step ''name'' a) (put_text s) (a\<lparr>ca_name := Some s\<rparr>)"
  "rstr s \<Longrightarrow> reads d (rd_capability_step ''quota'' a) (put_text s) (a\<lparr>ca_quota := Some s\<rparr>)"
  "length ss < 2 ^ 64 \<Longrightarrow> \<forall>s \<in> set ss. rstr s \<Longrightarrow>
   reads d (rd_capability_step ''scopes'' a) (put_array (length ss) @ concat (map put_text ss))
     (a\<lparr>ca_scopes := ca_scopes a @ ss\<rparr>)"
  by (simp_all add: rd_capability_step_def)
    (rule reads_andthen1 reads_text reads_ret reads_seq reads_scopes reads_retI | simp)+

lemma reads_capability: "cap_ok c \<Longrightarrow> reads 1 rd_capability (encode_capability c) c"
proof -
  assume c: "cap_ok c"
  let ?sc = "(''scopes'', put_array (length (cap_scopes c)) @ concat (map put_text (cap_scopes c)))"
  let ?es = "(''name'', put_text (cap_name c)) #
    (case cap_quota c of None \<Rightarrow> [] | Some q \<Rightarrow> [(''quota'', put_text q)]) @ [?sc]"
  have e: "encode_capability c = put_entries ?es" and k: "keys_ok (map fst ?es)"
    unfolding encode_capability_def Let_def mb_insert_Nil mb_of_simps
    by (cases "cap_quota c"; simp add: cap_keys; rule keys_ok_finish; simp add: cap_keys)+
  have "steps 0 rd_capability_step \<lparr>ca_name = None, ca_quota = None, ca_scopes = []\<rparr> ?es
    \<lparr>ca_name = Some (cap_name c), ca_quota = cap_quota c, ca_scopes = cap_scopes c\<rparr>"
    by (cases "cap_quota c"; simp only: option.case append.simps)
      (rule stepsI cap_steps | use c in \<open>simp add: cap_ok_def\<close>)+
  from reads_map [OF this, of id] show ?thesis
    unfolding rd_capability_def e One_nat_def
    by (rule reads_andthen1) (rule keys_ok_canonical [OF k], simp split: option.split, simp add: reads_retI)
qed

interpretation capc: put_get encode_capability rd_capability cap_ok 1
  by unfold_locales (rule reads_capability)

lemma constraints_keys: "keys_ok [''rates'', ''prompt_budget'']" "keys_ok [''rates'']" by code_simp+

lemma constraints_steps:
  "reads d (rd_constraints_step ''prompt_budget'' a) (put_u64 (ucast v)) (a\<lparr>c_prompt_budget := Some v\<rparr>)"
  "length rs < 2 ^ 64 \<Longrightarrow> \<forall>r \<in> set rs. rate_ok r \<Longrightarrow>
   reads 1 (rd_constraints_step ''rates'' a) (put_array (length rs) @ concat (map encode_rate rs))
     (a\<lparr>c_rates := c_rates a @ rs\<rparr>)"
  by (simp_all add: rd_constraints_step_def)
    (rule reads_andthen1 reads_small reads_seq reads_retI ratec.reads_many [unfolded One_nat_def] | simp)+

lemma reads_constraints: "constraints_ok c \<Longrightarrow> reads 2 rd_constraints (encode_constraints c) c"
proof -
  assume c: "constraints_ok c"
  let ?es = "(''rates'', put_array (length (c_rates c)) @ concat (map encode_rate (c_rates c))) #
    (case c_prompt_budget c of None \<Rightarrow> [] | Some b \<Rightarrow> [(''prompt_budget'', put_u64 (ucast b))])"
  have e: "encode_constraints c = put_entries ?es" and k: "keys_ok (map fst ?es)"
    unfolding encode_constraints_def Let_def
    by (cases "c_prompt_budget c"; simp add: constraints_keys mb_insert_Nil; rule keys_ok_finish; simp add: constraints_keys)+
  have can: "canonical ?es" by (rule keys_ok_canonical [OF k]) (simp split: option.split)
  have "steps 1 rd_constraints_step constraints_default ?es c"
    by (cases "c_prompt_budget c"; simp only: option.case)
      (rule stepsI constraints_steps | use c in \<open>simp add: constraints_ok_def constraints_default_def\<close>)+
  from reads_map [OF this can, of id] show ?thesis
    unfolding rd_constraints_def e numeral_2_eq_2 One_nat_def by simp
qed

lemma grant_keys: "keys_ok [''id'', ''issued'', ''issuer'', ''expires'', ''task_id'', ''principal'',
   ''unattended'', ''constraints'', ''capabilities'']"
  by code_simp

lemma grant_steps:
  "length cs < 2 ^ 64 \<Longrightarrow> \<forall>c \<in> set cs. cap_ok c \<Longrightarrow>
   reads 2 (rd_grant_step ''capabilities'' a) (put_array (length cs) @ concat (map encode_capability cs))
     (a\<lparr>ga_capabilities := ga_capabilities a @ cs\<rparr>)"
  "constraints_ok c \<Longrightarrow> reads 2 (rd_grant_step ''constraints'' a) (encode_constraints c) (a\<lparr>ga_constraints := c\<rparr>)"
  "reads d (rd_grant_step ''expires'' a) (put_u64 n) (a\<lparr>ga_expires := Some n\<rparr>)"
  "ulid_ok u \<Longrightarrow> reads d (rd_grant_step ''id'' a) (put_bytes (ulid_bytes u)) (a\<lparr>ga_id := Some u\<rparr>)"
  "reads d (rd_grant_step ''issued'' a) (put_u64 n) (a\<lparr>ga_issued := Some n\<rparr>)"
  "rstr s \<Longrightarrow> reads d (rd_grant_step ''issuer'' a) (put_text s) (a\<lparr>ga_issuer := Some s\<rparr>)"
  "rstr s \<Longrightarrow> reads d (rd_grant_step ''principal'' a) (put_text s) (a\<lparr>ga_principal := Some s\<rparr>)"
  "ulid_ok u \<Longrightarrow> reads d (rd_grant_step ''task_id'' a) (put_bytes (ulid_bytes u)) (a\<lparr>ga_task_id := Some u\<rparr>)"
  "reads d (rd_grant_step ''unattended'' a) (put_bool b) (a\<lparr>ga_unattended := Some b\<rparr>)"
  by (simp_all add: rd_grant_step_def)
    (rule reads_andthen1 reads_u64 reads_text reads_bool reads_id16 reads_seq reads_constraints reads_retI
       reads_mono [OF capc.reads_many] | simp add: ulid_ok_def)+

definition grant_entries :: "grant \<Rightarrow> entries" where
  "grant_entries g = [(''id'', put_bytes (ulid_bytes (g_id g))), (''issued'', put_u64 (g_issued_ms g)),
    (''issuer'', put_text (g_issuer g)), (''expires'', put_u64 (g_expires_ms g)),
    (''task_id'', put_bytes (ulid_bytes (g_task_id g))), (''principal'', put_text (g_principal g)),
    (''unattended'', put_bool (g_unattended g)), (''constraints'', encode_constraints (g_constraints g)),
    (''capabilities'', put_array (length (g_capabilities g)) @ concat (map encode_capability (g_capabilities g)))]"

lemma grant_encode_eq: "grant_encode g = put_entries (grant_entries g)"
  unfolding grant_encode_def grant_entries_def Let_def mb_insert_Nil mb_of_simps
  by (rule keys_ok_finish) (simp_all add: grant_keys add_mset_commute)

lemma reads_grant_map:
  "canonical es \<Longrightarrow> steps 2 rd_grant_step grant_acc_new es \<lparr>ga_id = Some (g_id g), ga_task_id = Some (g_task_id g),
     ga_principal = Some (g_principal g), ga_issuer = Some (g_issuer g), ga_issued = Some (g_issued_ms g),
     ga_expires = Some (g_expires_ms g), ga_unattended = Some (g_unattended g),
     ga_capabilities = g_capabilities g, ga_constraints = g_constraints g\<rparr> \<Longrightarrow>
   reads 3 grant_read (put_entries es) g"
  unfolding grant_read_def numeral_3_eq_3 numeral_2_eq_2
  by (rule reads_andthen1, rule reads_map, assumption, assumption) (simp add: reads_retI)

lemma reads_grant:
  assumes g: "grant_ok g"
  shows "reads 3 grant_read (grant_encode g) g"
  unfolding grant_encode_eq
proof (rule reads_grant_map)
  show "canonical (grant_entries g)"
    by (rule keys_ok_canonical) (simp_all add: grant_entries_def grant_keys)
qed (simp only: grant_entries_def, (rule stepsI grant_steps | use g in \<open>simp add: grant_ok_def grant_acc_new_def\<close>)+)

section \<open>The envelope\<close>

lemma rd_int_key_reads:
  assumes "inb r" "rest r = put_i64 k @ s" "- (2 ^ 63) \<le> k \<and> k < 2 ^ 63" "r_maps r = (prev, left) # fs" "left \<noteq> 0"
    "length (r_maps r) \<le> MAX_MAP_DEPTH" "\<forall>p. prev = Some p \<longrightarrow> p < put_i64 k"
  shows "rd_int_key r = Inr (k, (adv (length (put_i64 k)) r)\<lparr>r_maps := (Some (put_i64 k), left - 1) # fs\<rparr>)"
proof -
  have "rd_i64 r = Inr (k, adv (length (put_i64 k)) r)"
    by (rule readsD [OF i64c.reads_put [OF assms(3)] assms(1,2)]) (use assms(6) in simp)
  moreover have "take (length (put_i64 k)) (drop (r_pos r) (r_buf r)) = put_i64 k"
    using assms(2) by (simp add: rest_def)
  ultimately show ?thesis
    using assms(4-7)
    by (auto simp: rd_int_key_def andthen_def check_key_def ret_def Let_def not_less [symmetric]
        split: option.splits)
qed

lemma label_bytes: "put_i64 LABEL_ALG = [1]" "put_i64 LABEL_KID = [4]"
  by (simp_all add: LABEL_ALG_def LABEL_KID_def put_i64_def put_head_def MAJOR_UINT_def Let_def)

lemma protected_header_eq:
  "protected_header b3 key = put_map 2 @ put_i64 LABEL_ALG @ put_i64 ALG_EDDSA @ put_i64 LABEL_KID @ put_bytes (key_id b3 key)"
  by (simp add: protected_header_def Let_def mb_finish_def mb_insert_int_def label_bytes put_map_def sort_key_def)

lemma reads_protected:
  assumes "length kid = 32"
  shows "reads 1 (andthen (lift_err g rd_map_begin) (\<lambda>n. andthen (loop_n (unat n) rd_protected_step (None, None)) (\<lambda>a.
         andthen (lift_err g rd_map_end) (\<lambda>_. ret a))))
    (put_map 2 @ put_i64 LABEL_ALG @ put_i64 ALG_EDDSA @ put_i64 LABEL_KID @ put_bytes kid)
    (Some ALG_EDDSA, Some kid)"
proof (rule readsI)
  fix r s assume r: "inb r" "rest r = (put_map 2 @ put_i64 LABEL_ALG @ put_i64 ALG_EDDSA @ put_i64 LABEL_KID @ put_bytes kid) @ s"
    "length (r_maps r) + 1 \<le> MAX_MAP_DEPTH"
  let ?a = "put_i64 LABEL_ALG" and ?v = "put_i64 ALG_EDDSA" and ?b = "put_i64 LABEL_KID" and ?k = "put_bytes kid"
  have lab: "- (2 ^ 63) \<le> LABEL_ALG \<and> LABEL_ALG < 2 ^ 63" "- (2 ^ 63) \<le> LABEL_KID \<and> LABEL_KID < 2 ^ 63"
    "- (2 ^ 63) \<le> ALG_EDDSA \<and> ALG_EDDSA < 2 ^ 63" by (simp_all add: LABEL_ALG_def LABEL_KID_def ALG_EDDSA_def)
  define r1 where "r1 = (adv (length (put_map 2)) r)\<lparr>r_maps := (None, 2) # r_maps r\<rparr>"
  define r2 where "r2 = (adv (length ?a) r1)\<lparr>r_maps := (Some ?a, 1) # r_maps r\<rparr>"
  define r3 where "r3 = adv (length ?v) r2"
  define r4 where "r4 = (adv (length ?b) r3)\<lparr>r_maps := (Some ?b, 0) # r_maps r\<rparr>"
  define r5 where "r5 = adv (length ?k) r4"
  have s1: "inb r1" "rest r1 = ?a @ ?v @ ?b @ ?k @ s"
    using inb_adv [OF r(1), of "put_map 2"] rest_adv [of r "put_map 2"] r(2) by (simp_all add: r1_def inb_def rest_def)
  have s2: "inb r2" "rest r2 = ?v @ ?b @ ?k @ s"
    using inb_adv [OF s1(1,2)] rest_adv [OF s1(2)] by (simp_all add: r2_def inb_def rest_def)
  have s3: "inb r3" "rest r3 = ?b @ ?k @ s" "r_maps r3 = (Some ?a, 1) # r_maps r"
    using inb_adv [OF s2] rest_adv [OF s2(2)] by (simp_all add: r3_def r2_def)
  have s4: "inb r4" "rest r4 = ?k @ s"
    using inb_adv [OF s3(1,2)] rest_adv [OF s3(2)] by (simp_all add: r4_def inb_def rest_def)
  have "rd_expect MAJOR_MAP r = Inr (2, adv (length (put_map 2)) r)"
    using readsD [OF reads_expect [of MAJOR_MAP 0 2], of r] r by (simp add: put_map_def)
  then have m: "rd_map_begin r = Inr (2, r1)"
    using r(3) by (simp add: rd_map_begin_def andthen_def push_frame_def ret_def r1_def)
  have k1: "rd_int_key r1 = Inr (LABEL_ALG, r2)"
    using rd_int_key_reads [OF s1 lab(1), of None 2 "r_maps r"] r(3) by (simp add: r2_def r1_def)
  have v1: "rd_i64 r2 = Inr (ALG_EDDSA, r3)"
    using readsD [OF i64c.reads_put [OF lab(3)] s2] r(3) by (simp add: r3_def r2_def)
  have k2: "rd_int_key r3 = Inr (LABEL_KID, r4)"
    using rd_int_key_reads [OF s3(1,2) lab(2) s3(3)] r(3) s3(3) by (simp add: r4_def label_bytes)
  have v2: "rd_byte_array 32 r4 = Inr (kid, r5)"
    using readsD [OF reads_byte_array [OF assms, of 0] s4] r(3) by (simp add: r5_def r4_def)
  have e: "rd_map_end r5 = Inr ((), r5\<lparr>r_maps := r_maps r\<rparr>)"
    by (simp add: rd_map_end_def r5_def r4_def)
  have ne: "LABEL_KID \<noteq> LABEL_ALG" by (simp add: LABEL_ALG_def LABEL_KID_def)
  have "loop_n (Suc (Suc 0)) rd_protected_step (None, None) r1 = Inr ((Some ALG_EDDSA, Some kid), r5)"
    using k1 v1 k2 v2 ne by (simp add: andthen_def lift_err_def rd_protected_step_def ret_def)
  moreover have "unat (2 :: u64) = Suc (Suc 0)" by simp
  ultimately have loop: "loop_n (unat (2 :: u64)) rd_protected_step (None, None) r1 = Inr ((Some ALG_EDDSA, Some kid), r5)"
    by (simp only:)
  have "r5\<lparr>r_maps := r_maps r\<rparr> = adv (length (put_map 2 @ ?a @ ?v @ ?b @ ?k)) r"
    by (simp add: r5_def r4_def r3_def r2_def r1_def adv_def add.assoc)
  then show "andthen (lift_err g rd_map_begin) (\<lambda>n. andthen (loop_n (unat n) rd_protected_step (None, None)) (\<lambda>a.
         andthen (lift_err g rd_map_end) (\<lambda>_. ret a))) r =
    Inr ((Some ALG_EDDSA, Some kid), adv (length (put_map 2 @ ?a @ ?v @ ?b @ ?k)) r)"
    using m loop e by (simp add: andthen_def lift_err_def ret_def del: loop_n.simps)
qed

lemma read_protected_header: "length (b3 key) = 32 \<Longrightarrow> read_protected (protected_header b3 key) = Inr (ALG_EDDSA, key_id b3 key)"
  unfolding read_protected_def protected_header_eq
  by (subst run_whole_reads [OF reads_protected]) (simp_all add: key_id_def MAX_MAP_DEPTH_def)

lemma mb_finish_Nil: "mb_finish [] = put_map 0"
  by (simp add: mb_finish_def put_map_def)

lemma reads_empty_map:
  assumes "reads d p bs v"
  shows "reads (Suc d) (andthen (lift_err g rd_map_begin) (\<lambda>k. if k \<noteq> 0 then fail e else
     andthen (lift_err g rd_map_end) (\<lambda>_. p))) (put_map 0 @ bs) v"
proof (rule readsI)
  fix r s assume r: "inb r" "rest r = (put_map 0 @ bs) @ s" "length (r_maps r) + Suc d \<le> MAX_MAP_DEPTH"
  have "rd_expect MAJOR_MAP r = Inr (0, adv (length (put_map 0)) r)"
    using readsD [OF reads_expect [of MAJOR_MAP 0 0], of r] r by (simp add: put_map_def)
  then have m: "rd_map_begin r = Inr (0, (adv (length (put_map 0)) r)\<lparr>r_maps := (None, 0) # r_maps r\<rparr>)"
    using r(3) by (simp add: rd_map_begin_def andthen_def push_frame_def ret_def)
  have "p (adv (length (put_map 0)) r) = Inr (v, adv (length bs) (adv (length (put_map 0)) r))"
    using readsD [OF assms inb_adv [OF r(1), of "put_map 0"] rest_adv [of r "put_map 0"]] r by simp
  moreover have "adv (length (put_map 0)) r\<lparr>r_maps := r_maps r\<rparr> = adv (length (put_map 0)) r"
    by (simp add: adv_def)
  ultimately show "andthen (lift_err g rd_map_begin) (\<lambda>k. if k \<noteq> 0 then fail e else
     andthen (lift_err g rd_map_end) (\<lambda>_. p)) r = Inr (v, adv (length (put_map 0 @ bs)) r)"
    using m by (simp add: andthen_def lift_err_def rd_map_end_def adv_def add.assoc)
qed

lemma reads_envelope:
  assumes "length prot < 2 ^ 64" "length payload < 2 ^ 64" "length sig = 64"
  shows "reads 1 rd_envelope (cose_sign1 prot payload sig) (prot, payload, sig)"
proof -
  have tail: "reads 0 (andthen (lift_err Malformed rd_bytes) (\<lambda>payload.
     andthen (lift_err Malformed (rd_byte_array 64)) (\<lambda>sig. ret (prot, payload, sig))))
     (put_bytes payload @ put_bytes sig) (prot, payload, sig)"
    by (rule reads_andthen [OF reads_lift [OF reads_bytes]], rule assms(2),
        rule reads_andthen1 [OF reads_lift [OF reads_byte_array]]) (use assms(3) in simp_all)
  show ?thesis
    unfolding rd_envelope_def cose_sign1_def mb_finish_Nil
    by (rule reads_andthen [OF reads_lift [OF reads_array_len]], simp, simp,
        rule reads_andthen [OF reads_lift [OF reads_bytes]], rule assms(1))
      (use reads_empty_map [OF tail, of Malformed UnprotectedHeaderNotEmpty] in simp)
qed

lemma exact_empty_map:
  assumes "exact p Q"
  shows "exact (andthen (lift_err g rd_map_begin) (\<lambda>k. if k \<noteq> 0 then fail e else
     andthen (lift_err g rd_map_end) (\<lambda>_. p))) (\<lambda>v bs. \<exists>b. bs = put_map 0 @ b \<and> Q v b)"
proof (rule exactI)
  fix r v r' assume r: "inb r" and run: "andthen (lift_err g rd_map_begin) (\<lambda>k. if k \<noteq> 0 then fail e else
     andthen (lift_err g rd_map_end) (\<lambda>_. p)) r = Inr (v, r')"
  then obtain r1 where b: "rd_map_begin r = Inr (0, r1)" and rest1: "andthen (lift_err g rd_map_end) (\<lambda>_. p) r1 = Inr (v, r')"
    by (auto simp: andthen_def lift_err_def map_err_def fail_def split: sum.splits if_splits)
  from b obtain r0 where x: "rd_expect MAJOR_MAP r = Inr (0, r0)" and r1: "r1 = r0\<lparr>r_maps := (None, 0) # r_maps r0\<rparr>"
    by (auto simp: rd_map_begin_def andthen_def push_frame_def ret_def split: sum.splits if_splits)
  from exactE [OF exact_expect r x] obtain bs s where
    h: "rest r = bs @ s" "r0 = adv (length bs) r" "inb r0" "rest r0 = s" "bs = put_head MAJOR_MAP 0" .
  have "p (r1\<lparr>r_maps := r_maps r0\<rparr>) = Inr (v, r')"
    using rest1 by (auto simp: andthen_def lift_err_def rd_map_end_def r1 split: if_splits)
  moreover have "r1\<lparr>r_maps := r_maps r0\<rparr> = r0" by (simp add: r1)
  ultimately have "p r0 = Inr (v, r')" by simp
  from exactE [OF assms h(3) this] obtain b t where
    q: "rest r0 = b @ t" "r' = adv (length b) r0" "Q v b" .
  have "rest r = (bs @ b) @ t" using h(1,4) q(1) by simp
  moreover have "r' = adv (length (bs @ b)) r" using q(2) h(2) by (simp add: adv_def add.assoc)
  ultimately show "\<exists>bs s. rest r = bs @ s \<and> r' = adv (length bs) r \<and> (\<exists>b. bs = put_map 0 @ b \<and> Q v b)"
    using h(5) q(3) by (intro exI [of _ "bs @ b"] exI [of _ t]) (auto simp: put_map_def)
qed

lemma exact_envelope: "exact rd_envelope (\<lambda>y bs. length (snd (snd y)) = 64 \<and> bs = cose_sign1 (fst y) (fst (snd y)) (snd (snd y)))"
  unfolding rd_envelope_def
proof (rule exact_andthen [OF exact_lift [OF exact_expect [of MAJOR_ARRAY, folded rd_array_len_def]]])
  fix n :: u64 and a assume a: "a = put_head MAJOR_ARRAY n"
  have tail: "exact (andthen (lift_err Malformed rd_bytes) (\<lambda>payload.
     andthen (lift_err Malformed (rd_byte_array 64)) (\<lambda>sig. ret (prot, payload, sig))))
     (\<lambda>y b. fst y = prot \<and> length (snd (snd y)) = 64 \<and> b = put_bytes (fst (snd y)) @ put_bytes (snd (snd y)))" for prot
    by (rule exact_andthen [OF exact_lift [OF bytesc.exact_get]],
        rule exact_andthen [OF exact_lift [OF exact_byte_array]]) simp
  show "exact (if n \<noteq> 4 then fail (Malformed Type) else andthen (lift_err Malformed rd_bytes) (\<lambda>prot.
     andthen (lift_err Malformed rd_map_begin) (\<lambda>k. if k \<noteq> 0 then fail UnprotectedHeaderNotEmpty else
     andthen (lift_err Malformed rd_map_end) (\<lambda>_.
     andthen (lift_err Malformed rd_bytes) (\<lambda>payload.
     andthen (lift_err Malformed (rd_byte_array 64)) (\<lambda>sig. ret (prot, payload, sig)))))))
     (\<lambda>y b. length (snd (snd y)) = 64 \<and> a @ b = cose_sign1 (fst y) (fst (snd y)) (snd (snd y)))"
  proof (rule exact_if, simp)
    assume n: "\<not> n \<noteq> 4"
    show "exact (andthen (lift_err Malformed rd_bytes) (\<lambda>prot.
     andthen (lift_err Malformed rd_map_begin) (\<lambda>k. if k \<noteq> 0 then fail UnprotectedHeaderNotEmpty else
     andthen (lift_err Malformed rd_map_end) (\<lambda>_.
     andthen (lift_err Malformed rd_bytes) (\<lambda>payload.
     andthen (lift_err Malformed (rd_byte_array 64)) (\<lambda>sig. ret (prot, payload, sig)))))))
     (\<lambda>y b. length (snd (snd y)) = 64 \<and> a @ b = cose_sign1 (fst y) (fst (snd y)) (snd (snd y)))"
    proof (rule exact_andthen [OF exact_lift [OF bytesc.exact_get]])
    fix prot b assume "length prot < 2 ^ 64 \<and> b = put_bytes prot"
    with n show "exact (andthen (lift_err Malformed rd_map_begin) (\<lambda>k. if k \<noteq> 0 then fail UnprotectedHeaderNotEmpty else
     andthen (lift_err Malformed rd_map_end) (\<lambda>_.
     andthen (lift_err Malformed rd_bytes) (\<lambda>payload.
     andthen (lift_err Malformed (rd_byte_array 64)) (\<lambda>sig. ret (prot, payload, sig))))))
     (\<lambda>y c. length (snd (snd y)) = 64 \<and> a @ b @ c = cose_sign1 (fst y) (fst (snd y)) (snd (snd y)))"
      by (intro exact_mono [OF exact_empty_map [OF tail]]) (auto simp: a cose_sign1_def mb_finish_Nil put_array_def)
    qed
  qed
qed

lemma length_put_i64: "length (put_i64 v) \<le> 9"
  by (simp add: put_i64_def length_put_head)

text \<open>Every grant is read back from its payload unchanged.\<close>

theorem grant_round_trip:
  assumes "grant_ok g"
  shows "grant_decode (grant_encode g) = Inr g"
  unfolding grant_decode_def
  by (rule run_whole_reads [OF reads_grant [OF assms]]) (simp add: MAX_MAP_DEPTH_def)

text \<open>C5: What \<open>Grant::verify\<close> returns was signed: the bytes are a COSE_Sign1 of exactly one
  protected header, payload and 64-byte signature, the header names EdDSA and this key, the
  signature checks over that header and that payload, the payload decodes to this grant, and the
  grant is inside its window, with no grace on the expiry.\<close>

theorem grant_verify_sound:
  assumes "grant_verify b3 ed cose key now = Inr g"
  shows "\<exists>prot payload sig. cose = cose_sign1 prot payload sig \<and> length sig = 64 \<and>
    read_protected prot = Inr (ALG_EDDSA, key_id b3 key) \<and> ed key (sig_structure prot payload) sig \<and>
    grant_decode payload = Inr g \<and> now < g_expires_ms g \<and>
    unat (g_issued_ms g) \<le> unat now + unat CLOCK_SKEW_MS"
proof -
  from assms obtain prot payload sig alg kid where
    e: "run_whole Malformed rd_envelope cose = Inr (prot, payload, sig)" and p: "read_protected prot = Inr (alg, kid)"
    and k: "alg = ALG_EDDSA" "kid = key_id b3 key" "ed key (sig_structure prot payload) sig"
    and d: "grant_decode payload = Inr g" "is_valid_at g now = Inr ()"
    by (auto simp: grant_verify_def rbind_Inr_iff split: if_splits)
  have "cose = cose_sign1 prot payload sig \<and> length sig = 64"
    using run_whole_exact [OF exact_envelope e] by simp
  moreover have "now < g_expires_ms g" using d(2) by (simp add: is_valid_at_def not_le split: if_splits)
  moreover have "unat (g_issued_ms g) \<le> unat (sat_add now CLOCK_SKEW_MS)"
    using d(2) by (simp add: is_valid_at_def not_less word_le_nat_alt split: if_splits)
  ultimately show ?thesis using p k d(1) unfolding unat_sat_add by auto
qed

lemma verify_complete:
  assumes "grant_ok g" "length (b3 key) = 32" "length sig = 64" "length (grant_encode g) < 2 ^ 64"
    and "ed key (sig_structure (protected_header b3 key) (grant_encode g)) sig"
    and "now < g_expires_ms g" "unat (g_issued_ms g) \<le> unat now"
  shows "grant_verify b3 ed (cose_sign1 (protected_header b3 key) (grant_encode g) sig) key now = Inr g"
proof -
  have "length (protected_header b3 key) < 2 ^ 64"
    using length_put_head [of MAJOR_MAP 2] length_put_head [of MAJOR_BYTES "word_of_nat (length (b3 key))"]
      length_put_i64 [of ALG_EDDSA] assms(2)
    unfolding protected_header_eq put_map_def put_bytes_def label_bytes key_id_def by simp
  then have e: "run_whole Malformed rd_envelope (cose_sign1 (protected_header b3 key) (grant_encode g) sig) =
      Inr (protected_header b3 key, grant_encode g, sig)"
    by (intro run_whole_reads [OF reads_envelope]) (use assms in \<open>simp_all add: MAX_MAP_DEPTH_def\<close>)
  have "unat now < 18446744073709551616" by (rule u64_bound)
  then have "unat now \<le> 18446744073709551615" by linarith
  then have "unat (g_issued_ms g) \<le> unat (sat_add now CLOCK_SKEW_MS)"
    using assms(7) unfolding unat_sat_add by simp
  then have "is_valid_at g now = Inr ()"
    using assms(6) by (auto simp: is_valid_at_def word_le_nat_alt word_less_nat_alt)
  moreover have "grant_decode (grant_encode g) = Inr g"
    unfolding grant_decode_def
    by (rule run_whole_reads [OF reads_grant [OF assms(1)]]) (simp add: MAX_MAP_DEPTH_def)
  ultimately show ?thesis
    using assms(5) by (simp add: grant_verify_def e read_protected_header [of b3 key] assms(2))
qed

text \<open>A grant signed by the key \<open>abyss\<close> holds is accepted inside its window, whatever it grants:
  the verifier refuses nothing the issuer can produce.\<close>

theorem grant_verify_complete:
  assumes "grant_ok g" "length (b3 key) = 32" "length sig = 64" "length (grant_encode g) < 2 ^ 64"
    and "ed key (sig_structure (protected_header b3 key) (grant_encode g)) sig"
    and "now < g_expires_ms g" "unat (g_issued_ms g) \<le> unat now"
  shows "grant_verify b3 ed (cose_sign1 (protected_header b3 key) (grant_encode g) sig) key now = Inr g"
  using assms by (rule verify_complete)

lemmas encode_bytes = put_entries_def put_map_def put_pairs_def put_head_def put_text_def put_bytes_def put_u64_def
  put_bool_def put_array_def major_defs Let_def encode_constraints_def encode_capability_def encode_rate_def
  mb_finish_def mb_insert_def mb_insert_opt_def sort_key_def

definition sample_grant :: grant where
  "sample_grant = \<lparr>g_id = Ulid (replicate 16 1), g_principal = ''agent:a'', g_issued_ms = 5, g_expires_ms = 900,
     g_issuer = ''policyd'', g_task_id = Ulid (replicate 16 2),
     g_capabilities = [\<lparr>cap_name = ''scene.list'', cap_scopes = [''class:private''], cap_quota = None\<rparr>],
     g_constraints = \<lparr>c_rates = [\<lparr>rate_event = ''input'', rate_count = 3, rate_per_ms = 1000\<rparr>], c_prompt_budget = Some 3\<rparr>,
     g_unattended = False\<rparr>"

lemma sample_grant_ok: "grant_ok sample_grant"
  by (simp add: grant_ok_def sample_grant_def ulid_ok_def cap_ok_def constraints_ok_def rate_ok_def rstr_def utf8_ascii)

lemma grant_round_trip_witness: "grant_decode (grant_encode sample_grant) = Inr sample_grant"
  by (rule grant_round_trip [OF sample_grant_ok])

lemma sample_length: "length (grant_encode sample_grant) < 2 ^ 64"
  unfolding grant_encode_eq
  by (simp add: sample_grant_def grant_entries_def encode_bytes)

lemma sample_verifies:
  "grant_verify (\<lambda>_. replicate 32 9) (\<lambda>_ _ sig. sig = replicate 64 3)
     (cose_sign1 (protected_header (\<lambda>_. replicate 32 9) [8]) (grant_encode sample_grant) (replicate 64 3)) [8] 100 = Inr sample_grant"
proof (rule verify_complete [OF sample_grant_ok])
  show "length (grant_encode sample_grant) < 2 ^ 64"
    by (rule sample_length)
qed (simp_all add: sample_grant_def)

lemma grant_verify_complete_witness:
  "grant_verify (\<lambda>_. replicate 32 9) (\<lambda>_ _ sig. sig = replicate 64 3)
     (cose_sign1 (protected_header (\<lambda>_. replicate 32 9) [8]) (grant_encode sample_grant) (replicate 64 3)) [8] 100 = Inr sample_grant"
proof (rule grant_verify_complete [OF sample_grant_ok])
  show "length (grant_encode sample_grant) < 2 ^ 64" by (rule sample_length)
qed (simp_all add: sample_grant_def)

lemma grant_verify_sound_witness:
  "\<exists>prot payload sig. cose_sign1 (protected_header (\<lambda>_. replicate 32 9) [8]) (grant_encode sample_grant) (replicate 64 3) =
     cose_sign1 prot payload sig \<and> grant_decode payload = Inr sample_grant"
  using grant_verify_sound [of "\<lambda>_. replicate 32 9" "\<lambda>_ _ sig. sig = replicate 64 3"
      "cose_sign1 (protected_header (\<lambda>_. replicate 32 9) [8]) (grant_encode sample_grant) (replicate 64 3)" "[8]" 100 sample_grant]
    sample_verifies by blast

definition lean_payload :: "byte list" where
  "lean_payload = put_entries [(''id'', put_bytes (replicate 16 1)), (''issued'', put_u64 5), (''issuer'', put_text ''p''),
     (''expires'', put_u64 900), (''task_id'', put_bytes (replicate 16 2)), (''principal'', put_text ''agent:a''),
     (''unattended'', put_bool False)]"

definition lean_grant :: grant where
  "lean_grant = \<lparr>g_id = Ulid (replicate 16 1), g_principal = ''agent:a'', g_issued_ms = 5, g_expires_ms = 900,
     g_issuer = ''p'', g_task_id = Ulid (replicate 16 2), g_capabilities = [], g_constraints = constraints_default,
     g_unattended = False\<rparr>"

lemma lean_keys: "keys_ok [''id'', ''issued'', ''issuer'', ''expires'', ''task_id'', ''principal'', ''unattended'']"
  by code_simp

text \<open>The payload decoder takes absent \<open>capabilities\<close> and \<open>constraints\<close> as empty, so two byte
  strings carry the same grant and re-encoding a decoded payload need not give its bytes back.\<close>

theorem grant_payload_not_canonical:
  "grant_decode lean_payload = Inr lean_grant \<and> grant_decode (grant_encode lean_grant) = Inr lean_grant \<and>
   grant_encode lean_grant \<noteq> lean_payload"
proof (intro conjI)
  have str: "rstr ''p''" "rstr ''agent:a''" by (simp_all add: rstr_def utf8_ascii)
  have u: "put_bytes (replicate 16 n) = put_bytes (ulid_bytes (Ulid (replicate 16 n)))" for n by simp
  have "reads 3 grant_read lean_payload lean_grant"
    unfolding lean_payload_def
  proof (rule reads_grant_map, goal_cases)
    case 1
    show ?case by (rule keys_ok_canonical) (simp_all add: lean_keys)
  next
    case 2
    show ?case
      unfolding u by (rule stepsI grant_steps | simp add: str ulid_ok_def grant_acc_new_def lean_grant_def)+
  qed
  then show "grant_decode lean_payload = Inr lean_grant"
    unfolding grant_decode_def by (rule run_whole_reads) (simp add: MAX_MAP_DEPTH_def)
  have "grant_ok lean_grant"
    by (simp add: grant_ok_def lean_grant_def ulid_ok_def constraints_ok_def constraints_default_def str)
  then show "grant_decode (grant_encode lean_grant) = Inr lean_grant"
    unfolding grant_decode_def by (rule run_whole_reads [OF reads_grant]) (simp add: MAX_MAP_DEPTH_def)
  have "hd (grant_encode lean_grant) \<noteq> hd lean_payload"
    unfolding grant_encode_eq
    by (simp add: grant_entries_def lean_payload_def put_entries_def put_map_def put_head_def Let_def major_defs)
  then show "grant_encode lean_grant \<noteq> lean_payload" by auto
qed

end
