(* ===== verification/Scope.thy ===== *)
theory Scope
  imports Grant
begin

text \<open>
  Scopes and visibility: \<open>ec-policy-eval/src/scope.rs\<close>. The \<open>regex\<close> crate is not part of the
  repository: a compiled \<open>Regex\<close> is its source text, and the crate's behaviour is two parameters,
  \<open>rxok src\<close> (\<open>Regex::new\<close> accepts the source) and \<open>rx src text\<close> (\<open>is_match\<close>).
\<close>

section \<open>Data\<close>

datatype sclass = Public | Private | Secret

instantiation sclass :: linorder
begin

definition class_rank :: "sclass \<Rightarrow> nat" where
  "class_rank c = (case c of Public \<Rightarrow> 0 | Private \<Rightarrow> 1 | Secret \<Rightarrow> 2)"

definition less_eq_sclass :: "sclass \<Rightarrow> sclass \<Rightarrow> bool" where
  "less_eq_sclass a b \<longleftrightarrow> class_rank a \<le> class_rank b"

definition less_sclass :: "sclass \<Rightarrow> sclass \<Rightarrow> bool" where
  "less_sclass a b \<longleftrightarrow> class_rank a < class_rank b"

instance
  by standard (auto simp: less_eq_sclass_def less_sclass_def class_rank_def split: sclass.splits)

end

lemmas sclass_order = less_eq_sclass_def less_sclass_def class_rank_def

lemma Public_least [simp]: "Public \<le> c"
  by (simp add: sclass_order)

lemma Secret_greatest [simp]: "c \<le> Secret"
  by (cases c) (simp_all add: sclass_order)

lemma Public_less [simp]: "Public < c \<longleftrightarrow> c \<noteq> Public"
  by (cases c) (simp_all add: sclass_order)

type_synonym regex = string

datatype workspace_sel = WsId u64 | WsOwn | WsHuman

datatype output_sel = OutId string | OutVirtual | OutPhysical

datatype glob = Glob string

datatype scope = Workspace workspace_sel | Output output_sel | AppId glob | Title regex | Handle u64
  | LaunchedBySelf bool | Class sclass | Content

datatype scope_error = Malformed | UnknownKind | BadValue

section \<open>Globs\<close>

definition glob_as_str :: "glob \<Rightarrow> string" where
  "glob_as_str g = (case g of Glob p \<Rightarrow> p)"

text \<open>The two loops of \<open>Glob::matches\<close>, on positions as in the source; \<open>None\<close> is a loop that does not end.\<close>

fun glob_tail :: "string \<Rightarrow> nat \<Rightarrow> nat \<Rightarrow> bool" where
  "glob_tail p 0 pi = (pi = length p)"
| "glob_tail p (Suc k) pi = (if pi < length p \<and> p ! pi = CHR ''*'' then glob_tail p k (pi + 1) else pi = length p)"

partial_function (option) glob_loop ::
  "string \<Rightarrow> string \<Rightarrow> nat \<Rightarrow> nat \<Rightarrow> nat option \<Rightarrow> nat \<Rightarrow> bool option" where
  [code]: "glob_loop p s pi si star mark =
    (if si < length s then
       if pi < length p \<and> (p ! pi = CHR ''?'' \<or> p ! pi = s ! si) then
         glob_loop p s (pi + 1) (si + 1) star mark
       else if pi < length p \<and> p ! pi = CHR ''*'' then glob_loop p s (pi + 1) si (Some pi) si
       else case star of
           Some sp \<Rightarrow> glob_loop p s (sp + 1) (mark + 1) star (mark + 1)
         | None \<Rightarrow> Some False
     else Some (glob_tail p (length p) pi))"

definition glob_matches :: "glob \<Rightarrow> string \<Rightarrow> bool" where
  "glob_matches g s = (case g of Glob p \<Rightarrow> glob_loop p s 0 0 None 0 = Some True)"

section \<open>Parsing\<close>

fun split_once :: "char \<Rightarrow> string \<Rightarrow> (string \<times> string) option" where
  "split_once c [] = None"
| "split_once c (x # xs) = (if x = c then Some ([], xs)
     else map_option (\<lambda>(a, b). (x # a, b)) (split_once c xs))"

definition scope_parse :: "(regex \<Rightarrow> bool) \<Rightarrow> string \<Rightarrow> scope_error + scope" where
  "scope_parse rxok s = rbind (ok_or Malformed (split_once CHR '':'' s)) (\<lambda>(kind, v).
     if v = [] then Inl Malformed
     else if kind = ''workspace'' then
       if v = ''own'' then Inr (Workspace WsOwn)
       else if v = ''human'' then Inr (Workspace WsHuman)
       else map_sum id (\<lambda>n. Workspace (WsId n)) (ok_or BadValue (parse_u64 v))
     else if kind = ''output'' then
       if v = ''virtual'' then Inr (Output OutVirtual)
       else if v = ''physical'' then Inr (Output OutPhysical)
       else Inr (Output (OutId v))
     else if kind = ''app_id'' then Inr (AppId (Glob v))
     else if kind = ''title'' then
       (let re = ''^(?:'' @ v @ '')$'' in if rxok re then Inr (Title re) else Inl BadValue)
     else if kind = ''handle'' then map_sum id Handle (ok_or BadValue (parse_u64 v))
     else if kind = ''principal'' then
       if v = ''launched_by_self'' then Inr (LaunchedBySelf True)
       else if v = ''any'' then Inr (LaunchedBySelf False) else Inl BadValue
     else if kind = ''class'' then
       if v = ''public'' then Inr (Class Public)
       else if v = ''private'' then Inr (Class Private)
       else if v = ''secret'' then Inr (Class Secret) else Inl BadValue
     else if kind = ''url'' \<or> kind = ''path'' \<or> kind = ''host'' \<or> kind = ''node_role'' then Inr Content
     else Inl UnknownKind)"

section \<open>Windows and lines\<close>

record workspace_facts =
  ws_id :: u64
  ws_human :: bool
  ws_own :: bool

record output_facts =
  out_id :: u64
  out_name :: string
  out_is_virtual :: bool

record window_facts =
  wf_handle :: u64
  wf_app_id :: string
  wf_title :: string
  wf_workspace :: "workspace_facts option"
  wf_output :: "output_facts option"
  wf_class :: sclass
  wf_launched_by_self :: bool
  wf_no_agent :: bool

fun scope_matches :: "(regex \<Rightarrow> string \<Rightarrow> bool) \<Rightarrow> scope \<Rightarrow> window_facts \<Rightarrow> bool" where
  "scope_matches rx (Workspace sel) w = (case (sel, wf_workspace w) of
     (_, None) \<Rightarrow> False
   | (WsId i, Some ws) \<Rightarrow> ws_id ws = i
   | (WsOwn, Some ws) \<Rightarrow> \<not> ws_human ws \<and> ws_own ws
   | (WsHuman, Some ws) \<Rightarrow> ws_human ws)"
| "scope_matches rx (Output sel) w = (case (sel, wf_output w) of
     (_, None) \<Rightarrow> False
   | (OutVirtual, Some out) \<Rightarrow> out_is_virtual out
   | (OutPhysical, Some out) \<Rightarrow> \<not> out_is_virtual out
   | (OutId i, Some out) \<Rightarrow> out_name out = i \<or> parse_u64 i = Some (out_id out))"
| "scope_matches rx (AppId g) w = glob_matches g (wf_app_id w)"
| "scope_matches rx (Title re) w = rx re (wf_title w)"
| "scope_matches rx (Handle h) w = (wf_handle w = h)"
| "scope_matches rx (LaunchedBySelf required) w = (\<not> required \<or> wf_launched_by_self w)"
| "scope_matches rx (Class c) w = True"
| "scope_matches rx Content w = False"

record line =
  ln_scopes :: "scope list"
  ln_ceiling :: sclass

definition class_clauses :: "scope list \<Rightarrow> sclass list" where
  "class_clauses ss = List.map_filter (\<lambda>s. case s of Class c \<Rightarrow> Some c | _ \<Rightarrow> None) ss"

definition line_compile :: "(regex \<Rightarrow> bool) \<Rightarrow> string list \<Rightarrow> line option" where
  "line_compile rxok strs =
     (if strs = [] then None
      else case collect_results (map (scope_parse rxok) strs) of
        Inl e \<Rightarrow> None
      | Inr ss \<Rightarrow> Some \<lparr>ln_scopes = ss,
          ln_ceiling = (case class_clauses ss of [] \<Rightarrow> Public | c # cs \<Rightarrow> fold min cs c)\<rparr>)"

definition line_reaches :: "(regex \<Rightarrow> string \<Rightarrow> bool) \<Rightarrow> line \<Rightarrow> window_facts \<Rightarrow> bool" where
  "line_reaches rx l w \<longleftrightarrow> wf_class w \<le> ln_ceiling l \<and> (\<forall>s \<in> set (ln_scopes l). scope_matches rx s w)"

section \<open>Views\<close>

type_synonym scene_view = "line list"

definition SCENE_LIST :: string where "SCENE_LIST = ''scene.list''"
definition SCENE_READ :: string where "SCENE_READ = ''scene.read''"

definition view_compile_for :: "(regex \<Rightarrow> bool) \<Rightarrow> string \<Rightarrow> grant list \<Rightarrow> scene_view" where
  "view_compile_for rxok cap grants =
     List.map_filter (\<lambda>c. line_compile rxok (cap_scopes c))
       (filter (\<lambda>c. cap_name c = cap) (concat (map g_capabilities grants)))"

definition view_compile :: "(regex \<Rightarrow> bool) \<Rightarrow> grant list \<Rightarrow> scene_view" where
  "view_compile rxok grants = view_compile_for rxok SCENE_LIST grants"

definition view_visible :: "(regex \<Rightarrow> string \<Rightarrow> bool) \<Rightarrow> scene_view \<Rightarrow> window_facts \<Rightarrow> bool" where
  "view_visible rx v w \<longleftrightarrow> \<not> wf_no_agent w \<and> (\<exists>l \<in> set v. line_reaches rx l w)"

section \<open>Correctness of the glob loop\<close>

text \<open>What a \<open>*\<close>/\<open>?\<close> pattern means.\<close>

fun glob_spec :: "string \<Rightarrow> string \<Rightarrow> bool" where
  "glob_spec [] s = (s = [])"
| "glob_spec (c # p) s =
    (if c = CHR ''*'' then glob_spec p s \<or> (case s of [] \<Rightarrow> False | _ # t \<Rightarrow> glob_spec (c # p) t)
     else (case s of [] \<Rightarrow> False | d # t \<Rightarrow> (c = CHR ''?'' \<or> c = d) \<and> glob_spec p t))"

declare glob_spec.simps [simp del]

lemma glob_spec_Nil [simp]: "glob_spec [] s \<longleftrightarrow> s = []"
  by (simp add: glob_spec.simps)

lemma ex_le_Suc: "(\<exists>k \<le> Suc n. P k) \<longleftrightarrow> P 0 \<or> (\<exists>k \<le> n. P (Suc k))"
  using less_Suc_eq_0_disj [of _ "Suc n"] by (auto simp: less_Suc_eq_le)

lemma glob_spec_star: "glob_spec (CHR ''*'' # p) s \<longleftrightarrow> (\<exists>k \<le> length s. glob_spec p (drop k s))"
proof (induction s)
  case Nil
  then show ?case by (subst glob_spec.simps) simp
next
  case (Cons a s)
  have "glob_spec (CHR ''*'' # p) (a # s) \<longleftrightarrow> glob_spec p (a # s) \<or> glob_spec (CHR ''*'' # p) s"
    by (subst glob_spec.simps) simp
  then show ?case unfolding Cons by (simp add: ex_le_Suc)
qed

lemma glob_spec_char:
  "c \<noteq> CHR ''*'' \<Longrightarrow> glob_spec (c # p) s \<longleftrightarrow> (\<exists>d t. s = d # t \<and> (c = CHR ''?'' \<or> c = d) \<and> glob_spec p t)"
  by (subst glob_spec.simps) (auto split: list.splits)

lemma glob_spec_char_Cons:
  "c \<noteq> CHR ''*'' \<Longrightarrow> glob_spec (c # p) (d # t) \<longleftrightarrow> (c = CHR ''?'' \<or> c = d) \<and> glob_spec p t"
  by (simp add: glob_spec_char)

lemma glob_spec_lit:
  assumes "c = CHR ''?'' \<or> c = d" "glob_spec q t"
  shows "glob_spec (c # q) (d # t)"
proof (cases "c = CHR ''*''")
  case True
  have "glob_spec q (drop 1 (d # t))" using assms(2) by simp
  then have "\<exists>k \<le> length (d # t). glob_spec q (drop k (d # t))" by (intro exI [of _ 1]) simp
  then show ?thesis unfolding True glob_spec_star .
qed (use assms in \<open>simp add: glob_spec_char_Cons\<close>)

lemma glob_spec_star_drop: "glob_spec (CHR ''*'' # p) (drop k s) \<Longrightarrow> j \<le> k \<Longrightarrow> glob_spec (CHR ''*'' # p) (drop j s)"
  unfolding glob_spec_star
proof (elim exE conjE)
  fix i assume i: "i \<le> length (drop k s)" "glob_spec p (drop i (drop k s))" "j \<le> k"
  show "\<exists>i \<le> length (drop j s). glob_spec p (drop i (drop j s))"
  proof (cases "k \<le> length s")
    case True
    then show ?thesis using i by (intro exI [of _ "k - j + i"]) (auto simp: add.commute)
  next
    case False
    then show ?thesis using i by (intro exI [of _ "length s - j"]) auto
  qed
qed

lemma glob_tail_spec: "k + pi \<ge> length p \<Longrightarrow> pi \<le> length p \<Longrightarrow> glob_tail p k pi \<longleftrightarrow> glob_spec (drop pi p) []"
proof (induction p k pi rule: glob_tail.induct)
  case (1 p pi)
  then show ?case by simp
next
  case (2 p k pi)
  show ?case
  proof (cases "pi < length p")
    case True
    then have d: "drop pi p = p ! pi # drop (Suc pi) p" by (simp add: Cons_nth_drop_Suc)
    show ?thesis
    proof (cases "p ! pi = CHR ''*''")
      case star: True
      then show ?thesis using 2 True by (simp add: d glob_spec_star)
    next
      case False
      then show ?thesis using True by (simp add: d glob_spec_char)
    qed
  next
    case False
    then show ?thesis using 2 by simp
  qed
qed

text \<open>The loop invariant: positions in range, and between the last star and \<open>pi\<close> the pattern is star-free.\<close>

definition glob_inv :: "string \<Rightarrow> string \<Rightarrow> nat \<Rightarrow> nat \<Rightarrow> nat option \<Rightarrow> nat \<Rightarrow> bool" where
  "glob_inv p s pi si star mark \<longleftrightarrow> pi \<le> length p \<and> si \<le> length s \<and>
     (case star of None \<Rightarrow> True
      | Some sp \<Rightarrow> sp < pi \<and> mark \<le> si \<and> p ! sp = CHR ''*'' \<and> pi - Suc sp = si - mark
          \<and> (CHR ''*'' \<notin> set s \<longrightarrow> (\<forall>i. sp < i \<and> i < pi \<longrightarrow> p ! i \<noteq> CHR ''*'')))"

fun retry :: "string \<Rightarrow> string \<Rightarrow> nat option \<Rightarrow> nat \<Rightarrow> bool" where
  "retry p s None mark = False"
| "retry p s (Some sp) mark = (\<exists>k > mark. k \<le> length s \<and> glob_spec (drop (Suc sp) p) (drop k s))"

lemma retry_step: "Suc mark \<le> length s \<Longrightarrow>
   retry p s (Some sp) mark \<longleftrightarrow> glob_spec (drop (Suc sp) p) (drop (Suc mark) s) \<or> retry p s (Some sp) (Suc mark)"
  unfolding retry.simps by (metis Suc_lessD Suc_lessI lessI)

text \<open>A literal prefix of the pattern consumes as many characters.\<close>

lemma glob_spec_prefix:
  "glob_spec (q @ r) t \<Longrightarrow> CHR ''*'' \<notin> set q \<Longrightarrow> length q \<le> length t \<and> glob_spec r (drop (length q) t)"
proof (induction q arbitrary: t)
  case (Cons c q)
  then obtain d u where "t = d # u" "glob_spec (q @ r) u" by (auto simp: glob_spec_char)
  then show ?case using Cons by simp
qed simp

text \<open>Reaching a second star makes the earlier one redundant.\<close>

lemma literal_gap:
  assumes inv: "glob_inv p s pi si (star :: nat option) mark" and star: "star = Some sp"
    and free: "CHR ''*'' \<notin> set s" and gs: "glob_spec (drop (Suc sp) p) t"
  shows "pi - Suc sp \<le> length t \<and> glob_spec (drop pi p) (drop (pi - Suc sp) t)"
proof -
  let ?q = "take (pi - Suc sp) (drop (Suc sp) p)"
  from inv star have sp: "sp < pi" "pi \<le> length p" "\<forall>i. sp < i \<and> i < pi \<longrightarrow> p ! i \<noteq> CHR ''*''"
    using free by (auto simp: glob_inv_def)
  have "drop (Suc sp) p = ?q @ drop pi p" using sp(1)
    by (metis Suc_leI append_take_drop_id drop_drop le_add_diff_inverse2)
  moreover have len: "length ?q = pi - Suc sp" using sp(2) by simp
  moreover have "CHR ''*'' \<notin> set ?q"
  proof
    assume "CHR ''*'' \<in> set ?q"
    then obtain i where i: "i < length ?q" "?q ! i = CHR ''*''" by (auto simp: in_set_conv_nth)
    then have "p ! (Suc sp + i) = CHR ''*''" using sp(2) by auto
    then show False using sp(3) i(1) sp(2) by auto
  qed
  ultimately show ?thesis using glob_spec_prefix [of ?q "drop pi p" t] gs by metis
qed

lemma retry_star:
  assumes inv: "glob_inv p s pi si star mark" and pi: "pi < length p" "p ! pi = CHR ''*''"
    and free: "CHR ''*'' \<notin> set s" and retry: "retry p s star mark"
  shows "glob_spec (drop pi p) (drop si s)"
proof -
  from retry obtain sp where star: "star = Some sp" by (cases star) auto
  with retry obtain k where k: "mark < k" "k \<le> length s" "glob_spec (drop (Suc sp) p) (drop k s)" by auto
  from inv star have sp: "mark \<le> si" "pi - Suc sp = si - mark" by (auto simp: glob_inv_def)
  have "glob_spec (drop pi p) (drop (pi - Suc sp + k) s)"
    using literal_gap [OF inv star free k(3)] by (simp add: add.commute)
  moreover have "si \<le> pi - Suc sp + k" using sp k by simp
  moreover have "drop pi p = CHR ''*'' # drop (Suc pi) p" using pi by (metis Cons_nth_drop_Suc)
  ultimately show ?thesis using glob_spec_star_drop by metis
qed

lemma retry_end:
  assumes inv: "glob_inv p s pi si star mark" and si: "\<not> si < length s" and free: "CHR ''*'' \<notin> set s"
  shows "\<not> retry p s star mark"
proof
  assume retry: "retry p s star mark"
  from retry obtain sp where star: "star = Some sp" by (cases star) auto
  with retry obtain k where k: "mark < k" "k \<le> length s" "glob_spec (drop (Suc sp) p) (drop k s)" by auto
  have "length s - mark \<le> length (drop k s)"
    using literal_gap [OF inv star free k(3)] inv star si by (auto simp: glob_inv_def)
  then show False using k by simp
qed

lemma retry_star_eq:
  assumes "si \<le> length s" "pi < length p"
  shows "glob_spec (drop (Suc pi) p) (drop si s) \<or> retry p s (Some pi) si
    \<longleftrightarrow> glob_spec (CHR ''*'' # drop (Suc pi) p) (drop si s)"
proof
  assume "glob_spec (drop (Suc pi) p) (drop si s) \<or> retry p s (Some pi) si"
  then obtain k where "si \<le> k" "k \<le> length s" "glob_spec (drop (Suc pi) p) (drop k s)"
    using assms(1) by (auto intro: less_imp_le)
  then show "glob_spec (CHR ''*'' # drop (Suc pi) p) (drop si s)"
    unfolding glob_spec_star by (intro exI [of _ "k - si"]) auto
next
  assume "glob_spec (CHR ''*'' # drop (Suc pi) p) (drop si s)"
  then obtain k where k: "k \<le> length s - si" "glob_spec (drop (Suc pi) p) (drop (k + si) s)"
    by (auto simp: glob_spec_star)
  then show "glob_spec (drop (Suc pi) p) (drop si s) \<or> retry p s (Some pi) si"
    using assms(1) by (cases k) (auto intro!: exI [of _ "k + si"])
qed

type_synonym glob_state = "nat \<times> nat \<times> nat option \<times> nat"

definition glob_order :: "string \<Rightarrow> string \<Rightarrow> (glob_state \<times> glob_state) set" where
  "glob_order p s = measures
     [\<lambda>(pi, si, star, mark). length p - (case star of None \<Rightarrow> 0 | Some sp \<Rightarrow> Suc sp),
      \<lambda>(pi, si, star, mark). (case star of None \<Rightarrow> 0 | Some sp \<Rightarrow> length s - mark),
      \<lambda>(pi, si, star, mark). length s - si]"

lemma wf_glob_order: "wf (glob_order p s)"
  by (simp add: glob_order_def)

lemma glob_loop_correct:
  "glob_inv p s pi si star mark \<Longrightarrow>
   \<exists>b. glob_loop p s pi si star mark = Some b
     \<and> (b \<longrightarrow> glob_spec (drop pi p) (drop si s) \<or> retry p s star mark)
     \<and> (CHR ''*'' \<notin> set s \<longrightarrow> glob_spec (drop pi p) (drop si s) \<or> retry p s star mark \<longrightarrow> b)"
proof (induction "(pi, si, star, mark)" arbitrary: pi si star mark rule: wf_induct_rule [OF wf_glob_order [of p s]])
  case (1 pi si star mark)
  note inv = \<open>glob_inv p s pi si star mark\<close>
  have dp: "drop pi p = p ! pi # drop (Suc pi) p" if "pi < length p" using that by (simp add: Cons_nth_drop_Suc)
  have ds: "drop si s = s ! si # drop (Suc si) s" if "si < length s" using that by (simp add: Cons_nth_drop_Suc)
  show ?case
  proof (cases "si < length s")
    case False
    then have si: "drop si s = []" by simp
    have none: "\<not> retry p s star mark" if "CHR ''*'' \<notin> set s"
      using retry_end [OF inv False that] .
    show ?thesis
      using inv False glob_tail_spec [of p "length p" pi] none unfolding si
      by (subst glob_loop.simps) (auto simp: glob_inv_def)
  next
    case si: True
    consider (lit) "pi < length p" "p ! pi = CHR ''?'' \<or> p ! pi = s ! si"
      | (star) "pi < length p" "p ! pi = CHR ''*''" "s ! si \<noteq> CHR ''*''"
      | (no) "pi < length p \<longrightarrow> p ! pi \<noteq> CHR ''?'' \<and> p ! pi \<noteq> s ! si \<and> p ! pi \<noteq> CHR ''*''"
      by fastforce
    then show ?thesis
    proof cases
      case lit
      have "glob_inv p s (Suc pi) (Suc si) star mark"
        using inv lit si by (fastforce simp: glob_inv_def less_Suc_eq Suc_diff_le split: option.splits dest: nth_mem)
      moreover have "((Suc pi, Suc si, star, mark), (pi, si, star, mark)) \<in> glob_order p s"
        using si by (auto simp: glob_order_def)
      ultimately obtain b where
        b: "glob_loop p s (Suc pi) (Suc si) star mark = Some b"
        "b \<longrightarrow> glob_spec (drop (Suc pi) p) (drop (Suc si) s) \<or> retry p s star mark"
        "CHR ''*'' \<notin> set s \<longrightarrow> glob_spec (drop (Suc pi) p) (drop (Suc si) s) \<or> retry p s star mark \<longrightarrow> b"
        using 1(1) by blast
      have sound: "glob_spec (drop (Suc pi) p) (drop (Suc si) s) \<Longrightarrow> glob_spec (drop pi p) (drop si s)"
        using lit glob_spec_lit by (simp add: dp ds [OF si])
      have complete: "glob_spec (drop pi p) (drop si s) \<Longrightarrow> glob_spec (drop (Suc pi) p) (drop (Suc si) s)"
        if "CHR ''*'' \<notin> set s"
      proof -
        have "p ! pi \<noteq> CHR ''*''" using lit that si nth_mem by fastforce
        then show "glob_spec (drop pi p) (drop si s) \<Longrightarrow> glob_spec (drop (Suc pi) p) (drop (Suc si) s)"
          using lit by (simp add: dp ds [OF si] glob_spec_char)
      qed
      have "glob_loop p s pi si star mark = glob_loop p s (Suc pi) (Suc si) star mark"
        using si lit by (subst glob_loop.simps) simp
      then show ?thesis using b sound complete by auto
    next
      case star
      have "glob_inv p s (Suc pi) si (Some pi) si"
        using star si by (auto simp: glob_inv_def)
      moreover have "((Suc pi, si, Some pi, si), (pi, si, star, mark)) \<in> glob_order p s"
        using inv star by (auto simp: glob_order_def glob_inv_def split: option.splits)
      ultimately obtain b where
        b: "glob_loop p s (Suc pi) si (Some pi) si = Some b"
        "b \<longrightarrow> glob_spec (drop (Suc pi) p) (drop si s) \<or> retry p s (Some pi) si"
        "CHR ''*'' \<notin> set s \<longrightarrow> glob_spec (drop (Suc pi) p) (drop si s) \<or> retry p s (Some pi) si \<longrightarrow> b"
        using 1(1) by blast
      have eq: "glob_spec (drop (Suc pi) p) (drop si s) \<or> retry p s (Some pi) si \<longleftrightarrow> glob_spec (drop pi p) (drop si s)"
        using retry_star_eq [of si s pi p] si star by (simp add: dp)
      have "glob_loop p s pi si star mark = glob_loop p s (Suc pi) si (Some pi) si"
        using si star by (subst glob_loop.simps) auto
      then show ?thesis using b retry_star [OF inv star(1,2)] unfolding eq by auto
    next
      case no
      have primary: "\<not> glob_spec (drop pi p) (drop si s)"
        using no inv by (cases "pi < length p") (auto simp: dp ds [OF si] glob_spec_char glob_inv_def si)
      show ?thesis
      proof (cases star)
        case None
        then show ?thesis using si no primary by (subst glob_loop.simps) auto
      next
        case (Some sp)
        with inv have sp: "sp < pi" "pi \<le> length p" "mark \<le> si" by (auto simp: glob_inv_def)
        have "glob_inv p s (Suc sp) (Suc mark) (Some sp) (Suc mark)"
          using inv Some si by (auto simp: glob_inv_def)
        moreover have "((Suc sp, Suc mark, Some sp, Suc mark), (pi, si, star, mark)) \<in> glob_order p s"
          using sp Some si by (auto simp: glob_order_def)
        ultimately obtain b where
          b: "glob_loop p s (Suc sp) (Suc mark) (Some sp) (Suc mark) = Some b"
          "b \<longrightarrow> glob_spec (drop (Suc sp) p) (drop (Suc mark) s) \<or> retry p s (Some sp) (Suc mark)"
          "CHR ''*'' \<notin> set s \<longrightarrow> glob_spec (drop (Suc sp) p) (drop (Suc mark) s) \<or> retry p s (Some sp) (Suc mark) \<longrightarrow> b"
          using 1(1) by blast
        have "glob_loop p s pi si star mark = glob_loop p s (Suc sp) (Suc mark) (Some sp) (Suc mark)"
          using si no Some by (subst glob_loop.simps) auto
        then show ?thesis
          using b primary retry_step [of mark s p sp] sp si by (auto simp: Some simp del: retry.simps)
      qed
    qed
  qed
qed

text \<open>C32: The glob loop always ends, whatever the pattern and the text.\<close>

theorem glob_loop_terminates: "\<exists>b. glob_loop p s 0 0 None 0 = Some b"
  using glob_loop_correct [of p s 0 0 None 0] by (auto simp: glob_inv_def)

text \<open>C31: On a text without a literal star, \<open>Glob::matches\<close> decides the declarative meaning of
  the pattern; on any text, what it accepts the pattern means.\<close>

theorem glob_matches_spec:
  "(CHR ''*'' \<notin> set s \<longrightarrow> (glob_matches (Glob p) s \<longleftrightarrow> glob_spec p s)) \<and>
   (glob_matches (Glob p) s \<longrightarrow> glob_spec p s)"
  using glob_loop_correct [of p s 0 0 None 0] by (auto simp: glob_inv_def glob_matches_def)

section \<open>Visibility\<close>

lemma collect_results_map: "collect_results (map f xs) = Inr ys \<longleftrightarrow> map f xs = map Inr ys"
proof (induction xs arbitrary: ys)
  case Nil
  then show ?case by (cases ys) auto
next
  case (Cons x xs)
  then show ?case by (cases "f x"; cases ys) (auto simp: rbind_Inr_iff)
qed

lemma collect_results_Inr_set:
  assumes "collect_results (map f xs) = Inr ys"
  shows "set ys = {y. \<exists>x \<in> set xs. f x = Inr y}"
proof -
  have "Inr ` set ys = f ` set xs"
    using arg_cong [OF assms [unfolded collect_results_map], of set] by simp
  then have "Inr y \<in> f ` set xs \<longleftrightarrow> y \<in> set ys" for y
    by (metis (no_types, lifting) image_iff sum.inject(2))
  then show ?thesis by (simp add: set_eq_iff image_iff) (metis sum.inject(2))
qed

lemma collect_results_ex: "(\<exists>ys. collect_results (map f xs) = Inr ys) \<longleftrightarrow> (\<forall>x \<in> set xs. \<exists>y. f x = Inr y)"
proof (induction xs)
  case (Cons x xs)
  then show ?case by (cases "f x") (auto simp: rbind_Inr_iff)
qed simp

lemma fold_min_le: "(x :: 'a :: linorder) \<le> fold min cs c \<longleftrightarrow> (\<forall>d \<in> set (c # cs). x \<le> d)"
  by (induction cs arbitrary: c) auto

lemma set_map_filter: "set (List.map_filter f xs) = {y. \<exists>x \<in> set xs. f x = Some y}"
  by (induction xs) (auto simp: List.map_filter_simps split: option.splits)

definition clause_ceiling :: "scope list \<Rightarrow> sclass \<Rightarrow> bool" where
  "clause_ceiling ss c \<longleftrightarrow> c = Public \<or> (\<exists>k. Class k \<in> set ss) \<and> (\<forall>k. Class k \<in> set ss \<longrightarrow> c \<le> k)"

lemma set_class_clauses: "set (class_clauses ss) = {k. Class k \<in> set ss}"
  by (induction ss) (auto simp: class_clauses_def List.map_filter_def split: scope.splits)

lemma ceiling_iff:
  "c \<le> (case class_clauses ss of [] \<Rightarrow> Public | k # ks \<Rightarrow> fold min ks k) \<longleftrightarrow> clause_ceiling ss c"
proof (cases "class_clauses ss")
  case Nil
  then have "\<nexists>k. Class k \<in> set ss" using set_class_clauses [of ss] by auto
  then show ?thesis using Nil by (cases c) (auto simp: clause_ceiling_def sclass_order)
next
  case (Cons k ks)
  then have ks: "\<And>d. d \<in> set (k # ks) \<longleftrightarrow> Class d \<in> set ss" using set_class_clauses [of ss] by auto
  have "c \<le> fold min ks k \<longleftrightarrow> (\<forall>d. Class d \<in> set ss \<longrightarrow> c \<le> d)"
    unfolding fold_min_le ks [symmetric] by blast
  moreover have "\<exists>d. Class d \<in> set ss" using ks [of k] by auto
  ultimately show ?thesis using Cons by (auto simp: clause_ceiling_def)
qed

lemma line_compile_reaches:
  "(\<exists>l. line_compile rxok strs = Some l \<and> line_reaches rx l w) \<longleftrightarrow>
   strs \<noteq> [] \<and> (\<forall>s \<in> set strs. \<exists>sc. scope_parse rxok s = Inr sc \<and> scope_matches rx sc w)
     \<and> clause_ceiling (map (\<lambda>s. projr (scope_parse rxok s)) strs) (wf_class w)"
proof (cases "collect_results (map (scope_parse rxok) strs)")
  case (Inl e)
  then have "\<not> (\<forall>s \<in> set strs. \<exists>sc. scope_parse rxok s = Inr sc)"
    unfolding collect_results_ex [symmetric] by simp
  then show ?thesis using Inl by (auto simp: line_compile_def)
next
  case (Inr ss)
  have "ss = map (\<lambda>s. projr (scope_parse rxok s)) strs"
    using arg_cong [OF Inr [unfolded collect_results_map], of "map projr"] by (simp add: comp_def)
  moreover have "(\<forall>sc \<in> set ss. scope_matches rx sc w) \<longleftrightarrow>
      (\<forall>s \<in> set strs. \<exists>sc. scope_parse rxok s = Inr sc \<and> scope_matches rx sc w)"
    using collect_results_Inr_set [OF Inr] Inr collect_results_ex [of "scope_parse rxok" strs]
    by fastforce
  ultimately show ?thesis
    using Inr by (auto simp: line_compile_def line_reaches_def ceiling_iff)
qed

text \<open>C30: A window is visible to a principal exactly when it is not marked \<open>no-agent\<close> and some
  \<open>scene.list\<close> line of some of its grants has at least one scope, every scope of it parses and
  matches the window, and the window's class is public or within the tightest \<open>class:\<close> clause of
  that same line. In particular an unscoped line and a line with an unreadable clause reach nothing.\<close>

theorem scene_visible_iff:
  "view_visible rx (view_compile rxok gs) w \<longleftrightarrow>
   \<not> wf_no_agent w \<and>
   (\<exists>g \<in> set gs. \<exists>c \<in> set (g_capabilities g).
      cap_name c = SCENE_LIST \<and> cap_scopes c \<noteq> [] \<and>
      (\<forall>s \<in> set (cap_scopes c). \<exists>sc. scope_parse rxok s = Inr sc \<and> scope_matches rx sc w) \<and>
      clause_ceiling (map (\<lambda>s. projr (scope_parse rxok s)) (cap_scopes c)) (wf_class w))"
proof -
  have "(\<exists>l \<in> set (view_compile rxok gs). line_reaches rx l w) \<longleftrightarrow>
    (\<exists>g \<in> set gs. \<exists>c \<in> set (g_capabilities g). cap_name c = SCENE_LIST \<and>
       (\<exists>l. line_compile rxok (cap_scopes c) = Some l \<and> line_reaches rx l w))"
    unfolding view_compile_def view_compile_for_def set_map_filter by fastforce
  then show ?thesis by (simp add: view_visible_def line_compile_reaches)
qed

lemma glob_matches_spec_witness:
  "glob_matches (Glob ''a*c'') ''abbc'' \<and> \<not> glob_matches (Glob ''a*c'') ''abb''"
  using glob_matches_spec [of "''abbc''" "''a*c''"] glob_matches_spec [of "''abb''" "''a*c''"]
  by (simp add: glob_spec.simps)

text \<open>On a text that holds a literal star the loop can reject what the pattern means: the
  literal test runs before the star test, so a star in the text uses up the pattern's star. A
  deny rule on \<open>*evil*\<close> is passed by the title \<open>*xevil\<close>.\<close>

theorem glob_misses_star_in_text:
  "\<not> glob_matches (Glob ''*evil*'') ''*xevil'' \<and> glob_matches (Glob ''*evil*'') ''xxevil'' \<and>
   glob_spec ''*evil*'' ''*xevil''"
  by (simp add: glob_matches_def glob_loop.simps glob_tail.simps glob_spec.simps)

lemma scene_visible_iff_witness:
  "let c = \<lparr>cap_name = SCENE_LIST, cap_scopes = [''handle:7''], cap_quota = None\<rparr>;
       g = \<lparr>g_id = Ulid [], g_principal = ''agent:a'', g_issued_ms = 0, g_expires_ms = 1, g_issuer = '''',
            g_task_id = Ulid [], g_capabilities = [c], g_constraints = constraints_default, g_unattended = False\<rparr>;
       w = \<lparr>wf_handle = 7, wf_app_id = '''', wf_title = '''', wf_workspace = None, wf_output = None,
            wf_class = Public, wf_launched_by_self = False, wf_no_agent = False\<rparr>
   in view_visible (\<lambda>_ _. False) (view_compile (\<lambda>_. True) [g]) w
      \<and> \<not> view_visible (\<lambda>_ _. False) (view_compile (\<lambda>_. True) [g]) (w\<lparr>wf_class := Private\<rparr>)"
  unfolding Let_def scene_visible_iff
  by (simp add: scope_parse_def parse_u64_def ascii_digit_def digits_val_def clause_ceiling_def SCENE_LIST_def)

end
