(* ===== verification/Check.thy ===== *)
theory Check
  imports Scope
begin

text \<open>
  The enforcement check and the classifier: \<open>ec-policy-eval/src/check.rs\<close> and \<open>classify.rs\<close>.
  Regexes are source texts matched by the parameter \<open>rx\<close>, as in \<open>Scope\<close>; an \<open>f32\<close> is its
  IEEE 754 bit pattern.
\<close>

section \<open>Single-precision comparison\<close>

type_synonym f32 = u32

definition f32_nan :: "f32 \<Rightarrow> bool" where
  "f32_nan b \<longleftrightarrow> 0x7F800000 < (b AND 0x7FFFFFFF)"

definition f32_key :: "f32 \<Rightarrow> int" where
  "f32_key b = (if bit b 31 then - uint (b AND 0x7FFFFFFF) else uint b)"

text \<open>The \<open><\<close> of \<open>f32\<close>: false on a NaN, and the two zeros are equal.\<close>

definition f32_lt :: "f32 \<Rightarrow> f32 \<Rightarrow> bool" where
  "f32_lt a b \<longleftrightarrow> \<not> f32_nan a \<and> \<not> f32_nan b \<and> f32_key a < f32_key b"

section \<open>Requests\<close>

datatype outcome = Allow | Deny | Prompt | Defer

record decision =
  d_outcome :: outcome
  d_rule :: string

definition NO_MATCH :: string where "NO_MATCH = ''default-deny''"
definition HARD_SYSTEM_TAXONOMY :: string where "HARD_SYSTEM_TAXONOMY = ''hard:system-taxonomy''"
definition HARD_POLICY_EDIT :: string where "HARD_POLICY_EDIT = ''hard:policy-edit''"
definition DEFERRED_TIMEOUT :: string where "DEFERRED_TIMEOUT = ''deferred_timeout''"

datatype trust = Untrusted | Standard | Trusted | TrustHuman

text \<open>\<open>*t as usize\<close>.\<close>

fun trust_index :: "trust \<Rightarrow> nat" where
  "trust_index Untrusted = 0"
| "trust_index Standard = 1"
| "trust_index Trusted = 2"
| "trust_index TrustHuman = 3"

record grant_fact =
  gf_capability :: string
  gf_unattended :: bool

record node_facts =
  nf_role :: string
  nf_name :: string
  nf_source :: string
  nf_confidence :: f32

text \<open>\<open>pf_trusts\<close> is a \<open>[bool; 4]\<close>.\<close>

record provenance_facts =
  pf_empty :: bool
  pf_trusts :: "bool list"
  pf_sources :: "string list"

record request_ctx =
  rc_principal :: string
  rc_profile :: string
  rc_grants :: "grant_fact list"
  rc_capability :: string
  rc_app_id :: "string option"
  rc_title :: "string option"
  rc_class :: sclass
  rc_app_trust :: trust
  rc_app_irreversible_capable :: bool
  rc_node :: "node_facts option"
  rc_url :: "string option"
  rc_irreversible :: "string option"
  rc_provenance :: provenance_facts

section \<open>Rules\<close>

datatype pred = PCapability "glob list" | PTargetClass "sclass list" | PTargetAppId "glob list"
  | PTitle regex | PNodeRole "string list" | PNodeName regex | PNodeSource "string list"
  | PNodeConfidenceLt f32 | PIrreversible "glob list" | PUrl "glob list" | PPrincipal "glob list"
  | PPrincipalProfile "string list" | PAppTrust "trust list" | PAppIrreversibleCapable bool
  | PProvenanceContainsTrust trust | PProvenanceContainsSource string | PProvenanceAbsent

record unless =
  un_capability :: string
  un_unattended :: bool

record compiled_rule =
  r_id :: string
  r_preds :: "pred list"
  r_unless :: "unless list"

record phases =
  ph_deny :: "compiled_rule list"
  ph_prompt :: "compiled_rule list"
  ph_defer :: "compiled_rule list"
  ph_allow :: "compiled_rule list"

datatype matcher = MAppId "glob list" | MTitle regex | MUrl "glob list" | MOutput "glob list"
  | MLaunchedBy "glob list" | MXwayland bool

record classify_rule =
  cr_class :: sclass
  cr_matchers :: "matcher list"

record trust_rule =
  tr_trust :: trust
  tr_matchers :: "matcher list"

record classifier =
  cl_default :: sclass
  cl_classify :: "classify_rule list"
  cl_trust :: "trust_rule list"

record table =
  tb_version :: u64
  tb_rules :: phases
  tb_classifier :: classifier

definition phases_default :: phases where
  "phases_default = \<lparr>ph_deny = [], ph_prompt = [], ph_defer = [], ph_allow = []\<rparr>"

definition classifier_default :: classifier where
  "classifier_default = \<lparr>cl_default = Private, cl_classify = [], cl_trust = []\<rparr>"

definition table_default :: table where
  "table_default = \<lparr>tb_version = 0, tb_rules = phases_default, tb_classifier = classifier_default\<rparr>"

datatype defer_answer = AnsDeny | AnsPrompt | AnsFallthrough

section \<open>Evaluation\<close>

definition any_glob :: "glob list \<Rightarrow> string \<Rightarrow> bool" where
  "any_glob globs s \<longleftrightarrow> (\<exists>g \<in> set globs. glob_matches g s)"

text \<open>\<open>Option::is_some_and\<close>.\<close>

definition is_some_and :: "'a option \<Rightarrow> ('a \<Rightarrow> bool) \<Rightarrow> bool" where
  "is_some_and x f = (case x of None \<Rightarrow> False | Some a \<Rightarrow> f a)"

fun pred_matches :: "(regex \<Rightarrow> string \<Rightarrow> bool) \<Rightarrow> pred \<Rightarrow> request_ctx \<Rightarrow> bool" where
  "pred_matches rx (PCapability g) ctx = any_glob g (rc_capability ctx)"
| "pred_matches rx (PTargetClass c) ctx = (rc_class ctx \<in> set c)"
| "pred_matches rx (PTargetAppId g) ctx = is_some_and (rc_app_id ctx) (any_glob g)"
| "pred_matches rx (PTitle re) ctx = is_some_and (rc_title ctx) (rx re)"
| "pred_matches rx (PNodeRole r) ctx = is_some_and (rc_node ctx) (\<lambda>n. nf_role n \<in> set r)"
| "pred_matches rx (PNodeName re) ctx = is_some_and (rc_node ctx) (\<lambda>n. rx re (nf_name n))"
| "pred_matches rx (PNodeSource s) ctx = is_some_and (rc_node ctx) (\<lambda>n. nf_source n \<in> set s)"
| "pred_matches rx (PNodeConfidenceLt v) ctx = is_some_and (rc_node ctx) (\<lambda>n. f32_lt (nf_confidence n) v)"
| "pred_matches rx (PIrreversible g) ctx = is_some_and (rc_irreversible ctx) (any_glob g)"
| "pred_matches rx (PUrl g) ctx = is_some_and (rc_url ctx) (any_glob g)"
| "pred_matches rx (PPrincipal g) ctx = any_glob g (rc_principal ctx)"
| "pred_matches rx (PPrincipalProfile p) ctx = (rc_profile ctx \<in> set p)"
| "pred_matches rx (PAppTrust t) ctx = (rc_app_trust ctx \<in> set t)"
| "pred_matches rx (PAppIrreversibleCapable b) ctx = (rc_app_irreversible_capable ctx = b)"
| "pred_matches rx (PProvenanceContainsTrust t) ctx = (pf_trusts (rc_provenance ctx) ! trust_index t)"
| "pred_matches rx (PProvenanceContainsSource s) ctx = (s \<in> set (pf_sources (rc_provenance ctx)))"
| "pred_matches rx PProvenanceAbsent ctx = pf_empty (rc_provenance ctx)"

definition unless_holds :: "unless \<Rightarrow> request_ctx \<Rightarrow> bool" where
  "unless_holds u ctx \<longleftrightarrow>
     (\<exists>g \<in> set (rc_grants ctx). gf_capability g = un_capability u \<and> (\<not> un_unattended u \<or> gf_unattended g))"

definition rule_matches :: "(regex \<Rightarrow> string \<Rightarrow> bool) \<Rightarrow> compiled_rule \<Rightarrow> request_ctx \<Rightarrow> bool" where
  "rule_matches rx r ctx \<longleftrightarrow>
     (\<forall>p \<in> set (r_preds r). pred_matches rx p ctx) \<and> \<not> (\<exists>u \<in> set (r_unless r). unless_holds u ctx)"

definition first :: "(regex \<Rightarrow> string \<Rightarrow> bool) \<Rightarrow> compiled_rule list \<Rightarrow> request_ctx \<Rightarrow> string option" where
  "first rx rules ctx = map_option r_id (find (\<lambda>r. rule_matches rx r ctx) rules)"

definition is_system :: "string \<Rightarrow> bool" where
  "is_system p \<longleftrightarrow> starts_with ''system:'' p"

definition hard :: "request_ctx \<Rightarrow> decision option" where
  "hard ctx =
    (if is_system (rc_principal ctx) then None
     else if is_some_and (rc_irreversible ctx) (\<lambda>t. t = ''system.policy'' \<or> t = ''system.firmware'')
       then Some \<lparr>d_outcome = Deny, d_rule = HARD_SYSTEM_TAXONOMY\<rparr>
     else if rc_capability ctx = ''policy.edit''
       then Some \<lparr>d_outcome = Deny, d_rule = HARD_POLICY_EDIT\<rparr>
     else None)"

text \<open>The loop over the four phases, in their order.\<close>

fun check_phases :: "(regex \<Rightarrow> string \<Rightarrow> bool) \<Rightarrow> request_ctx \<Rightarrow> (compiled_rule list \<times> outcome) list \<Rightarrow> decision" where
  "check_phases rx ctx [] = \<lparr>d_outcome = Deny, d_rule = NO_MATCH\<rparr>"
| "check_phases rx ctx ((rules, out) # ps) =
    (case first rx rules ctx of
       Some rule \<Rightarrow> \<lparr>d_outcome = out, d_rule = rule\<rparr>
     | None \<Rightarrow> check_phases rx ctx ps)"

definition phase_list :: "table \<Rightarrow> (compiled_rule list \<times> outcome) list" where
  "phase_list t = [(ph_deny (tb_rules t), Deny), (ph_prompt (tb_rules t), Prompt),
     (ph_defer (tb_rules t), Defer), (ph_allow (tb_rules t), Allow)]"

definition check :: "(regex \<Rightarrow> string \<Rightarrow> bool) \<Rightarrow> table \<Rightarrow> request_ctx \<Rightarrow> decision" where
  "check rx t ctx = (case hard ctx of Some d \<Rightarrow> d | None \<Rightarrow> check_phases rx ctx (phase_list t))"

definition after_defer ::
  "(regex \<Rightarrow> string \<Rightarrow> bool) \<Rightarrow> table \<Rightarrow> request_ctx \<Rightarrow> string \<Rightarrow> defer_answer option \<Rightarrow> decision" where
  "after_defer rx t ctx rule answer =
    (case answer of
       None \<Rightarrow> \<lparr>d_outcome = Deny, d_rule = DEFERRED_TIMEOUT\<rparr>
     | Some AnsDeny \<Rightarrow> \<lparr>d_outcome = Deny, d_rule = rule\<rparr>
     | Some AnsPrompt \<Rightarrow> \<lparr>d_outcome = Prompt, d_rule = rule\<rparr>
     | Some AnsFallthrough \<Rightarrow>
         (case first rx (ph_allow (tb_rules t)) ctx of
            Some rule \<Rightarrow> \<lparr>d_outcome = Allow, d_rule = rule\<rparr>
          | None \<Rightarrow> \<lparr>d_outcome = Deny, d_rule = NO_MATCH\<rparr>))"

section \<open>Classification\<close>

record target_facts =
  tf_app_id :: "string option"
  tf_title :: "string option"
  tf_url :: "string option"
  tf_output :: "string option"
  tf_launched_by :: "string option"
  tf_xwayland :: bool

record classified =
  cd_class :: sclass
  cd_x11_secret_refused :: bool

definition any_opt :: "glob list \<Rightarrow> string option \<Rightarrow> bool" where
  "any_opt globs s = is_some_and s (\<lambda>s. \<exists>g \<in> set globs. glob_matches g s)"

fun matcher_hits :: "(regex \<Rightarrow> string \<Rightarrow> bool) \<Rightarrow> matcher \<Rightarrow> target_facts \<Rightarrow> bool" where
  "matcher_hits rx (MAppId g) t = any_opt g (tf_app_id t)"
| "matcher_hits rx (MTitle re) t = is_some_and (tf_title t) (rx re)"
| "matcher_hits rx (MUrl g) t = any_opt g (tf_url t)"
| "matcher_hits rx (MOutput g) t = any_opt g (tf_output t)"
| "matcher_hits rx (MLaunchedBy g) t = any_opt g (tf_launched_by t)"
| "matcher_hits rx (MXwayland b) t = (tf_xwayland t = b)"

definition cr_hit :: "(regex \<Rightarrow> string \<Rightarrow> bool) \<Rightarrow> target_facts \<Rightarrow> classify_rule \<Rightarrow> bool" where
  "cr_hit rx t r \<longleftrightarrow> (\<exists>m \<in> set (cr_matchers r). matcher_hits rx m t)"

definition tr_hit :: "(regex \<Rightarrow> string \<Rightarrow> bool) \<Rightarrow> target_facts \<Rightarrow> trust_rule \<Rightarrow> bool" where
  "tr_hit rx t r \<longleftrightarrow> (\<exists>m \<in> set (tr_matchers r). matcher_hits rx m t)"

definition classify :: "(regex \<Rightarrow> string \<Rightarrow> bool) \<Rightarrow> classifier \<Rightarrow> target_facts \<Rightarrow> sclass \<Rightarrow> classified" where
  "classify rx c t raise =
    (let is_public = (\<exists>r \<in> set (cl_classify c). cr_class r = Public \<and> cr_hit rx t r);
         base = (if is_public then Public else cl_default c);
         raised = max (foldl max base (map cr_class
           (filter (\<lambda>r. Public < cr_class r \<and> cr_hit rx t r) (cl_classify c)))) raise
     in if tf_xwayland t \<and> raised = Secret
        then \<lparr>cd_class = Private, cd_x11_secret_refused = True\<rparr>
        else \<lparr>cd_class = raised, cd_x11_secret_refused = False\<rparr>)"

definition trust_of_target :: "(regex \<Rightarrow> string \<Rightarrow> bool) \<Rightarrow> classifier \<Rightarrow> target_facts \<Rightarrow> trust" where
  "trust_of_target rx c t =
    (if (case tf_app_id t of None \<Rightarrow> True | Some a \<Rightarrow> a = []) then Untrusted
     else if \<exists>r \<in> set (cl_trust c). tr_trust r = Untrusted \<and> tr_hit rx t r then Untrusted
     else if \<exists>r \<in> set (cl_trust c). tr_trust r = Trusted \<and> tr_hit rx t r then Trusted
     else Standard)"

section \<open>Properties of the check\<close>

lemma first_Some:
  "first rx rules ctx = Some i \<Longrightarrow> \<exists>r \<in> set rules. r_id r = i \<and> rule_matches rx r ctx"
  by (auto simp: first_def find_Some_iff)

lemma first_None: "first rx rules ctx = None \<longleftrightarrow> (\<forall>r \<in> set rules. \<not> rule_matches rx r ctx)"
  by (auto simp: first_def find_None_iff)

definition hit :: "(regex \<Rightarrow> string \<Rightarrow> bool) \<Rightarrow> request_ctx \<Rightarrow> compiled_rule list \<Rightarrow> bool" where
  "hit rx ctx rules \<longleftrightarrow> (\<exists>r \<in> set rules. rule_matches rx r ctx)"

lemma first_hit: "(\<exists>i. first rx rules ctx = Some i) \<longleftrightarrow> hit rx ctx rules"
  using first_None [of rx rules ctx] by (auto simp: hit_def)

lemma hard_Deny: "hard ctx = Some d \<Longrightarrow> d_outcome d = Deny"
  by (auto simp: hard_def split: if_splits)

lemma check_outcome_eq:
  "d_outcome (check rx t ctx) =
    (if hard ctx \<noteq> None \<or> hit rx ctx (ph_deny (tb_rules t)) then Deny
     else if hit rx ctx (ph_prompt (tb_rules t)) then Prompt
     else if hit rx ctx (ph_defer (tb_rules t)) then Defer
     else if hit rx ctx (ph_allow (tb_rules t)) then Allow
     else Deny)"
  by (auto simp: check_def phase_list_def hit_def first_None hard_Deny
      split: option.splits dest: first_Some)


text \<open>The outcome of a check does not depend on the order of the rules inside a phase, nor on
  repeated rules: two tables whose phases hold the same rules decide every request alike.\<close>

theorem check_order_irrelevant:
  assumes "set (ph_deny (tb_rules t)) = set (ph_deny (tb_rules t'))"
    and "set (ph_prompt (tb_rules t)) = set (ph_prompt (tb_rules t'))"
    and "set (ph_defer (tb_rules t)) = set (ph_defer (tb_rules t'))"
    and "set (ph_allow (tb_rules t)) = set (ph_allow (tb_rules t'))"
  shows "d_outcome (check rx t ctx) = d_outcome (check rx t' ctx)"
  using assms by (simp add: check_outcome_eq hit_def)

text \<open>C2: A table that adds deny, prompt or defer rules to another and no allow rules permits
  nothing the other does not: whatever it allows, the other allows.\<close>

theorem check_tightening:
  assumes "set (ph_deny (tb_rules t)) \<subseteq> set (ph_deny (tb_rules t'))"
    and "set (ph_prompt (tb_rules t)) \<subseteq> set (ph_prompt (tb_rules t'))"
    and "set (ph_defer (tb_rules t)) \<subseteq> set (ph_defer (tb_rules t'))"
    and "set (ph_allow (tb_rules t')) \<subseteq> set (ph_allow (tb_rules t))"
    and "d_outcome (check rx t' ctx) = Allow"
  shows "d_outcome (check rx t ctx) = Allow"
proof -
  have mono: "hit rx ctx a \<Longrightarrow> set a \<subseteq> set b \<Longrightarrow> hit rx ctx b" for a b by (auto simp: hit_def)
  from assms(5) have t': "hard ctx = None" "\<not> hit rx ctx (ph_deny (tb_rules t'))"
      "\<not> hit rx ctx (ph_prompt (tb_rules t'))" "\<not> hit rx ctx (ph_defer (tb_rules t'))"
      "hit rx ctx (ph_allow (tb_rules t'))"
    by (simp_all add: check_outcome_eq split: if_splits)
  then show ?thesis using mono assms(1-4) unfolding check_outcome_eq by metis
qed

subsection \<open>Sample requests\<close>

definition sample_ctx :: request_ctx where
  "sample_ctx = \<lparr>rc_principal = ''agent:a'', rc_profile = '''', rc_grants = [], rc_capability = ''policy.edit'',
     rc_app_id = None, rc_title = None, rc_class = Public, rc_app_trust = Standard,
     rc_app_irreversible_capable = False, rc_node = None, rc_url = None, rc_irreversible = None,
     rc_provenance = \<lparr>pf_empty = True, pf_trusts = [False, False, False, False], pf_sources = []\<rparr>\<rparr>"

definition sample_target :: "string option \<Rightarrow> bool \<Rightarrow> target_facts" where
  "sample_target a x = \<lparr>tf_app_id = a, tf_title = None, tf_url = None, tf_output = None, tf_launched_by = None, tf_xwayland = x\<rparr>"

definition sample_rule :: "string \<Rightarrow> compiled_rule" where
  "sample_rule i = \<lparr>r_id = i, r_preds = [PProvenanceAbsent], r_unless = []\<rparr>"

definition sample_table :: "compiled_rule list \<Rightarrow> compiled_rule list \<Rightarrow> compiled_rule list \<Rightarrow> table" where
  "sample_table d f a = table_default\<lparr>tb_rules := \<lparr>ph_deny = d, ph_prompt = [], ph_defer = f, ph_allow = a\<rparr>\<rparr>"

lemmas sample_defs = sample_ctx_def sample_rule_def sample_table_def table_default_def phases_default_def

lemmas check_eval = check_def hard_def is_system_def starts_with_def is_some_and_def phase_list_def first_def
  rule_matches_def unless_holds_def


text \<open>C4: A deferred request ends in an allow only when \<open>policyd\<close> answered \<open>Fallthrough\<close> and the
  table without its defer phase allows the same request, citing the same rule; no answer at all
  is a denial.\<close>

theorem after_defer_only_tightens:
  assumes "d_outcome (check rx t ctx) = Defer"
  shows "d_outcome (after_defer rx t ctx rule None) = Deny
    \<and> d_outcome (after_defer rx t ctx rule answer) \<noteq> Defer
    \<and> (d_outcome (after_defer rx t ctx rule answer) = Allow \<longrightarrow>
        answer = Some AnsFallthrough \<and>
        after_defer rx t ctx rule answer = check rx (t\<lparr>tb_rules := (tb_rules t)\<lparr>ph_defer := []\<rparr>\<rparr>) ctx)"
proof -
  have t: "hard ctx = None" "first rx (ph_deny (tb_rules t)) ctx = None" "first rx (ph_prompt (tb_rules t)) ctx = None"
    using assms by (auto simp: check_outcome_eq first_None hit_def split: if_splits)
  have "first rx [] ctx = None" by (simp add: first_def)
  with t show ?thesis
    by (auto simp: after_defer_def check_def phase_list_def split: option.splits defer_answer.splits)
qed

lemma after_defer_only_tightens_witness:
  "let ctx = sample_ctx\<lparr>rc_capability := ''x''\<rparr>; t = sample_table [] [sample_rule ''d''] [sample_rule ''a''] in
   d_outcome (check (\<lambda>_ _. False) t ctx) = Defer \<and>
   after_defer (\<lambda>_ _. False) t ctx ''d'' (Some AnsFallthrough) = \<lparr>d_outcome = Allow, d_rule = ''a''\<rparr> \<and>
   d_outcome (after_defer (\<lambda>_ _. False) t ctx ''d'' None) = Deny"
  using after_defer_only_tightens [of "\<lambda>_ _. False" "sample_table [] [sample_rule ''d''] [sample_rule ''a'']"
      "sample_ctx\<lparr>rc_capability := ''x''\<rparr>" "''d''" "Some AnsFallthrough"]
  by (simp add: Let_def sample_defs check_eval after_defer_def)

text \<open>C1: No table lets a principal other than a system daemon edit policy or act on the
  \<open>system.policy\<close> and \<open>system.firmware\<close> taxonomies.\<close>

theorem hard_rules_hold:
  assumes "\<not> starts_with ''system:'' (rc_principal ctx)"
    and "rc_capability ctx = ''policy.edit'' \<or> rc_irreversible ctx = Some ''system.policy''
      \<or> rc_irreversible ctx = Some ''system.firmware''"
  shows "d_outcome (check rx t ctx) = Deny \<and>
    d_rule (check rx t ctx) \<in> {HARD_SYSTEM_TAXONOMY, HARD_POLICY_EDIT}"
  using assms by (auto simp: check_def hard_def is_system_def is_some_and_def)

lemma hard_rules_hold_witness:
  "d_outcome (check (\<lambda>_ _. False) (sample_table [] [] [sample_rule ''a'']) sample_ctx) = Deny"
  using hard_rules_hold [of sample_ctx "\<lambda>_ _. False" "sample_table [] [] [sample_rule ''a'']"]
  by (simp add: sample_defs starts_with_def)

section \<open>Properties of the classifier\<close>

lemma foldl_max_le: "foldl max (b :: 'a :: linorder) xs \<le> c \<longleftrightarrow> b \<le> c \<and> (\<forall>x \<in> set xs. x \<le> c)"
  by (induction xs arbitrary: b) auto

lemma foldl_max_in: "foldl max (b :: 'a :: linorder) xs \<in> insert b (set xs)"
  by (induction xs arbitrary: b) (auto simp: max_def)

text \<open>The classes that contribute to a target.\<close>

definition class_base :: "(regex \<Rightarrow> string \<Rightarrow> bool) \<Rightarrow> classifier \<Rightarrow> target_facts \<Rightarrow> sclass" where
  "class_base rx c t =
    (if \<exists>r \<in> set (cl_classify c). cr_class r = Public \<and> cr_hit rx t r then Public else cl_default c)"

definition contributions :: "(regex \<Rightarrow> string \<Rightarrow> bool) \<Rightarrow> classifier \<Rightarrow> target_facts \<Rightarrow> sclass \<Rightarrow> sclass set" where
  "contributions rx c t raise =
    {class_base rx c t, raise} \<union> {cr_class r |r. r \<in> set (cl_classify c) \<and> cr_hit rx t r}"

definition raised_class :: "(regex \<Rightarrow> string \<Rightarrow> bool) \<Rightarrow> classifier \<Rightarrow> target_facts \<Rightarrow> sclass \<Rightarrow> sclass" where
  "raised_class rx c t raise =
     max (foldl max (class_base rx c t)
       (map cr_class (filter (\<lambda>r. Public < cr_class r \<and> cr_hit rx t r) (cl_classify c)))) raise"

lemma classify_eq:
  "classify rx c t raise = (if tf_xwayland t \<and> raised_class rx c t raise = Secret
     then \<lparr>cd_class = Private, cd_x11_secret_refused = True\<rparr>
     else \<lparr>cd_class = raised_class rx c t raise, cd_x11_secret_refused = False\<rparr>)"
  by (simp add: classify_def raised_class_def class_base_def Let_def)

lemma raised_class_le: "raised_class rx c t raise \<le> k \<longleftrightarrow> (\<forall>x \<in> contributions rx c t raise. x \<le> k)"
proof -
  have "(\<forall>x \<in> set (map cr_class (filter (\<lambda>r. Public < cr_class r \<and> cr_hit rx t r) (cl_classify c))). x \<le> k)
    \<longleftrightarrow> (\<forall>r \<in> set (cl_classify c). cr_hit rx t r \<longrightarrow> cr_class r \<le> k)"
    by auto
  then show ?thesis unfolding raised_class_def max.bounded_iff foldl_max_le contributions_def by blast
qed

lemma raised_class_in: "raised_class rx c t raise \<in> contributions rx c t raise"
proof -
  let ?xs = "map cr_class (filter (\<lambda>r. Public < cr_class r \<and> cr_hit rx t r) (cl_classify c))"
  have "foldl max (class_base rx c t) ?xs \<in> insert (class_base rx c t) (set ?xs)" by (rule foldl_max_in)
  then have "foldl max (class_base rx c t) ?xs \<in> contributions rx c t raise"
    by (auto simp: contributions_def)
  then show ?thesis
    by (auto simp: raised_class_def max_def contributions_def)
qed



text \<open>Adding \<open>private\<close> and \<open>secret\<close> rules to a classifier, or raising the caller's own
  contribution, never lowers the class of a target.\<close>

theorem classify_monotone:
  assumes "cl_default c' = cl_default c" "set (cl_classify c') = set (cl_classify c) \<union> new"
    and "\<forall>r \<in> new. cr_class r \<noteq> Public" "raise \<le> raise'"
  shows "cd_class (classify rx c t raise) \<le> cd_class (classify rx c' t raise')"
proof -
  have "x \<le> raised_class rx c' t raise'" if x: "x \<in> contributions rx c t raise" for x
  proof (cases "x = raise")
    case True
    have "raise' \<in> contributions rx c' t raise'" by (simp add: contributions_def)
    then have "raise' \<le> raised_class rx c' t raise'"
      using raised_class_le [of rx c' t raise' "raised_class rx c' t raise'"] by blast
    then show ?thesis using True assms(4) by simp
  next
    case False
    have "class_base rx c' t = class_base rx c t"
      using assms(1-3) by (auto simp: class_base_def)
    then have "x \<in> contributions rx c' t raise'"
      using x False assms(2) by (auto simp: contributions_def)
    then show ?thesis using raised_class_le [of rx c' t raise' "raised_class rx c' t raise'"] by blast
  qed
  then have "raised_class rx c t raise \<le> raised_class rx c' t raise'"
    unfolding raised_class_le by blast
  then show ?thesis by (auto simp: classify_eq sclass_order split: sclass.splits)
qed

lemma classify_monotone_witness:
  "cd_class (classify (\<lambda>_ _. False) classifier_default (sample_target None True) Public)
   \<le> cd_class (classify (\<lambda>_ _. False) (classifier_default\<lparr>cl_classify := [\<lparr>cr_class = Secret, cr_matchers = [MXwayland True]\<rparr>]\<rparr>)
       (sample_target None True) Private)"
  by (rule classify_monotone [where new = "{\<lparr>cr_class = Secret, cr_matchers = [MXwayland True]\<rparr>}"])
    (simp_all add: classifier_default_def)

text \<open>A rule that hits never lifts a target past \<open>trusted\<close>, a target without an \<open>app_id\<close> is
  untrusted, and adding \<open>untrusted\<close> or \<open>standard\<close> rules never raises a target's trust: an
  \<open>untrusted\<close> rule that hits beats every \<open>trusted\<close> one.\<close>

theorem trust_never_raised_by_distrust:
  "trust_of_target rx c t \<noteq> TrustHuman \<and>
   (tf_app_id t \<in> {None, Some []} \<longrightarrow> trust_of_target rx c t = Untrusted) \<and>
   (set (cl_trust c') = set (cl_trust c) \<union> new \<and> (\<forall>r \<in> new. tr_trust r \<in> {Untrusted, Standard}) \<longrightarrow>
      trust_index (trust_of_target rx c' t) \<le> trust_index (trust_of_target rx c t)) \<and>
   ((\<exists>r \<in> set (cl_trust c). tr_trust r = Untrusted \<and> tr_hit rx t r) \<longrightarrow> trust_of_target rx c t = Untrusted)"
  by (auto simp: trust_of_target_def split: option.splits)

lemma trust_never_raised_by_distrust_witness:
  "let t = sample_target (Some ''app'') False;
       good = \<lparr>tr_trust = Trusted, tr_matchers = [MXwayland False]\<rparr>; bad = \<lparr>tr_trust = Untrusted, tr_matchers = [MXwayland False]\<rparr>
   in trust_index (trust_of_target (\<lambda>_ _. False) (classifier_default\<lparr>cl_trust := [good, bad]\<rparr>) t)
      \<le> trust_index (trust_of_target (\<lambda>_ _. False) (classifier_default\<lparr>cl_trust := [good]\<rparr>) t)"
  unfolding Let_def
  by (rule trust_never_raised_by_distrust [THEN conjunct2, THEN conjunct2, THEN conjunct1, rule_format,
        where new = "{\<lparr>tr_trust = Untrusted, tr_matchers = [MXwayland False]\<rparr>}"])
    (auto simp: classifier_default_def)

lemma check_order_irrelevant_witness:
  "d_outcome (check (\<lambda>_ _. False) (sample_table [] [sample_rule ''x'', sample_rule ''y''] []) sample_ctx) =
   d_outcome (check (\<lambda>_ _. False) (sample_table [] [sample_rule ''y'', sample_rule ''x''] []) sample_ctx)"
  by (rule check_order_irrelevant) (auto simp: sample_table_def)

lemma check_tightening_witness:
  "d_outcome (check (\<lambda>_ _. False) (sample_table [] [] [sample_rule ''a'']) (sample_ctx\<lparr>rc_capability := ''x''\<rparr>)) = Allow"
  by (rule check_tightening [where t' = "sample_table [] [] [sample_rule ''a'']"])
    (simp_all add: sample_defs check_eval)


end
