(* ===== verification/Table_Codec.thy ===== *)
theory Table_Codec
  imports Check
begin

text \<open>
  The wire form of the enforcement table: \<open>ec-policy-eval/src/table.rs\<close>. \<open>rxlim src\<close> is whether
  the regex crate builds \<open>src\<close> within \<open>REGEX_LIMIT\<close>; \<open>ed\<close> and \<open>b3\<close> are Ed25519 and BLAKE3, as in
  \<open>Grant\<close>. The confidence threshold travels as thousandths, so the two \<open>f32\<close> expressions of
  the codec are written out with IEEE rounding (to nearest, ties to even).
\<close>

section \<open>Thousandths\<close>

fun bit_length :: "nat \<Rightarrow> nat" where
  "bit_length n = (if n = 0 then 0 else Suc (bit_length (n div 2)))"

declare bit_length.simps [simp del]

definition round_half_even :: "nat \<Rightarrow> nat \<Rightarrow> nat" where
  "round_half_even n d =
    (let q = n div d; r = n mod d in
     if 2 * r < d then q else if d < 2 * r then q + 1 else if even q then q else q + 1)"

definition scaled :: "int \<Rightarrow> nat \<Rightarrow> nat \<times> nat \<Rightarrow> nat \<times> nat" where
  "scaled k n = (\<lambda>(x, d). if 0 \<le> k then (x * n ^ nat k, d) else (x, d * n ^ nat (- k)))"

text \<open>The \<open>f32\<close> nearest to \<open>n / d\<close>.\<close>

definition f32_of_ratio :: "nat \<Rightarrow> nat \<Rightarrow> f32" where
  "f32_of_ratio n d =
    (if n = 0 then 0 else
     let l = int (bit_length n) - int (bit_length d);
         (a, b) = scaled (- l) 2 (n, d);
         e = (if b \<le> a then l else l - 1);
         e = max e (- 126);
         (x, y) = scaled (23 - e) 2 (n, d);
         bits = nat (e + 126) * 2 ^ 23 + round_half_even x y
     in word_of_nat (min bits 0x7F800000))"

text \<open>The value of a positive finite \<open>f32\<close>, as a fraction.\<close>

definition f32_ratio :: "f32 \<Rightarrow> nat \<times> nat" where
  "f32_ratio b =
    (let x = unat b div 2 ^ 23; m = unat b mod 2 ^ 23 in
     if x = 0 then (m, 2 ^ 149)
     else scaled (int x - 150) 2 (2 ^ 23 + m, 1))"

definition F32_ONE :: f32 where "F32_ONE = 0x3F800000"

text \<open>\<open>m as f32 / 1000.0\<close> (a \<open>u64\<close> up to 1000 is exact in an \<open>f32\<close>).\<close>

definition of_milli :: "u64 \<Rightarrow> f32" where
  "of_milli m = f32_of_ratio (unat m) 1000"

text \<open>\<open>(v.clamp(0.0, 1.0) * 1000.0).round() as u64\<close>; a NaN casts to zero.\<close>

definition to_milli :: "f32 \<Rightarrow> u64" where
  "to_milli v =
    (if f32_nan v \<or> f32_key v \<le> 0 then 0 else
     let c = (if f32_lt F32_ONE v then F32_ONE else v);
         (n, d) = f32_ratio c;
         (n, d) = f32_ratio (f32_of_ratio (n * 1000) d)
     in word_of_nat ((2 * n + d) div (2 * d)))"

section \<open>Names\<close>

definition TABLE_VERSION :: u64 where "TABLE_VERSION = 2"

definition TABLE_SIGNING_CONTEXT :: "byte list" where
  "TABLE_SIGNING_CONTEXT = str_bytes ''eclipse-enforcement-table-v1'' @ [0]"

definition MAX_RULES :: u64 where "MAX_RULES = 4096"
definition MAX_ITEMS :: u64 where "MAX_ITEMS = 256"

datatype table_error = TblCbor cbor_error | TblShape | TblRegex | TblBadSignature

definition tbl_regex :: "(regex \<Rightarrow> bool) \<Rightarrow> string \<Rightarrow> table_error + regex" where
  "tbl_regex rxlim src = (if rxlim src then Inr src else Inl TblRegex)"

fun class_str :: "sclass \<Rightarrow> string" where
  "class_str Public = ''public''"
| "class_str Private = ''private''"
| "class_str Secret = ''secret''"

definition class_of :: "string \<Rightarrow> sclass option" where
  "class_of s = (if s = ''public'' then Some Public
     else if s = ''private'' then Some Private
     else if s = ''secret'' then Some Secret else None)"

fun trust_str :: "trust \<Rightarrow> string" where
  "trust_str Untrusted = ''untrusted''"
| "trust_str Standard = ''standard''"
| "trust_str Trusted = ''trusted''"
| "trust_str TrustHuman = ''human''"

definition trust_of :: "string \<Rightarrow> trust option" where
  "trust_of s = (if s = ''untrusted'' then Some Untrusted
     else if s = ''standard'' then Some Standard
     else if s = ''trusted'' then Some Trusted
     else if s = ''human'' then Some TrustHuman else None)"

section \<open>Encoding\<close>

definition texts :: "string list \<Rightarrow> byte list" where
  "texts items = put_array (length items) @ concat (map put_text items)"

text \<open>\<open>w.array(len)\<close> and the already encoded items.\<close>

definition put_seq :: "('a \<Rightarrow> byte list) \<Rightarrow> 'a list \<Rightarrow> byte list" where
  "put_seq f xs = put_array (length xs) @ concat (map f xs)"

fun pred_wire :: "pred \<Rightarrow> string \<times> (string \<times> byte list) option" where
  "pred_wire (PCapability g) = (''capability'', Some (''a'', texts (map glob_as_str g)))"
| "pred_wire (PTargetClass c) = (''target_class'', Some (''a'', texts (map class_str c)))"
| "pred_wire (PTargetAppId g) = (''target_app_id'', Some (''a'', texts (map glob_as_str g)))"
| "pred_wire (PTitle re) = (''title'', Some (''re'', put_text re))"
| "pred_wire (PNodeRole r) = (''node_role'', Some (''a'', texts r))"
| "pred_wire (PNodeName re) = (''node_name'', Some (''re'', put_text re))"
| "pred_wire (PNodeSource s) = (''node_source'', Some (''a'', texts s))"
| "pred_wire (PNodeConfidenceLt v) = (''node_confidence_lt'', Some (''milli'', put_u64 (to_milli v)))"
| "pred_wire (PIrreversible g) = (''irreversible'', Some (''a'', texts (map glob_as_str g)))"
| "pred_wire (PUrl g) = (''url'', Some (''a'', texts (map glob_as_str g)))"
| "pred_wire (PPrincipal g) = (''principal'', Some (''a'', texts (map glob_as_str g)))"
| "pred_wire (PPrincipalProfile p) = (''principal_profile'', Some (''a'', texts p))"
| "pred_wire (PAppTrust t) = (''app_trust'', Some (''a'', texts (map trust_str t)))"
| "pred_wire (PAppIrreversibleCapable b) = (''app_irreversible_capable'', Some (''b'', put_bool b))"
| "pred_wire (PProvenanceContainsTrust t) = (''provenance_contains_trust'', Some (''a'', texts [trust_str t]))"
| "pred_wire (PProvenanceContainsSource s) = (''provenance_contains_source'', Some (''a'', texts [s]))"
| "pred_wire PProvenanceAbsent = (''provenance_absent'', None)"

definition encode_pred :: "pred \<Rightarrow> byte list" where
  "encode_pred p =
    (let (name, v) = pred_wire p;
         m = mb_insert [] ''p'' (put_text name)
     in mb_finish (case v of Some (k, b) \<Rightarrow> mb_insert m k b | None \<Rightarrow> m))"

definition encode_unless :: "unless \<Rightarrow> byte list" where
  "encode_unless u =
    (let e = mb_insert [] ''capability'' (put_text (un_capability u));
         e = mb_insert e ''unattended'' (put_bool (un_unattended u))
     in mb_finish e)"

definition encode_rule :: "compiled_rule \<Rightarrow> byte list" where
  "encode_rule r =
    (let m = mb_insert [] ''id'' (put_text (r_id r));
         m = mb_insert m ''preds'' (put_seq encode_pred (r_preds r));
         m = mb_insert m ''unless'' (put_seq encode_unless (r_unless r))
     in mb_finish m)"

definition encode_phase :: "compiled_rule list \<Rightarrow> byte list" where
  "encode_phase rules = put_seq encode_rule rules"

fun matcher_wire :: "matcher \<Rightarrow> string \<times> string \<times> byte list" where
  "matcher_wire (MAppId g) = (''app_id'', ''a'', texts (map glob_as_str g))"
| "matcher_wire (MTitle re) = (''title'', ''re'', put_text re)"
| "matcher_wire (MUrl g) = (''url'', ''a'', texts (map glob_as_str g))"
| "matcher_wire (MOutput g) = (''output'', ''a'', texts (map glob_as_str g))"
| "matcher_wire (MLaunchedBy g) = (''launched_by'', ''a'', texts (map glob_as_str g))"
| "matcher_wire (MXwayland x) = (''xwayland'', ''b'', put_bool x)"

definition encode_matcher :: "matcher \<Rightarrow> byte list" where
  "encode_matcher m =
    (let (name, k, v) = matcher_wire m;
         b = mb_insert [] ''p'' (put_text name)
     in mb_finish (mb_insert b k v))"

definition encode_trust_rule :: "trust_rule \<Rightarrow> byte list" where
  "encode_trust_rule t =
    (let e = mb_insert [] ''trust'' (put_text (trust_str (tr_trust t)));
         e = mb_insert e ''matchers'' (put_seq encode_matcher (tr_matchers t))
     in mb_finish e)"

definition encode_classify_rule :: "classify_rule \<Rightarrow> byte list" where
  "encode_classify_rule r =
    (let e = mb_insert [] ''class'' (put_text (class_str (cr_class r)));
         e = mb_insert e ''matchers'' (put_seq encode_matcher (cr_matchers r))
     in mb_finish e)"

definition encode_classifier :: "classifier \<Rightarrow> byte list" where
  "encode_classifier c =
    (let m = mb_insert [] ''trust'' (put_seq encode_trust_rule (cl_trust c));
         m = mb_insert m ''default'' (put_text (class_str (cl_default c)));
         m = mb_insert m ''classify'' (put_seq encode_classify_rule (cl_classify c))
     in mb_finish m)"

definition table_encode :: "table \<Rightarrow> byte list" where
  "table_encode t =
    (let m = mb_insert [] ''v'' (put_u64 TABLE_VERSION);
         m = mb_insert m ''classifier'' (encode_classifier (tb_classifier t));
         m = mb_insert m ''deny'' (encode_phase (ph_deny (tb_rules t)));
         m = mb_insert m ''allow'' (encode_phase (ph_allow (tb_rules t)));
         m = mb_insert m ''defer'' (encode_phase (ph_defer (tb_rules t)));
         m = mb_insert m ''prompt'' (encode_phase (ph_prompt (tb_rules t)));
         m = mb_insert m ''version'' (put_u64 (tb_version t))
     in mb_finish m)"

section \<open>Signing\<close>

definition table_message :: "byte list \<Rightarrow> byte list" where
  "table_message bytes = TABLE_SIGNING_CONTEXT @ bytes"

definition table_verify ::
  "(byte list \<Rightarrow> byte list \<Rightarrow> byte list \<Rightarrow> bool) \<Rightarrow> byte list \<Rightarrow> byte list \<Rightarrow> byte list \<Rightarrow> table_error + unit" where
  "table_verify ed key bytes sig =
     (if ed key (table_message bytes) sig then Inr () else Inl TblBadSignature)"

definition table_hash :: "(byte list \<Rightarrow> byte list) \<Rightarrow> byte list \<Rightarrow> byte list" where
  "table_hash b3 bytes = b3 bytes"

section \<open>Decoding\<close>

abbreviation tc :: "(cbor_error, 'a) parser \<Rightarrow> (table_error, 'a) parser" where
  "tc \<equiv> lift_err TblCbor"

abbreviation need :: "'a option \<Rightarrow> (table_error, 'a) parser" where
  "need x \<equiv> of_result (ok_or TblShape x)"

definition read_texts :: "(table_error, string list) parser" where
  "read_texts = andthen (tc rd_array_len) (\<lambda>n.
     if n = 0 \<or> MAX_ITEMS < n then fail TblShape else rd_many (unat n) (tc rd_text))"

definition one :: "'a list \<Rightarrow> table_error + 'a" where
  "one v = (case v of [x] \<Rightarrow> Inr x | _ \<Rightarrow> Inl TblShape)"

record pred_acc =
  pa_name :: "string option"
  pa_a :: "string list option"
  pa_re :: "string option"
  pa_b :: "bool option"
  pa_milli :: "u64 option"

definition pred_acc_new :: pred_acc where
  "pred_acc_new = \<lparr>pa_name = None, pa_a = None, pa_re = None, pa_b = None, pa_milli = None\<rparr>"

definition pred_step :: "string \<Rightarrow> pred_acc \<Rightarrow> (table_error, pred_acc) parser" where
  "pred_step k acc =
    (if k = ''a'' then andthen read_texts (\<lambda>v. ret (acc\<lparr>pa_a := Some v\<rparr>))
     else if k = ''b'' then andthen (tc rd_bool) (\<lambda>v. ret (acc\<lparr>pa_b := Some v\<rparr>))
     else if k = ''p'' then andthen (tc rd_text) (\<lambda>v. ret (acc\<lparr>pa_name := Some v\<rparr>))
     else if k = ''re'' then andthen (tc rd_text) (\<lambda>v. ret (acc\<lparr>pa_re := Some v\<rparr>))
     else if k = ''milli'' then andthen (tc rd_u64) (\<lambda>v. ret (acc\<lparr>pa_milli := Some v\<rparr>))
     else fail TblShape)"

definition pred_fields :: "pred_acc \<Rightarrow> nat" where
  "pred_fields acc = length (filter id
     [pa_a acc \<noteq> None, pa_b acc \<noteq> None, pa_re acc \<noteq> None, pa_milli acc \<noteq> None])"

text \<open>The predicate the name calls for, before the count of value fields is tested.\<close>

definition pred_of :: "(regex \<Rightarrow> bool) \<Rightarrow> pred_acc \<Rightarrow> string \<Rightarrow> table_error + pred" where
  "pred_of rxlim acc name =
    (let need_a = ok_or TblShape (pa_a acc);
         globs = map Glob;
         re = rbind (ok_or TblShape (pa_re acc)) (tbl_regex rxlim)
     in if name = ''capability'' then rbind need_a (\<lambda>v. Inr (PCapability (globs v)))
     else if name = ''target_class'' then rbind need_a (\<lambda>v.
       rbind (collect_results (map (\<lambda>c. ok_or TblShape (class_of c)) v)) (\<lambda>cs. Inr (PTargetClass cs)))
     else if name = ''target_app_id'' then rbind need_a (\<lambda>v. Inr (PTargetAppId (globs v)))
     else if name = ''title'' then rbind re (\<lambda>r. Inr (PTitle r))
     else if name = ''node_role'' then rbind need_a (\<lambda>v. Inr (PNodeRole v))
     else if name = ''node_name'' then rbind re (\<lambda>r. Inr (PNodeName r))
     else if name = ''node_source'' then rbind need_a (\<lambda>v. Inr (PNodeSource v))
     else if name = ''node_confidence_lt'' then rbind (ok_or TblShape (pa_milli acc)) (\<lambda>m.
       if 1000 < m then Inl TblShape else Inr (PNodeConfidenceLt (of_milli m)))
     else if name = ''irreversible'' then rbind need_a (\<lambda>v. Inr (PIrreversible (globs v)))
     else if name = ''url'' then rbind need_a (\<lambda>v. Inr (PUrl (globs v)))
     else if name = ''principal'' then rbind need_a (\<lambda>v. Inr (PPrincipal (globs v)))
     else if name = ''principal_profile'' then rbind need_a (\<lambda>v. Inr (PPrincipalProfile v))
     else if name = ''app_trust'' then rbind need_a (\<lambda>v.
       rbind (collect_results (map (\<lambda>t. ok_or TblShape (trust_of t)) v)) (\<lambda>ts. Inr (PAppTrust ts)))
     else if name = ''app_irreversible_capable'' then rbind (ok_or TblShape (pa_b acc)) (\<lambda>b.
       Inr (PAppIrreversibleCapable b))
     else if name = ''provenance_contains_trust'' then rbind need_a (\<lambda>v. rbind (one v) (\<lambda>t.
       rbind (ok_or TblShape (trust_of t)) (\<lambda>t. Inr (PProvenanceContainsTrust t))))
     else if name = ''provenance_contains_source'' then rbind need_a (\<lambda>v. rbind (one v) (\<lambda>s.
       Inr (PProvenanceContainsSource s)))
     else if name = ''provenance_absent'' then
       (if pred_fields acc \<noteq> 0 then Inl TblShape else Inr PProvenanceAbsent)
     else Inl TblShape)"

definition decode_pred :: "(regex \<Rightarrow> bool) \<Rightarrow> (table_error, pred) parser" where
  "decode_pred rxlim =
     andthen (rd_map TblCbor pred_step pred_acc_new) (\<lambda>acc.
     andthen (need (pa_name acc)) (\<lambda>name.
     andthen (of_result (pred_of rxlim acc name)) (\<lambda>p.
     if p \<noteq> PProvenanceAbsent \<and> pred_fields acc \<noteq> 1 then fail TblShape else ret p)))"

text \<open>An array bounded by \<open>lim\<close>, each item read by \<open>p\<close>.\<close>

definition read_seq :: "u64 \<Rightarrow> (table_error, 'a) parser \<Rightarrow> (table_error, 'a list) parser" where
  "read_seq lim p = andthen (tc rd_array_len) (\<lambda>n. if lim < n then fail TblShape else rd_many (unat n) p)"

definition unless_step :: "string \<Rightarrow> string option \<times> bool option \<Rightarrow> (table_error, string option \<times> bool option) parser" where
  "unless_step k = (\<lambda>(cap, un).
     if k = ''capability'' then andthen (tc rd_text) (\<lambda>v. ret (Some v, un))
     else if k = ''unattended'' then andthen (tc rd_bool) (\<lambda>v. ret (cap, Some v))
     else fail TblShape)"

definition decode_unless :: "(table_error, unless) parser" where
  "decode_unless =
     andthen (rd_map TblCbor unless_step (None, None)) (\<lambda>(cap, un).
     andthen (need cap) (\<lambda>cap. andthen (need un) (\<lambda>un.
     ret \<lparr>un_capability = cap, un_unattended = un\<rparr>)))"

record rule_acc =
  rl_id :: "string option"
  rl_preds :: "pred list option"
  rl_unless :: "unless list option"

definition rule_step :: "(regex \<Rightarrow> bool) \<Rightarrow> string \<Rightarrow> rule_acc \<Rightarrow> (table_error, rule_acc) parser" where
  "rule_step rxlim k acc =
    (if k = ''id'' then andthen (tc rd_text) (\<lambda>v. ret (acc\<lparr>rl_id := Some v\<rparr>))
     else if k = ''preds'' then andthen (read_seq MAX_ITEMS (decode_pred rxlim)) (\<lambda>v. ret (acc\<lparr>rl_preds := Some v\<rparr>))
     else if k = ''unless'' then andthen (read_seq MAX_ITEMS decode_unless) (\<lambda>v. ret (acc\<lparr>rl_unless := Some v\<rparr>))
     else fail TblShape)"

definition decode_rule :: "(regex \<Rightarrow> bool) \<Rightarrow> (table_error, compiled_rule) parser" where
  "decode_rule rxlim =
     andthen (rd_map TblCbor (rule_step rxlim) \<lparr>rl_id = None, rl_preds = None, rl_unless = None\<rparr>) (\<lambda>acc.
     andthen (need (rl_id acc)) (\<lambda>i. if i = [] then fail TblShape else
     andthen (need (rl_preds acc)) (\<lambda>ps. andthen (need (rl_unless acc)) (\<lambda>us.
     ret \<lparr>r_id = i, r_preds = ps, r_unless = us\<rparr>))))"

definition decode_phase :: "(regex \<Rightarrow> bool) \<Rightarrow> (table_error, compiled_rule list) parser" where
  "decode_phase rxlim = read_seq MAX_RULES (decode_rule rxlim)"

record matcher_acc =
  ma_name :: "string option"
  ma_a :: "string list option"
  ma_re :: "string option"
  ma_b :: "bool option"

definition matcher_step :: "string \<Rightarrow> matcher_acc \<Rightarrow> (table_error, matcher_acc) parser" where
  "matcher_step k acc =
    (if k = ''a'' then andthen read_texts (\<lambda>v. ret (acc\<lparr>ma_a := Some v\<rparr>))
     else if k = ''b'' then andthen (tc rd_bool) (\<lambda>v. ret (acc\<lparr>ma_b := Some v\<rparr>))
     else if k = ''p'' then andthen (tc rd_text) (\<lambda>v. ret (acc\<lparr>ma_name := Some v\<rparr>))
     else if k = ''re'' then andthen (tc rd_text) (\<lambda>v. ret (acc\<lparr>ma_re := Some v\<rparr>))
     else fail TblShape)"

definition matcher_of :: "(regex \<Rightarrow> bool) \<Rightarrow> matcher_acc \<Rightarrow> string \<Rightarrow> table_error + matcher" where
  "matcher_of rxlim acc name =
    (let globs = map_sum id (map Glob) (ok_or TblShape (ma_a acc)) in
     if name = ''app_id'' then map_sum id MAppId globs
     else if name = ''title'' then map_sum id MTitle (rbind (ok_or TblShape (ma_re acc)) (tbl_regex rxlim))
     else if name = ''url'' then map_sum id MUrl globs
     else if name = ''output'' then map_sum id MOutput globs
     else if name = ''launched_by'' then map_sum id MLaunchedBy globs
     else if name = ''xwayland'' then map_sum id MXwayland (ok_or TblShape (ma_b acc))
     else Inl TblShape)"

definition decode_matcher :: "(regex \<Rightarrow> bool) \<Rightarrow> (table_error, matcher) parser" where
  "decode_matcher rxlim =
     andthen (rd_map TblCbor matcher_step \<lparr>ma_name = None, ma_a = None, ma_re = None, ma_b = None\<rparr>) (\<lambda>acc.
     if length (filter id [ma_a acc \<noteq> None, ma_b acc \<noteq> None, ma_re acc \<noteq> None]) \<noteq> 1 then fail TblShape else
     andthen (need (ma_name acc)) (\<lambda>name. of_result (matcher_of rxlim acc name)))"

definition decode_matchers :: "(regex \<Rightarrow> bool) \<Rightarrow> (table_error, matcher list) parser" where
  "decode_matchers rxlim = andthen (tc rd_array_len) (\<lambda>n.
     if n = 0 \<or> MAX_ITEMS < n then fail TblShape else rd_many (unat n) (decode_matcher rxlim))"

definition trust_rule_step :: "(regex \<Rightarrow> bool) \<Rightarrow> string \<Rightarrow> trust option \<times> matcher list option \<Rightarrow>
    (table_error, trust option \<times> matcher list option) parser" where
  "trust_rule_step rxlim k = (\<lambda>(t, ms).
     if k = ''trust'' then andthen (tc rd_text) (\<lambda>s. andthen (need (trust_of s)) (\<lambda>t. ret (Some t, ms)))
     else if k = ''matchers'' then andthen (decode_matchers rxlim) (\<lambda>v. ret (t, Some v))
     else fail TblShape)"

definition decode_trust_rule :: "(regex \<Rightarrow> bool) \<Rightarrow> (table_error, trust_rule) parser" where
  "decode_trust_rule rxlim =
     andthen (rd_map TblCbor (trust_rule_step rxlim) (None, None)) (\<lambda>(t, ms).
     andthen (need t) (\<lambda>t. if t = TrustHuman then fail TblShape else
     andthen (need ms) (\<lambda>ms. ret \<lparr>tr_trust = t, tr_matchers = ms\<rparr>)))"

definition classify_rule_step :: "(regex \<Rightarrow> bool) \<Rightarrow> string \<Rightarrow> sclass option \<times> matcher list option \<Rightarrow>
    (table_error, sclass option \<times> matcher list option) parser" where
  "classify_rule_step rxlim k = (\<lambda>(c, ms).
     if k = ''class'' then andthen (tc rd_text) (\<lambda>s. andthen (need (class_of s)) (\<lambda>c. ret (Some c, ms)))
     else if k = ''matchers'' then andthen (decode_matchers rxlim) (\<lambda>v. ret (c, Some v))
     else fail TblShape)"

definition decode_classify_rule :: "(regex \<Rightarrow> bool) \<Rightarrow> (table_error, classify_rule) parser" where
  "decode_classify_rule rxlim =
     andthen (rd_map TblCbor (classify_rule_step rxlim) (None, None)) (\<lambda>(c, ms).
     andthen (need c) (\<lambda>c. andthen (need ms) (\<lambda>ms. ret \<lparr>cr_class = c, cr_matchers = ms\<rparr>)))"

record classifier_acc =
  ka_default :: "sclass option"
  ka_classify :: "classify_rule list option"
  ka_trust :: "trust_rule list option"

definition classifier_step :: "(regex \<Rightarrow> bool) \<Rightarrow> string \<Rightarrow> classifier_acc \<Rightarrow> (table_error, classifier_acc) parser" where
  "classifier_step rxlim k acc =
    (if k = ''trust'' then
       andthen (read_seq MAX_RULES (decode_trust_rule rxlim)) (\<lambda>v. ret (acc\<lparr>ka_trust := Some v\<rparr>))
     else if k = ''default'' then andthen (tc rd_text) (\<lambda>s. andthen (need (class_of s)) (\<lambda>c.
       if c = Public then fail TblShape else ret (acc\<lparr>ka_default := Some c\<rparr>)))
     else if k = ''classify'' then
       andthen (read_seq MAX_RULES (decode_classify_rule rxlim)) (\<lambda>v. ret (acc\<lparr>ka_classify := Some v\<rparr>))
     else fail TblShape)"

definition decode_classifier :: "(regex \<Rightarrow> bool) \<Rightarrow> (table_error, classifier) parser" where
  "decode_classifier rxlim =
     andthen (rd_map TblCbor (classifier_step rxlim) \<lparr>ka_default = None, ka_classify = None, ka_trust = None\<rparr>) (\<lambda>acc.
     andthen (need (ka_default acc)) (\<lambda>d. andthen (need (ka_classify acc)) (\<lambda>c. andthen (need (ka_trust acc)) (\<lambda>t.
     ret \<lparr>cl_default = d, cl_classify = c, cl_trust = t\<rparr>))))"

text \<open>A phase is present exactly when its \<open>seen\<close> flag is set, so the flags are the options.\<close>

record table_acc =
  ta_v :: "u64 option"
  ta_version :: "u64 option"
  ta_classifier :: "classifier option"
  ta_deny :: "compiled_rule list option"
  ta_prompt :: "compiled_rule list option"
  ta_defer :: "compiled_rule list option"
  ta_allow :: "compiled_rule list option"

definition table_acc_new :: table_acc where
  "table_acc_new = \<lparr>ta_v = None, ta_version = None, ta_classifier = None, ta_deny = None,
     ta_prompt = None, ta_defer = None, ta_allow = None\<rparr>"

definition table_step :: "(regex \<Rightarrow> bool) \<Rightarrow> string \<Rightarrow> table_acc \<Rightarrow> (table_error, table_acc) parser" where
  "table_step rxlim k acc =
    (if k = ''v'' then andthen (tc rd_u64) (\<lambda>v. ret (acc\<lparr>ta_v := Some v\<rparr>))
     else if k = ''deny'' then andthen (decode_phase rxlim) (\<lambda>v. ret (acc\<lparr>ta_deny := Some v\<rparr>))
     else if k = ''allow'' then andthen (decode_phase rxlim) (\<lambda>v. ret (acc\<lparr>ta_allow := Some v\<rparr>))
     else if k = ''defer'' then andthen (decode_phase rxlim) (\<lambda>v. ret (acc\<lparr>ta_defer := Some v\<rparr>))
     else if k = ''prompt'' then andthen (decode_phase rxlim) (\<lambda>v. ret (acc\<lparr>ta_prompt := Some v\<rparr>))
     else if k = ''version'' then andthen (tc rd_u64) (\<lambda>v. ret (acc\<lparr>ta_version := Some v\<rparr>))
     else if k = ''classifier'' then andthen (decode_classifier rxlim) (\<lambda>v. ret (acc\<lparr>ta_classifier := Some v\<rparr>))
     else fail TblShape)"

definition table_decode :: "(regex \<Rightarrow> bool) \<Rightarrow> byte list \<Rightarrow> table_error + table" where
  "table_decode rxlim buf =
     rbind (run_whole TblCbor (rd_map TblCbor (table_step rxlim) table_acc_new) buf) (\<lambda>acc.
       if ta_v acc \<noteq> Some TABLE_VERSION then Inl TblShape
       else case (ta_deny acc, ta_prompt acc, ta_defer acc, ta_allow acc) of
         (Some d, Some p, Some f, Some a) \<Rightarrow>
           rbind (ok_or TblShape (ta_version acc)) (\<lambda>version.
           rbind (ok_or TblShape (ta_classifier acc)) (\<lambda>c.
             Inr \<lparr>tb_version = version,
               tb_rules = \<lparr>ph_deny = d, ph_prompt = p, ph_defer = f, ph_allow = a\<rparr>,
               tb_classifier = c\<rparr>))
       | _ \<Rightarrow> Inl TblShape)"

end
