(* ===== verification/Emission.thy ===== *)
theory Emission
  imports Task_Obj
begin

text \<open>
  Audit emissions: \<open>ec-policy-eval/src/audit.rs\<close>. The record kinds, the principal grammar and the
  message a source sends \<open>policyd\<close> to have a record written.
\<close>

definition EMISSION_VERSION :: u64 where "EMISSION_VERSION = 1"
definition MAX_EMISSION :: nat where "MAX_EMISSION = 64 * 1024"

datatype kind = KRequest | KDecision | KPrompt | KResult | KInput | KFocus | KCapture | KPerception
  | KChannel | KGrant | KRevoke | KLaunch | KSandbox | KPolicy | KLifecycle | KTask | KNet | KSecret
  | KAnchor | KSlot | KInputRefused

definition KIND_ALL :: "kind list" where
  "KIND_ALL = [KRequest, KDecision, KPrompt, KResult, KInput, KFocus, KCapture, KPerception,
     KChannel, KGrant, KRevoke, KLaunch, KSandbox, KPolicy, KLifecycle, KTask, KNet, KSecret,
     KAnchor, KSlot, KInputRefused]"

fun kind_as_str :: "kind \<Rightarrow> string" where
  "kind_as_str KRequest = ''request''"
| "kind_as_str KDecision = ''decision''"
| "kind_as_str KPrompt = ''prompt''"
| "kind_as_str KResult = ''result''"
| "kind_as_str KInput = ''input''"
| "kind_as_str KFocus = ''focus''"
| "kind_as_str KCapture = ''capture''"
| "kind_as_str KPerception = ''perception''"
| "kind_as_str KChannel = ''channel''"
| "kind_as_str KGrant = ''grant''"
| "kind_as_str KRevoke = ''revoke''"
| "kind_as_str KLaunch = ''launch''"
| "kind_as_str KSandbox = ''sandbox''"
| "kind_as_str KPolicy = ''policy''"
| "kind_as_str KLifecycle = ''lifecycle''"
| "kind_as_str KTask = ''task''"
| "kind_as_str KNet = ''net''"
| "kind_as_str KSecret = ''secret''"
| "kind_as_str KAnchor = ''anchor''"
| "kind_as_str KSlot = ''slot''"
| "kind_as_str KInputRefused = ''input_refused''"

definition kind_parse :: "string \<Rightarrow> kind option" where
  "kind_parse s = find (\<lambda>k. kind_as_str k = s) KIND_ALL"

fun from_compositor :: "kind \<Rightarrow> bool" where
  "from_compositor k = (k \<in> {KRequest, KDecision, KPrompt, KResult, KInput, KFocus, KCapture,
     KPerception, KLaunch, KLifecycle, KPolicy, KSlot, KInputRefused})"

definition principal_ok :: "string \<Rightarrow> bool" where
  "principal_ok p =
    (if p = ''human'' then True
     else case (case strip_prefix ''agent:'' p of Some i \<Rightarrow> Some i | None \<Rightarrow> strip_prefix ''system:'' p) of
       None \<Rightarrow> False
     | Some i \<Rightarrow> i \<noteq> [] \<and> length i \<le> 128 \<and> list_all ascii_graphic i)"

text \<open>A chain id is a \<open>u128\<close>, written as its 16 big-endian bytes.\<close>

record emission =
  e_kind :: kind
  e_principal :: string
  e_grant_id :: "ulid option"
  e_task_id :: "ulid option"
  e_chain_id :: "u128 option"
  e_req_id :: "u64 option"
  e_serial :: "u64 option"
  e_body :: "byte list"

datatype emission_error = EmCbor cbor_error | EmShape

definition emission_encode :: "emission \<Rightarrow> byte list" where
  "emission_encode e =
    (let m = mb_insert [] ''body'' (e_body e);
         m = mb_insert_opt m ''chain_id'' (map_option (\<lambda>c. put_bytes (be_bytes 16 (unat c))) (e_chain_id e));
         m = mb_insert_opt m ''grant_id'' (map_option (\<lambda>g. put_bytes (ulid_bytes g)) (e_grant_id e));
         m = mb_insert m ''kind'' (put_text (kind_as_str (e_kind e)));
         m = mb_insert m ''principal'' (put_text (e_principal e));
         m = mb_insert_opt m ''req_id'' (map_option put_u64 (e_req_id e));
         m = mb_insert_opt m ''serial'' (map_option put_u64 (e_serial e));
         m = mb_insert_opt m ''task_id'' (map_option (\<lambda>t. put_bytes (ulid_bytes t)) (e_task_id e));
         m = mb_insert m ''v'' (put_u64 EMISSION_VERSION)
     in mb_finish m)"

text \<open>The bytes of one item: \<open>skip\<close>, then the buffer between the two positions.\<close>

definition rd_raw_item :: "(cbor_error, byte list) parser" where
  "rd_raw_item r = andthen rd_skip (\<lambda>_ r'. Inr (take (r_pos r' - r_pos r) (drop (r_pos r) (r_buf r)), r')) r"

record emission_acc =
  ea_kind :: "kind option"
  ea_principal :: "string option"
  ea_body :: "byte list option"
  ea_v :: "u64 option"
  ea_grant_id :: "ulid option"
  ea_task_id :: "ulid option"
  ea_chain_id :: "u128 option"
  ea_req_id :: "u64 option"
  ea_serial :: "u64 option"

definition emission_acc_new :: emission_acc where
  "emission_acc_new = \<lparr>ea_kind = None, ea_principal = None, ea_body = None, ea_v = None, ea_grant_id = None,
     ea_task_id = None, ea_chain_id = None, ea_req_id = None, ea_serial = None\<rparr>"

abbreviation ec :: "(cbor_error, 'a) parser \<Rightarrow> (emission_error, 'a) parser" where
  "ec \<equiv> lift_err EmCbor"

definition emission_step :: "string \<Rightarrow> emission_acc \<Rightarrow> (emission_error, emission_acc) parser" where
  "emission_step k a =
    (if k = ''body'' then andthen (ec rd_raw_item) (\<lambda>v. ret (a\<lparr>ea_body := Some v\<rparr>))
     else if k = ''chain_id'' then
       andthen (ec (rd_byte_array 16)) (\<lambda>v. ret (a\<lparr>ea_chain_id := Some (word_of_nat (from_be v))\<rparr>))
     else if k = ''grant_id'' then andthen (ec (rd_byte_array 16)) (\<lambda>v. ret (a\<lparr>ea_grant_id := Some (Ulid v)\<rparr>))
     else if k = ''kind'' then
       andthen (ec rd_text) (\<lambda>s. andthen (of_result (ok_or EmShape (kind_parse s))) (\<lambda>v. ret (a\<lparr>ea_kind := Some v\<rparr>)))
     else if k = ''principal'' then andthen (ec rd_text) (\<lambda>v. ret (a\<lparr>ea_principal := Some v\<rparr>))
     else if k = ''req_id'' then andthen (ec rd_u64) (\<lambda>v. ret (a\<lparr>ea_req_id := Some v\<rparr>))
     else if k = ''serial'' then andthen (ec rd_u64) (\<lambda>v. ret (a\<lparr>ea_serial := Some v\<rparr>))
     else if k = ''task_id'' then andthen (ec (rd_byte_array 16)) (\<lambda>v. ret (a\<lparr>ea_task_id := Some (Ulid v)\<rparr>))
     else if k = ''v'' then andthen (ec rd_u64) (\<lambda>v. ret (a\<lparr>ea_v := Some v\<rparr>))
     else fail EmShape)"

definition emission_of :: "emission_acc \<Rightarrow> emission_error + emission" where
  "emission_of a =
    (if ea_v a \<noteq> Some EMISSION_VERSION then Inl EmShape
     else rbind (ok_or EmShape (ea_kind a)) (\<lambda>k.
          rbind (ok_or EmShape (ea_principal a)) (\<lambda>p.
          rbind (ok_or EmShape (ea_body a)) (\<lambda>b.
          if principal_ok p then
            Inr \<lparr>e_kind = k, e_principal = p, e_grant_id = ea_grant_id a, e_task_id = ea_task_id a,
              e_chain_id = ea_chain_id a, e_req_id = ea_req_id a, e_serial = ea_serial a, e_body = b\<rparr>
          else Inl EmShape))))"

definition emission_decode :: "byte list \<Rightarrow> emission_error + emission" where
  "emission_decode buf = rbind (run_whole EmCbor (rd_map EmCbor emission_step emission_acc_new) buf) emission_of"

end
