(* ===== verification/Cbor_Fields.thy ===== *)
theory Cbor_Fields
  imports Cbor_Keys "HOL-Library.Sublist"
begin

text \<open>
  Optional fields: entries that may be absent, their canonical order, and the interface
  \<open>field_reader\<close> of the decoders that keep one optional variable per key.
\<close>

definition opt_entry :: "string \<Rightarrow> byte list option \<Rightarrow> entries" where
  "opt_entry k v = (case v of None \<Rightarrow> [] | Some b \<Rightarrow> [(k, b)])"

lemma opt_entry_simps [simp]: "opt_entry k None = []" "opt_entry k (Some b) = [(k, b)]"
  by (simp_all add: opt_entry_def)

lemma mb_insert_opt_of: "mb_insert_opt (mb_of es) k v = mb_of (es @ opt_entry k v)"
  by (cases v) simp_all



lemma exact_field: "exact p Q \<Longrightarrow> (\<And>v bs. Q v bs \<Longrightarrow> R (f v) bs) \<Longrightarrow> exact (andthen p (\<lambda>v. ret (f v))) R"
  by (erule exact_andthen) simp

lemma in_opt_entry: "k \<in> fst ` set (opt_entry k' v) \<longleftrightarrow> k = k' \<and> v \<noteq> None"
  by (cases v) auto



lemma canonical_distinct: "canonical es \<Longrightarrow> distinct (map fst es)"
proof -
  assume "canonical es"
  then have "distinct (map (\<lambda>(k, v). put_text k) es)" by (simp add: canonical_def strict_sorted_iff)
  moreover have "map (\<lambda>(k, v). put_text k) es = map put_text (map fst es)" by (simp add: case_prod_unfold)
  ultimately show ?thesis using distinct_map by metis
qed



lemma steps_appI: "steps d st s es s' \<Longrightarrow> steps d st s' fs s'' \<Longrightarrow> steps d st s (es @ fs) s''"
  by (auto simp: steps_append)

lemma steps_eq: "steps d st s es s1 \<Longrightarrow> s1 = s' \<Longrightarrow> steps d st s es s'"
  by simp

lemma subseq_opt_entry: "subseq (map fst (opt_entry k v)) [k]"
  by (cases v) auto

lemma subseq_set: "subseq xs ys \<Longrightarrow> set xs \<subseteq> set ys"
proof
  fix x assume "subseq xs ys" "x \<in> set xs"
  then obtain y where "y \<in> set ys" "x = y" by (rule list_emb_set)
  then show "x \<in> set ys" by simp
qed

lemma subseq_sorted_wrt: "subseq xs ys \<Longrightarrow> sorted_wrt P ys \<Longrightarrow> sorted_wrt P xs"
proof (induction rule: list_emb.induct)
  case (list_emb_Cons2 x y xs ys)
  then show ?case using subseq_set [of xs ys] by auto
qed auto

lemma keys_ok_subseq: "keys_ok ks \<Longrightarrow> subseq ls ks \<Longrightarrow> keys_ok ls"
  using subseq_set [of ls ks] subseq_sorted_wrt [of ls ks key_lt] by (auto simp: keys_ok_def list_all_iff)

lemma steps_opt:
  "(\<And>b. v = Some b \<Longrightarrow> reads d (st k s) b s') \<Longrightarrow> (v = None \<Longrightarrow> s' = s) \<Longrightarrow> steps d st s (opt_entry k v) s'"
  by (cases v) auto



section \<open>Decoders with a field per key\<close>

text \<open>
  The loops of \<open>Emission::decode\<close> and \<open>read_fields\<close> keep one optional variable per key. When each
  step takes in exactly one entry that was not there before, the entries the final variables
  stand for are the entries of the map, so the bytes can be rebuilt from the variables.
\<close>

definition took :: "('s \<Rightarrow> entries) \<Rightarrow> ('s \<Rightarrow> bool) \<Rightarrow> string \<Rightarrow> 's \<Rightarrow> byte list \<Rightarrow> 's \<Rightarrow> bool" where
  "took entries_of ok k a b a' \<longleftrightarrow> (ok a \<longrightarrow> ok a') \<and>
     (k \<notin> fst ` set (entries_of a) \<longrightarrow> mset (entries_of a') = add_mset (k, b) (mset (entries_of a)))"

locale field_reader =
  fixes step :: "string \<Rightarrow> 's \<Rightarrow> ('e, 's) parser"
    and entries_of :: "'s \<Rightarrow> entries"
    and ok :: "'s \<Rightarrow> bool"
    and start :: 's
  assumes start: "entries_of start = []" "ok start"
    and exact_step: "exact (step k a) (\<lambda>a' b. took entries_of ok k a b a')"
begin

lemma trace_took:
  "trace (\<lambda>k a b a'. took entries_of ok k a b a') a es a' \<Longrightarrow> distinct (map fst es) \<Longrightarrow>
   fst ` set es \<inter> fst ` set (entries_of a) = {} \<Longrightarrow> ok a \<Longrightarrow>
   ok a' \<and> mset (entries_of a') = mset (entries_of a) + mset es"
proof (induction es arbitrary: a)
  case (Cons e es)
  obtain k b where e: "e = (k, b)" by fastforce
  from Cons.prems(1) obtain a1 where s: "took entries_of ok k a b a1"
    and t: "trace (\<lambda>k a b a'. took entries_of ok k a b a') a1 es a'" by (auto simp: e)
  have "k \<notin> fst ` set (entries_of a)" using Cons.prems(3) by (auto simp: e)
  then have m: "mset (entries_of a1) = add_mset (k, b) (mset (entries_of a))"
    and a1: "ok a1" using s Cons.prems(4) by (simp_all add: took_def)
  have "set (entries_of a1) = insert (k, b) (set (entries_of a))"
    using arg_cong [OF m, of set_mset] by simp
  then have "fst ` set es \<inter> fst ` set (entries_of a1) = {}"
    using Cons.prems(2,3) by (auto simp: e)
  with Cons.IH [OF t _ this a1] Cons.prems(2) m show ?case by (simp add: e)
qed simp

lemma exact_fields:
  "exact (rd_map g step start) (\<lambda>a bs. ok a \<and> (\<exists>es. canonical es \<and> bs = put_entries es \<and> mset (entries_of a) = mset es))"
proof (rule exact_mono [OF exact_map [OF exact_step]])
  fix a bs
  assume "\<exists>es. canonical es \<and> bs = put_entries es \<and> trace (\<lambda>k a b a'. took entries_of ok k a b a') start es a"
  then obtain es where es: "canonical es" "bs = put_entries es"
    "trace (\<lambda>k a b a'. took entries_of ok k a b a') start es a" by blast
  from trace_took [OF es(3) canonical_distinct [OF es(1)]] start
  show "ok a \<and> (\<exists>es. canonical es \<and> bs = put_entries es \<and> mset (entries_of a) = mset es)"
    using es(1,2) by auto
qed

end

text \<open>An encoder that inserts the same entries in any order writes those bytes.\<close>

lemma rebuilt: "canonical es \<Longrightarrow> mset fs = mset es \<Longrightarrow> mb_finish (mb_of fs) = put_entries es"
  by (rule mb_finish_eq) (simp_all add: canonical_def)


end
