(* ===== verification/Emission_Laws.thy ===== *)
theory Emission_Laws
  imports Emission Task_Laws Cbor_Fields
begin

text \<open>
  Laws of audit emissions: the codec is a bijection between well-formed emissions and the byte
  strings it accepts.
\<close>

lemma reads_raw_item: "reads d rd_skip bs () \<Longrightarrow> reads d rd_raw_item bs bs"
proof (rule readsI)
  fix r s assume sk: "reads d rd_skip bs ()" and r: "inb r" "rest r = bs @ s" "length (r_maps r) + d \<le> MAX_MAP_DEPTH"
  have "take (length bs) (drop (r_pos r) (r_buf r)) = bs" using r(2) by (simp add: rest_def)
  then show "rd_raw_item r = Inr (bs, adv (length bs) r)"
    using readsD [OF sk r] by (simp add: rd_raw_item_def andthen_def adv_def)
qed

lemma exact_raw_item: "exact rd_raw_item (\<lambda>v bs. v = bs \<and> is_item bs)"
proof (rule exactI)
  fix r v r' assume r: "inb r" and p: "rd_raw_item r = Inr (v, r')"
  then obtain r1 where sk: "rd_skip r = Inr ((), r1)" and v: "v = take (r_pos r1 - r_pos r) (drop (r_pos r) (r_buf r))" "r' = r1"
    by (auto simp: rd_raw_item_def andthen_def split: sum.splits)
  from exactE [OF exact_skip r sk] obtain bs s where
    x: "rest r = bs @ s" "r1 = adv (length bs) r" "is_item bs" .
  have "v = bs" using v(1) x(1,2) by (simp add: rest_def adv_def)
  then show "\<exists>bs s. rest r = bs @ s \<and> r' = adv (length bs) r \<and> v = bs \<and> is_item bs" using x v(2) by blast
qed


section \<open>Kinds and principals\<close>

lemma kind_parse_str [simp]: "kind_parse (kind_as_str k) = Some k"
  by (cases k) (simp_all add: kind_parse_def KIND_ALL_def)

lemma kind_parse_Some: "kind_parse s = Some k \<Longrightarrow> s = kind_as_str k"
  by (auto simp: kind_parse_def find_Some_iff)

lemma kind_str_ok: "rstr (kind_as_str k)"
  by (cases k) (simp_all add: rstr_def utf8_ascii)

section \<open>The emission codec\<close>

definition emission_ok :: "emission \<Rightarrow> bool" where
  "emission_ok e \<longleftrightarrow> principal_ok (e_principal e) \<and> rstr (e_principal e) \<and>
     (\<forall>g. e_grant_id e = Some g \<longrightarrow> ulid_ok g) \<and> (\<forall>t. e_task_id e = Some t \<longrightarrow> ulid_ok t) \<and>
     (\<exists>v. cval_ok v \<and> e_body e = put_val v)"

text \<open>The entries a state of the decoder's loop has taken in.\<close>

definition chain_bytes :: "u128 \<Rightarrow> byte list" where
  "chain_bytes c = put_bytes (be_bytes 16 (unat c))"

definition emission_acc_entries :: "emission_acc \<Rightarrow> entries" where
  "emission_acc_entries a =
     opt_entry ''v'' (map_option put_u64 (ea_v a)) @ opt_entry ''body'' (ea_body a) @
     opt_entry ''kind'' (map_option (\<lambda>k. put_text (kind_as_str k)) (ea_kind a)) @
     opt_entry ''req_id'' (map_option put_u64 (ea_req_id a)) @ opt_entry ''serial'' (map_option put_u64 (ea_serial a)) @
     opt_entry ''task_id'' (map_option (\<lambda>t. put_bytes (ulid_bytes t)) (ea_task_id a)) @
     opt_entry ''chain_id'' (map_option chain_bytes (ea_chain_id a)) @
     opt_entry ''grant_id'' (map_option (\<lambda>t. put_bytes (ulid_bytes t)) (ea_grant_id a)) @
     opt_entry ''principal'' (map_option put_text (ea_principal a))"

definition emission_acc_ok :: "emission_acc \<Rightarrow> bool" where
  "emission_acc_ok a \<longleftrightarrow> (\<forall>p. ea_principal a = Some p \<longrightarrow> rstr p) \<and>
     (\<forall>g. ea_grant_id a = Some g \<longrightarrow> ulid_ok g) \<and> (\<forall>g. ea_task_id a = Some g \<longrightarrow> ulid_ok g) \<and>
     (\<forall>b. ea_body a = Some b \<longrightarrow> is_item b)"

abbreviation emission_took :: "string \<Rightarrow> emission_acc \<Rightarrow> byte list \<Rightarrow> emission_acc \<Rightarrow> bool" where
  "emission_took \<equiv> took emission_acc_entries emission_acc_ok"

lemma be_chain: "length v = 16 \<Longrightarrow> chain_bytes (word_of_nat (from_be v)) = put_bytes v"
proof -
  assume v: "length v = 16"
  then have "unat (word_of_nat (from_be v) :: u128) = from_be v"
    using from_be_bound [of v] by (simp add: unat_of_nat)
  then show ?thesis using be_bytes_from_be [of v] v by (simp add: chain_bytes_def)
qed

lemmas took_simps = took_def emission_acc_entries_def emission_acc_ok_def image_Un in_opt_entry

lemma emission_took:
  "emission_took ''v'' a (put_u64 n) (a\<lparr>ea_v := Some n\<rparr>)"
  "is_item b \<Longrightarrow> emission_took ''body'' a b (a\<lparr>ea_body := Some b\<rparr>)"
  "emission_took ''kind'' a (put_text (kind_as_str kd)) (a\<lparr>ea_kind := Some kd\<rparr>)"
  "emission_took ''req_id'' a (put_u64 n) (a\<lparr>ea_req_id := Some n\<rparr>)"
  "emission_took ''serial'' a (put_u64 n) (a\<lparr>ea_serial := Some n\<rparr>)"
  "length v = 16 \<Longrightarrow> emission_took ''task_id'' a (put_bytes v) (a\<lparr>ea_task_id := Some (Ulid v)\<rparr>)"
  "length v = 16 \<Longrightarrow> emission_took ''chain_id'' a (put_bytes v) (a\<lparr>ea_chain_id := Some (word_of_nat (from_be v))\<rparr>)"
  "length v = 16 \<Longrightarrow> emission_took ''grant_id'' a (put_bytes v) (a\<lparr>ea_grant_id := Some (Ulid v)\<rparr>)"
  "rstr s \<Longrightarrow> emission_took ''principal'' a (put_text s) (a\<lparr>ea_principal := Some s\<rparr>)"
  by (simp_all add: took_simps be_chain ulid_ok_def)

lemma exact_kind:
  "(\<And>k. x = kind_as_str k \<Longrightarrow> Q (f k) []) \<Longrightarrow>
   exact (andthen (of_result (ok_or EmShape (kind_parse x))) (\<lambda>v. ret (f v))) Q"
  by (cases "kind_parse x") (auto dest: kind_parse_Some)

lemma exact_emission_step: "exact (emission_step k a) (\<lambda>a' b. emission_took k a b a')"
  unfolding emission_step_def
  by (intro exact_if exact_fail
      exact_field [OF exact_lift [OF u64c.exact_get]] exact_field [OF exact_lift [OF textc.exact_get]]
      exact_field [OF exact_lift [OF exact_byte_array]] exact_field [OF exact_lift [OF exact_raw_item]]
      exact_andthen [OF exact_lift [OF textc.exact_get]] exact_kind)
    (auto simp: emission_took)
interpretation emf: field_reader emission_step emission_acc_entries emission_acc_ok emission_acc_new
  by unfold_locales (simp_all add: exact_emission_step emission_acc_entries_def emission_acc_new_def emission_acc_ok_def)

definition acc_of_emission :: "emission \<Rightarrow> emission_acc" where
  "acc_of_emission e = \<lparr>ea_kind = Some (e_kind e), ea_principal = Some (e_principal e), ea_body = Some (e_body e),
     ea_v = Some EMISSION_VERSION, ea_grant_id = e_grant_id e, ea_task_id = e_task_id e,
     ea_chain_id = e_chain_id e, ea_req_id = e_req_id e, ea_serial = e_serial e\<rparr>"

lemma emission_of_Inr: "emission_of a = Inr e \<Longrightarrow> a = acc_of_emission e \<and> principal_ok (e_principal e)"
  by (cases a) (auto simp: emission_of_def acc_of_emission_def rbind_Inr_iff split: if_splits)

lemma emission_encode_entries: "\<exists>es. emission_encode e = mb_finish (mb_of es) \<and> mset es = mset (emission_acc_entries (acc_of_emission e))"
  unfolding emission_encode_def Let_def mb_insert_Nil mb_insert_opt_of mb_of_simps
  by (rule exI, rule conjI, rule refl) (simp add: emission_acc_entries_def acc_of_emission_def chain_bytes_def [abs_def])

lemma emission_decode_exact:
  assumes "emission_decode b = Inr e"
  shows "emission_encode e = b \<and> emission_ok e"
proof -
  from assms obtain a where r: "run_whole EmCbor (rd_map EmCbor emission_step emission_acc_new) b = Inr a"
    and e: "a = acc_of_emission e" "principal_ok (e_principal e)"
    using emission_of_Inr by (auto simp: emission_decode_def rbind_Inr_iff)
  from run_whole_exact [OF emf.exact_fields r] obtain es where
    es: "canonical es" "b = put_entries es" and m: "mset (emission_acc_entries a) = mset es" "emission_acc_ok a"
    by blast
  obtain fs where "emission_encode e = mb_finish (mb_of fs)" "mset fs = mset es"
    using emission_encode_entries [of e] m(1) e(1) by auto
  moreover from this(2) have "mb_finish (mb_of fs) = put_entries es" using es(1) by (intro rebuilt)
  moreover have "emission_ok e"
    using m(2) e(2) unfolding e(1) by (auto simp: emission_ok_def emission_acc_ok_def acc_of_emission_def is_item_def)
  ultimately show ?thesis using es(2) by simp
qed

lemma emission_decode_bytes: "emission_decode b = Inr e \<Longrightarrow> emission_encode e = b"
  using emission_decode_exact by blast

text \<open>An emission has exactly one encoding: what \<open>Emission::decode\<close> accepts is byte for byte what
  \<open>Emission::encode\<close> writes for the emission it returns, its body is one canonical item and its
  principal is well formed.\<close>

theorem emission_decode_canonical:
  assumes "emission_decode b = Inr e"
  shows "emission_encode e = b \<and> emission_ok e"
  using assms by (rule emission_decode_exact)

lemma emission_keys: "keys_ok [''v'', ''body'', ''kind'', ''req_id'', ''serial'', ''task_id'', ''chain_id'', ''grant_id'', ''principal'']"
  by code_simp

lemma chain_back: "length (be_bytes 16 (unat (c :: u128))) = 16" "(word_of_nat (from_be (be_bytes 16 (unat c))) :: u128) = c"
proof -
  have "unat c < 256 ^ 16" using unsigned_less [of c, where ?'a = nat] by simp
  then show "(word_of_nat (from_be (be_bytes 16 (unat c))) :: u128) = c" by (simp add: from_be_be_bytes)
qed simp

lemma emission_steps:
  "reads d (emission_step ''v'' a) (put_u64 n) (a\<lparr>ea_v := Some n\<rparr>)"
  "reads d rd_skip b () \<Longrightarrow> reads d (emission_step ''body'' a) b (a\<lparr>ea_body := Some b\<rparr>)"
  "reads d (emission_step ''kind'' a) (put_text (kind_as_str k)) (a\<lparr>ea_kind := Some k\<rparr>)"
  "reads d (emission_step ''req_id'' a) (put_u64 n) (a\<lparr>ea_req_id := Some n\<rparr>)"
  "reads d (emission_step ''serial'' a) (put_u64 n) (a\<lparr>ea_serial := Some n\<rparr>)"
  "ulid_ok u \<Longrightarrow> reads d (emission_step ''task_id'' a) (put_bytes (ulid_bytes u)) (a\<lparr>ea_task_id := Some u\<rparr>)"
  "reads d (emission_step ''chain_id'' a) (chain_bytes c) (a\<lparr>ea_chain_id := Some c\<rparr>)"
  "ulid_ok u \<Longrightarrow> reads d (emission_step ''grant_id'' a) (put_bytes (ulid_bytes u)) (a\<lparr>ea_grant_id := Some u\<rparr>)"
  "rstr s \<Longrightarrow> reads d (emission_step ''principal'' a) (put_text s) (a\<lparr>ea_principal := Some s\<rparr>)"
  unfolding chain_bytes_def
  by (simp_all add: emission_step_def)
    (rule reads_andthen1 reads_lift reads_u64 reads_text reads_id16 reads_raw_item reads_retI
      | simp add: ulid_ok_def kind_str_ok chain_back)+

lemma emission_opt_steps:
  "ea_v a = None \<Longrightarrow> steps d emission_step a (opt_entry ''v'' (map_option put_u64 n)) (a\<lparr>ea_v := n\<rparr>)"
  "ea_body a = None \<Longrightarrow> (\<forall>b. v = Some b \<longrightarrow> reads d rd_skip b ()) \<Longrightarrow>
     steps d emission_step a (opt_entry ''body'' v) (a\<lparr>ea_body := v\<rparr>)"
  "ea_kind a = None \<Longrightarrow> steps d emission_step a (opt_entry ''kind'' (map_option (\<lambda>k. put_text (kind_as_str k)) kd)) (a\<lparr>ea_kind := kd\<rparr>)"
  "ea_req_id a = None \<Longrightarrow> steps d emission_step a (opt_entry ''req_id'' (map_option put_u64 n)) (a\<lparr>ea_req_id := n\<rparr>)"
  "ea_serial a = None \<Longrightarrow> steps d emission_step a (opt_entry ''serial'' (map_option put_u64 n)) (a\<lparr>ea_serial := n\<rparr>)"
  "ea_task_id a = None \<Longrightarrow> (\<forall>x. u = Some x \<longrightarrow> ulid_ok x) \<Longrightarrow>
     steps d emission_step a (opt_entry ''task_id'' (map_option (\<lambda>t. put_bytes (ulid_bytes t)) u)) (a\<lparr>ea_task_id := u\<rparr>)"
  "ea_chain_id a = None \<Longrightarrow> steps d emission_step a (opt_entry ''chain_id'' (map_option chain_bytes c)) (a\<lparr>ea_chain_id := c\<rparr>)"
  "ea_grant_id a = None \<Longrightarrow> (\<forall>x. u = Some x \<longrightarrow> ulid_ok x) \<Longrightarrow>
     steps d emission_step a (opt_entry ''grant_id'' (map_option (\<lambda>t. put_bytes (ulid_bytes t)) u)) (a\<lparr>ea_grant_id := u\<rparr>)"
  "ea_principal a = None \<Longrightarrow> (\<forall>x. s = Some x \<longrightarrow> rstr x) \<Longrightarrow>
     steps d emission_step a (opt_entry ''principal'' (map_option put_text s)) (a\<lparr>ea_principal := s\<rparr>)"
  by (rule steps_opt; auto intro!: emission_steps)+

lemma emission_entries_canonical: "canonical (emission_acc_entries a)"
proof -
  let ?ks = "[''v'', ''body'', ''kind'', ''req_id'', ''serial'', ''task_id'', ''chain_id'', ''grant_id'', ''principal'']"
  have "subseq (map fst (emission_acc_entries a))
     ([''v''] @ [''body''] @ [''kind''] @ [''req_id''] @ [''serial''] @ [''task_id''] @ [''chain_id''] @ [''grant_id''] @ [''principal''])"
    unfolding emission_acc_entries_def map_append by (intro list_emb_append_mono subseq_opt_entry)
  then have sub: "subseq (map fst (emission_acc_entries a)) ?ks" by (simp only: append.simps)
  then have "length (map fst (emission_acc_entries a)) \<le> length ?ks" by (rule list_emb_length)
  then have "length (emission_acc_entries a) \<le> 9" by (simp only: length_map list.size)
  then show ?thesis by (intro keys_ok_canonical keys_ok_subseq [OF emission_keys sub]) simp
qed

lemma reads_emission_map:
  assumes e: "emission_ok e" and body: "reads d rd_skip (e_body e) ()"
  shows "reads (Suc d) (rd_map EmCbor emission_step emission_acc_new) (emission_encode e) (acc_of_emission e)"
proof -
  obtain es where es: "emission_encode e = mb_finish (mb_of es)" "mset es = mset (emission_acc_entries (acc_of_emission e))"
    using emission_encode_entries [of e] by blast
  have "mb_finish (mb_of es) = put_entries (emission_acc_entries (acc_of_emission e))"
    using es(2) emission_entries_canonical by (intro mb_finish_eq) (simp_all add: canonical_def)
  moreover have "steps d emission_step emission_acc_new (emission_acc_entries (acc_of_emission e)) (acc_of_emission e)"
    unfolding emission_acc_entries_def
    by (rule steps_eq, (rule steps_appI emission_opt_steps | use e body in \<open>simp add: emission_acc_new_def acc_of_emission_def emission_ok_def\<close>)+)
  ultimately show ?thesis using reads_map [OF _ emission_entries_canonical] es(1) by simp
qed

lemma emission_trip:
  assumes "emission_ok e" "e_body e = put_val v" "cval_ok v" "cdepth v \<le> 7"
  shows "emission_decode (emission_encode e) = Inr e"
proof -
  have "reads 7 rd_skip (e_body e) ()" using reads_skip assms(2-4) by simp
  from reads_emission_map [OF assms(1) this]
  have "run_whole EmCbor (rd_map EmCbor emission_step emission_acc_new) (emission_encode e) = Inr (acc_of_emission e)"
    by (rule run_whole_reads) (simp add: MAX_MAP_DEPTH_def)
  then show ?thesis
    using assms(1) by (simp add: emission_decode_def emission_of_def acc_of_emission_def emission_ok_def)
qed

text \<open>Every well-formed emission whose body nests at most seven maps survives the trip to
  \<open>policyd\<close> unchanged.\<close>

theorem emission_round_trip:
  assumes "emission_ok e" "e_body e = put_val v" "cval_ok v" "cdepth v \<le> 7"
  shows "emission_decode (emission_encode e) = Inr e"
  using assms by (rule emission_trip)

definition sample_emission :: emission where
  "sample_emission = \<lparr>e_kind = KDecision, e_principal = ''agent:a'', e_grant_id = Some (Ulid (replicate 16 1)),
     e_task_id = None, e_chain_id = Some 7, e_req_id = Some 300, e_serial = None,
     e_body = put_val (CArr [CUInt 1, CNull])\<rparr>"

lemma sample_emission_ok: "emission_ok sample_emission"
proof -
  have "cval_ok (CArr [CUInt 1, CNull])" by simp
  then show ?thesis unfolding emission_ok_def
    by (intro conjI exI [of _ "CArr [CUInt 1, CNull]"])
      (simp_all add: sample_emission_def principal_ok_def starts_with_def strip_prefix_def ascii_graphic_def
        ulid_ok_def rstr_def utf8_ascii del: put_val.simps)
qed

lemma emission_round_trip_witness: "emission_decode (emission_encode sample_emission) = Inr sample_emission"
  by (rule emission_round_trip [OF sample_emission_ok, of "CArr [CUInt 1, CNull]"])
    (simp_all add: sample_emission_def del: put_val.simps)

lemma emission_decode_canonical_witness:
  "emission_encode sample_emission = emission_encode sample_emission \<and> emission_ok sample_emission"
  using emission_decode_canonical [of "emission_encode sample_emission" sample_emission]
    emission_trip [OF sample_emission_ok, of "CArr [CUInt 1, CNull]"] by (simp add: sample_emission_def del: put_val.simps)

end
