(* ===== verification/Link.thy ===== *)
theory Link
  imports Emission Check
begin

text \<open>
  Link messages: \<open>ec-policy-eval/src/link.rs\<close>, the messages on \<open>policyd.sock\<close> in both
       directions.
  A public key is its 32 bytes, and whether 32 bytes are an Ed25519 point is the parameter
  \<open>point\<close>.
\<close>

section \<open>The key offer\<close>

definition OFFER_VERSION :: u64 where "OFFER_VERSION = 1"

datatype offer_error = OfCbor cbor_error | OfShape | OfBadKey

definition encode_key_offer :: "byte list \<Rightarrow> byte list" where
  "encode_key_offer key =
    (let m = mb_insert [] ''key'' (put_bytes key);
         m = mb_insert m ''v'' (put_u64 OFFER_VERSION)
     in mb_finish m)"

abbreviation oc :: "(cbor_error, 'a) parser \<Rightarrow> (offer_error, 'a) parser" where
  "oc \<equiv> lift_err OfCbor"

definition rd_key_offer :: "(offer_error, byte list) parser" where
  "rd_key_offer =
     andthen (oc rd_map_begin) (\<lambda>n. if n \<noteq> 2 then fail OfShape else
     andthen (oc rd_key) (\<lambda>k. if k \<noteq> ''v'' then fail OfShape else
     andthen (oc rd_u64) (\<lambda>v. if v \<noteq> OFFER_VERSION then fail OfShape else
     andthen (oc rd_key) (\<lambda>k. if k \<noteq> ''key'' then fail OfShape else
     andthen (oc (rd_byte_array 32)) (\<lambda>key.
     andthen (oc rd_map_end) (\<lambda>_. ret key))))))"

definition decode_key_offer :: "(byte list \<Rightarrow> bool) \<Rightarrow> byte list \<Rightarrow>
       offer_error + byte list" where
  "decode_key_offer point buf =
     rbind (run_whole OfCbor rd_key_offer buf) (\<lambda>key. if point key then Inr key else Inl OfBadKey)"

section \<open>Messages\<close>

definition MESSAGE_VERSION :: u64 where "MESSAGE_VERSION = 2"
definition MAX_MESSAGE :: nat where "MAX_MESSAGE = 256 * 1024"

record tail_record =
  tl_kind :: string
  tl_req_id :: "u64 option"
  tl_at_ns :: u64

datatype from_policyd =
    FTable "byte list" "byte list"
  | FDeferAnswer u64 defer_answer
  | FMinted u64 "byte list"
  | FMintRefused u64
  | FRevoked string
  | FAuditRecords u64 "tail_record list"
  | FPreview u64 u64 "byte list"
  | FTaskCreated u64 string
  | FInstallReview u64 u64 "byte list"
  | FDone u64
  | FRefused u64 string
  | FTaskState string string string
  | FProvision (pv_task: string) (pv_principal: string) (pv_package: string) (pv_version: string)
      (pv_statement: string) (pv_deadline_ms: u64) (pv_grant: "byte list") (pv_continuation: string)
      (pv_resumes: string) (pv_account: string)

datatype cancel_mode = CmDrain | CmImmediate

fun cancel_mode_as_str :: "cancel_mode \<Rightarrow> string" where
  "cancel_mode_as_str CmDrain = ''drain''"
| "cancel_mode_as_str CmImmediate = ''immediate''"

datatype message_error = MsCbor cbor_error | MsShape

definition cancel_mode_parse :: "string \<Rightarrow> message_error + cancel_mode" where
  "cancel_mode_parse s = (if s = ''drain'' then Inr CmDrain
     else if s = ''immediate'' then Inr CmImmediate else Inl MsShape)"

datatype to_policyd =
    TDefer u64 string string string
  | TMint u64 string string bool
  | TRevoke string
  | TTerminate string
  | TAuditTail u64 string u64
  | TPreviewTask (pt_req: u64) (pt_slot: u64) (pt_package: string) (pt_statement: string)
      (pt_deadline_ms: u64) (pt_narrowing: "byte list") (pt_continuation: string) (pt_resumes: string)
      (pt_account: string)
  | TCreateTask u64 u64 u64
  | TUnpauseTask u64 u64 string
  | TInstallBegin u64 string
  | TInstallAnswer u64 bool
  | TPauseTask u64 string
  | TCancelTask u64 string cancel_mode
  | TExited u64 string string

section \<open>Fields\<close>

record fields =
  f_m :: "string option"
  f_v :: "u64 option"
  f_n :: "u64 option"
  f_req :: "u64 option"
  f_sig :: "byte list option"
  f_rule :: "string option"
  f_grant :: "byte list option"
  f_scope :: "string option"
  f_table :: "byte list option"
  f_answer :: "u64 option"
  f_records :: "tail_record list option"
  f_principal :: "string option"
  f_capability :: "string option"
  f_unattended :: "bool option"
  f_reason :: "string option"
  f_deadline :: "u64 option"
  f_statement :: "string option"
  f_slot :: "u64 option"
  f_package :: "string option"
  f_narrowing :: "byte list option"
  f_continuation :: "string option"
  f_preview :: "u64 option"
  f_display :: "byte list option"
  f_task :: "string option"
  f_mode :: "string option"
  f_path :: "string option"
  f_review :: "u64 option"
  f_approve :: "bool option"
  f_state :: "string option"
  f_version :: "string option"
  f_resumes :: "string option"
  f_account :: "string option"

definition fields_default :: fields where
  "fields_default = \<lparr>f_m = None, f_v = None, f_n = None, f_req = None, f_sig = None, f_rule = None,
       f_grant = None, f_scope = None, f_table = None, f_answer = None, f_records = None, f_principal = None,
       f_capability = None, f_unattended = None, f_reason = None, f_deadline = None, f_statement = None, f_slot
       = None, f_package = None, f_narrowing = None, f_continuation = None, f_preview = None, f_display = None,
       f_task = None, f_mode = None, f_path = None, f_review = None, f_approve = None, f_state = None,
       f_version = None, f_resumes = None, f_account = None\<rparr>"

definition fields_present :: "fields \<Rightarrow> bool list" where
  "fields_present f = [f_n f \<noteq> None, f_req f \<noteq> None, f_sig f \<noteq> None, f_rule f \<noteq> None,
     f_grant f \<noteq> None, f_scope f \<noteq> None, f_table f \<noteq> None, f_answer f \<noteq> None,
     f_records f \<noteq> None, f_principal f \<noteq> None, f_capability f \<noteq> None, f_unattended f
       \<noteq> None,
     f_reason f \<noteq> None, f_deadline f \<noteq> None, f_statement f \<noteq> None, f_slot f \<noteq> None,
     f_package f \<noteq> None, f_narrowing f \<noteq> None, f_continuation f \<noteq> None, f_preview f
       \<noteq> None,
     f_display f \<noteq> None, f_task f \<noteq> None, f_mode f \<noteq> None, f_path f \<noteq> None,
     f_review f \<noteq> None, f_approve f \<noteq> None, f_state f \<noteq> None, f_version f \<noteq> None,
     f_resumes f \<noteq> None, f_account f \<noteq> None]"

definition fields_names :: "fields \<Rightarrow> u32" where
  "fields_names f = foldl (\<lambda>b (i, present). if present then b OR push_bit i 1 else b) 0
     (List.enumerate 0 (fields_present f))"

definition F_N :: u32 where "F_N = push_bit 0 1"
definition F_REQ :: u32 where "F_REQ = push_bit 1 1"
definition F_SIG :: u32 where "F_SIG = push_bit 2 1"
definition F_RULE :: u32 where "F_RULE = push_bit 3 1"
definition F_GRANT :: u32 where "F_GRANT = push_bit 4 1"
definition F_SCOPE :: u32 where "F_SCOPE = push_bit 5 1"
definition F_TABLE :: u32 where "F_TABLE = push_bit 6 1"
definition F_ANSWER :: u32 where "F_ANSWER = push_bit 7 1"
definition F_RECORDS :: u32 where "F_RECORDS = push_bit 8 1"
definition F_PRINCIPAL :: u32 where "F_PRINCIPAL = push_bit 9 1"
definition F_CAPABILITY :: u32 where "F_CAPABILITY = push_bit 10 1"
definition F_UNATTENDED :: u32 where "F_UNATTENDED = push_bit 11 1"
definition F_REASON :: u32 where "F_REASON = push_bit 12 1"
definition F_DEADLINE :: u32 where "F_DEADLINE = push_bit 13 1"
definition F_STATEMENT :: u32 where "F_STATEMENT = push_bit 14 1"
definition F_SLOT :: u32 where "F_SLOT = push_bit 15 1"
definition F_PACKAGE :: u32 where "F_PACKAGE = push_bit 16 1"
definition F_NARROWING :: u32 where "F_NARROWING = push_bit 17 1"
definition F_CONTINUATION :: u32 where "F_CONTINUATION = push_bit 18 1"
definition F_PREVIEW :: u32 where "F_PREVIEW = push_bit 19 1"
definition F_DISPLAY :: u32 where "F_DISPLAY = push_bit 20 1"
definition F_TASK :: u32 where "F_TASK = push_bit 21 1"
definition F_MODE :: u32 where "F_MODE = push_bit 22 1"
definition F_PATH :: u32 where "F_PATH = push_bit 23 1"
definition F_REVIEW :: u32 where "F_REVIEW = push_bit 24 1"
definition F_APPROVE :: u32 where "F_APPROVE = push_bit 25 1"
definition F_STATE :: u32 where "F_STATE = push_bit 26 1"
definition F_VERSION :: u32 where "F_VERSION = push_bit 27 1"
definition F_RESUMES :: u32 where "F_RESUMES = push_bit 28 1"
definition F_ACCOUNT :: u32 where "F_ACCOUNT = push_bit 29 1"

lemmas F_defs = F_N_def F_REQ_def F_SIG_def F_RULE_def F_GRANT_def F_SCOPE_def F_TABLE_def F_ANSWER_def
  F_RECORDS_def F_PRINCIPAL_def F_CAPABILITY_def F_UNATTENDED_def F_REASON_def F_DEADLINE_def F_STATEMENT_def
       F_SLOT_def
  F_PACKAGE_def F_NARROWING_def F_CONTINUATION_def F_PREVIEW_def F_DISPLAY_def F_TASK_def F_MODE_def F_PATH_def
  F_REVIEW_def F_APPROVE_def F_STATE_def F_VERSION_def F_RESUMES_def F_ACCOUNT_def

definition account_ok :: "string \<Rightarrow> bool" where
  "account_ok a \<longleftrightarrow> length a \<le> 32 \<and>
     list_all (\<lambda>b. ascii_alphanumeric b \<or> b = CHR ''_'' \<or> b = CHR ''-'') a"

definition msg_account :: "string option \<Rightarrow> message_error + string" where
  "msg_account a = rbind (ok_or MsShape a) (\<lambda>a. if account_ok a then Inr a else Inl MsShape)"

abbreviation mc :: "(cbor_error, 'a) parser \<Rightarrow> (message_error, 'a) parser" where
  "mc \<equiv> lift_err MsCbor"

record tail_acc =
  tc_kind :: "string option"
  tc_req_id :: "u64 option"
  tc_at_ns :: "u64 option"

definition tail_step :: "string \<Rightarrow> tail_acc \<Rightarrow> (message_error, tail_acc) parser" where
  "tail_step k a =
    (if k = ''kind'' then andthen (mc rd_text) (\<lambda>v. ret (a\<lparr>tc_kind := Some v\<rparr>))
     else if k = ''at_ns'' then andthen (mc rd_u64) (\<lambda>v. ret (a\<lparr>tc_at_ns := Some v\<rparr>))
     else if k = ''req_id'' then andthen (mc rd_u64) (\<lambda>v. ret (a\<lparr>tc_req_id := Some v\<rparr>))
     else fail MsShape)"

definition read_tail :: "(message_error, tail_record) parser" where
  "read_tail =
     andthen (rd_map MsCbor tail_step \<lparr>tc_kind = None, tc_req_id = None, tc_at_ns = None\<rparr>) (\<lambda>a.
     andthen (of_result (ok_or MsShape (tc_kind a))) (\<lambda>kind.
     andthen (of_result (ok_or MsShape (tc_at_ns a))) (\<lambda>at_ns.
     ret \<lparr>tl_kind = kind, tl_req_id = tc_req_id a, tl_at_ns = at_ns\<rparr>)))"

definition read_records :: "(message_error, tail_record list) parser" where
  "read_records = andthen (mc rd_array_len) (\<lambda>n.
     if 256 < n then fail MsShape else rd_many (unat n) read_tail)"

text \<open>One arm of the match of \<open>read_fields\<close>.\<close>

definition field_step :: "string \<Rightarrow> fields \<Rightarrow> (message_error, fields) parser" where
  "field_step k f =
    (if k = ''m'' then andthen (mc rd_text) (\<lambda>v. ret (f\<lparr>f_m := Some v\<rparr>))
     else if k = ''v'' then andthen (mc rd_u64) (\<lambda>v. ret (f\<lparr>f_v := Some v\<rparr>))
     else if k = ''n'' then andthen (mc rd_u64) (\<lambda>v. ret (f\<lparr>f_n := Some v\<rparr>))
     else if k = ''req'' then andthen (mc rd_u64) (\<lambda>v. ret (f\<lparr>f_req := Some v\<rparr>))
     else if k = ''sig'' then andthen (mc rd_bytes) (\<lambda>v. ret (f\<lparr>f_sig := Some v\<rparr>))
     else if k = ''rule'' then andthen (mc rd_text) (\<lambda>v. ret (f\<lparr>f_rule := Some v\<rparr>))
     else if k = ''grant'' then andthen (mc rd_bytes) (\<lambda>v. ret (f\<lparr>f_grant := Some v\<rparr>))
     else if k = ''scope'' then andthen (mc rd_text) (\<lambda>v. ret (f\<lparr>f_scope := Some v\<rparr>))
     else if k = ''table'' then andthen (mc rd_bytes) (\<lambda>v. ret (f\<lparr>f_table := Some v\<rparr>))
     else if k = ''answer'' then andthen (mc rd_u64) (\<lambda>v. ret (f\<lparr>f_answer := Some v\<rparr>))
     else if k = ''records'' then andthen read_records (\<lambda>v. ret (f\<lparr>f_records := Some v\<rparr>))
     else if k = ''principal'' then andthen (mc rd_text) (\<lambda>v. ret (f\<lparr>f_principal := Some v\<rparr>))
     else if k = ''capability'' then andthen (mc rd_text) (\<lambda>v. ret (f\<lparr>f_capability := Some v\<rparr>))
     else if k = ''unattended'' then andthen (mc rd_bool) (\<lambda>v. ret (f\<lparr>f_unattended := Some v\<rparr>))
     else if k = ''reason'' then andthen (mc rd_text) (\<lambda>v. ret (f\<lparr>f_reason := Some v\<rparr>))
     else if k = ''deadline'' then andthen (mc rd_u64) (\<lambda>v. ret (f\<lparr>f_deadline := Some v\<rparr>))
     else if k = ''statement'' then andthen (mc rd_text) (\<lambda>v. ret (f\<lparr>f_statement := Some v\<rparr>))
     else if k = ''slot'' then andthen (mc rd_u64) (\<lambda>v. ret (f\<lparr>f_slot := Some v\<rparr>))
     else if k = ''package'' then andthen (mc rd_text) (\<lambda>v. ret (f\<lparr>f_package := Some v\<rparr>))
     else if k = ''narrowing'' then andthen (mc rd_bytes) (\<lambda>v. ret (f\<lparr>f_narrowing := Some v\<rparr>))
     else if k = ''continuation'' then andthen (mc rd_text) (\<lambda>v. ret (f\<lparr>f_continuation := Some
       v\<rparr>))
     else if k = ''preview'' then andthen (mc rd_u64) (\<lambda>v. ret (f\<lparr>f_preview := Some v\<rparr>))
     else if k = ''display'' then andthen (mc rd_bytes) (\<lambda>v. ret (f\<lparr>f_display := Some v\<rparr>))
     else if k = ''task'' then andthen (mc rd_text) (\<lambda>v. ret (f\<lparr>f_task := Some v\<rparr>))
     else if k = ''mode'' then andthen (mc rd_text) (\<lambda>v. ret (f\<lparr>f_mode := Some v\<rparr>))
     else if k = ''path'' then andthen (mc rd_text) (\<lambda>v. ret (f\<lparr>f_path := Some v\<rparr>))
     else if k = ''review'' then andthen (mc rd_u64) (\<lambda>v. ret (f\<lparr>f_review := Some v\<rparr>))
     else if k = ''approve'' then andthen (mc rd_bool) (\<lambda>v. ret (f\<lparr>f_approve := Some v\<rparr>))
     else if k = ''state'' then andthen (mc rd_text) (\<lambda>v. ret (f\<lparr>f_state := Some v\<rparr>))
     else if k = ''version'' then andthen (mc rd_text) (\<lambda>v. ret (f\<lparr>f_version := Some v\<rparr>))
     else if k = ''resumes'' then andthen (mc rd_text) (\<lambda>v. ret (f\<lparr>f_resumes := Some v\<rparr>))
     else if k = ''account'' then andthen (mc rd_text) (\<lambda>v. ret (f\<lparr>f_account := Some v\<rparr>))
     else fail MsShape)"

text \<open>The first key of the map must be the tag; \<open>i\<close> counts the entries read.\<close>

definition fields_step :: "string \<Rightarrow> nat \<times> fields \<Rightarrow> (message_error, nat \<times>
       fields) parser" where
  "fields_step k = (\<lambda>(i, f).
     if i = 0 \<and> k \<noteq> ''m'' then fail MsShape else andthen (field_step k f) (\<lambda>f. ret (i + 1, f)))"

definition read_fields :: "byte list \<Rightarrow> message_error + fields" where
  "read_fields buf =
     rbind (run_whole MsCbor (rd_map MsCbor fields_step (0, fields_default)) buf) (\<lambda>(_, f).
       if f_v f \<noteq> Some MESSAGE_VERSION then Inl MsShape else Inr f)"

definition shape :: "fields \<Rightarrow> u32 \<Rightarrow> message_error + unit" where
  "shape f want = (if fields_names f = want then Inr () else Inl MsShape)"

definition msg_principal :: "string option \<Rightarrow> message_error + string" where
  "msg_principal p = rbind (ok_or MsShape p) (\<lambda>p. if principal_ok p then Inr p else Inl MsShape)"

definition task_id_ok :: "string \<Rightarrow> bool" where
  "task_id_ok t \<longleftrightarrow> t \<noteq> [] \<and> length t \<le> 128 \<and> list_all ascii_graphic t"

definition msg_task_id :: "string option \<Rightarrow> message_error + string" where
  "msg_task_id t = rbind (ok_or MsShape t) (\<lambda>t. if task_id_ok t then Inr t else Inl MsShape)"

definition message :: "string \<Rightarrow> (mapb \<Rightarrow> mapb) \<Rightarrow> byte list" where
  "message tag f =
    (let m = mb_insert [] ''m'' (put_text tag);
         m = mb_insert m ''v'' (put_u64 MESSAGE_VERSION)
     in mb_finish (f m))"

text \<open>The closures of the encoders insert these entries, in this order.\<close>

definition inserts :: "(string \<times> byte list) list \<Rightarrow> mapb \<Rightarrow> mapb" where
  "inserts es m = foldl (\<lambda>m (k, v). mb_insert m k v) m es"

definition encode_tail :: "tail_record \<Rightarrow> byte list" where
  "encode_tail r =
    (let e = mb_insert [] ''kind'' (put_text (tl_kind r));
         e = mb_insert e ''at_ns'' (put_u64 (tl_at_ns r));
         e = mb_insert_opt e ''req_id'' (map_option put_u64 (tl_req_id r))
     in mb_finish e)"

definition put_records :: "tail_record list \<Rightarrow> byte list" where
  "put_records rs = put_array (length rs) @ concat (map encode_tail rs)"

fun answer_code :: "defer_answer \<Rightarrow> u64" where
  "answer_code AnsDeny = 0"
| "answer_code AnsPrompt = 1"
| "answer_code AnsFallthrough = 2"

fun from_encode :: "from_policyd \<Rightarrow> byte list" where
  "from_encode (FTable table sig) = message ''table'' (inserts [(''sig'', put_bytes sig), (''table'', put_bytes
       table)])"
| "from_encode (FDeferAnswer req answer) = message ''defer_answer'' (inserts [(''req'', put_u64 req),
       (''answer'', put_u64 (answer_code answer))])"
| "from_encode (FMinted req grant) = message ''minted'' (inserts [(''req'', put_u64 req), (''grant'', put_bytes
       grant)])"
| "from_encode (FMintRefused req) = message ''mint_refused'' (inserts [(''req'', put_u64 req)])"
| "from_encode (FRevoked princ) = message ''revoked'' (inserts [(''principal'', put_text princ)])"
| "from_encode (FAuditRecords req records) = message ''audit_records'' (inserts [(''req'', put_u64 req),
       (''records'', put_records records)])"
| "from_encode (FPreview req preview display) = message ''preview'' (inserts [(''req'', put_u64 req),
       (''preview'', put_u64 preview), (''display'', put_bytes display)])"
| "from_encode (FTaskCreated req task) = message ''task_created'' (inserts [(''req'', put_u64 req), (''task'',
       put_text task)])"
| "from_encode (FInstallReview req review display) = message ''install_review'' (inserts [(''req'', put_u64
       req), (''review'', put_u64 review), (''display'', put_bytes display)])"
| "from_encode (FDone req) = message ''done'' (inserts [(''req'', put_u64 req)])"
| "from_encode (FRefused req reason) = message ''refused'' (inserts [(''req'', put_u64 req), (''reason'',
       put_text reason)])"
| "from_encode (FTaskState task state reason) = message ''task_state'' (inserts [(''task'', put_text task),
       (''state'', put_text state), (''reason'', put_text reason)])"
| "from_encode (FProvision task princ package version statement deadline grant continuation resumes account) =
       message ''provision'' (inserts [(''account'', put_text account), (''resumes'', put_text resumes),
       (''task'', put_text task), (''grant'', put_bytes grant), (''package'', put_text package), (''version'',
       put_text version), (''deadline'', put_u64 deadline), (''principal'', put_text princ), (''statement'',
       put_text statement), (''continuation'', put_text continuation)])"

definition from_of_fields :: "fields \<Rightarrow> message_error + from_policyd" where
  "from_of_fields f = rbind (ok_or MsShape (f_m f)) (\<lambda>tag.
     if tag = ''table'' then rbind (shape f (F_TABLE OR F_SIG)) (\<lambda>_. rbind (ok_or MsShape (case f_sig f
       of Some s \<Rightarrow> if length s = 64 then Some s else None | None \<Rightarrow> None))
       (\<lambda>sig. rbind (ok_or MsShape (f_table f)) (\<lambda>table. Inr (FTable table sig))))
     else if tag = ''defer_answer'' then rbind (shape f (F_REQ OR F_ANSWER)) (\<lambda>_. rbind (case f_answer
       f of Some a \<Rightarrow> if a = 0 then Inr AnsDeny else if a = 1 then Inr AnsPrompt else if a = 2 then
       Inr AnsFallthrough else Inl MsShape | None \<Rightarrow> Inl MsShape) (\<lambda>answer. rbind (ok_or
       MsShape (f_req f)) (\<lambda>req. Inr (FDeferAnswer req answer))))
     else if tag = ''minted'' then rbind (shape f (F_REQ OR F_GRANT)) (\<lambda>_. rbind (ok_or MsShape (f_req
       f)) (\<lambda>req. rbind (ok_or MsShape (f_grant f)) (\<lambda>grant. Inr (FMinted req grant))))
     else if tag = ''mint_refused'' then rbind (shape f (F_REQ)) (\<lambda>_. rbind (ok_or MsShape (f_req f))
       (\<lambda>req. Inr (FMintRefused req)))
     else if tag = ''revoked'' then rbind (shape f (F_PRINCIPAL)) (\<lambda>_. rbind (msg_principal
       (f_principal f)) (\<lambda>princ. Inr (FRevoked princ)))
     else if tag = ''audit_records'' then rbind (shape f (F_REQ OR F_RECORDS)) (\<lambda>_. rbind (ok_or
       MsShape (f_req f)) (\<lambda>req. rbind (ok_or MsShape (f_records f)) (\<lambda>records. Inr
       (FAuditRecords req records))))
     else if tag = ''preview'' then rbind (shape f (F_REQ OR F_PREVIEW OR F_DISPLAY)) (\<lambda>_. rbind (ok_or
       MsShape (f_req f)) (\<lambda>req. rbind (ok_or MsShape (f_preview f)) (\<lambda>preview. rbind (ok_or
       MsShape (f_display f)) (\<lambda>display. Inr (FPreview req preview display)))))
     else if tag = ''task_created'' then rbind (shape f (F_REQ OR F_TASK)) (\<lambda>_. rbind (ok_or MsShape
       (f_req f)) (\<lambda>req. rbind (msg_task_id (f_task f)) (\<lambda>task. Inr (FTaskCreated req task))))
     else if tag = ''install_review'' then rbind (shape f (F_REQ OR F_REVIEW OR F_DISPLAY)) (\<lambda>_. rbind
       (ok_or MsShape (f_req f)) (\<lambda>req. rbind (ok_or MsShape (f_review f)) (\<lambda>review. rbind
       (ok_or MsShape (f_display f)) (\<lambda>display. Inr (FInstallReview req review display)))))
     else if tag = ''done'' then rbind (shape f (F_REQ)) (\<lambda>_. rbind (ok_or MsShape (f_req f))
       (\<lambda>req. Inr (FDone req)))
     else if tag = ''refused'' then rbind (shape f (F_REQ OR F_REASON)) (\<lambda>_. rbind (ok_or MsShape
       (f_req f)) (\<lambda>req. rbind (ok_or MsShape (f_reason f)) (\<lambda>reason. Inr (FRefused req
       reason))))
     else if tag = ''task_state'' then rbind (shape f (F_TASK OR F_STATE OR F_REASON)) (\<lambda>_. rbind
       (msg_task_id (f_task f)) (\<lambda>task. rbind (ok_or MsShape (f_state f)) (\<lambda>state. rbind (ok_or
       MsShape (f_reason f)) (\<lambda>reason. Inr (FTaskState task state reason)))))
     else if tag = ''provision'' then rbind (shape f (F_TASK OR F_PRINCIPAL OR F_PACKAGE OR F_VERSION OR
       F_STATEMENT OR F_DEADLINE OR F_GRANT OR F_CONTINUATION OR F_RESUMES OR F_ACCOUNT)) (\<lambda>_. rbind
       (ok_or MsShape (f_continuation f)) (\<lambda>continuation. rbind (ok_or MsShape (f_resumes f))
       (\<lambda>resumes. if continuation \<noteq> [] \<and> resumes \<noteq> [] then Inl MsShape else rbind
       (msg_task_id (f_task f)) (\<lambda>task. rbind (msg_principal (f_principal f)) (\<lambda>princ. rbind
       (ok_or MsShape (f_package f)) (\<lambda>package. rbind (ok_or MsShape (f_version f)) (\<lambda>version.
       rbind (ok_or MsShape (f_statement f)) (\<lambda>statement. rbind (ok_or MsShape (f_deadline f))
       (\<lambda>deadline. rbind (ok_or MsShape (f_grant f)) (\<lambda>grant. rbind (msg_account (f_account f))
       (\<lambda>account. Inr (FProvision task princ package version statement deadline grant continuation
       resumes account))))))))))))
     else Inl MsShape)"

definition from_decode :: "byte list \<Rightarrow> message_error + from_policyd" where
  "from_decode buf = rbind (read_fields buf) from_of_fields"

fun to_encode :: "to_policyd \<Rightarrow> byte list" where
  "to_encode (TDefer req princ capability rule) = message ''defer'' (inserts [(''req'', put_u64 req),
       (''rule'', put_text rule), (''principal'', put_text princ), (''capability'', put_text capability)])"
| "to_encode (TMint req princ scope unattended) = message ''mint'' (inserts [(''req'', put_u64 req),
       (''scope'', put_text scope), (''principal'', put_text princ), (''unattended'', put_bool unattended)])"
| "to_encode (TRevoke princ) = message ''revoke'' (inserts [(''principal'', put_text princ)])"
| "to_encode (TTerminate princ) = message ''terminate'' (inserts [(''principal'', put_text princ)])"
| "to_encode (TAuditTail req princ n) = message ''audit_tail'' (inserts [(''n'', put_u64 n), (''req'', put_u64
       req), (''principal'', put_text princ)])"
| "to_encode (TPreviewTask req slot package statement deadline narrow continuation resumes account) = message
       ''preview_task'' (inserts [(''account'', put_text account), (''resumes'', put_text resumes), (''req'',
       put_u64 req), (''slot'', put_u64 slot), (''package'', put_text package), (''deadline'', put_u64
       deadline), (''narrowing'', put_bytes narrow), (''statement'', put_text statement), (''continuation'',
       put_text continuation)])"
| "to_encode (TCreateTask req slot preview) = message ''create_task'' (inserts [(''req'', put_u64 req),
       (''slot'', put_u64 slot), (''preview'', put_u64 preview)])"
| "to_encode (TUnpauseTask req slot task) = message ''unpause_task'' (inserts [(''req'', put_u64 req),
       (''slot'', put_u64 slot), (''task'', put_text task)])"
| "to_encode (TInstallBegin req path) = message ''install_begin'' (inserts [(''req'', put_u64 req), (''path'',
       put_text path)])"
| "to_encode (TInstallAnswer review approve) = message ''install_answer'' (inserts [(''review'', put_u64
       review), (''approve'', put_bool approve)])"
| "to_encode (TPauseTask req task) = message ''pause_task'' (inserts [(''req'', put_u64 req), (''task'',
       put_text task)])"
| "to_encode (TCancelTask req task mode) = message ''cancel_task'' (inserts [(''req'', put_u64 req), (''task'',
       put_text task), (''mode'', put_text (cancel_mode_as_str mode))])"
| "to_encode (TExited req task reason) = message ''exited'' (inserts [(''req'', put_u64 req), (''task'',
       put_text task), (''reason'', put_text reason)])"

definition to_of_fields :: "fields \<Rightarrow> message_error + to_policyd" where
  "to_of_fields f = rbind (ok_or MsShape (f_m f)) (\<lambda>tag.
     if tag = ''defer'' then rbind (shape f (F_REQ OR F_PRINCIPAL OR F_CAPABILITY OR F_RULE)) (\<lambda>_.
       rbind (ok_or MsShape (f_req f)) (\<lambda>req. rbind (msg_principal (f_principal f)) (\<lambda>princ.
       rbind (ok_or MsShape (f_capability f)) (\<lambda>capability. rbind (ok_or MsShape (f_rule f))
       (\<lambda>rule. Inr (TDefer req princ capability rule))))))
     else if tag = ''mint'' then rbind (shape f (F_REQ OR F_PRINCIPAL OR F_SCOPE OR F_UNATTENDED)) (\<lambda>_.
       rbind (ok_or MsShape (f_req f)) (\<lambda>req. rbind (msg_principal (f_principal f)) (\<lambda>princ.
       rbind (ok_or MsShape (f_scope f)) (\<lambda>scope. rbind (ok_or MsShape (f_unattended f))
       (\<lambda>unattended. Inr (TMint req princ scope unattended))))))
     else if tag = ''revoke'' then rbind (shape f (F_PRINCIPAL)) (\<lambda>_. rbind (msg_principal (f_principal
       f)) (\<lambda>princ. Inr (TRevoke princ)))
     else if tag = ''terminate'' then rbind (shape f (F_PRINCIPAL)) (\<lambda>_. rbind (msg_principal
       (f_principal f)) (\<lambda>princ. Inr (TTerminate princ)))
     else if tag = ''audit_tail'' then rbind (shape f (F_REQ OR F_PRINCIPAL OR F_N)) (\<lambda>_. rbind (ok_or
       MsShape (f_req f)) (\<lambda>req. rbind (msg_principal (f_principal f)) (\<lambda>princ. rbind (map_sum
       id (\<lambda>n. min n 256) (ok_or MsShape (f_n f))) (\<lambda>n. Inr (TAuditTail req princ n)))))
     else if tag = ''preview_task'' then rbind (shape f (F_REQ OR F_SLOT OR F_PACKAGE OR F_STATEMENT OR
       F_DEADLINE OR F_NARROWING OR F_CONTINUATION OR F_RESUMES OR F_ACCOUNT)) (\<lambda>_. if is_some_and
       (f_continuation f) (\<lambda>c. c \<noteq> []) \<and> is_some_and (f_resumes f) (\<lambda>r. r \<noteq>
       []) then Inl MsShape else rbind (ok_or MsShape (f_req f)) (\<lambda>req. rbind (ok_or MsShape (f_slot
       f)) (\<lambda>slot. rbind (ok_or MsShape (f_package f)) (\<lambda>package. rbind (ok_or MsShape
       (f_statement f)) (\<lambda>statement. rbind (ok_or MsShape (f_deadline f)) (\<lambda>deadline. rbind
       (ok_or MsShape (f_narrowing f)) (\<lambda>narrow. rbind (ok_or MsShape (f_continuation f))
       (\<lambda>continuation. rbind (ok_or MsShape (f_resumes f)) (\<lambda>resumes. rbind (msg_account
       (f_account f)) (\<lambda>account. Inr (TPreviewTask req slot package statement deadline narrow
       continuation resumes account)))))))))))
     else if tag = ''create_task'' then rbind (shape f (F_REQ OR F_SLOT OR F_PREVIEW)) (\<lambda>_. rbind
       (ok_or MsShape (f_req f)) (\<lambda>req. rbind (ok_or MsShape (f_slot f)) (\<lambda>slot. rbind (ok_or
       MsShape (f_preview f)) (\<lambda>preview. Inr (TCreateTask req slot preview)))))
     else if tag = ''unpause_task'' then rbind (shape f (F_REQ OR F_SLOT OR F_TASK)) (\<lambda>_. rbind (ok_or
       MsShape (f_req f)) (\<lambda>req. rbind (ok_or MsShape (f_slot f)) (\<lambda>slot. rbind (msg_task_id
       (f_task f)) (\<lambda>task. Inr (TUnpauseTask req slot task)))))
     else if tag = ''install_begin'' then rbind (shape f (F_REQ OR F_PATH)) (\<lambda>_. rbind (ok_or MsShape
       (f_req f)) (\<lambda>req. rbind (ok_or MsShape (f_path f)) (\<lambda>path. Inr (TInstallBegin req
       path))))
     else if tag = ''install_answer'' then rbind (shape f (F_REVIEW OR F_APPROVE)) (\<lambda>_. rbind (ok_or
       MsShape (f_review f)) (\<lambda>review. rbind (ok_or MsShape (f_approve f)) (\<lambda>approve. Inr
       (TInstallAnswer review approve))))
     else if tag = ''pause_task'' then rbind (shape f (F_REQ OR F_TASK)) (\<lambda>_. rbind (ok_or MsShape
       (f_req f)) (\<lambda>req. rbind (msg_task_id (f_task f)) (\<lambda>task. Inr (TPauseTask req task))))
     else if tag = ''cancel_task'' then rbind (shape f (F_REQ OR F_TASK OR F_MODE)) (\<lambda>_. rbind (ok_or
       MsShape (f_req f)) (\<lambda>req. rbind (msg_task_id (f_task f)) (\<lambda>task. rbind (rbind (ok_or
       MsShape (f_mode f)) cancel_mode_parse) (\<lambda>mode. Inr (TCancelTask req task mode)))))
     else if tag = ''exited'' then rbind (shape f (F_REQ OR F_TASK OR F_REASON)) (\<lambda>_. rbind (ok_or
       MsShape (f_reason f)) (\<lambda>reason. if reason \<noteq> ''completed'' \<and> reason \<noteq>
       ''failed'' then Inl MsShape else rbind (ok_or MsShape (f_req f)) (\<lambda>req. rbind (msg_task_id
       (f_task f)) (\<lambda>task. Inr (TExited req task reason)))))
     else Inl MsShape)"

definition to_decode :: "byte list \<Rightarrow> message_error + to_policyd" where
  "to_decode buf = rbind (read_fields buf) to_of_fields"

text \<open>\<open>r.map_begin().is_ok() && r.key().is_ok_and(|k| k == "m")\<close>.\<close>

definition is_message :: "byte list \<Rightarrow> bool" where
  "is_message buf = (case rd_map_begin (reader_new buf) of Inl _ \<Rightarrow> False
     | Inr (_, r) \<Rightarrow> (case rd_key r of Inl _ \<Rightarrow> False | Inr (k, _) \<Rightarrow> k = ''m''))"

end
