(* ===== verification/Link_Laws.thy ===== *)
theory Link_Laws
  imports Link Emission_Laws
begin

text \<open>
  Laws of link messages: the field reader of \<open>read_fields\<close>, both message codecs, the key offer and
  the test that tells a message from an audit emission.
\<close>

section \<open>Audit tails\<close>

definition tail_ok :: "tail_record \<Rightarrow> bool" where
  "tail_ok t \<longleftrightarrow> rstr (tl_kind t)"

definition tail_acc_entries :: "tail_acc \<Rightarrow> entries" where
  "tail_acc_entries a = opt_entry ''kind'' (map_option put_text (tc_kind a)) @
     opt_entry ''at_ns'' (map_option put_u64 (tc_at_ns a)) @ opt_entry ''req_id'' (map_option put_u64 (tc_req_id a))"

definition tail_acc_ok :: "tail_acc \<Rightarrow> bool" where
  "tail_acc_ok a \<longleftrightarrow> (\<forall>k. tc_kind a = Some k \<longrightarrow> rstr k)"

definition acc_of_tail :: "tail_record \<Rightarrow> tail_acc" where
  "acc_of_tail t = \<lparr>tc_kind = Some (tl_kind t), tc_req_id = tl_req_id t, tc_at_ns = Some (tl_at_ns t)\<rparr>"

abbreviation tail_start :: tail_acc where
  "tail_start \<equiv> \<lparr>tc_kind = None, tc_req_id = None, tc_at_ns = None\<rparr>"

lemma exact_tail_step: "exact (tail_step k a) (\<lambda>a' b. took tail_acc_entries tail_acc_ok k a b a')"
  unfolding tail_step_def
  by (intro exact_if exact_fail exact_field [OF exact_lift [OF u64c.exact_get]] exact_field [OF exact_lift [OF textc.exact_get]])
    (auto simp: took_def tail_acc_entries_def tail_acc_ok_def image_Un in_opt_entry)

interpretation tailf: field_reader tail_step tail_acc_entries tail_acc_ok tail_start
  by unfold_locales (simp_all add: exact_tail_step tail_acc_entries_def tail_acc_ok_def)

lemma tail_keys: "keys_ok [''kind'', ''at_ns'', ''req_id'']"
  by code_simp

lemma tail_canonical: "canonical (tail_acc_entries a)"
proof -
  have "subseq (map fst (tail_acc_entries a)) ([''kind''] @ [''at_ns''] @ [''req_id''])"
    unfolding tail_acc_entries_def map_append by (intro list_emb_append_mono subseq_opt_entry)
  then have sub: "subseq (map fst (tail_acc_entries a)) [''kind'', ''at_ns'', ''req_id'']" by (simp only: append.simps)
  then have "length (map fst (tail_acc_entries a)) \<le> length [''kind'', ''at_ns'', ''req_id'']" by (rule list_emb_length)
  then have "length (tail_acc_entries a) \<le> 3" by (simp only: length_map list.size)
  then show ?thesis by (intro keys_ok_canonical keys_ok_subseq [OF tail_keys sub]) simp
qed

lemma encode_tail_entries: "encode_tail t = put_entries (tail_acc_entries (acc_of_tail t))"
proof -
  have "encode_tail t = mb_finish (mb_of (tail_acc_entries (acc_of_tail t)))"
    unfolding encode_tail_def Let_def mb_insert_Nil mb_insert_opt_of mb_of_simps
    by (simp add: tail_acc_entries_def acc_of_tail_def)
  then show ?thesis using rebuilt [OF tail_canonical refl] by simp
qed

lemma tail_steps:
  "rstr k \<Longrightarrow> reads d (tail_step ''kind'' a) (put_text k) (a\<lparr>tc_kind := Some k\<rparr>)"
  "reads d (tail_step ''at_ns'' a) (put_u64 n) (a\<lparr>tc_at_ns := Some n\<rparr>)"
  "reads d (tail_step ''req_id'' a) (put_u64 n) (a\<lparr>tc_req_id := Some n\<rparr>)"
  by (simp_all add: tail_step_def) (rule reads_andthen1 reads_lift reads_u64 reads_text reads_retI | simp)+

lemma tail_opt_steps:
  "tc_kind a = None \<Longrightarrow> (\<forall>k. v = Some k \<longrightarrow> rstr k) \<Longrightarrow>
     steps d tail_step a (opt_entry ''kind'' (map_option put_text v)) (a\<lparr>tc_kind := v\<rparr>)"
  "tc_at_ns a = None \<Longrightarrow> steps d tail_step a (opt_entry ''at_ns'' (map_option put_u64 n)) (a\<lparr>tc_at_ns := n\<rparr>)"
  "tc_req_id a = None \<Longrightarrow> steps d tail_step a (opt_entry ''req_id'' (map_option put_u64 n)) (a\<lparr>tc_req_id := n\<rparr>)"
  by (rule steps_opt; auto intro!: tail_steps)+

lemma reads_tail: "tail_ok t \<Longrightarrow> reads 1 read_tail (encode_tail t) t"
proof -
  assume t: "tail_ok t"
  have "steps 0 tail_step tail_start (tail_acc_entries (acc_of_tail t)) (acc_of_tail t)"
    unfolding tail_acc_entries_def
    by (rule steps_eq, (rule steps_appI tail_opt_steps | use t in \<open>simp add: acc_of_tail_def tail_ok_def\<close>)+)
  then have "reads 1 (rd_map MsCbor tail_step tail_start) (encode_tail t) (acc_of_tail t)"
    using reads_map [OF _ tail_canonical] by (simp add: encode_tail_entries)
  then show ?thesis unfolding read_tail_def
    by (rule reads_andthen1) (simp add: acc_of_tail_def reads_retI)
qed

lemma exact_tail: "exact read_tail (\<lambda>t bs. tail_ok t \<and> bs = encode_tail t)"
  unfolding read_tail_def
proof (rule exact_andthen [OF tailf.exact_fields])
  fix a bs assume a: "tail_acc_ok a \<and> (\<exists>es. canonical es \<and> bs = put_entries es \<and> mset (tail_acc_entries a) = mset es)"
  then obtain es where es: "canonical es" "bs = put_entries es" "mset (tail_acc_entries a) = mset es" by blast
  have b: "put_entries (tail_acc_entries a) = bs"
    using rebuilt [OF tail_canonical refl, of a] rebuilt [OF es(1,3)] es(2) by simp
  show "exact (andthen (of_result (ok_or MsShape (tc_kind a))) (\<lambda>kind. andthen (of_result (ok_or MsShape (tc_at_ns a)))
      (\<lambda>at_ns. ret \<lparr>tl_kind = kind, tl_req_id = tc_req_id a, tl_at_ns = at_ns\<rparr>)))
      (\<lambda>t as. tail_ok t \<and> bs @ as = encode_tail t)"
    using a by (cases "tc_kind a"; cases "tc_at_ns a")
      (auto simp: tail_ok_def tail_acc_ok_def encode_tail_entries acc_of_tail_def b [symmetric] intro!: exact_ret
        arg_cong [where f = "\<lambda>x. put_entries (tail_acc_entries x)"])
qed

interpretation tailc: codec encode_tail read_tail tail_ok 1
  by unfold_locales (rule reads_tail exact_tail, assumption?)+

definition records_ok :: "tail_record list \<Rightarrow> bool" where
  "records_ok rs \<longleftrightarrow> length rs \<le> 256 \<and> (\<forall>t \<in> set rs. tail_ok t)"

lemma reads_records: "records_ok rs \<Longrightarrow> reads 1 read_records (put_records rs) rs"
  unfolding read_records_def put_records_def
  using tailc.reads_many [of rs "length rs"]
  by (intro reads_andthen [OF reads_lift [OF reads_array_len]])
    (auto simp: records_ok_def word_less_nat_alt unat_word_of_nat64)

lemma exact_records: "exact read_records (\<lambda>rs bs. records_ok rs \<and> bs = put_records rs)"
  unfolding read_records_def
  by (rule exact_andthen [OF exact_lift [OF exact_expect [of MAJOR_ARRAY, folded rd_array_len_def]]], rule exact_if, rule exact_fail,
      rule exact_mono [OF tailc.exact_many])
    (auto simp: records_ok_def put_records_def put_array_def word_less_nat_alt)

section \<open>Fields\<close>

text \<open>The entries the fields stand for, in canonical order.\<close>

definition fields_entries :: "fields \<Rightarrow> entries" where
  "fields_entries f =
     opt_entry ''m'' (map_option put_text (f_m f)) @
     opt_entry ''n'' (map_option put_u64 (f_n f)) @
     opt_entry ''v'' (map_option put_u64 (f_v f)) @
     opt_entry ''req'' (map_option put_u64 (f_req f)) @
     opt_entry ''sig'' (map_option put_bytes (f_sig f)) @
     opt_entry ''mode'' (map_option put_text (f_mode f)) @
     opt_entry ''path'' (map_option put_text (f_path f)) @
     opt_entry ''rule'' (map_option put_text (f_rule f)) @
     opt_entry ''slot'' (map_option put_u64 (f_slot f)) @
     opt_entry ''task'' (map_option put_text (f_task f)) @
     opt_entry ''grant'' (map_option put_bytes (f_grant f)) @
     opt_entry ''scope'' (map_option put_text (f_scope f)) @
     opt_entry ''state'' (map_option put_text (f_state f)) @
     opt_entry ''table'' (map_option put_bytes (f_table f)) @
     opt_entry ''answer'' (map_option put_u64 (f_answer f)) @
     opt_entry ''reason'' (map_option put_text (f_reason f)) @
     opt_entry ''review'' (map_option put_u64 (f_review f)) @
     opt_entry ''account'' (map_option put_text (f_account f)) @
     opt_entry ''approve'' (map_option put_bool (f_approve f)) @
     opt_entry ''display'' (map_option put_bytes (f_display f)) @
     opt_entry ''package'' (map_option put_text (f_package f)) @
     opt_entry ''preview'' (map_option put_u64 (f_preview f)) @
     opt_entry ''records'' (map_option put_records (f_records f)) @
     opt_entry ''resumes'' (map_option put_text (f_resumes f)) @
     opt_entry ''version'' (map_option put_text (f_version f)) @
     opt_entry ''deadline'' (map_option put_u64 (f_deadline f)) @
     opt_entry ''narrowing'' (map_option put_bytes (f_narrowing f)) @
     opt_entry ''principal'' (map_option put_text (f_principal f)) @
     opt_entry ''statement'' (map_option put_text (f_statement f)) @
     opt_entry ''capability'' (map_option put_text (f_capability f)) @
     opt_entry ''unattended'' (map_option put_bool (f_unattended f)) @
     opt_entry ''continuation'' (map_option put_text (f_continuation f))"

definition fields_ok :: "fields \<Rightarrow> bool" where
  "fields_ok f \<longleftrightarrow>
     list_all (\<lambda>t. \<forall>s. t = Some s \<longrightarrow> rstr s)
       [f_m f, f_rule f, f_scope f, f_principal f, f_capability f,
        f_reason f, f_statement f, f_package f, f_continuation f, f_task f,
        f_mode f, f_path f, f_state f, f_version f, f_resumes f,
        f_account f] \<and>
     list_all (\<lambda>t. \<forall>s. t = Some s \<longrightarrow> length s < 2 ^ 64) [f_sig f, f_grant f, f_table f, f_narrowing f, f_display f] \<and>
     (\<forall>rs. f_records f = Some rs \<longrightarrow> records_ok rs)"

abbreviation fields_took :: "string \<Rightarrow> fields \<Rightarrow> byte list \<Rightarrow> fields \<Rightarrow> bool" where
  "fields_took \<equiv> took fields_entries fields_ok"

lemma fields_took:
  "rstr t \<Longrightarrow> fields_took ''m'' f (put_text t) (f\<lparr>f_m := Some t\<rparr>)"
  "fields_took ''n'' f (put_u64 n) (f\<lparr>f_n := Some n\<rparr>)"
  "fields_took ''v'' f (put_u64 n) (f\<lparr>f_v := Some n\<rparr>)"
  "fields_took ''req'' f (put_u64 n) (f\<lparr>f_req := Some n\<rparr>)"
  "length s < 2 ^ 64 \<Longrightarrow> fields_took ''sig'' f (put_bytes s) (f\<lparr>f_sig := Some s\<rparr>)"
  "rstr t \<Longrightarrow> fields_took ''mode'' f (put_text t) (f\<lparr>f_mode := Some t\<rparr>)"
  "rstr t \<Longrightarrow> fields_took ''path'' f (put_text t) (f\<lparr>f_path := Some t\<rparr>)"
  "rstr t \<Longrightarrow> fields_took ''rule'' f (put_text t) (f\<lparr>f_rule := Some t\<rparr>)"
  "fields_took ''slot'' f (put_u64 n) (f\<lparr>f_slot := Some n\<rparr>)"
  "rstr t \<Longrightarrow> fields_took ''task'' f (put_text t) (f\<lparr>f_task := Some t\<rparr>)"
  "length s < 2 ^ 64 \<Longrightarrow> fields_took ''grant'' f (put_bytes s) (f\<lparr>f_grant := Some s\<rparr>)"
  "rstr t \<Longrightarrow> fields_took ''scope'' f (put_text t) (f\<lparr>f_scope := Some t\<rparr>)"
  "rstr t \<Longrightarrow> fields_took ''state'' f (put_text t) (f\<lparr>f_state := Some t\<rparr>)"
  "length s < 2 ^ 64 \<Longrightarrow> fields_took ''table'' f (put_bytes s) (f\<lparr>f_table := Some s\<rparr>)"
  "fields_took ''answer'' f (put_u64 n) (f\<lparr>f_answer := Some n\<rparr>)"
  "rstr t \<Longrightarrow> fields_took ''reason'' f (put_text t) (f\<lparr>f_reason := Some t\<rparr>)"
  "fields_took ''review'' f (put_u64 n) (f\<lparr>f_review := Some n\<rparr>)"
  "rstr t \<Longrightarrow> fields_took ''account'' f (put_text t) (f\<lparr>f_account := Some t\<rparr>)"
  "fields_took ''approve'' f (put_bool c) (f\<lparr>f_approve := Some c\<rparr>)"
  "length s < 2 ^ 64 \<Longrightarrow> fields_took ''display'' f (put_bytes s) (f\<lparr>f_display := Some s\<rparr>)"
  "rstr t \<Longrightarrow> fields_took ''package'' f (put_text t) (f\<lparr>f_package := Some t\<rparr>)"
  "fields_took ''preview'' f (put_u64 n) (f\<lparr>f_preview := Some n\<rparr>)"
  "records_ok r \<Longrightarrow> fields_took ''records'' f (put_records r) (f\<lparr>f_records := Some r\<rparr>)"
  "rstr t \<Longrightarrow> fields_took ''resumes'' f (put_text t) (f\<lparr>f_resumes := Some t\<rparr>)"
  "rstr t \<Longrightarrow> fields_took ''version'' f (put_text t) (f\<lparr>f_version := Some t\<rparr>)"
  "fields_took ''deadline'' f (put_u64 n) (f\<lparr>f_deadline := Some n\<rparr>)"
  "length s < 2 ^ 64 \<Longrightarrow> fields_took ''narrowing'' f (put_bytes s) (f\<lparr>f_narrowing := Some s\<rparr>)"
  "rstr t \<Longrightarrow> fields_took ''principal'' f (put_text t) (f\<lparr>f_principal := Some t\<rparr>)"
  "rstr t \<Longrightarrow> fields_took ''statement'' f (put_text t) (f\<lparr>f_statement := Some t\<rparr>)"
  "rstr t \<Longrightarrow> fields_took ''capability'' f (put_text t) (f\<lparr>f_capability := Some t\<rparr>)"
  "fields_took ''unattended'' f (put_bool c) (f\<lparr>f_unattended := Some c\<rparr>)"
  "rstr t \<Longrightarrow> fields_took ''continuation'' f (put_text t) (f\<lparr>f_continuation := Some t\<rparr>)"
  by (simp_all add: took_def fields_entries_def fields_ok_def image_Un in_opt_entry)

lemma exact_field_step: "exact (field_step k f) (\<lambda>f' b. fields_took k f b f')"
  unfolding field_step_def
  by (intro exact_if exact_fail
      exact_field [OF exact_lift [OF u64c.exact_get]] exact_field [OF exact_lift [OF textc.exact_get]]
      exact_field [OF exact_lift [OF bytesc.exact_get]] exact_field [OF exact_lift [OF boolc.exact_get]]
      exact_field [OF exact_records])
    (simp_all add: fields_took)

definition pair_entries :: "nat \<times> fields \<Rightarrow> entries" where
  "pair_entries s = fields_entries (snd s)"

definition pair_ok :: "nat \<times> fields \<Rightarrow> bool" where
  "pair_ok s \<longleftrightarrow> fields_ok (snd s)"

lemma exact_fields_step: "exact (fields_step k s) (\<lambda>s' b. took pair_entries pair_ok k s b s')"
  by (cases s) (auto simp: fields_step_def took_def pair_entries_def pair_ok_def
    intro!: exact_andthen [OF exact_field_step])

interpretation linkf: field_reader fields_step pair_entries pair_ok "(0, fields_default)"
  by unfold_locales (rule exact_fields_step
    | simp add: pair_entries_def pair_ok_def fields_entries_def fields_default_def fields_ok_def)+

lemma fields_keys: "keys_ok [''m'', ''n'', ''v'', ''req'', ''sig'', ''mode'', ''path'', ''rule'', ''slot'', ''task'', ''grant'', ''scope'', ''state'', ''table'', ''answer'', ''reason'', ''review'', ''account'', ''approve'', ''display'', ''package'', ''preview'', ''records'', ''resumes'', ''version'', ''deadline'', ''narrowing'', ''principal'', ''statement'', ''capability'', ''unattended'', ''continuation'']"
  by code_simp

lemma fields_canonical: "canonical (fields_entries f)"
proof -
  have "subseq (map fst (fields_entries f)) ([''m''] @ [''n''] @ [''v''] @ [''req''] @ [''sig''] @ [''mode''] @ [''path''] @ [''rule''] @ [''slot''] @ [''task''] @ [''grant''] @ [''scope''] @ [''state''] @ [''table''] @ [''answer''] @ [''reason''] @ [''review''] @ [''account''] @ [''approve''] @ [''display''] @ [''package''] @ [''preview''] @ [''records''] @ [''resumes''] @ [''version''] @ [''deadline''] @ [''narrowing''] @ [''principal''] @ [''statement''] @ [''capability''] @ [''unattended''] @ [''continuation''])"
    unfolding fields_entries_def map_append by (intro list_emb_append_mono subseq_opt_entry)
  then have sub: "subseq (map fst (fields_entries f)) [''m'', ''n'', ''v'', ''req'', ''sig'', ''mode'', ''path'', ''rule'', ''slot'', ''task'', ''grant'', ''scope'', ''state'', ''table'', ''answer'', ''reason'', ''review'', ''account'', ''approve'', ''display'', ''package'', ''preview'', ''records'', ''resumes'', ''version'', ''deadline'', ''narrowing'', ''principal'', ''statement'', ''capability'', ''unattended'', ''continuation'']" by (simp only: append.simps)
  then have "length (map fst (fields_entries f)) \<le> length [''m'', ''n'', ''v'', ''req'', ''sig'', ''mode'', ''path'', ''rule'', ''slot'', ''task'', ''grant'', ''scope'', ''state'', ''table'', ''answer'', ''reason'', ''review'', ''account'', ''approve'', ''display'', ''package'', ''preview'', ''records'', ''resumes'', ''version'', ''deadline'', ''narrowing'', ''principal'', ''statement'', ''capability'', ''unattended'', ''continuation'']" by (rule list_emb_length)
  then have "length (fields_entries f) \<le> 32" by (simp only: length_map list.size)
  then show ?thesis by (intro keys_ok_canonical keys_ok_subseq [OF fields_keys sub]) simp
qed

lemma field_opt_steps:
  "f_m f = None \<Longrightarrow> (\<forall>x. t = Some x \<longrightarrow> rstr x) \<Longrightarrow> steps 1 field_step f (opt_entry ''m'' (map_option put_text (t))) (f\<lparr>f_m := t\<rparr>)"
  "f_n f = None \<Longrightarrow> steps 1 field_step f (opt_entry ''n'' (map_option put_u64 (n))) (f\<lparr>f_n := n\<rparr>)"
  "f_v f = None \<Longrightarrow> steps 1 field_step f (opt_entry ''v'' (map_option put_u64 (n))) (f\<lparr>f_v := n\<rparr>)"
  "f_req f = None \<Longrightarrow> steps 1 field_step f (opt_entry ''req'' (map_option put_u64 (n))) (f\<lparr>f_req := n\<rparr>)"
  "f_sig f = None \<Longrightarrow> (\<forall>x. s = Some x \<longrightarrow> length x < 2 ^ 64) \<Longrightarrow> steps 1 field_step f (opt_entry ''sig'' (map_option put_bytes (s))) (f\<lparr>f_sig := s\<rparr>)"
  "f_mode f = None \<Longrightarrow> (\<forall>x. t = Some x \<longrightarrow> rstr x) \<Longrightarrow> steps 1 field_step f (opt_entry ''mode'' (map_option put_text (t))) (f\<lparr>f_mode := t\<rparr>)"
  "f_path f = None \<Longrightarrow> (\<forall>x. t = Some x \<longrightarrow> rstr x) \<Longrightarrow> steps 1 field_step f (opt_entry ''path'' (map_option put_text (t))) (f\<lparr>f_path := t\<rparr>)"
  "f_rule f = None \<Longrightarrow> (\<forall>x. t = Some x \<longrightarrow> rstr x) \<Longrightarrow> steps 1 field_step f (opt_entry ''rule'' (map_option put_text (t))) (f\<lparr>f_rule := t\<rparr>)"
  "f_slot f = None \<Longrightarrow> steps 1 field_step f (opt_entry ''slot'' (map_option put_u64 (n))) (f\<lparr>f_slot := n\<rparr>)"
  "f_task f = None \<Longrightarrow> (\<forall>x. t = Some x \<longrightarrow> rstr x) \<Longrightarrow> steps 1 field_step f (opt_entry ''task'' (map_option put_text (t))) (f\<lparr>f_task := t\<rparr>)"
  "f_grant f = None \<Longrightarrow> (\<forall>x. s = Some x \<longrightarrow> length x < 2 ^ 64) \<Longrightarrow> steps 1 field_step f (opt_entry ''grant'' (map_option put_bytes (s))) (f\<lparr>f_grant := s\<rparr>)"
  "f_scope f = None \<Longrightarrow> (\<forall>x. t = Some x \<longrightarrow> rstr x) \<Longrightarrow> steps 1 field_step f (opt_entry ''scope'' (map_option put_text (t))) (f\<lparr>f_scope := t\<rparr>)"
  "f_state f = None \<Longrightarrow> (\<forall>x. t = Some x \<longrightarrow> rstr x) \<Longrightarrow> steps 1 field_step f (opt_entry ''state'' (map_option put_text (t))) (f\<lparr>f_state := t\<rparr>)"
  "f_table f = None \<Longrightarrow> (\<forall>x. s = Some x \<longrightarrow> length x < 2 ^ 64) \<Longrightarrow> steps 1 field_step f (opt_entry ''table'' (map_option put_bytes (s))) (f\<lparr>f_table := s\<rparr>)"
  "f_answer f = None \<Longrightarrow> steps 1 field_step f (opt_entry ''answer'' (map_option put_u64 (n))) (f\<lparr>f_answer := n\<rparr>)"
  "f_reason f = None \<Longrightarrow> (\<forall>x. t = Some x \<longrightarrow> rstr x) \<Longrightarrow> steps 1 field_step f (opt_entry ''reason'' (map_option put_text (t))) (f\<lparr>f_reason := t\<rparr>)"
  "f_review f = None \<Longrightarrow> steps 1 field_step f (opt_entry ''review'' (map_option put_u64 (n))) (f\<lparr>f_review := n\<rparr>)"
  "f_account f = None \<Longrightarrow> (\<forall>x. t = Some x \<longrightarrow> rstr x) \<Longrightarrow> steps 1 field_step f (opt_entry ''account'' (map_option put_text (t))) (f\<lparr>f_account := t\<rparr>)"
  "f_approve f = None \<Longrightarrow> steps 1 field_step f (opt_entry ''approve'' (map_option put_bool (c))) (f\<lparr>f_approve := c\<rparr>)"
  "f_display f = None \<Longrightarrow> (\<forall>x. s = Some x \<longrightarrow> length x < 2 ^ 64) \<Longrightarrow> steps 1 field_step f (opt_entry ''display'' (map_option put_bytes (s))) (f\<lparr>f_display := s\<rparr>)"
  "f_package f = None \<Longrightarrow> (\<forall>x. t = Some x \<longrightarrow> rstr x) \<Longrightarrow> steps 1 field_step f (opt_entry ''package'' (map_option put_text (t))) (f\<lparr>f_package := t\<rparr>)"
  "f_preview f = None \<Longrightarrow> steps 1 field_step f (opt_entry ''preview'' (map_option put_u64 (n))) (f\<lparr>f_preview := n\<rparr>)"
  "f_records f = None \<Longrightarrow> (\<forall>x. r = Some x \<longrightarrow> records_ok x) \<Longrightarrow> steps 1 field_step f (opt_entry ''records'' (map_option put_records (r))) (f\<lparr>f_records := r\<rparr>)"
  "f_resumes f = None \<Longrightarrow> (\<forall>x. t = Some x \<longrightarrow> rstr x) \<Longrightarrow> steps 1 field_step f (opt_entry ''resumes'' (map_option put_text (t))) (f\<lparr>f_resumes := t\<rparr>)"
  "f_version f = None \<Longrightarrow> (\<forall>x. t = Some x \<longrightarrow> rstr x) \<Longrightarrow> steps 1 field_step f (opt_entry ''version'' (map_option put_text (t))) (f\<lparr>f_version := t\<rparr>)"
  "f_deadline f = None \<Longrightarrow> steps 1 field_step f (opt_entry ''deadline'' (map_option put_u64 (n))) (f\<lparr>f_deadline := n\<rparr>)"
  "f_narrowing f = None \<Longrightarrow> (\<forall>x. s = Some x \<longrightarrow> length x < 2 ^ 64) \<Longrightarrow> steps 1 field_step f (opt_entry ''narrowing'' (map_option put_bytes (s))) (f\<lparr>f_narrowing := s\<rparr>)"
  "f_principal f = None \<Longrightarrow> (\<forall>x. t = Some x \<longrightarrow> rstr x) \<Longrightarrow> steps 1 field_step f (opt_entry ''principal'' (map_option put_text (t))) (f\<lparr>f_principal := t\<rparr>)"
  "f_statement f = None \<Longrightarrow> (\<forall>x. t = Some x \<longrightarrow> rstr x) \<Longrightarrow> steps 1 field_step f (opt_entry ''statement'' (map_option put_text (t))) (f\<lparr>f_statement := t\<rparr>)"
  "f_capability f = None \<Longrightarrow> (\<forall>x. t = Some x \<longrightarrow> rstr x) \<Longrightarrow> steps 1 field_step f (opt_entry ''capability'' (map_option put_text (t))) (f\<lparr>f_capability := t\<rparr>)"
  "f_unattended f = None \<Longrightarrow> steps 1 field_step f (opt_entry ''unattended'' (map_option put_bool (c))) (f\<lparr>f_unattended := c\<rparr>)"
  "f_continuation f = None \<Longrightarrow> (\<forall>x. t = Some x \<longrightarrow> rstr x) \<Longrightarrow> steps 1 field_step f (opt_entry ''continuation'' (map_option put_text (t))) (f\<lparr>f_continuation := t\<rparr>)"
  by (rule steps_opt; auto simp: field_step_def
    intro!: reads_field reads_lift reads_u64 reads_text reads_bytes reads_bool reads_records [simplified])+

lemma fields_steps:
  "steps d field_step f es f' \<Longrightarrow> i = 0 \<longrightarrow> es = [] \<or> fst (hd es) = ''m'' \<Longrightarrow>
   steps d fields_step (i, f) es (i + length es, f')"
proof (induction es arbitrary: i f)
  case (Cons e es)
  obtain k b where e: "e = (k, b)" by fastforce
  from Cons.prems(1) obtain g where g: "reads d (field_step k f) b g" "steps d field_step g es f'" by (auto simp: e)
  have "reads d (fields_step k (i, f)) b (i + 1, g)"
    using Cons.prems(2) reads_field [OF g(1), of "\<lambda>f. (i + 1, f)"] by (auto simp: fields_step_def e)
  moreover have "steps d fields_step (i + 1, g) es (i + 1 + length es, f')"
    using g(2) by (rule Cons.IH) simp
  ultimately show ?case by (auto simp: e)
qed simp

lemma reads_fields:
  assumes "fields_ok f" "f_m f \<noteq> None"
  shows "\<exists>i. reads 2 (rd_map MsCbor fields_step (0, fields_default)) (put_entries (fields_entries f)) (i, f)"
proof -
  have "steps 1 field_step fields_default (fields_entries f) f"
    unfolding fields_entries_def
    by (rule steps_eq, (rule steps_appI field_opt_steps | use assms(1) in \<open>simp add: fields_default_def fields_ok_def\<close>)+)
  moreover have "fst (hd (fields_entries f)) = ''m''" using assms(2) by (auto simp: fields_entries_def)
  ultimately have "steps 1 fields_step (0, fields_default) (fields_entries f) (0 + length (fields_entries f), f)"
    by (intro fields_steps) auto
  from reads_map [OF this fields_canonical] show ?thesis by (auto simp: numeral_2_eq_2)
qed

lemma read_fields_of:
  assumes "fields_ok f" "f_m f \<noteq> None" "f_v f = Some MESSAGE_VERSION"
  shows "read_fields (put_entries (fields_entries f)) = Inr f"
proof -
  obtain i where "reads 2 (rd_map MsCbor fields_step (0, fields_default)) (put_entries (fields_entries f)) (i, f)"
    using reads_fields [OF assms(1,2)] by blast
  from run_whole_reads [OF this] show ?thesis using assms(3) by (simp add: read_fields_def MAX_MAP_DEPTH_def)
qed

lemma read_fields_Inr:
  assumes "read_fields b = Inr f"
  shows "fields_ok f \<and> f_v f = Some MESSAGE_VERSION \<and> b = put_entries (fields_entries f)"
proof -
  from assms obtain i where r: "run_whole MsCbor (rd_map MsCbor fields_step (0, fields_default)) b = Inr (i, f)"
    and v: "f_v f = Some MESSAGE_VERSION"
    by (auto simp: read_fields_def rbind_Inr_iff split: if_splits)
  from run_whole_exact [OF linkf.exact_fields r] obtain es where
    es: "canonical es" "b = put_entries es" "mset (fields_entries f) = mset es" "fields_ok f"
    by (auto simp: pair_entries_def pair_ok_def)
  have "put_entries (fields_entries f) = put_entries es"
    using rebuilt [OF fields_canonical refl, of f] rebuilt [OF es(1,3)] by simp
  with es v show ?thesis by simp
qed

section \<open>Messages\<close>

lemma inserts_of: "inserts es (mb_of fs) = mb_of (fs @ es)"
proof (induction es arbitrary: fs)
  case (Cons e es)
  obtain k v where e: "e = (k, v)" by fastforce
  have "inserts (e # es) (mb_of fs) = inserts es (mb_of (fs @ [(k, v)]))" by (simp add: inserts_def e)
  then show ?case using Cons by (simp add: e)
qed (simp add: inserts_def)

lemma message_entries:
  assumes "mset ([(''m'', put_text tag), (''v'', put_u64 MESSAGE_VERSION)] @ es) = mset (fields_entries f)"
  shows "message tag (inserts es) = put_entries (fields_entries f)"
proof -
  have "message tag (inserts es) = mb_finish (mb_of ([(''m'', put_text tag), (''v'', put_u64 MESSAGE_VERSION)] @ es))"
    using inserts_of [of es "[(''m'', put_text tag), (''v'', put_u64 MESSAGE_VERSION)]"]
    by (simp add: message_def mb_insert_Nil mb_of_simps)
  then show ?thesis using rebuilt [OF fields_canonical assms] by simp
qed

text \<open>The presence word of \<open>Fields::names\<close> has one bit per field.\<close>

lemma bit_names_loop:
  assumes "j < 32"
  shows "bit (foldl (\<lambda>b (i, present). if present then b OR push_bit i 1 else b) (b :: u32) (List.enumerate k ps)) j
    \<longleftrightarrow> bit b j \<or> k \<le> j \<and> j < k + length ps \<and> ps ! (j - k)"
proof (induction ps arbitrary: b k)
  case (Cons p ps)
  have "bit (push_bit k 1 :: u32) j \<longleftrightarrow> j = k" using assms by (auto simp: bit_exp_iff)
  then show ?case using Cons.IH [of "if p then b OR push_bit k 1 else b" "Suc k"]
    by (auto simp: bit_or_iff nth_Cons' Suc_diff_Suc not_le less_Suc_eq_le)
qed auto

lemma length_fields_present: "length (fields_present f) = 30"
  by (simp add: fields_present_def)

lemma bit_fields_names: "j < 30 \<Longrightarrow> bit (fields_names f) j \<longleftrightarrow> fields_present f ! j"
  using bit_names_loop [of j 0 0 "fields_present f"] by (simp add: fields_names_def length_fields_present)

lemma fields_names_inject: "fields_names f = fields_names g \<Longrightarrow> fields_present f = fields_present g"
  by (rule nth_equalityI) (simp_all add: length_fields_present flip: bit_fields_names)

definition tagged :: "string \<Rightarrow> fields" where
  "tagged t = fields_default\<lparr>f_m := Some t, f_v := Some MESSAGE_VERSION\<rparr>"

fun from_fields :: "from_policyd \<Rightarrow> fields" where
  "from_fields (FTable table sig) = (tagged ''table'')\<lparr>f_table := Some table, f_sig := Some sig\<rparr>"
| "from_fields (FDeferAnswer req answer) =
    (tagged ''defer_answer'')\<lparr>f_req := Some req, f_answer := Some (answer_code answer)\<rparr>"
| "from_fields (FMinted req grant) = (tagged ''minted'')\<lparr>f_req := Some req, f_grant := Some grant\<rparr>"
| "from_fields (FMintRefused req) = (tagged ''mint_refused'')\<lparr>f_req := Some req\<rparr>"
| "from_fields (FRevoked princ) = (tagged ''revoked'')\<lparr>f_principal := Some princ\<rparr>"
| "from_fields (FAuditRecords req records) =
    (tagged ''audit_records'')\<lparr>f_req := Some req, f_records := Some records\<rparr>"
| "from_fields (FPreview req preview display) =
    (tagged ''preview'')\<lparr>f_req := Some req, f_preview := Some preview, f_display := Some display\<rparr>"
| "from_fields (FTaskCreated req task) =
    (tagged ''task_created'')\<lparr>f_req := Some req, f_task := Some task\<rparr>"
| "from_fields (FInstallReview req review display) =
    (tagged ''install_review'')\<lparr>f_req := Some req, f_review := Some review, f_display := Some display\<rparr>"
| "from_fields (FDone req) = (tagged ''done'')\<lparr>f_req := Some req\<rparr>"
| "from_fields (FRefused req reason) =
    (tagged ''refused'')\<lparr>f_req := Some req, f_reason := Some reason\<rparr>"
| "from_fields (FTaskState task state reason) =
    (tagged ''task_state'')\<lparr>f_task := Some task, f_state := Some state, f_reason := Some reason\<rparr>"
| "from_fields (FProvision task princ package version statement deadline grant continuation resumes account) =
    (tagged ''provision'')\<lparr>f_task := Some task, f_principal := Some princ, f_package := Some package, f_version := Some version, f_statement := Some statement, f_deadline := Some deadline, f_grant := Some grant, f_continuation := Some continuation, f_resumes := Some resumes, f_account := Some account\<rparr>"

lemma from_names:
  "fields_names (from_fields (FTable table sig)) = F_TABLE OR F_SIG"
  "fields_names (from_fields (FDeferAnswer req answer)) = F_REQ OR F_ANSWER"
  "fields_names (from_fields (FMinted req grant)) = F_REQ OR F_GRANT"
  "fields_names (from_fields (FMintRefused req)) = F_REQ"
  "fields_names (from_fields (FRevoked princ)) = F_PRINCIPAL"
  "fields_names (from_fields (FAuditRecords req records)) = F_REQ OR F_RECORDS"
  "fields_names (from_fields (FPreview req preview display)) = F_REQ OR F_PREVIEW OR F_DISPLAY"
  "fields_names (from_fields (FTaskCreated req task)) = F_REQ OR F_TASK"
  "fields_names (from_fields (FInstallReview req review display)) = F_REQ OR F_REVIEW OR F_DISPLAY"
  "fields_names (from_fields (FDone req)) = F_REQ"
  "fields_names (from_fields (FRefused req reason)) = F_REQ OR F_REASON"
  "fields_names (from_fields (FTaskState task state reason)) = F_TASK OR F_STATE OR F_REASON"
  "fields_names (from_fields (FProvision task princ package version statement deadline grant continuation resumes account)) = F_TASK OR F_PRINCIPAL OR F_PACKAGE OR F_VERSION OR F_STATEMENT OR F_DEADLINE OR F_GRANT OR F_CONTINUATION OR F_RESUMES OR F_ACCOUNT"
  by (simp_all add: fields_names_def fields_present_def tagged_def fields_default_def F_defs)

lemma from_tags:
  "f_m (from_fields (FTable table sig)) = Some ''table''"
  "f_m (from_fields (FDeferAnswer req answer)) = Some ''defer_answer''"
  "f_m (from_fields (FMinted req grant)) = Some ''minted''"
  "f_m (from_fields (FMintRefused req)) = Some ''mint_refused''"
  "f_m (from_fields (FRevoked princ)) = Some ''revoked''"
  "f_m (from_fields (FAuditRecords req records)) = Some ''audit_records''"
  "f_m (from_fields (FPreview req preview display)) = Some ''preview''"
  "f_m (from_fields (FTaskCreated req task)) = Some ''task_created''"
  "f_m (from_fields (FInstallReview req review display)) = Some ''install_review''"
  "f_m (from_fields (FDone req)) = Some ''done''"
  "f_m (from_fields (FRefused req reason)) = Some ''refused''"
  "f_m (from_fields (FTaskState task state reason)) = Some ''task_state''"
  "f_m (from_fields (FProvision task princ package version statement deadline grant continuation resumes account)) = Some ''provision''"
  by (simp_all add: tagged_def)

lemma from_encode_fields: "from_encode m = put_entries (fields_entries (from_fields m))"
  by (cases m; simp only: from_encode.simps from_fields.simps; rule message_entries;
    simp add: fields_entries_def tagged_def fields_default_def)

fun to_fields :: "to_policyd \<Rightarrow> fields" where
  "to_fields (TDefer req princ capability rule) =
    (tagged ''defer'')\<lparr>f_req := Some req, f_principal := Some princ, f_capability := Some capability, f_rule := Some rule\<rparr>"
| "to_fields (TMint req princ scope unattended) =
    (tagged ''mint'')\<lparr>f_req := Some req, f_principal := Some princ, f_scope := Some scope, f_unattended := Some unattended\<rparr>"
| "to_fields (TRevoke princ) = (tagged ''revoke'')\<lparr>f_principal := Some princ\<rparr>"
| "to_fields (TTerminate princ) = (tagged ''terminate'')\<lparr>f_principal := Some princ\<rparr>"
| "to_fields (TAuditTail req princ n) =
    (tagged ''audit_tail'')\<lparr>f_req := Some req, f_principal := Some princ, f_n := Some n\<rparr>"
| "to_fields (TPreviewTask req slot package statement deadline narrow continuation resumes account) =
    (tagged ''preview_task'')\<lparr>f_req := Some req, f_slot := Some slot, f_package := Some package, f_statement := Some statement, f_deadline := Some deadline, f_narrowing := Some narrow, f_continuation := Some continuation, f_resumes := Some resumes, f_account := Some account\<rparr>"
| "to_fields (TCreateTask req slot preview) =
    (tagged ''create_task'')\<lparr>f_req := Some req, f_slot := Some slot, f_preview := Some preview\<rparr>"
| "to_fields (TUnpauseTask req slot task) =
    (tagged ''unpause_task'')\<lparr>f_req := Some req, f_slot := Some slot, f_task := Some task\<rparr>"
| "to_fields (TInstallBegin req path) =
    (tagged ''install_begin'')\<lparr>f_req := Some req, f_path := Some path\<rparr>"
| "to_fields (TInstallAnswer review approve) =
    (tagged ''install_answer'')\<lparr>f_review := Some review, f_approve := Some approve\<rparr>"
| "to_fields (TPauseTask req task) = (tagged ''pause_task'')\<lparr>f_req := Some req, f_task := Some task\<rparr>"
| "to_fields (TCancelTask req task mode) =
    (tagged ''cancel_task'')\<lparr>f_req := Some req, f_task := Some task, f_mode := Some (cancel_mode_as_str mode)\<rparr>"
| "to_fields (TExited req task reason) =
    (tagged ''exited'')\<lparr>f_req := Some req, f_task := Some task, f_reason := Some reason\<rparr>"

lemma to_names:
  "fields_names (to_fields (TDefer req princ capability rule)) = F_REQ OR F_PRINCIPAL OR F_CAPABILITY OR F_RULE"
  "fields_names (to_fields (TMint req princ scope unattended)) = F_REQ OR F_PRINCIPAL OR F_SCOPE OR F_UNATTENDED"
  "fields_names (to_fields (TRevoke princ)) = F_PRINCIPAL"
  "fields_names (to_fields (TTerminate princ)) = F_PRINCIPAL"
  "fields_names (to_fields (TAuditTail req princ n)) = F_REQ OR F_PRINCIPAL OR F_N"
  "fields_names (to_fields (TPreviewTask req slot package statement deadline narrow continuation resumes account)) = F_REQ OR F_SLOT OR F_PACKAGE OR F_STATEMENT OR F_DEADLINE OR F_NARROWING OR F_CONTINUATION OR F_RESUMES OR F_ACCOUNT"
  "fields_names (to_fields (TCreateTask req slot preview)) = F_REQ OR F_SLOT OR F_PREVIEW"
  "fields_names (to_fields (TUnpauseTask req slot task)) = F_REQ OR F_SLOT OR F_TASK"
  "fields_names (to_fields (TInstallBegin req path)) = F_REQ OR F_PATH"
  "fields_names (to_fields (TInstallAnswer review approve)) = F_REVIEW OR F_APPROVE"
  "fields_names (to_fields (TPauseTask req task)) = F_REQ OR F_TASK"
  "fields_names (to_fields (TCancelTask req task mode)) = F_REQ OR F_TASK OR F_MODE"
  "fields_names (to_fields (TExited req task reason)) = F_REQ OR F_TASK OR F_REASON"
  by (simp_all add: fields_names_def fields_present_def tagged_def fields_default_def F_defs)

lemma to_tags:
  "f_m (to_fields (TDefer req princ capability rule)) = Some ''defer''"
  "f_m (to_fields (TMint req princ scope unattended)) = Some ''mint''"
  "f_m (to_fields (TRevoke princ)) = Some ''revoke''"
  "f_m (to_fields (TTerminate princ)) = Some ''terminate''"
  "f_m (to_fields (TAuditTail req princ n)) = Some ''audit_tail''"
  "f_m (to_fields (TPreviewTask req slot package statement deadline narrow continuation resumes account)) = Some ''preview_task''"
  "f_m (to_fields (TCreateTask req slot preview)) = Some ''create_task''"
  "f_m (to_fields (TUnpauseTask req slot task)) = Some ''unpause_task''"
  "f_m (to_fields (TInstallBegin req path)) = Some ''install_begin''"
  "f_m (to_fields (TInstallAnswer review approve)) = Some ''install_answer''"
  "f_m (to_fields (TPauseTask req task)) = Some ''pause_task''"
  "f_m (to_fields (TCancelTask req task mode)) = Some ''cancel_task''"
  "f_m (to_fields (TExited req task reason)) = Some ''exited''"
  by (simp_all add: tagged_def)

lemma to_encode_fields: "to_encode m = put_entries (fields_entries (to_fields m))"
  by (cases m; simp only: to_encode.simps to_fields.simps; rule message_entries;
    simp add: fields_entries_def tagged_def fields_default_def)

lemma shape_Inr [simp]: "shape f w = Inr u \<longleftrightarrow> fields_names f = w"
  by (simp add: shape_def)

lemma msg_principal_Inr [simp]: "msg_principal p = Inr q \<longleftrightarrow> p = Some q \<and> principal_ok q"
  by (auto simp: msg_principal_def rbind_Inr_iff)

lemma msg_task_id_Inr [simp]: "msg_task_id p = Inr q \<longleftrightarrow> p = Some q \<and> task_id_ok q"
  by (auto simp: msg_task_id_def rbind_Inr_iff)

lemma msg_account_Inr [simp]: "msg_account p = Inr q \<longleftrightarrow> p = Some q \<and> account_ok q"
  by (auto simp: msg_account_def rbind_Inr_iff)

lemma fields_names_eqD: "fields_names f = w \<Longrightarrow> fields_names g = w \<Longrightarrow> fields_present f = fields_present g"
  by (rule fields_names_inject) simp

fun from_ok :: "from_policyd \<Rightarrow> bool" where
  "from_ok (FTable table sig) \<longleftrightarrow> length table < 2 ^ 64 \<and> length sig = 64"
| "from_ok (FDeferAnswer req answer) \<longleftrightarrow> True"
| "from_ok (FMinted req grant) \<longleftrightarrow> length grant < 2 ^ 64"
| "from_ok (FMintRefused req) \<longleftrightarrow> True"
| "from_ok (FRevoked princ) \<longleftrightarrow> principal_ok princ \<and> rstr princ"
| "from_ok (FAuditRecords req records) \<longleftrightarrow> records_ok records"
| "from_ok (FPreview req preview display) \<longleftrightarrow> length display < 2 ^ 64"
| "from_ok (FTaskCreated req task) \<longleftrightarrow> task_id_ok task"
| "from_ok (FInstallReview req review display) \<longleftrightarrow> length display < 2 ^ 64"
| "from_ok (FDone req) \<longleftrightarrow> True"
| "from_ok (FRefused req reason) \<longleftrightarrow> rstr reason"
| "from_ok (FTaskState task state reason) \<longleftrightarrow> task_id_ok task \<and> rstr state \<and> rstr reason"
| "from_ok (FProvision task princ package version statement deadline grant continuation resumes account) \<longleftrightarrow> task_id_ok task \<and> principal_ok princ \<and> rstr princ \<and> rstr package \<and>
     rstr version \<and> rstr statement \<and> length grant < 2 ^ 64 \<and> rstr continuation \<and>
     rstr resumes \<and> account_ok account \<and> (continuation = [] \<or> resumes = [])"

fun to_ok :: "to_policyd \<Rightarrow> bool" where
  "to_ok (TDefer req princ capability rule) \<longleftrightarrow> principal_ok princ \<and> rstr princ \<and> rstr capability \<and> rstr rule"
| "to_ok (TMint req princ scope unattended) \<longleftrightarrow> principal_ok princ \<and> rstr princ \<and> rstr scope"
| "to_ok (TRevoke princ) \<longleftrightarrow> principal_ok princ \<and> rstr princ"
| "to_ok (TTerminate princ) \<longleftrightarrow> principal_ok princ \<and> rstr princ"
| "to_ok (TAuditTail req princ n) \<longleftrightarrow> principal_ok princ \<and> rstr princ"
| "to_ok (TPreviewTask req slot package statement deadline narrow continuation resumes account) \<longleftrightarrow> rstr package \<and> rstr statement \<and> length narrow < 2 ^ 64 \<and> rstr continuation \<and>
     rstr resumes \<and> account_ok account \<and> (continuation = [] \<or> resumes = [])"
| "to_ok (TCreateTask req slot preview) \<longleftrightarrow> True"
| "to_ok (TUnpauseTask req slot task) \<longleftrightarrow> task_id_ok task"
| "to_ok (TInstallBegin req path) \<longleftrightarrow> rstr path"
| "to_ok (TInstallAnswer review approve) \<longleftrightarrow> True"
| "to_ok (TPauseTask req task) \<longleftrightarrow> task_id_ok task"
| "to_ok (TCancelTask req task mode) \<longleftrightarrow> task_id_ok task"
| "to_ok (TExited req task reason) \<longleftrightarrow> task_id_ok task \<and> (reason = ''completed'' \<or> reason = ''failed'')"

lemma from_of_fields_names: "from_of_fields f = Inr m \<Longrightarrow> fields_names f = fields_names (from_fields m) \<and> f_m f = f_m (from_fields m)"
  by (auto simp: from_of_fields_def rbind_Inr_iff from_names from_tags simp del: from_fields.simps split: if_splits option.splits)

lemma fields_eqI:
  assumes "fields_present f = fields_present g" "f_m f = f_m g" "f_v f = f_v g"
    and "\<And>x. f_n g = Some x \<Longrightarrow> f_n f = Some x"
    "\<And>x. f_req g = Some x \<Longrightarrow> f_req f = Some x"
    "\<And>x. f_sig g = Some x \<Longrightarrow> f_sig f = Some x"
    "\<And>x. f_rule g = Some x \<Longrightarrow> f_rule f = Some x"
    "\<And>x. f_grant g = Some x \<Longrightarrow> f_grant f = Some x"
    "\<And>x. f_scope g = Some x \<Longrightarrow> f_scope f = Some x"
    "\<And>x. f_table g = Some x \<Longrightarrow> f_table f = Some x"
    "\<And>x. f_answer g = Some x \<Longrightarrow> f_answer f = Some x"
    "\<And>x. f_records g = Some x \<Longrightarrow> f_records f = Some x"
    "\<And>x. f_principal g = Some x \<Longrightarrow> f_principal f = Some x"
    "\<And>x. f_capability g = Some x \<Longrightarrow> f_capability f = Some x"
    "\<And>x. f_unattended g = Some x \<Longrightarrow> f_unattended f = Some x"
    "\<And>x. f_reason g = Some x \<Longrightarrow> f_reason f = Some x"
    "\<And>x. f_deadline g = Some x \<Longrightarrow> f_deadline f = Some x"
    "\<And>x. f_statement g = Some x \<Longrightarrow> f_statement f = Some x"
    "\<And>x. f_slot g = Some x \<Longrightarrow> f_slot f = Some x"
    "\<And>x. f_package g = Some x \<Longrightarrow> f_package f = Some x"
    "\<And>x. f_narrowing g = Some x \<Longrightarrow> f_narrowing f = Some x"
    "\<And>x. f_continuation g = Some x \<Longrightarrow> f_continuation f = Some x"
    "\<And>x. f_preview g = Some x \<Longrightarrow> f_preview f = Some x"
    "\<And>x. f_display g = Some x \<Longrightarrow> f_display f = Some x"
    "\<And>x. f_task g = Some x \<Longrightarrow> f_task f = Some x"
    "\<And>x. f_mode g = Some x \<Longrightarrow> f_mode f = Some x"
    "\<And>x. f_path g = Some x \<Longrightarrow> f_path f = Some x"
    "\<And>x. f_review g = Some x \<Longrightarrow> f_review f = Some x"
    "\<And>x. f_approve g = Some x \<Longrightarrow> f_approve f = Some x"
    "\<And>x. f_state g = Some x \<Longrightarrow> f_state f = Some x"
    "\<And>x. f_version g = Some x \<Longrightarrow> f_version f = Some x"
    "\<And>x. f_resumes g = Some x \<Longrightarrow> f_resumes f = Some x"
    "\<And>x. f_account g = Some x \<Longrightarrow> f_account f = Some x"
  shows "f = g"
proof -
  have o: "a = b" if "(a \<noteq> None) = (b \<noteq> None)" "\<And>x. b = Some x \<Longrightarrow> a = Some x" for a b :: "'x option"
    using that by (cases a; cases b) auto
  show ?thesis
    by (rule fields.equality)
      (rule assms(2,3) | (rule o, use assms(1) in \<open>simp add: fields_present_def\<close>, erule assms) | simp)+
qed

lemma answer_code_iff [simp]:
  "answer_code a = 0 \<longleftrightarrow> a = AnsDeny" "answer_code a = 1 \<longleftrightarrow> a = AnsPrompt" "answer_code a = 2 \<longleftrightarrow> a = AnsFallthrough"
  by (cases a; simp)+

lemma defer_answer_cases: "a \<noteq> AnsPrompt \<Longrightarrow> a \<noteq> AnsFallthrough \<Longrightarrow> a = AnsDeny"
  by (cases a) auto

lemma cancel_mode_parse_Inr [simp]: "cancel_mode_parse s = Inr c \<longleftrightarrow> s = cancel_mode_as_str c"
  by (cases c) (auto simp: cancel_mode_parse_def)

lemma rstr_tag [simp]:
  "rstr ''table''"
  "rstr ''defer_answer''"
  "rstr ''minted''"
  "rstr ''mint_refused''"
  "rstr ''revoked''"
  "rstr ''audit_records''"
  "rstr ''preview''"
  "rstr ''task_created''"
  "rstr ''install_review''"
  "rstr ''done''"
  "rstr ''refused''"
  "rstr ''task_state''"
  "rstr ''provision''"
  "rstr ''defer''"
  "rstr ''mint''"
  "rstr ''revoke''"
  "rstr ''terminate''"
  "rstr ''audit_tail''"
  "rstr ''preview_task''"
  "rstr ''create_task''"
  "rstr ''unpause_task''"
  "rstr ''install_begin''"
  "rstr ''install_answer''"
  "rstr ''pause_task''"
  "rstr ''cancel_task''"
  "rstr ''exited''"
  "rstr ''completed''"
  "rstr ''failed''"
  by (simp_all add: rstr_def utf8_ascii)

lemma utf8_list_all: "list_all P s \<Longrightarrow> (\<And>c. P c \<Longrightarrow> (of_char c :: nat) < 128) \<Longrightarrow> utf8 s"
  by (rule utf8_ascii) (auto simp: list_all_iff)

lemma task_id_rstr [simp]: "task_id_ok t \<Longrightarrow> rstr t"
  using utf8_list_all [of ascii_graphic t] by (auto simp: task_id_ok_def rstr_def ascii_graphic_def Let_def)

lemma account_rstr [simp]: "account_ok a \<Longrightarrow> rstr a"
  using utf8_list_all [of "\<lambda>b. ascii_alphanumeric b \<or> b = CHR ''_'' \<or> b = CHR ''-''" a]
  by (fastforce simp: account_ok_def rstr_def ascii_alphanumeric_def Let_def)

lemma cancel_mode_rstr [simp]: "rstr (cancel_mode_as_str c)"
  by (cases c) (simp_all add: rstr_def utf8_ascii)

text \<open>\<open>decode\<close> clamps the count of an audit tail; every other field is taken as it is.\<close>

fun to_clamp :: "to_policyd \<Rightarrow> to_policyd" where
  "to_clamp (TAuditTail req princ n) = TAuditTail req princ (min n 256)"
| "to_clamp m = m"

fun to_wide :: "fields \<Rightarrow> to_policyd \<Rightarrow> to_policyd" where
  "to_wide f (TAuditTail req princ n) = TAuditTail req princ (the (f_n f))"
| "to_wide f m = m"

lemma from_of_fields_eq: "from_of_fields f = Inr m \<Longrightarrow> f_v f = Some MESSAGE_VERSION \<Longrightarrow> f = from_fields m"
  by (auto 0 0 simp: from_of_fields_def rbind_Inr_iff map_sum_Inr simp del: from_fields.simps split: if_splits option.splits;
      rule fields_eqI [OF fields_names_inject],
      (simp add: from_names del: from_fields.simps), (simp_all add: tagged_def fields_default_def))

lemma from_of_fields_iff: "from_of_fields (from_fields m) = Inr m \<and> fields_ok (from_fields m) \<longleftrightarrow> from_ok m"
  by (cases m; simp only: from_of_fields_def from_tags shape_def from_names)
    (auto simp: tagged_def fields_default_def fields_ok_def rbind_Inr_iff is_some_and_def intro: defer_answer_cases)

lemma to_of_fields_eq: "to_of_fields f = Inr m \<Longrightarrow> f_v f = Some MESSAGE_VERSION \<Longrightarrow> f = to_fields (to_wide f m)"
  by (auto 0 0 simp: to_of_fields_def rbind_Inr_iff map_sum_Inr simp del: to_fields.simps split: if_splits option.splits;
      rule fields_eqI [OF fields_names_inject],
      (simp add: to_names del: to_fields.simps), (simp_all add: tagged_def fields_default_def))

lemma to_of_fields_iff: "to_of_fields (to_fields m) = Inr (to_clamp m) \<and> fields_ok (to_fields m) \<longleftrightarrow> to_ok m"
  by (cases m; simp only: to_of_fields_def to_tags shape_def to_names)
    (auto simp: tagged_def fields_default_def fields_ok_def rbind_Inr_iff is_some_and_def intro: defer_answer_cases)

section \<open>The message codecs\<close>

lemma from_decode_encode: "from_ok m \<Longrightarrow> from_decode (from_encode m) = Inr m"
proof -
  assume "from_ok m"
  then have f: "from_of_fields (from_fields m) = Inr m" "fields_ok (from_fields m)" using from_of_fields_iff by blast+
  have "read_fields (put_entries (fields_entries (from_fields m))) = Inr (from_fields m)"
    by (rule read_fields_of [OF f(2)]) (cases m; simp add: tagged_def)+
  then show ?thesis using f(1) by (simp add: from_decode_def from_encode_fields)
qed

lemma from_encode_decode: "from_decode b = Inr m \<Longrightarrow> from_ok m \<and> b = from_encode m"
proof -
  assume "from_decode b = Inr m"
  then obtain f where f: "read_fields b = Inr f" "from_of_fields f = Inr m" by (auto simp: from_decode_def rbind_Inr_iff)
  from read_fields_Inr [OF f(1)] from_of_fields_eq [OF f(2)] have e: "f = from_fields m" "fields_ok f" "b = put_entries (fields_entries f)"
    by simp_all
  with f(2) from_of_fields_iff [of m] show ?thesis by (simp add: from_encode_fields)
qed

lemma to_decode_encode: "to_ok m \<Longrightarrow> to_decode (to_encode m) = Inr (to_clamp m)"
proof -
  assume "to_ok m"
  then have f: "to_of_fields (to_fields m) = Inr (to_clamp m)" "fields_ok (to_fields m)" using to_of_fields_iff by blast+
  have "read_fields (put_entries (fields_entries (to_fields m))) = Inr (to_fields m)"
    by (rule read_fields_of [OF f(2)]) (cases m; simp add: tagged_def)+
  then show ?thesis using f(1) by (simp add: to_decode_def to_encode_fields)
qed

lemma to_of_fields_clamp: "to_of_fields f = Inr m \<Longrightarrow> m = to_clamp (to_wide f m)"
  by (auto 0 0 simp: to_of_fields_def rbind_Inr_iff map_sum_Inr min_def split: if_split_asm)

lemma to_encode_decode: "to_decode b = Inr m \<Longrightarrow> \<exists>w. to_ok w \<and> b = to_encode w \<and> m = to_clamp w"
proof -
  assume "to_decode b = Inr m"
  then obtain f where f: "read_fields b = Inr f" "to_of_fields f = Inr m" by (auto simp: to_decode_def rbind_Inr_iff)
  let ?w = "to_wide f m"
  from read_fields_Inr [OF f(1)] to_of_fields_eq [OF f(2)] have e: "f = to_fields ?w" "fields_ok f" "b = put_entries (fields_entries f)"
    by simp_all
  have "m = to_clamp ?w"
    using to_of_fields_clamp [OF f(2)] .
  moreover have "to_ok ?w" using f(2) e(1,2) calculation to_of_fields_iff [of ?w] by simp
  ultimately show ?thesis using e to_encode_fields [of ?w] by auto
qed

text \<open>C6: What \<open>FromPolicyd::decode\<close> accepts is exactly what \<open>FromPolicyd::encode\<close> writes for a
  well-formed message: every message survives the link, each has one encoding, and no other bytes -
  a missing, extra or reordered field, another version, trailing bytes - decode to anything.\<close>

theorem from_policyd_bijective: "from_decode b = Inr m \<longleftrightarrow> from_ok m \<and> b = from_encode m"
  using from_decode_encode from_encode_decode by blast

text \<open>C7: The other direction of the link is exact too, up to the one value \<open>ToPolicyd::decode\<close>
  changes: the count of an audit tail is clamped to 256.\<close>

theorem to_policyd_exact: "to_decode b = Inr m \<longleftrightarrow> (\<exists>w. to_ok w \<and> b = to_encode w \<and> m = to_clamp w)"
  using to_decode_encode to_encode_decode by blast

section \<open>Telling messages from emissions\<close>

lemma first_key:
  assumes "canonical ((k, v) # es)"
  shows "\<exists>n r r'. rd_map_begin (reader_new (put_entries ((k, v) # es))) = Inr (n, r) \<and> rd_key r = Inr (k, r')"
proof -
  let ?es = "(k, v) # es" let ?r0 = "reader_new (put_entries ?es)" let ?n = "word_of_nat (length ?es) :: u64"
  let ?r1 = "(adv (length (put_map (length ?es))) ?r0)\<lparr>r_maps := [(None, ?n)]\<rparr>"
  have len: "length ?es < 2 ^ 64" and k: "rstr k" using assms by (simp_all add: canonical_def)
  have n: "?n \<noteq> 0" using unat_word_of_nat64 [OF len] by (metis length_Cons nat.distinct(1) unat_0)
  have rest0: "rest ?r0 = put_map (length ?es) @ put_pairs ?es" "inb ?r0"
    by (simp_all add: rest_def reader_new_def put_entries_def inb_def del: put_pairs_simps)
  have "rd_expect MAJOR_MAP ?r0 = Inr (?n, adv (length (put_map (length ?es))) ?r0)"
    using readsD [of 0 "rd_expect MAJOR_MAP" "put_map (length ?es)" ?n ?r0 "put_pairs ?es"] rest0 reads_expect
    by (simp add: put_map_def reader_new_def MAX_MAP_DEPTH_def)
  then have "rd_map_begin ?r0 = Inr (?n, ?r1)"
    by (simp add: rd_map_begin_def andthen_def push_frame_def ret_def reader_new_def adv_def MAX_MAP_DEPTH_def)
  moreover have "rest ?r1 = put_text k @ v @ put_pairs es" "inb ?r1"
    using rest_adv [of ?r0 "put_map (length ?es)" "put_pairs ?es"] inb_adv [of ?r0 "put_map (length ?es)" "put_pairs ?es"] rest0
    by (simp_all add: rest_def inb_def)
  then have "\<exists>r'. rd_key ?r1 = Inr (k, r')"
    using rd_key_reads [of ?r1 k "v @ put_pairs es" None ?n "[]"] k n by (simp add: MAX_MAP_DEPTH_def)
  ultimately show ?thesis by blast
qed

lemma is_message_entries: "canonical ((k, v) # es) \<Longrightarrow> is_message (put_entries ((k, v) # es)) \<longleftrightarrow> k = ''m''"
  using first_key [of k v es] by (auto simp: is_message_def)

lemma is_message_fields: "f_m f \<noteq> None \<Longrightarrow> is_message (put_entries (fields_entries f))"
proof -
  assume "f_m f \<noteq> None"
  then obtain v es where "fields_entries f = (''m'', v) # es" by (auto simp: fields_entries_def)
  then show ?thesis using is_message_entries [of "''m''" v es] fields_canonical [of f] by simp
qed

lemma emission_not_message: "emission_decode b = Inr e \<Longrightarrow> \<not> is_message b"
proof -
  assume d: "emission_decode b = Inr e"
  let ?es = "emission_acc_entries (acc_of_emission e)"
  obtain es where "emission_encode e = mb_finish (mb_of es)" "mset es = mset ?es" using emission_encode_entries by blast
  then have b: "b = put_entries ?es"
    using emission_decode_bytes [OF d] rebuilt [OF emission_entries_canonical] by metis
  obtain v fs where "?es = (''v'', v) # fs" by (simp add: emission_acc_entries_def acc_of_emission_def)
  then show ?thesis using is_message_entries [of "''v''" v fs] emission_entries_canonical [of "acc_of_emission e"] b by simp
qed

text \<open>C8: The two things \<open>policyd\<close> accepts on one socket cannot be confused: bytes that decode as a
  link message of either direction pass the peek \<open>is_message\<close>, bytes that decode as an audit
  emission fail it.\<close>

theorem messages_are_not_emissions:
  "(to_decode b = Inr m \<or> from_decode b = Inr m' \<longrightarrow> is_message b) \<and> (emission_decode b = Inr e \<longrightarrow> \<not> is_message b)"
proof -
  have "is_message (to_encode w)" "is_message (from_encode w')" for w w'
    unfolding to_encode_fields from_encode_fields
    by (rule is_message_fields, cases w; simp add: tagged_def) (rule is_message_fields, cases w'; simp add: tagged_def)
  then show ?thesis using to_encode_decode from_encode_decode emission_not_message by blast
qed

section \<open>The key offer\<close>

text \<open>The offer read as a map loop whose state counts the entries.\<close>

definition offer_step :: "string \<Rightarrow> nat \<times> byte list \<Rightarrow> (offer_error, nat \<times> byte list) parser" where
  "offer_step k = (\<lambda>(i, key).
     if i = 0 then if k \<noteq> ''v'' then fail OfShape
       else andthen (oc rd_u64) (\<lambda>v. if v \<noteq> OFFER_VERSION then fail OfShape else ret (1, key))
     else if i = 1 then if k \<noteq> ''key'' then fail OfShape
       else andthen (oc (rd_byte_array 32)) (\<lambda>key. ret (2, key))
     else fail OfShape)"

lemma andthen_Inr: "andthen p f r = Inr y \<longleftrightarrow> (\<exists>x r1. p r = Inr (x, r1) \<and> f x r1 = Inr y)"
  by (auto simp: andthen_def split: sum.splits)

lemma lift_Inr: "lift_err g p r = Inr y \<longleftrightarrow> p r = Inr y"
  by (simp add: lift_err_def)

lemma ret_Inr: "ret x r = Inr (y, r') \<longleftrightarrow> y = x \<and> r' = r"
  by (auto simp: ret_def)

lemma fail_Inr: "fail e r = Inr y \<longleftrightarrow> False"
  by (simp add: fail_def)

lemma offer_step_Inr:
  "offer_step k (0, x) r = Inr (s, r') \<longleftrightarrow> k = ''v'' \<and> rd_u64 r = Inr (OFFER_VERSION, r') \<and> s = (1, x)"
  "offer_step k (Suc 0, x) r = Inr (s, r') \<longleftrightarrow> k = ''key'' \<and> (\<exists>key. rd_byte_array 32 r = Inr (key, r') \<and> s = (2, key))"
  "offer_step k (2, x) r = Inr (s, r') \<longleftrightarrow> False"
  by (auto simp: offer_step_def andthen_Inr lift_Inr ret_Inr fail_Inr)

lemma loop_Suc_Inr: "loop_n (Suc n) f s r = Inr (t, r') \<longleftrightarrow> (\<exists>s1 r1. f s r = Inr (s1, r1) \<and> loop_n n f s1 r1 = Inr (t, r'))"
  by (simp add: andthen_Inr)

lemma offer_loop:
  "loop_n n (\<lambda>s. andthen (oc rd_key) (\<lambda>k. offer_step k s)) (0, []) r = Inr ((2, key), r') \<longleftrightarrow>
   n = 2 \<and> (\<exists>r1 r2 r3. rd_key r = Inr (''v'', r1) \<and> rd_u64 r1 = Inr (OFFER_VERSION, r2) \<and>
     rd_key r2 = Inr (''key'', r3) \<and> rd_byte_array 32 r3 = Inr (key, r'))"
proof -
  have z: "loop_n 0 f s r = Inr (t, r') \<longleftrightarrow> t = s \<and> r' = r" for f s r t r'
    by (auto simp: ret_Inr)
  have none: "loop_n (Suc n) (\<lambda>s. andthen (oc rd_key) (\<lambda>k. offer_step k s)) (2, x) r \<noteq> Inr (t, r')" for n x r t r'
    by (simp only: loop_Suc_Inr andthen_Inr lift_Inr offer_step_Inr) blast
  consider "n = 0" | "n = Suc 0" | "n = Suc (Suc 0)" | m where "n = Suc (Suc (Suc m))"
    by (metis old.nat.exhaust)
  then show ?thesis
  proof cases
    case 1 then show ?thesis by (simp add: ret_Inr)
  next
    case 2 then show ?thesis
      by (simp only: loop_Suc_Inr z andthen_Inr lift_Inr offer_step_Inr) auto
  next
    case 3 then show ?thesis
      by (simp only: loop_Suc_Inr z andthen_Inr lift_Inr offer_step_Inr) (auto simp: offer_step_Inr [simplified])
  next
    case 4
    then have "loop_n n (\<lambda>s. andthen (oc rd_key) (\<lambda>k. offer_step k s)) (0, []) r \<noteq> Inr ((2, key), r')"
      by (auto simp only: loop_Suc_Inr [of "Suc (Suc m)"] loop_Suc_Inr [of "Suc m"] andthen_Inr lift_Inr offer_step_Inr none One_nat_def)
    with 4 show ?thesis by simp
  qed
qed

lemma offer_as_map: "rd_key_offer r = Inr (key, r') \<longleftrightarrow> rd_map OfCbor offer_step (0, []) r = Inr ((2, key), r')"
proof -
  have two: "unat n = 2 \<longleftrightarrow> n = 2" for n :: u64 by (simp add: word_unat_eq_iff)
  show ?thesis
    unfolding rd_key_offer_def rd_map_def
    by (auto simp: andthen_Inr lift_Inr ret_Inr fail_Inr offer_loop two split: if_splits)
qed

definition offer_entries :: "byte list \<Rightarrow> entries" where
  "offer_entries key = [(''v'', put_u64 OFFER_VERSION), (''key'', put_bytes key)]"

lemma offer_canonical: "canonical (offer_entries key)"
proof (rule keys_ok_canonical)
  have "keys_ok [''v'', ''key'']" by code_simp
  then show "keys_ok (map fst (offer_entries key))" by (simp add: offer_entries_def)
qed (simp add: offer_entries_def)

lemma encode_key_offer_entries: "encode_key_offer key = put_entries (offer_entries key)"
proof -
  have "encode_key_offer key = mb_finish (mb_of [(''key'', put_bytes key), (''v'', put_u64 OFFER_VERSION)])"
    by (simp add: encode_key_offer_def Let_def mb_insert_Nil mb_of_simps)
  also have "\<dots> = put_entries (offer_entries key)"
    by (rule rebuilt [OF offer_canonical]) (simp add: offer_entries_def)
  finally show ?thesis .
qed

definition offer_took :: "string \<Rightarrow> nat \<times> byte list \<Rightarrow> byte list \<Rightarrow> nat \<times> byte list \<Rightarrow> bool" where
  "offer_took k s v s' \<longleftrightarrow>
     (fst s = 0 \<and> k = ''v'' \<and> v = put_u64 OFFER_VERSION \<and> s' = (1, snd s)) \<or>
     (fst s = 1 \<and> k = ''key'' \<and> length (snd s') = 32 \<and> v = put_bytes (snd s') \<and> fst s' = 2)"

lemma exact_offer_step: "exact (offer_step k s) (\<lambda>s' v. offer_took k s v s')"
  by (cases s) (auto simp: offer_step_def offer_took_def
      intro!: exact_if exact_andthen [OF exact_lift [OF u64c.exact_get]] exact_andthen [OF exact_lift [OF exact_byte_array]])

lemma offer_trace:
  assumes "trace (\<lambda>k s v s'. offer_took k s v s') (0, []) es (2, key)"
  shows "es = offer_entries key \<and> length key = 32"
proof -
  have stuck: "\<not> trace (\<lambda>k s v s'. offer_took k s v s') (2, x) (e # es) s'" for x e es s'
    by (cases e) (auto simp: offer_took_def)
  obtain k v es1 where 1: "es = (k, v) # es1" using assms by (cases es) auto
  have "k = ''v'' \<and> v = put_u64 OFFER_VERSION"
    and t: "trace (\<lambda>k s v s'. offer_took k s v s') (1, []) es1 (2, key)"
    using assms 1 by (auto simp: offer_took_def)
  moreover obtain l w es2 x where 2: "es1 = (l, w) # es2" "offer_took l (1, []) w x"
    "trace (\<lambda>k s v s'. offer_took k s v s') x es2 (2, key)"
    using t by (cases es1) auto
  moreover have "fst x = 2" using 2(2) by (simp add: offer_took_def)
  then have "es2 = []" using 2(3) stuck by (cases es2; cases x) auto
  ultimately show ?thesis using 1 by (auto simp: offer_took_def offer_entries_def)
qed

lemma run_whole_iff: "run_whole g p b = Inr v \<longleftrightarrow> (\<exists>r r'. p (reader_new b) = Inr (v, r) \<and> rd_finish r = Inr ((), r'))"
  by (auto simp: run_whole_def andthen_def lift_err_def map_err_def ret_def split: sum.splits)

lemma run_key_offer: "run_whole OfCbor rd_key_offer b = Inr key \<longleftrightarrow> length key = 32 \<and> b = encode_key_offer key"
proof -
  have "run_whole OfCbor rd_key_offer b = Inr key \<longleftrightarrow> run_whole OfCbor (rd_map OfCbor offer_step (0, [])) b = Inr (2, key)"
    by (simp add: run_whole_iff offer_as_map)
  also have "\<dots> \<longleftrightarrow> length key = 32 \<and> b = encode_key_offer key"
  proof
    assume r: "run_whole OfCbor (rd_map OfCbor offer_step (0, [])) b = Inr (2, key)"
    show "length key = 32 \<and> b = encode_key_offer key"
      using run_whole_exact [OF exact_map [OF exact_offer_step] r] offer_trace by (auto simp: encode_key_offer_entries)
  next
    assume k: "length key = 32 \<and> b = encode_key_offer key"
    have "steps 0 offer_step (0, []) (offer_entries key) (2, key)"
      unfolding offer_entries_def
      by (rule stepsI | use k in \<open>auto simp: offer_step_def intro!: reads_andthen1 [OF reads_lift [OF reads_u64]]
          reads_andthen1 [OF reads_lift [OF reads_byte_array]]\<close>)+
    from run_whole_reads [OF reads_map [OF this offer_canonical]] k
    show "run_whole OfCbor (rd_map OfCbor offer_step (0, [])) b = Inr (2, key)"
      by (simp add: encode_key_offer_entries MAX_MAP_DEPTH_def)
  qed
  finally show ?thesis .
qed

text \<open>\<open>abyss\<close> takes a verifying key from an offer exactly when the bytes are the one encoding of
  a 32-byte string that is a curve point.\<close>

theorem key_offer_exact:
  "decode_key_offer point b = Inr key \<longleftrightarrow> length key = 32 \<and> b = encode_key_offer key \<and> point key"
  by (auto simp: decode_key_offer_def rbind_Inr_iff run_key_offer)

lemma messages_are_not_emissions_witness:
  "is_message (to_encode (TRevoke ''human'')) \<and> \<not> is_message (emission_encode sample_emission)"
proof -
  have "to_decode (to_encode (TRevoke ''human'')) = Inr (to_clamp (TRevoke ''human''))"
    by (rule to_decode_encode) (simp add: principal_ok_def rstr_def utf8_ascii)
  moreover have "emission_decode (emission_encode sample_emission) = Inr sample_emission"
    by (rule emission_trip [OF sample_emission_ok, of "CArr [CUInt 1, CNull]"])
      (simp_all add: sample_emission_def del: put_val.simps)
  ultimately show ?thesis
    using messages_are_not_emissions [of "to_encode (TRevoke ''human'')" "to_clamp (TRevoke ''human'')" undefined sample_emission]
      messages_are_not_emissions [of "emission_encode sample_emission" undefined undefined sample_emission] by blast
qed

end
