(* ===== verification/AuditStore.thy ===== *)
theory AuditStore
  imports Emission "HOL-Library.AList"
begin

text \<open>
  The audit store: \<open>ec-policyd/src/audit.rs\<close>. A directory is an association list from file names to
  contents; the hash is the parameter \<open>b3\<close>, the compressor of sealed segments the parameters
  \<open>zenc\<close> and \<open>zdec\<close>. One operation reads each clock once. Reads and writes of files succeed; what a
  crash leaves behind is a truncated open segment (see the laws).
\<close>

section \<open>Records\<close>

definition SEGMENT_BYTES :: nat where "SEGMENT_BYTES = 64 * 1024 * 1024"
definition FSYNC_INTERVAL_MS :: u64 where "FSYNC_INTERVAL_MS = 250"
definition MAX_FRAME :: nat where "MAX_FRAME = 4 * 1024 * 1024"
definition SEALED_PREFIX :: string where "SEALED_PREFIX = ''audit-''"
definition SEALED_SUFFIX :: string where "SEALED_SUFFIX = ''.cbor.zst''"
definition GENESIS :: "byte list" where "GENESIS = replicate 32 0"

record audit_record =
  ar_seq :: u64
  ar_ts :: u64
  ar_mono :: u64
  ar_kind :: kind
  ar_principal :: string
  ar_grant_id :: "ulid option"
  ar_task_id :: "ulid option"
  ar_chain_id :: "u128 option"
  ar_req_id :: "u64 option"
  ar_serial :: "u64 option"
  ar_body :: "byte list"
  ar_prev_hash :: "byte list"
  ar_hash :: "byte list"

definition record_unhashed :: "audit_record \<Rightarrow> byte list" where
  "record_unhashed r =
    (let m = mb_insert [] ''body'' (ar_body r);
         m = mb_insert_opt m ''chain_id'' (map_option (\<lambda>c. put_bytes (be_bytes 16 (unat c))) (ar_chain_id r));
         m = mb_insert_opt m ''grant_id'' (map_option (\<lambda>g. put_bytes (ulid_bytes g)) (ar_grant_id r));
         m = mb_insert m ''kind'' (put_text (kind_as_str (ar_kind r)));
         m = mb_insert m ''mono'' (put_u64 (ar_mono r));
         m = mb_insert m ''prev_hash'' (put_bytes (ar_prev_hash r));
         m = mb_insert m ''principal'' (put_text (ar_principal r));
         m = mb_insert_opt m ''req_id'' (map_option put_u64 (ar_req_id r));
         m = mb_insert m ''seq'' (put_u64 (ar_seq r));
         m = mb_insert_opt m ''serial'' (map_option put_u64 (ar_serial r));
         m = mb_insert_opt m ''task_id'' (map_option (\<lambda>t. put_bytes (ulid_bytes t)) (ar_task_id r));
         m = mb_insert m ''ts'' (put_u64 (ar_ts r))
     in mb_finish m)"

definition compute_hash :: "(byte list \<Rightarrow> byte list) \<Rightarrow> audit_record \<Rightarrow> byte list" where
  "compute_hash b3 r = b3 (ar_prev_hash r @ record_unhashed r)"

definition record_encode :: "audit_record \<Rightarrow> byte list" where
  "record_encode r = put_array 2 @ record_unhashed r @ put_bytes (ar_hash r)"

definition record_new :: audit_record where
  "record_new = \<lparr>ar_seq = 0, ar_ts = 0, ar_mono = 0, ar_kind = KAnchor, ar_principal = [], ar_grant_id = None,
     ar_task_id = None, ar_chain_id = None, ar_req_id = None, ar_serial = None, ar_body = [],
     ar_prev_hash = replicate 32 0, ar_hash = replicate 32 0\<rparr>"

text \<open>One turn of the loop of \<open>Record::decode\<close>; the flag is \<open>seen_kind\<close>.\<close>

definition record_step :: "string \<Rightarrow> audit_record \<times> bool \<Rightarrow> (cbor_error, audit_record \<times> bool) parser" where
  "record_step k = (\<lambda>(a, seen).
    (if k = ''body'' then andthen rd_raw_item (\<lambda>v. ret (a\<lparr>ar_body := v\<rparr>, seen))
     else if k = ''chain_id'' then
       andthen (rd_byte_array 16) (\<lambda>v. ret (a\<lparr>ar_chain_id := Some (word_of_nat (from_be v))\<rparr>, seen))
     else if k = ''grant_id'' then andthen (rd_byte_array 16) (\<lambda>v. ret (a\<lparr>ar_grant_id := Some (Ulid v)\<rparr>, seen))
     else if k = ''kind'' then
       andthen rd_text (\<lambda>s. andthen (of_result (ok_or Type (kind_parse s))) (\<lambda>v. ret (a\<lparr>ar_kind := v\<rparr>, True)))
     else if k = ''mono'' then andthen rd_u64 (\<lambda>v. ret (a\<lparr>ar_mono := v\<rparr>, seen))
     else if k = ''prev_hash'' then andthen (rd_byte_array 32) (\<lambda>v. ret (a\<lparr>ar_prev_hash := v\<rparr>, seen))
     else if k = ''principal'' then andthen rd_text (\<lambda>v. ret (a\<lparr>ar_principal := v\<rparr>, seen))
     else if k = ''req_id'' then andthen rd_u64 (\<lambda>v. ret (a\<lparr>ar_req_id := Some v\<rparr>, seen))
     else if k = ''seq'' then andthen rd_u64 (\<lambda>v. ret (a\<lparr>ar_seq := v\<rparr>, seen))
     else if k = ''serial'' then andthen rd_u64 (\<lambda>v. ret (a\<lparr>ar_serial := Some v\<rparr>, seen))
     else if k = ''task_id'' then andthen (rd_byte_array 16) (\<lambda>v. ret (a\<lparr>ar_task_id := Some (Ulid v)\<rparr>, seen))
     else if k = ''ts'' then andthen rd_u64 (\<lambda>v. ret (a\<lparr>ar_ts := v\<rparr>, seen))
     else fail Type))"

definition rd_record :: "(cbor_error, audit_record \<times> bool) parser" where
  "rd_record =
     andthen rd_array_len (\<lambda>n. if n \<noteq> 2 then fail Type else
     andthen (rd_map id record_step (record_new, False)) (\<lambda>(a, seen).
     andthen (rd_byte_array 32) (\<lambda>h. ret (a\<lparr>ar_hash := h\<rparr>, seen))))"

definition record_decode :: "byte list \<Rightarrow> cbor_error + audit_record" where
  "record_decode bytes = rbind (run_whole id rd_record bytes) (\<lambda>(a, seen). if seen then Inr a else Inl Type)"

definition record_from_emission :: "emission \<Rightarrow> audit_record" where
  "record_from_emission e = \<lparr>ar_seq = 0, ar_ts = 0, ar_mono = 0, ar_kind = e_kind e, ar_principal = e_principal e,
     ar_grant_id = e_grant_id e, ar_task_id = e_task_id e, ar_chain_id = e_chain_id e, ar_req_id = e_req_id e,
     ar_serial = e_serial e, ar_body = e_body e, ar_prev_hash = GENESIS, ar_hash = GENESIS\<rparr>"

section \<open>Directories\<close>

type_synonym disk = "(string \<times> byte list) list"

definition OPEN_PATH :: string where "OPEN_PATH = ''current.open''"

datatype store_error = StIo | StCbor cbor_error | ChainBroken u64 | TooLarge

text \<open>\<open>{n:04}\<close>.\<close>

definition pad_dec :: "nat \<Rightarrow> nat \<Rightarrow> string" where
  "pad_dec k n = replicate (k - length (dec_digits n)) (CHR ''0'') @ dec_digits n"

text \<open>\<open>utc_date\<close>: the days since 1 March 0 are never negative, so the Euclidean divisions are plain.\<close>

definition utc_date :: "u64 \<Rightarrow> string" where
  "utc_date ms =
    (let days = unat ms div 86400000 + 719468;
         era = days div 146097;
         doe = days mod 146097;
         yoe = (doe - doe div 1460 + doe div 36524 - doe div 146096) div 365;
         y = yoe + era * 400;
         doy = doe - (365 * yoe + yoe div 4 - yoe div 100);
         mp = (5 * doy + 2) div 153;
         d = doy - (153 * mp + 2) div 5 + 1;
         m = (if mp < 10 then mp + 3 else mp - 9);
         y = (if m \<le> 2 then y + 1 else y)
     in pad_dec 4 y @ pad_dec 2 m @ pad_dec 2 d)"

definition sealed_name :: "string \<Rightarrow> nat \<Rightarrow> string" where
  "sealed_name date n = SEALED_PREFIX @ date @ ''-'' @ pad_dec 4 n @ SEALED_SUFFIX"

definition ends_with :: "string \<Rightarrow> string \<Rightarrow> bool" where
  "ends_with p s \<longleftrightarrow> length p \<le> length s \<and> drop (length s - length p) s = p"

definition is_sealed :: "string \<Rightarrow> bool" where
  "is_sealed name \<longleftrightarrow> starts_with SEALED_PREFIX name \<and> ends_with SEALED_SUFFIX name"

definition sealed_segments :: "disk \<Rightarrow> string list" where
  "sealed_segments d = sort_key str_bytes (filter is_sealed (map fst d))"

section \<open>Frames and replay\<close>

text \<open>What the bytes at a position are: fewer than four, a length out of bounds, a frame that runs
  past the end, or a frame and the rest.\<close>

datatype frame = FShort | FBadLen | FTorn | Frame "byte list" "byte list"

definition split_frame :: "byte list \<Rightarrow> frame" where
  "split_frame buf =
    (if length buf < 4 then FShort
     else let len = from_be (take 4 buf) in
       if len = 0 \<or> MAX_FRAME < len then FBadLen
       else if length buf < 4 + len then FTorn
       else Frame (take len (drop 4 buf)) (drop (4 + len) buf))"

lemma split_frame_less: "split_frame buf = Frame p rest \<Longrightarrow> length rest < length buf"
  by (auto simp: split_frame_def Let_def split: if_splits)

definition link_ok :: "(byte list \<Rightarrow> byte list) \<Rightarrow> byte list \<Rightarrow> u64 \<Rightarrow> audit_record \<Rightarrow> bool" where
  "link_ok b3 head seq r \<longleftrightarrow> ar_prev_hash r = head \<and> ar_hash r = compute_hash b3 r \<and> ar_seq r = seq"

function replay_sealed :: "(byte list \<Rightarrow> byte list) \<Rightarrow> byte list \<Rightarrow> u64 \<Rightarrow> byte list \<Rightarrow> store_error + u64 \<times> byte list" where
  "replay_sealed b3 buf seq head =
    (case split_frame buf of
       FShort \<Rightarrow> Inr (seq, head)
     | FBadLen \<Rightarrow> Inl (ChainBroken seq)
     | FTorn \<Rightarrow> Inl (ChainBroken seq)
     | Frame p rest \<Rightarrow>
         (case record_decode p of
            Inl _ \<Rightarrow> Inl (ChainBroken seq)
          | Inr r \<Rightarrow> if link_ok b3 head seq r then replay_sealed b3 rest (ar_seq r + 1) (ar_hash r)
              else Inl (ChainBroken (ar_seq r))))"
  by pat_completeness auto
termination by (relation "measure (\<lambda>(b3, buf, seq, head). length buf)") (auto dest: split_frame_less)

text \<open>The loop over the open segment ends at a position, or at a complete frame that is bad.\<close>

datatype open_end = OpenEnd u64 "byte list" nat | OpenBad nat u64

function replay_open :: "(byte list \<Rightarrow> byte list) \<Rightarrow> byte list \<Rightarrow> nat \<Rightarrow> u64 \<Rightarrow> byte list \<Rightarrow> open_end" where
  "replay_open b3 buf pos seq head =
    (case split_frame buf of
       Frame p rest \<Rightarrow>
         (case record_decode p of
            Inl _ \<Rightarrow> OpenBad pos seq
          | Inr r \<Rightarrow> if link_ok b3 head seq r
              then replay_open b3 rest (pos + 4 + length p) (ar_seq r + 1) (ar_hash r)
              else OpenBad pos (ar_seq r))
     | _ \<Rightarrow> OpenEnd seq head pos)"
  by pat_completeness auto
termination by (relation "measure (\<lambda>(b3, buf, pos, seq, head). length buf)") (auto dest: split_frame_less)

definition truncate_open :: "disk \<Rightarrow> nat \<Rightarrow> disk" where
  "truncate_open d n = (case map_of d OPEN_PATH of None \<Rightarrow> d | Some buf \<Rightarrow> AList.update OPEN_PATH (take n buf) d)"

definition quarantine :: "u64 \<Rightarrow> disk \<Rightarrow> nat \<Rightarrow> disk" where
  "quarantine now_ms d n = (case map_of d OPEN_PATH of None \<Rightarrow> d
     | Some buf \<Rightarrow> truncate_open (AList.update (''current.quarantine.'' @ dec_digits (unat now_ms)) buf d) n)"

definition read_sealed :: "(byte list \<Rightarrow> byte list option) \<Rightarrow> disk \<Rightarrow> string \<Rightarrow> store_error + byte list" where
  "read_sealed zdec d name = ok_or StIo (Option.bind (map_of d name) zdec)"

fun replay_segments ::
  "(byte list \<Rightarrow> byte list) \<Rightarrow> (byte list \<Rightarrow> byte list option) \<Rightarrow> disk \<Rightarrow> string list \<Rightarrow> u64 \<Rightarrow> byte list \<Rightarrow>
   store_error + u64 \<times> byte list" where
  "replay_segments b3 zdec d [] seq head = Inr (seq, head)"
| "replay_segments b3 zdec d (n # ns) seq head =
     rbind (read_sealed zdec d n) (\<lambda>buf.
     rbind (replay_sealed b3 buf seq head) (\<lambda>(seq, head). replay_segments b3 zdec d ns seq head))"

text \<open>\<open>Store::replay\<close>, with the directory it leaves behind.\<close>

definition replay ::
  "(byte list \<Rightarrow> byte list) \<Rightarrow> (byte list \<Rightarrow> byte list option) \<Rightarrow> u64 \<Rightarrow> disk \<Rightarrow>
   disk \<times> (store_error + u64 \<times> byte list \<times> nat)" where
  "replay b3 zdec now_ms d =
    (case replay_segments b3 zdec d (sealed_segments d) 0 GENESIS of
       Inl e \<Rightarrow> (d, Inl e)
     | Inr (seq, head) \<Rightarrow>
         (case map_of d OPEN_PATH of
            None \<Rightarrow> (d, Inr (seq, head, 0))
          | Some buf \<Rightarrow>
              (case replay_open b3 buf 0 seq head of
                 OpenBad pos s \<Rightarrow> (quarantine now_ms d pos, Inl (ChainBroken s))
               | OpenEnd seq head pos \<Rightarrow>
                   (if pos \<noteq> length buf then truncate_open d pos else d, Inr (seq, head, pos)))))"

section \<open>The store\<close>

record store =
  st_disk :: disk
  st_written :: nat
  st_seq :: u64
  st_head :: "byte list"
  st_last_sync_ms :: u64

record clocks =
  ck_ns :: u64
  ck_mono :: u64
  ck_ms :: u64

definition store_open ::
  "(byte list \<Rightarrow> byte list) \<Rightarrow> (byte list \<Rightarrow> byte list option) \<Rightarrow> u64 \<Rightarrow> disk \<Rightarrow> disk \<times> (store_error + store)" where
  "store_open b3 zdec now_ms d =
    (case replay b3 zdec now_ms d of
       (d, Inl e) \<Rightarrow> (d, Inl e)
     | (d, Inr (seq, head, written)) \<Rightarrow>
         let d = (if map_of d OPEN_PATH = None then AList.update OPEN_PATH [] d else d) in
         (d, Inr \<lparr>st_disk = d, st_written = written, st_seq = seq, st_head = head, st_last_sync_ms = now_ms\<rparr>))"

definition store_sync :: "clocks \<Rightarrow> store \<Rightarrow> store" where
  "store_sync ck s = s\<lparr>st_last_sync_ms := ck_ms ck\<rparr>"

text \<open>\<open>append\<close> up to the rotation: the store fills in the record's place in the chain, writes the
  frame, and syncs when the interval has passed.\<close>

definition place :: "(byte list \<Rightarrow> byte list) \<Rightarrow> clocks \<Rightarrow> store \<Rightarrow> audit_record \<Rightarrow> audit_record" where
  "place b3 ck s r =
    (let r = r\<lparr>ar_seq := st_seq s, ar_ts := ck_ns ck, ar_mono := ck_mono ck, ar_prev_hash := st_head s\<rparr>
     in r\<lparr>ar_hash := compute_hash b3 r\<rparr>)"

definition append_frame ::
  "(byte list \<Rightarrow> byte list) \<Rightarrow> clocks \<Rightarrow> store \<Rightarrow> audit_record \<Rightarrow> store_error + store \<times> audit_record" where
  "append_frame b3 ck s r0 =
    (let r = place b3 ck s r0; bytes = record_encode r in
     if 2 ^ 32 \<le> length bytes \<or> MAX_FRAME < length bytes then Inl TooLarge
     else
       let buf = (case map_of (st_disk s) OPEN_PATH of None \<Rightarrow> [] | Some b \<Rightarrow> b);
           s = s\<lparr>st_disk := AList.update OPEN_PATH (buf @ be_bytes 4 (length bytes) @ bytes) (st_disk s),
                 st_written := st_written s + 4 + length bytes,
                 st_head := ar_hash r, st_seq := st_seq s + 1\<rparr>;
           s = (if FSYNC_INTERVAL_MS \<le> sat_sub (ck_ms ck) (st_last_sync_ms s) then store_sync ck s else s)
       in Inr (s, r))"

definition anchor_body :: "string \<Rightarrow> byte list \<Rightarrow> byte list" where
  "anchor_body name head =
    (let m = mb_insert [] ''head'' (put_bytes head);
         m = mb_insert m ''sealed'' (put_text name)
     in mb_finish m)"

definition anchor_record :: "string \<Rightarrow> byte list \<Rightarrow> audit_record" where
  "anchor_record name head = record_new\<lparr>ar_kind := KAnchor, ar_principal := ''policyd'',
     ar_body := anchor_body name head, ar_prev_hash := GENESIS, ar_hash := GENESIS\<rparr>"

text \<open>The first counter whose name is free: one of \<open>0, \<dots>, length d\<close> is.\<close>

definition free_name :: "disk \<Rightarrow> string \<Rightarrow> string" where
  "free_name d date =
    (case find (\<lambda>n. map_of d (sealed_name date n) = None) [0..<Suc (length d)] of
       Some n \<Rightarrow> sealed_name date n | None \<Rightarrow> sealed_name date 0)"

text \<open>\<open>rotate\<close>. The anchor's own append cannot rotate again: its frame is at most \<open>MAX_FRAME + 4\<close>
  bytes of a fresh segment.\<close>

definition store_rotate ::
  "(byte list \<Rightarrow> byte list) \<Rightarrow> (byte list \<Rightarrow> byte list) \<Rightarrow> clocks \<Rightarrow> store \<Rightarrow> store_error + store" where
  "store_rotate b3 zenc ck s =
    (let s = store_sync ck s;
         name = free_name (st_disk s) (utc_date (ck_ms ck));
         plain = (case map_of (st_disk s) OPEN_PATH of None \<Rightarrow> [] | Some b \<Rightarrow> b);
         d = AList.update name (zenc plain) (st_disk s);
         d = AList.update OPEN_PATH [] d;
         s = s\<lparr>st_disk := d, st_written := 0\<rparr>
     in map_sum id fst (append_frame b3 ck s (anchor_record name (st_head s))))"

definition store_append ::
  "(byte list \<Rightarrow> byte list) \<Rightarrow> (byte list \<Rightarrow> byte list) \<Rightarrow> clocks \<Rightarrow> store \<Rightarrow> audit_record \<Rightarrow>
   store_error + store \<times> audit_record" where
  "store_append b3 zenc ck s r0 =
     rbind (append_frame b3 ck s r0) (\<lambda>(s, r).
       if SEGMENT_BYTES \<le> st_written s then rbind (store_rotate b3 zenc ck s) (\<lambda>s. Inr (s, r)) else Inr (s, r))"

section \<open>Readers\<close>

text \<open>\<open>for_each\<close>: the records, in order, as a list.\<close>

function for_each_frame :: "byte list \<Rightarrow> store_error + audit_record list" where
  "for_each_frame buf =
    (if length buf < 4 then Inr []
     else let len = from_be (take 4 buf) in
       if len = 0 \<or> length buf < 4 + len then Inr []
       else rbind (map_err StCbor (record_decode (take len (drop 4 buf)))) (\<lambda>r.
            rbind (for_each_frame (drop (4 + len) buf)) (\<lambda>rs. Inr (r # rs))))"
  by pat_completeness auto
termination by (relation "measure length") auto

definition for_each :: "(byte list \<Rightarrow> byte list option) \<Rightarrow> disk \<Rightarrow> store_error + audit_record list" where
  "for_each zdec d =
     rbind (collect_results (map (\<lambda>n. rbind (read_sealed zdec d n) for_each_frame) (sealed_segments d))) (\<lambda>rss.
     rbind (ok_or StIo (map_of d OPEN_PATH)) (\<lambda>buf.
     rbind (for_each_frame buf) (\<lambda>rs. Inr (concat rss @ rs))))"

definition anchored_head :: "byte list \<Rightarrow> byte list option" where
  "anchored_head body =
    (case andthen rd_map_begin (\<lambda>n. loop_n (unat n) (\<lambda>h. andthen rd_key (\<lambda>k.
        if k = ''head'' then andthen (rd_byte_array 32) (\<lambda>b. ret (Some b)) else andthen rd_skip (\<lambda>_. ret h))) None)
       (reader_new body) of Inl _ \<Rightarrow> None | Inr (h, _) \<Rightarrow> h)"

record verified =
  vf_records :: u64
  vf_head :: "byte list"
  vf_torn_tail :: bool

text \<open>One segment of \<open>verify\<close>, with the records handed to the callback.\<close>

function verify_step ::
  "(byte list \<Rightarrow> byte list) \<Rightarrow> bool \<Rightarrow> byte list \<Rightarrow> verified \<Rightarrow> store_error + verified \<times> audit_record list" where
  "verify_step b3 sealed buf v =
    (if buf = [] then Inr (v, [])
     else case split_frame buf of
       Frame p rest \<Rightarrow>
         (case record_decode p of
            Inl _ \<Rightarrow> Inl (ChainBroken (vf_records v))
          | Inr r \<Rightarrow>
              if \<not> link_ok b3 (vf_head v) (vf_records v) r then Inl (ChainBroken (vf_records v))
              else if ar_kind r = KAnchor \<and> anchored_head (ar_body r) \<noteq> Some (ar_prev_hash r)
                then Inl (ChainBroken (vf_records v))
              else rbind (verify_step b3 sealed rest (v\<lparr>vf_head := ar_hash r, vf_records := vf_records v + 1\<rparr>))
                     (\<lambda>(v, rs). Inr (v, r # rs)))
     | _ \<Rightarrow> if sealed then Inl (ChainBroken (vf_records v)) else Inr (v\<lparr>vf_torn_tail := True\<rparr>, []))"
  by pat_completeness auto
termination by (relation "measure (\<lambda>(b3, sealed, buf, v). length buf)") (auto dest: split_frame_less)

fun verify_segments ::
  "(byte list \<Rightarrow> byte list) \<Rightarrow> (byte list \<Rightarrow> byte list option) \<Rightarrow> disk \<Rightarrow> string list \<Rightarrow> verified \<Rightarrow>
   store_error + verified \<times> audit_record list" where
  "verify_segments b3 zdec d [] v = Inr (v, [])"
| "verify_segments b3 zdec d (n # ns) v =
     rbind (read_sealed zdec d n) (\<lambda>buf.
     rbind (verify_step b3 True buf v) (\<lambda>(v, rs).
     rbind (verify_segments b3 zdec d ns v) (\<lambda>(v, rs'). Inr (v, rs @ rs'))))"

definition verify ::
  "(byte list \<Rightarrow> byte list) \<Rightarrow> (byte list \<Rightarrow> byte list option) \<Rightarrow> disk \<Rightarrow> store_error + verified \<times> audit_record list" where
  "verify b3 zdec d =
     rbind (verify_segments b3 zdec d (sealed_segments d) \<lparr>vf_records = 0, vf_head = GENESIS, vf_torn_tail = False\<rparr>)
       (\<lambda>(v, rs). case map_of d OPEN_PATH of None \<Rightarrow> Inr (v, rs)
          | Some buf \<Rightarrow> rbind (verify_step b3 False buf v) (\<lambda>(v, rs'). Inr (v, rs @ rs')))"

end
