(* ===== verification/AuditStore_Frames.thy ===== *)
theory AuditStore_Frames
  imports AuditStore Emission_Laws
begin

text \<open>
  Laws of audit records: the record codec, frames, and chains of framed records.
\<close>

section \<open>The record codec\<close>

definition record_entries :: "audit_record \<Rightarrow> entries" where
  "record_entries r =
     opt_entry ''ts'' (Some (put_u64 (ar_ts r))) @ opt_entry ''seq'' (Some (put_u64 (ar_seq r))) @
     opt_entry ''body'' (Some (ar_body r)) @ opt_entry ''kind'' (Some (put_text (kind_as_str (ar_kind r)))) @
     opt_entry ''mono'' (Some (put_u64 (ar_mono r))) @
     opt_entry ''req_id'' (map_option put_u64 (ar_req_id r)) @ opt_entry ''serial'' (map_option put_u64 (ar_serial r)) @
     opt_entry ''task_id'' (map_option (\<lambda>t. put_bytes (ulid_bytes t)) (ar_task_id r)) @
     opt_entry ''chain_id'' (map_option chain_bytes (ar_chain_id r)) @
     opt_entry ''grant_id'' (map_option (\<lambda>t. put_bytes (ulid_bytes t)) (ar_grant_id r)) @
     opt_entry ''prev_hash'' (Some (put_bytes (ar_prev_hash r))) @ opt_entry ''principal'' (Some (put_text (ar_principal r)))"

text \<open>What a record the store writes satisfies; the body nests at most seven maps.\<close>

definition record_ok :: "audit_record \<Rightarrow> bool" where
  "record_ok r \<longleftrightarrow> rstr (ar_principal r) \<and> length (ar_prev_hash r) = 32 \<and> length (ar_hash r) = 32 \<and>
     (\<forall>g. ar_grant_id r = Some g \<longrightarrow> ulid_ok g) \<and> (\<forall>t. ar_task_id r = Some t \<longrightarrow> ulid_ok t) \<and>
     (\<exists>v. cval_ok v \<and> cdepth v \<le> 7 \<and> ar_body r = put_val v)"

lemma record_keys: "keys_ok [''ts'', ''seq'', ''body'', ''kind'', ''mono'', ''req_id'', ''serial'', ''task_id'',
   ''chain_id'', ''grant_id'', ''prev_hash'', ''principal'']"
  by code_simp

lemma record_entries_canonical: "canonical (record_entries r)"
proof -
  let ?ks = "[''ts'', ''seq'', ''body'', ''kind'', ''mono'', ''req_id'', ''serial'', ''task_id'',
    ''chain_id'', ''grant_id'', ''prev_hash'', ''principal'']"
  have "subseq (map fst (record_entries r))
     ([''ts''] @ [''seq''] @ [''body''] @ [''kind''] @ [''mono''] @ [''req_id''] @ [''serial''] @ [''task_id''] @
      [''chain_id''] @ [''grant_id''] @ [''prev_hash''] @ [''principal''])"
    unfolding record_entries_def map_append by (intro list_emb_append_mono subseq_opt_entry)
  then have sub: "subseq (map fst (record_entries r)) ?ks" by (simp only: append.simps)
  then have "length (map fst (record_entries r)) \<le> length ?ks" by (rule list_emb_length)
  then have "length (record_entries r) \<le> 12" by (simp only: length_map list.size)
  then show ?thesis by (intro keys_ok_canonical keys_ok_subseq [OF record_keys sub]) simp
qed

lemma record_unhashed_entries: "record_unhashed r = put_entries (record_entries r)"
proof -
  have "\<exists>es. record_unhashed r = mb_finish (mb_of es) \<and> mset es = mset (record_entries r)"
    unfolding record_unhashed_def Let_def mb_insert_Nil mb_insert_opt_of mb_of_simps
    by (rule exI, rule conjI, rule refl) (simp add: record_entries_def chain_bytes_def [abs_def])
  then show ?thesis using rebuilt [OF record_entries_canonical] by metis
qed

lemma record_steps:
  "reads d (record_step ''ts'' (a, s)) (put_u64 n) (a\<lparr>ar_ts := n\<rparr>, s)"
  "reads d (record_step ''seq'' (a, s)) (put_u64 n) (a\<lparr>ar_seq := n\<rparr>, s)"
  "reads d rd_skip b () \<Longrightarrow> reads d (record_step ''body'' (a, s)) b (a\<lparr>ar_body := b\<rparr>, s)"
  "reads d (record_step ''kind'' (a, s)) (put_text (kind_as_str k)) (a\<lparr>ar_kind := k\<rparr>, True)"
  "reads d (record_step ''mono'' (a, s)) (put_u64 n) (a\<lparr>ar_mono := n\<rparr>, s)"
  "reads d (record_step ''req_id'' (a, s)) (put_u64 n) (a\<lparr>ar_req_id := Some n\<rparr>, s)"
  "reads d (record_step ''serial'' (a, s)) (put_u64 n) (a\<lparr>ar_serial := Some n\<rparr>, s)"
  "ulid_ok u \<Longrightarrow> reads d (record_step ''task_id'' (a, s)) (put_bytes (ulid_bytes u)) (a\<lparr>ar_task_id := Some u\<rparr>, s)"
  "reads d (record_step ''chain_id'' (a, s)) (chain_bytes c) (a\<lparr>ar_chain_id := Some c\<rparr>, s)"
  "ulid_ok u \<Longrightarrow> reads d (record_step ''grant_id'' (a, s)) (put_bytes (ulid_bytes u)) (a\<lparr>ar_grant_id := Some u\<rparr>, s)"
  "length h = 32 \<Longrightarrow> reads d (record_step ''prev_hash'' (a, s)) (put_bytes h) (a\<lparr>ar_prev_hash := h\<rparr>, s)"
  "rstr p \<Longrightarrow> reads d (record_step ''principal'' (a, s)) (put_text p) (a\<lparr>ar_principal := p\<rparr>, s)"
  unfolding chain_bytes_def
  by (simp_all add: record_step_def)
    (rule reads_andthen1 reads_u64 reads_text reads_id16 reads_raw_item reads_retI reads_byte_array
      | simp add: ulid_ok_def kind_str_ok chain_back)+

lemma record_entry_steps:
  "steps d record_step (a, s) (opt_entry ''ts'' (Some (put_u64 n))) (a\<lparr>ar_ts := n\<rparr>, s)"
  "steps d record_step (a, s) (opt_entry ''seq'' (Some (put_u64 n))) (a\<lparr>ar_seq := n\<rparr>, s)"
  "reads d rd_skip b () \<Longrightarrow> steps d record_step (a, s) (opt_entry ''body'' (Some b)) (a\<lparr>ar_body := b\<rparr>, s)"
  "steps d record_step (a, s) (opt_entry ''kind'' (Some (put_text (kind_as_str k)))) (a\<lparr>ar_kind := k\<rparr>, True)"
  "steps d record_step (a, s) (opt_entry ''mono'' (Some (put_u64 n))) (a\<lparr>ar_mono := n\<rparr>, s)"
  "ar_req_id a = None \<Longrightarrow> steps d record_step (a, s) (opt_entry ''req_id'' (map_option put_u64 x)) (a\<lparr>ar_req_id := x\<rparr>, s)"
  "ar_serial a = None \<Longrightarrow> steps d record_step (a, s) (opt_entry ''serial'' (map_option put_u64 x)) (a\<lparr>ar_serial := x\<rparr>, s)"
  "ar_task_id a = None \<Longrightarrow> (\<forall>x. u = Some x \<longrightarrow> ulid_ok x) \<Longrightarrow>
     steps d record_step (a, s) (opt_entry ''task_id'' (map_option (\<lambda>t. put_bytes (ulid_bytes t)) u)) (a\<lparr>ar_task_id := u\<rparr>, s)"
  "ar_chain_id a = None \<Longrightarrow> steps d record_step (a, s) (opt_entry ''chain_id'' (map_option chain_bytes c)) (a\<lparr>ar_chain_id := c\<rparr>, s)"
  "ar_grant_id a = None \<Longrightarrow> (\<forall>x. u = Some x \<longrightarrow> ulid_ok x) \<Longrightarrow>
     steps d record_step (a, s) (opt_entry ''grant_id'' (map_option (\<lambda>t. put_bytes (ulid_bytes t)) u)) (a\<lparr>ar_grant_id := u\<rparr>, s)"
  "length h = 32 \<Longrightarrow> steps d record_step (a, s) (opt_entry ''prev_hash'' (Some (put_bytes h))) (a\<lparr>ar_prev_hash := h\<rparr>, s)"
  "rstr p \<Longrightarrow> steps d record_step (a, s) (opt_entry ''principal'' (Some (put_text p))) (a\<lparr>ar_principal := p\<rparr>, s)"
  by (rule steps_opt; auto intro!: record_steps)+

lemma reads_record:
  assumes "record_ok r"
  shows "reads 8 rd_record (record_encode r) (r, True)"
proof -
  obtain v where v: "cval_ok v" "cdepth v \<le> 7" "ar_body r = put_val v" using assms by (auto simp: record_ok_def)
  then have body: "reads 7 rd_skip (ar_body r) ()" using reads_skip by simp
  have "steps 7 record_step (record_new, False) (record_entries r) (r\<lparr>ar_hash := replicate 32 0\<rparr>, True)"
    unfolding record_entries_def
    by (rule steps_eq, (rule steps_appI record_entry_steps | use assms body in \<open>simp add: record_new_def record_ok_def\<close>)+)
  from reads_map [OF this record_entries_canonical, of id]
  have m: "reads 8 (rd_map id record_step (record_new, False)) (record_unhashed r) (r\<lparr>ar_hash := replicate 32 0\<rparr>, True)"
    by (simp add: record_unhashed_entries)
  show ?thesis unfolding rd_record_def record_encode_def
    by (rule reads_andthen [OF reads_array_len], simp, simp, rule reads_andthen [OF m], simp,
        rule reads_andthen1 [OF reads_byte_array]) (use assms in \<open>simp_all add: record_ok_def\<close>)
qed

lemma record_trip: "record_ok r \<Longrightarrow> record_decode (record_encode r) = Inr r"
  using run_whole_reads [OF reads_record, of r id] by (simp add: record_decode_def MAX_MAP_DEPTH_def)

text \<open>The hashed bytes determine everything of a record but its hash.\<close>

lemma record_unhashed_inject:
  assumes "record_ok r" "record_ok r'" "record_unhashed r = record_unhashed r'"
  shows "r\<lparr>ar_hash := h\<rparr> = r'\<lparr>ar_hash := h\<rparr>"
proof -
  let ?z = "replicate 32 (0 :: byte)"
  have ok: "record_ok (r\<lparr>ar_hash := ?z\<rparr>)" "record_ok (r'\<lparr>ar_hash := ?z\<rparr>)" using assms(1,2) by (simp_all add: record_ok_def)
  have "record_encode (r\<lparr>ar_hash := ?z\<rparr>) = record_encode (r'\<lparr>ar_hash := ?z\<rparr>)"
    using assms(3) by (simp add: record_encode_def record_unhashed_entries record_entries_def)
  then have "r\<lparr>ar_hash := ?z\<rparr> = r'\<lparr>ar_hash := ?z\<rparr>" using record_trip ok by (metis Inr_inject)
  then show ?thesis by (metis audit_record.surjective audit_record.update_convs(13) audit_record.ext_inject)
qed

section \<open>Frames and chains\<close>

definition frame_of :: "audit_record \<Rightarrow> byte list" where
  "frame_of r = be_bytes 4 (length (record_encode r)) @ record_encode r"

definition frames :: "audit_record list \<Rightarrow> byte list" where
  "frames rs = concat (map frame_of rs)"

definition framed :: "audit_record \<Rightarrow> bool" where
  "framed r \<longleftrightarrow> record_ok r \<and> length (record_encode r) \<le> MAX_FRAME"

fun linked :: "(byte list \<Rightarrow> byte list) \<Rightarrow> u64 \<Rightarrow> byte list \<Rightarrow> audit_record list \<Rightarrow> bool" where
  "linked b3 seq head [] \<longleftrightarrow> True"
| "linked b3 seq head (r # rs) \<longleftrightarrow> link_ok b3 head seq r \<and> linked b3 (seq + 1) (ar_hash r) rs"

definition head_after :: "byte list \<Rightarrow> audit_record list \<Rightarrow> byte list" where
  "head_after head rs = (if rs = [] then head else ar_hash (last rs))"

lemma frames_simps [simp]: "frames [] = []" "frames (r # rs) = frame_of r @ frames rs" "frames (rs @ rs') = frames rs @ frames rs'"
  by (simp_all add: frames_def)

lemma head_after_simps [simp]:
  "head_after h [] = h" "head_after h (r # rs) = head_after (ar_hash r) rs"
  "head_after h (rs @ rs') = head_after (head_after h rs) rs'"
  by (simp_all add: head_after_def)

lemma linked_append:
  "linked b3 seq head (rs @ rs') \<longleftrightarrow> linked b3 seq head rs \<and> linked b3 (seq + of_nat (length rs)) (head_after head rs) rs'"
  by (induction rs arbitrary: seq head) (auto simp: add.assoc add.commute add.left_commute)

lemma encode_nonempty: "record_encode r \<noteq> []"
proof -
  have "put_array 2 \<noteq> []" by (simp add: put_array_def put_head_def Let_def)
  then show ?thesis by (simp add: record_encode_def)
qed

lemma length_frame_of: "length (frame_of r) = 4 + length (record_encode r)"
  by (simp add: frame_of_def)

lemma frame_len: "framed r \<Longrightarrow> from_be (be_bytes 4 (length (record_encode r))) = length (record_encode r)"
  by (rule from_be_be_bytes) (simp add: framed_def MAX_FRAME_def)

lemma split_frame_of: "framed r \<Longrightarrow> split_frame (frame_of r @ t) = Frame (record_encode r) t"
  using frame_len [of r] encode_nonempty [of r]
  by (simp add: split_frame_def frame_of_def Let_def framed_def)

text \<open>A frame that a crash cut short is recognised as torn, never as a bad length.\<close>

lemma split_frame_torn: "framed r \<Longrightarrow> k < length (frame_of r) \<Longrightarrow> split_frame (take k (frame_of r)) \<in> {FShort, FTorn}"
proof -
  assume r: "framed r" "k < length (frame_of r)"
  show ?thesis
  proof (cases "k < 4")
    case True
    then show ?thesis by (simp add: split_frame_def min_less_iff_disj)
  next
    case False
    then have "take 4 (take k (frame_of r)) = be_bytes 4 (length (record_encode r))" by (simp add: frame_of_def)
    moreover have "length (take k (frame_of r)) = k" using r(2) by simp
    ultimately show ?thesis
      using r False frame_len [of r] encode_nonempty [of r]
      by (simp add: split_frame_def Let_def framed_def length_frame_of)
  qed
qed

lemma split_frame_Nil [simp]: "split_frame [] = FShort"
  by (simp add: split_frame_def)

declare replay_sealed.simps [simp del] replay_open.simps [simp del] for_each_frame.simps [simp del]
  verify_step.simps [simp del] dec_digits.simps [simp del]

lemma framed_decode [simp]: "framed r \<Longrightarrow> record_decode (record_encode r) = Inr r"
  by (simp add: framed_def record_trip)

lemma replay_sealed_frames:
  "linked b3 seq head rs \<Longrightarrow> \<forall>r \<in> set rs. framed r \<Longrightarrow>
   replay_sealed b3 (frames rs) seq head = Inr (seq + of_nat (length rs), head_after head rs)"
proof (induction rs arbitrary: seq head)
  case Nil
  then show ?case by (simp add: replay_sealed.simps [of b3 "[]"])
next
  case (Cons r rs)
  then have "ar_seq r = seq" by (simp add: link_ok_def)
  with Cons show ?case
    by (simp add: replay_sealed.simps [of b3 "frame_of r @ frames rs"] split_frame_of add.assoc)
qed

lemma replay_open_frames:
  "linked b3 seq head rs \<Longrightarrow> \<forall>r \<in> set rs. framed r \<Longrightarrow>
   replay_open b3 (frames rs @ t) pos seq head =
     replay_open b3 t (pos + length (frames rs)) (seq + of_nat (length rs)) (head_after head rs)"
proof (induction rs arbitrary: seq head pos)
  case Nil
  then show ?case by simp
next
  case (Cons r rs)
  then have "ar_seq r = seq" by (simp add: link_ok_def)
  with Cons show ?case
    by (simp add: replay_open.simps [of b3 "frame_of r @ frames rs @ t"] split_frame_of length_frame_of ac_simps)
qed

lemma replay_open_torn: "split_frame t \<in> {FShort, FTorn, FBadLen} \<Longrightarrow> replay_open b3 t pos seq head = OpenEnd seq head pos"
  by (subst replay_open.simps) auto

lemma for_each_frames: "\<forall>r \<in> set rs. framed r \<Longrightarrow> for_each_frame (frames rs) = Inr rs"
proof (induction rs)
  case Nil
  then show ?case by (simp add: for_each_frame.simps [of "[]"])
next
  case (Cons r rs)
  then have r: "framed r" by simp
  have f: "take 4 (frame_of r) = be_bytes 4 (length (record_encode r))" "drop 4 (frame_of r) = record_encode r"
    by (simp_all add: frame_of_def)
  have "drop (4 + length (record_encode r)) (frame_of r @ frames rs) = frames rs" by (simp add: frame_of_def)
  with Cons r show ?case
    using frame_len [OF r] encode_nonempty [of r]
    by (subst frames_simps, subst for_each_frame.simps) (simp add: f Let_def length_frame_of)
qed

text \<open>Every truncation of a segment is some of its records and a torn frame.\<close>

lemma take_frames:
  assumes "\<forall>r \<in> set rs. framed r"
  shows "\<exists>j t. j \<le> length rs \<and> take k (frames rs) = frames (take j rs) @ t \<and> split_frame t \<in> {FShort, FTorn} \<and>
    (\<forall>i \<le> length rs. length (frames (take i rs)) \<le> k \<longrightarrow> i \<le> j)"
  using assms
proof (induction rs arbitrary: k)
  case Nil
  then show ?case by simp
next
  case (Cons r rs)
  show ?case
  proof (cases "k < length (frame_of r)")
    case True
    have "i = 0" if "i \<le> Suc (length rs)" "length (frames (take i (r # rs))) \<le> k" for i
      using that True by (cases i) auto
    then show ?thesis using True Cons.prems split_frame_torn [of r k]
      by (intro exI [of _ 0] exI [of _ "take k (frame_of r)"]) auto
  next
    case False
    let ?k = "k - length (frame_of r)"
    from Cons obtain j t where j: "j \<le> length rs" "take ?k (frames rs) = frames (take j rs) @ t"
      "split_frame t \<in> {FShort, FTorn}" "\<forall>i \<le> length rs. length (frames (take i rs)) \<le> ?k \<longrightarrow> i \<le> j"
      by (metis list.set_intros(2))
    have "i \<le> Suc j" if "i \<le> Suc (length rs)" "length (frames (take i (r # rs))) \<le> k" for i
      using that j(4) False by (cases i) auto
    then show ?thesis using False j(1-3)
      by (intro exI [of _ "Suc j"] exI [of _ t]) auto
  qed
qed

end
