(* ===== verification/AuditStore_Laws.thy ===== *)
theory AuditStore_Laws
  imports AuditStore_Frames
begin

text \<open>
  Laws of the audit store: what a directory holds, the store as a refinement of a list of records
  that only grows, restarts after a crash, and what a verified log proves.
\<close>

section \<open>What a directory holds\<close>

text \<open>\<open>logs\<close> are the records of the sealed segments in chain order, \<open>lo\<close> those of the open one.\<close>

definition disk_holds :: "(byte list \<Rightarrow> byte list option) \<Rightarrow> disk \<Rightarrow> audit_record list list \<Rightarrow> audit_record list \<Rightarrow> bool" where
  "disk_holds zdec d logs lo \<longleftrightarrow> distinct (map fst d) \<and>
     list_all2 (\<lambda>n l. Option.bind (map_of d n) zdec = Some (frames l)) (sealed_segments d) logs \<and>
     map_of d OPEN_PATH = Some (frames lo)"

definition log_ok :: "(byte list \<Rightarrow> byte list) \<Rightarrow> audit_record list \<Rightarrow> bool" where
  "log_ok b3 log \<longleftrightarrow> linked b3 0 GENESIS log \<and> (\<forall>r \<in> set log. framed r)"

definition store_holds ::
  "(byte list \<Rightarrow> byte list) \<Rightarrow> (byte list \<Rightarrow> byte list option) \<Rightarrow> store \<Rightarrow> audit_record list list \<Rightarrow> audit_record list \<Rightarrow> bool" where
  "store_holds b3 zdec s logs lo \<longleftrightarrow> disk_holds zdec (st_disk s) logs lo \<and> log_ok b3 (concat logs @ lo) \<and>
     st_seq s = of_nat (length (concat logs @ lo)) \<and> st_head s = head_after GENESIS (concat logs @ lo) \<and>
     st_written s = length (frames lo)"

definition store_inv :: "(byte list \<Rightarrow> byte list) \<Rightarrow> (byte list \<Rightarrow> byte list option) \<Rightarrow> store \<Rightarrow> audit_record list \<Rightarrow> bool" where
  "store_inv b3 zdec s log \<longleftrightarrow> (\<exists>logs lo. store_holds b3 zdec s logs lo \<and> log = concat logs @ lo)"

lemma open_not_sealed [simp]: "\<not> is_sealed OPEN_PATH"
  by code_simp

lemma sealed_segments_other: "\<not> is_sealed n \<Longrightarrow> sealed_segments (AList.update n v d) = sealed_segments d"
  by (simp add: sealed_segments_def update_keys)

lemma sealed_segments_new:
  assumes "distinct (map fst d)" "is_sealed n" "map_of d n = None" "\<forall>m \<in> set (sealed_segments d). str_bytes m < str_bytes n"
  shows "sealed_segments (AList.update n v d) = sealed_segments d @ [n]"
proof -
  let ?xs = "filter is_sealed (map fst d)"
  have n: "n \<notin> set (map fst d)" using assms(3) by (simp add: map_of_eq_None_iff)
  have "sorted_wrt (<) (map str_bytes (sort_key str_bytes ?xs))"
    using assms(1) by (intro sort_key_strict) (simp add: distinct_map inj_on_def)
  then have "sort_key str_bytes (?xs @ [n]) = sort_key str_bytes ?xs @ [n]"
    using assms(4) by (intro sort_key_unique) (auto simp: sorted_wrt_append sealed_segments_def)
  then show ?thesis using n assms(2) by (simp add: sealed_segments_def update_keys)
qed

lemma segments_other:
  assumes "list_all2 (\<lambda>n l. Option.bind (map_of d n) zdec = Some (f l)) ns logs" "\<forall>n \<in> set ns. n \<noteq> m"
  shows "list_all2 (\<lambda>n l. Option.bind (map_of (AList.update m v d) n) zdec = Some (f l)) ns logs"
  by (rule list.rel_mono_strong [OF assms(1)]) (use assms(2) in \<open>auto simp: update_conv'\<close>)

lemma open_not_segment [simp]: "\<forall>n \<in> set (sealed_segments d). n \<noteq> OPEN_PATH"
  using open_not_sealed by (auto simp: sealed_segments_def)

lemma replay_segments_holds:
  "list_all2 (\<lambda>n l. Option.bind (map_of d n) zdec = Some (frames l)) ns logs \<Longrightarrow>
   linked b3 seq head (concat logs) \<Longrightarrow> \<forall>r \<in> set (concat logs). framed r \<Longrightarrow>
   replay_segments b3 zdec d ns seq head = Inr (seq + of_nat (length (concat logs)), head_after head (concat logs))"
proof (induction ns logs arbitrary: seq head rule: list_all2_induct)
  case (Cons n ns l logs)
  then show ?case
    by (simp add: read_sealed_def linked_append replay_sealed_frames add.assoc)
qed simp

text \<open>What \<open>Store::open\<close> finds after a crash that left the first \<open>k\<close> bytes of the open segment.\<close>

lemma replay_holds:
  assumes "disk_holds zdec d logs lo" "log_ok b3 (concat logs @ lo)"
  shows "\<exists>j t. j \<le> length lo \<and> take k (frames lo) = frames (take j lo) @ t \<and> split_frame t \<in> {FShort, FTorn} \<and>
    (\<forall>i \<le> length lo. length (frames (take i lo)) \<le> k \<longrightarrow> i \<le> j) \<and>
    replay b3 zdec now (AList.update OPEN_PATH (take k (frames lo)) d) =
      (AList.update OPEN_PATH (frames (take j lo)) d,
       Inr (of_nat (length (concat logs @ take j lo)), head_after GENESIS (concat logs @ take j lo), length (frames (take j lo))))"
proof -
  let ?d = "AList.update OPEN_PATH (take k (frames lo)) d"
  have lk: "linked b3 0 GENESIS (concat logs)" "linked b3 (of_nat (length (concat logs))) (head_after GENESIS (concat logs)) lo"
    and fr: "\<forall>r \<in> set (concat logs). framed r" "\<forall>r \<in> set lo. framed r"
    using assms(2) by (auto simp: log_ok_def linked_append)
  have la: "list_all2 (\<lambda>n l. Option.bind (map_of ?d n) zdec = Some (frames l)) (sealed_segments d) logs"
    using assms(1) by (intro segments_other open_not_segment) (simp_all add: disk_holds_def)
  have seg: "replay_segments b3 zdec ?d (sealed_segments ?d) 0 GENESIS =
      Inr (of_nat (length (concat logs)), head_after GENESIS (concat logs))"
    using replay_segments_holds [OF la lk(1) fr(1)] by (simp add: sealed_segments_other)
  obtain j t where j: "j \<le> length lo" "take k (frames lo) = frames (take j lo) @ t"
    "split_frame t \<in> {FShort, FTorn}" "\<forall>i \<le> length lo. length (frames (take i lo)) \<le> k \<longrightarrow> i \<le> j"
    using take_frames [OF fr(2)] by blast
  have "linked b3 (of_nat (length (concat logs))) (head_after GENESIS (concat logs)) (take j lo)" "\<forall>r \<in> set (take j lo). framed r"
    using lk(2) fr(2) linked_append [of b3 _ _ "take j lo" "drop j lo"] by (auto dest: in_set_takeD)
  then have op: "replay_open b3 (take k (frames lo)) 0 (of_nat (length (concat logs))) (head_after GENESIS (concat logs)) =
      OpenEnd (of_nat (length (concat logs @ take j lo))) (head_after GENESIS (concat logs @ take j lo)) (length (frames (take j lo)))"
    using replay_open_torn [of t b3] j(3) by (auto simp: j(2) replay_open_frames)
  have len: "length (frames (take j lo)) = length (take k (frames lo)) \<Longrightarrow> take k (frames lo) = frames (take j lo)"
    unfolding j(2) by simp
  have tk: "take (length (frames (take j lo))) (take k (frames lo)) = frames (take j lo)" unfolding j(2) by simp
  have "replay b3 zdec now ?d =
      (AList.update OPEN_PATH (frames (take j lo)) d,
       Inr (of_nat (length (concat logs @ take j lo)), head_after GENESIS (concat logs @ take j lo), length (frames (take j lo))))"
    using len tk
    by (auto simp: replay_def seg op update_conv' truncate_open_def update_last simp del: concat_append length_append)
  with j show ?thesis by blast
qed

section \<open>Segment names\<close>

lemma digits_val_snoc [simp]: "digits_val (s @ [c]) = digits_val s * 10 + (of_char c - 48)"
  by (simp add: digits_val_def)

lemma digits_val_dec_digits [simp]: "digits_val (dec_digits n) = n"
proof (induction n rule: dec_digits.induct)
  case (1 n)
  have c: "(of_char (char_of (48 + d)) :: nat) = 48 + d" if "d < 10" for d :: nat
    using that by simp
  show ?case
  proof (cases "n < 10")
    case True
    then show ?thesis using c [of n] by (simp add: dec_digits.simps [of n] digits_val_def)
  next
    case False
    have "n mod 10 < 10" by simp
    then show ?thesis using 1 [OF False] False c [of "n mod 10"] by (simp add: dec_digits.simps [of n])
  qed
qed

lemma digits_val_pad [simp]: "digits_val (pad_dec k n) = n"
proof -
  have "digits_val (replicate m (CHR ''0'') @ s) = digits_val s" for m s
    by (induction m) (simp_all add: digits_val_def)
  then show ?thesis by (simp add: pad_dec_def)
qed

lemma sealed_name_inject: "sealed_name date m = sealed_name date n \<longleftrightarrow> m = n"
proof
  assume "sealed_name date m = sealed_name date n"
  then have "pad_dec 4 m = pad_dec 4 n" by (simp add: sealed_name_def)
  then show "m = n" using digits_val_pad by metis
qed simp

lemma is_sealed_name [simp]: "is_sealed (sealed_name date n)"
  by (simp add: is_sealed_def sealed_name_def starts_with_def ends_with_def)

lemma free_name_free: "map_of d (free_name d date) = None \<and> is_sealed (free_name d date)"
proof (cases "find (\<lambda>n. map_of d (sealed_name date n) = None) [0..<Suc (length d)]")
  case None
  then have "\<forall>n \<in> set [0..<Suc (length d)]. sealed_name date n \<in> fst ` set d"
    by (auto simp: find_None_iff map_of_eq_None_iff)
  then have "sealed_name date ` set [0..<Suc (length d)] \<subseteq> fst ` set d" by blast
  then have "card (sealed_name date ` set [0..<Suc (length d)]) \<le> card (fst ` set d)" by (intro card_mono) auto
  also have "\<dots> \<le> length d" using card_length [of "map fst d"] by simp
  also have "card (sealed_name date ` set [0..<Suc (length d)]) = Suc (length d)"
    by (subst card_image) (simp_all add: inj_on_def sealed_name_inject del: upt_Suc)
  finally show ?thesis by simp
next
  case (Some n)
  then have "free_name d date = sealed_name date n" "map_of d (sealed_name date n) = None"
    by (simp only: free_name_def option.simps) (use Some in \<open>auto simp: find_Some_iff\<close>)
  then show ?thesis by simp
qed

lemma free_name_open: "map_of d OPEN_PATH \<noteq> None \<Longrightarrow> free_name (AList.update OPEN_PATH v d) date = free_name d date"
proof -
  assume "map_of d OPEN_PATH \<noteq> None"
  then have "OPEN_PATH \<in> set (map fst d)" by (simp add: map_of_eq_None_iff)
  then have "map fst (AList.update OPEN_PATH v d) = map fst d" by (simp only: update_keys if_True)
  then have "length (AList.update OPEN_PATH v d) = length d" using length_map by metis
  moreover have "sealed_name date n \<noteq> OPEN_PATH" for n using is_sealed_name open_not_sealed by metis
  ultimately show ?thesis by (simp add: free_name_def update_conv')
qed

section \<open>Anchors\<close>

definition anchor_ok :: "audit_record \<Rightarrow> bool" where
  "anchor_ok r \<longleftrightarrow> (ar_kind r = KAnchor \<longrightarrow> anchored_head (ar_body r) = Some (ar_prev_hash r))"

definition anchor_step :: "string \<Rightarrow> byte list option \<Rightarrow> (cbor_error, byte list option) parser" where
  "anchor_step k h = (if k = ''head'' then andthen (rd_byte_array 32) (\<lambda>b. ret (Some b)) else andthen rd_skip (\<lambda>_. ret h))"

lemma anchored_head_of_map:
  assumes "rd_map id anchor_step None (reader_new body) = Inr (h, r)"
  shows "anchored_head body = h"
proof -
  from assms obtain n r1 r2 where "rd_map_begin (reader_new body) = Inr (n, r1)"
    "loop_n (unat n) (\<lambda>s. andthen rd_key (\<lambda>k. anchor_step k s)) None r1 = Inr (h, r2)"
    by (auto simp: rd_map_def lift_err_id andthen_def ret_def split: sum.splits)
  then show ?thesis by (simp add: anchored_head_def andthen_def anchor_step_def [abs_def])
qed

lemma anchor_body_entries: "rstr n \<Longrightarrow> anchor_body n h = put_entries [(''head'', put_bytes h), (''sealed'', put_text n)]"
proof -
  have "keys_ok [''head'', ''sealed'']" by code_simp
  then have c: "canonical [(''head'', put_bytes h), (''sealed'', put_text n)]" by (intro keys_ok_canonical) simp_all
  show ?thesis using rebuilt [OF c refl] by (simp add: anchor_body_def Let_def mb_insert_Nil)
qed

lemma anchored_head_body: "length h = 32 \<Longrightarrow> rstr n \<Longrightarrow> anchored_head (anchor_body n h) = Some h"
proof -
  assume h: "length h = 32" "rstr n"
  let ?es = "[(''head'', put_bytes h), (''sealed'', put_text n)]"
  have "keys_ok [''head'', ''sealed'']" by code_simp
  then have c: "canonical ?es" by (intro keys_ok_canonical) simp_all
  have "reads 0 rd_skip (put_val (CText (str_bytes n))) ()" using h(2) by (intro reads_skip) (simp_all add: rstr_def)
  then have "reads 0 rd_skip (put_text n) ()" by (simp add: put_text_def)
  then have "steps 0 anchor_step None ?es (Some h)"
    using h(1) by (auto simp: anchor_step_def intro!: exI [of _ "Some h"] reads_andthen1 [OF reads_byte_array] reads_andthen1 [of 0 rd_skip])
  from reads_map [OF this c, of id] have "reads 1 (rd_map id anchor_step None) (anchor_body n h) (Some h)"
    by (simp add: anchor_body_entries [OF h(2)])
  from readsD [OF this, of "reader_new (anchor_body n h)" "[]"] anchored_head_of_map show ?thesis
    by (simp add: inb_def rest_def reader_new_def MAX_MAP_DEPTH_def)
qed

section \<open>The operations\<close>

definition submit_ok :: "audit_record \<Rightarrow> bool" where
  "submit_ok r \<longleftrightarrow> record_ok (r\<lparr>ar_prev_hash := GENESIS, ar_hash := GENESIS\<rparr>)"

lemma place_ok:
  assumes "submit_ok r" "\<forall>x. length (b3 x) = 32" "length (st_head s) = 32"
  shows "record_ok (place b3 ck s r)" "link_ok b3 (st_head s) (st_seq s) (place b3 ck s r)"
  using assms by (simp_all add: place_def submit_ok_def record_ok_def link_ok_def compute_hash_def record_unhashed_entries record_entries_def Let_def)

lemma log_head_length: "\<forall>x. length (b3 x) = 32 \<Longrightarrow> log_ok b3 log \<Longrightarrow> length (head_after GENESIS log) = 32"
  by (cases log rule: rev_cases) (auto simp: GENESIS_def log_ok_def framed_def record_ok_def)

lemma disk_holds_open: "disk_holds zdec d logs lo \<Longrightarrow> disk_holds zdec (AList.update OPEN_PATH (frames lo') d) logs lo'"
  unfolding disk_holds_def sealed_segments_other [OF open_not_sealed]
  by (intro conjI segments_other open_not_segment distinct_update) (simp_all add: update_conv' del: map_of_eq_Some_iff)

lemma append_frame_holds:
  assumes s: "store_holds b3 zdec s logs lo" and r0: "submit_ok r0" and b3: "\<forall>x. length (b3 x) = 32"
    and run: "append_frame b3 ck s r0 = Inr (s', r)"
  shows "r = place b3 ck s r0 \<and> store_holds b3 zdec s' logs (lo @ [r]) \<and>
    st_disk s' = AList.update OPEN_PATH (frames (lo @ [r])) (st_disk s)"
proof -
  let ?log = "concat logs @ lo"
  have len: "length (st_head s) = 32" using s log_head_length [OF b3, of ?log] by (simp add: store_holds_def)
  have r: "r = place b3 ck s r0" and fit: "length (record_encode r) \<le> MAX_FRAME"
    using run by (auto simp: append_frame_def Let_def split: if_splits)
  have ok: "framed r" "link_ok b3 (st_head s) (st_seq s) r"
    using place_ok [OF r0 b3 len] fit by (simp_all add: r framed_def)
  have "map_of (st_disk s) OPEN_PATH = Some (frames lo)" using s by (simp add: store_holds_def disk_holds_def)
  then have d: "st_disk s' = AList.update OPEN_PATH (frames (lo @ [r])) (st_disk s)"
    and f: "st_seq s' = st_seq s + 1" "st_head s' = ar_hash r" "st_written s' = length (frames (lo @ [r]))"
    using run s by (auto simp: append_frame_def Let_def store_sync_def frame_of_def store_holds_def split: if_splits)
  have "log_ok b3 (?log @ [r])"
    using s ok by (auto simp: store_holds_def log_ok_def linked_append)
  then have "store_holds b3 zdec s' logs (lo @ [r])"
    using s f disk_holds_open [of zdec "st_disk s" logs lo "lo @ [r]"] d by (auto simp: store_holds_def)
  with r d show ?thesis by simp
qed

lemma anchor_submit: "length h = 32 \<Longrightarrow> rstr n \<Longrightarrow> submit_ok (anchor_record n h)"
proof -
  assume h: "length h = 32" "rstr n"
  let ?es = "[(''head'', put_bytes h), (''sealed'', put_text n)]"
  have "keys_ok [''head'', ''sealed'']" by code_simp
  then have c: "canonical ?es" by (intro keys_ok_canonical) simp_all
  have "anchor_body n h = put_entries ?es"
    using rebuilt [OF c refl] by (simp add: anchor_body_def Let_def mb_insert_Nil)
  also have "\<dots> = put_val (CMap [(''head'', CBytes h), (''sealed'', CText (str_bytes n))])"
    by (simp add: put_text_def)
  finally have "anchor_body n h = put_val (CMap [(''head'', CBytes h), (''sealed'', CText (str_bytes n))])" .
  moreover have "cval_ok (CMap [(''head'', CBytes h), (''sealed'', CText (str_bytes n))])" using h c by (simp add: put_text_def rstr_def)
  ultimately show ?thesis
    unfolding submit_ok_def record_ok_def anchor_record_def
    by (intro conjI exI [of _ "CMap [(''head'', CBytes h), (''sealed'', CText (str_bytes n))]"])
      (simp_all add: record_new_def GENESIS_def rstr_def utf8_ascii)
qed

text \<open>The clock agrees with the order of the segments: the next segment's name is one a file system
  takes, and it sorts last.\<close>

definition next_segment_last :: "disk \<Rightarrow> clocks \<Rightarrow> bool" where
  "next_segment_last d ck \<longleftrightarrow> rstr (free_name d (utc_date (ck_ms ck))) \<and>
     length (free_name d (utc_date (ck_ms ck))) \<le> 255 \<and>
     (\<forall>m \<in> set (sealed_segments d). str_bytes m < str_bytes (free_name d (utc_date (ck_ms ck))))"

lemma place_sync [simp]: "place b3 ck (store_sync ck' s) = place b3 ck s"
  by (simp add: place_def store_sync_def fun_eq_iff)

lemma store_holds_sync [simp]: "store_holds b3 zdec (store_sync ck s) logs lo \<longleftrightarrow> store_holds b3 zdec s logs lo"
  by (simp add: store_holds_def store_sync_def)

text \<open>Sealing moves the open segment behind the last sealed one.\<close>

lemma seal_holds:
  assumes s: "store_holds b3 zdec s logs lo" and z: "\<forall>x. zdec (zenc x) = Some x"
    and n: "map_of (st_disk s) n = None" "is_sealed n" "\<forall>m \<in> set (sealed_segments (st_disk s)). str_bytes m < str_bytes n"
  shows "store_holds b3 zdec (s\<lparr>st_disk := AList.update OPEN_PATH [] (AList.update n (zenc (frames lo)) (st_disk s)), st_written := 0\<rparr>)
     (logs @ [lo]) []"
proof -
  let ?d = "AList.update n (zenc (frames lo)) (st_disk s)"
  have h: "disk_holds zdec (st_disk s) logs lo" using s by (simp add: store_holds_def)
  then have dis: "distinct (map fst (st_disk s))" by (simp add: disk_holds_def)
  have ne: "n \<noteq> OPEN_PATH" using n(2) open_not_sealed by metis
  have seg: "sealed_segments ?d = sealed_segments (st_disk s) @ [n]" using n dis by (intro sealed_segments_new) auto
  have "\<forall>m \<in> set (sealed_segments (st_disk s)). m \<noteq> n" using n(3) by auto
  then have "list_all2 (\<lambda>n l. Option.bind (map_of ?d n) zdec = Some (frames l)) (sealed_segments (st_disk s)) logs"
    using h by (intro segments_other) (simp_all add: disk_holds_def)
  moreover have "Option.bind (map_of ?d n) zdec = Some (frames lo)" using z by (simp add: update_conv')
  ultimately have "list_all2 (\<lambda>n l. Option.bind (map_of ?d n) zdec = Some (frames l)) (sealed_segments ?d) (logs @ [lo])"
    unfolding seg by (intro list_all2_appendI) simp_all
  moreover have "map_of ?d OPEN_PATH = Some (frames lo)" using h ne by (simp add: disk_holds_def update_conv' del: map_of_eq_Some_iff)
  ultimately have "disk_holds zdec ?d (logs @ [lo]) lo" using dis unfolding disk_holds_def by (intro conjI distinct_update)
  from disk_holds_open [OF this, of "[]"] show ?thesis using s by (simp add: store_holds_def)
qed

lemma store_rotate_holds:
  assumes s: "store_holds b3 zdec s logs lo" and z: "\<forall>x. zdec (zenc x) = Some x" and b3: "\<forall>x. length (b3 x) = 32"
    and last: "next_segment_last (st_disk s) ck" and run: "store_rotate b3 zenc ck s = Inr s'"
  shows "\<exists>a. ar_kind a = KAnchor \<and> anchor_ok a \<and> store_holds b3 zdec s' (logs @ [lo]) [a]"
proof -
  let ?n = "free_name (st_disk s) (utc_date (ck_ms ck))"
  let ?s = "s\<lparr>st_last_sync_ms := ck_ms ck, st_disk := AList.update OPEN_PATH [] (AList.update ?n (zenc (frames lo)) (st_disk s)), st_written := 0\<rparr>"
  have len: "length (st_head s) = 32" using s log_head_length [OF b3, of "concat logs @ lo"] by (simp add: store_holds_def)
  have op: "map_of (st_disk s) OPEN_PATH = Some (frames lo)" using s by (simp add: store_holds_def disk_holds_def)
  have "store_holds b3 zdec (s\<lparr>st_last_sync_ms := ck_ms ck\<rparr>) logs lo" using s by (simp add: store_holds_def)
  then have h: "store_holds b3 zdec ?s (logs @ [lo]) []"
    using z seal_holds [of b3 zdec "s\<lparr>st_last_sync_ms := ck_ms ck\<rparr>" logs lo zenc ?n] free_name_free [of "st_disk s"] last by (simp add: next_segment_last_def)
  obtain a where run': "append_frame b3 ck ?s (anchor_record ?n (st_head s)) = Inr (s', a)"
    using run op by (auto simp: store_rotate_def Let_def store_sync_def map_sum_Inr simp del: map_of_eq_Some_iff)
  have "submit_ok (anchor_record ?n (st_head s))"
    using anchor_submit [OF len] last by (simp add: next_segment_last_def)
  from append_frame_holds [OF h this b3 run'] show ?thesis
    using anchored_head_body [OF len] last
    by (intro exI [of _ a]) (auto simp: place_def anchor_record_def anchor_ok_def next_segment_last_def Let_def)
qed

lemma store_append_holds:
  assumes s: "store_holds b3 zdec s logs lo" and r0: "submit_ok r0"
    and z: "\<forall>x. zdec (zenc x) = Some x" and b3: "\<forall>x. length (b3 x) = 32"
    and last: "next_segment_last (st_disk s) ck" and run: "store_append b3 zenc ck s r0 = Inr (s', r)"
  shows "r = place b3 ck s r0 \<and> (store_holds b3 zdec s' logs (lo @ [r]) \<or>
    (\<exists>a. ar_kind a = KAnchor \<and> anchor_ok a \<and> store_holds b3 zdec s' (logs @ [lo @ [r]]) [a]))"
proof -
  obtain s1 r1 where f: "append_frame b3 ck s r0 = Inr (s1, r1)"
    and rest: "(if SEGMENT_BYTES \<le> st_written s1 then rbind (store_rotate b3 zenc ck s1) (\<lambda>s. Inr (s, r1)) else Inr (s1, r1)) = Inr (s', r)"
    using run by (auto simp: store_append_def rbind_Inr_iff)
  from append_frame_holds [OF s r0 b3 f] have h: "r1 = place b3 ck s r0" "store_holds b3 zdec s1 logs (lo @ [r1])"
    and d: "st_disk s1 = AList.update OPEN_PATH (frames (lo @ [r1])) (st_disk s)" by blast+
  have op: "map_of (st_disk s) OPEN_PATH \<noteq> None" using s by (auto simp: store_holds_def disk_holds_def)
  have "next_segment_last (st_disk s1) ck"
    using last unfolding next_segment_last_def d free_name_open [OF op] sealed_segments_other [OF open_not_sealed] .
  then show ?thesis
    using rest h store_rotate_holds [OF h(2) z b3] by (auto simp: rbind_Inr_iff split: if_splits)
qed

section \<open>Verification\<close>

lemma verify_step_frames:
  "linked b3 (vf_records v) (vf_head v) rs \<Longrightarrow> \<forall>r \<in> set rs. framed r \<and> anchor_ok r \<Longrightarrow>
   verify_step b3 sealed (frames rs) v =
     Inr (v\<lparr>vf_head := head_after (vf_head v) rs, vf_records := vf_records v + of_nat (length rs)\<rparr>, rs)"
proof (induction rs arbitrary: v)
  case Nil
  then show ?case by (simp add: verify_step.simps [of b3 sealed "[]"])
next
  case (Cons r rs)
  let ?v = "v\<lparr>vf_head := ar_hash r, vf_records := vf_records v + 1\<rparr>"
  have "ar_seq r = vf_records v" "framed r" "anchor_ok r" using Cons.prems by (auto simp: link_ok_def)
  moreover have "frame_of r @ frames rs \<noteq> []" by (simp add: frame_of_def encode_nonempty)
  moreover have "verify_step b3 sealed (frames rs) ?v =
      Inr (?v\<lparr>vf_head := head_after (ar_hash r) rs, vf_records := vf_records v + 1 + of_nat (length rs)\<rparr>, rs)"
    using Cons.IH [of ?v] Cons.prems by simp
  ultimately show ?case using Cons.prems(1)
    by (simp add: verify_step.simps [of b3 sealed "frame_of r @ frames rs"] split_frame_of anchor_ok_def add.assoc del: append_is_Nil_conv)
qed

lemma verify_segments_frames:
  "list_all2 (\<lambda>n l. Option.bind (map_of d n) zdec = Some (frames l)) ns logs \<Longrightarrow>
   linked b3 (vf_records v) (vf_head v) (concat logs) \<Longrightarrow> \<forall>r \<in> set (concat logs). framed r \<and> anchor_ok r \<Longrightarrow>
   verify_segments b3 zdec d ns v = Inr (v\<lparr>vf_head := head_after (vf_head v) (concat logs),
     vf_records := vf_records v + of_nat (length (concat logs))\<rparr>, concat logs)"
proof (induction ns logs arbitrary: v rule: list_all2_induct)
  case (Cons n ns l logs)
  then show ?case
    by (simp add: read_sealed_def linked_append verify_step_frames add.assoc)
qed simp

lemma verify_step_sound:
  "verify_step b3 sealed buf v = Inr (w, rs) \<Longrightarrow>
   linked b3 (vf_records v) (vf_head v) rs \<and> (\<forall>r \<in> set rs. anchor_ok r) \<and>
   vf_head w = head_after (vf_head v) rs \<and> vf_records w = vf_records v + of_nat (length rs)"
proof (induction b3 sealed buf v arbitrary: w rs rule: verify_step.induct)
  case (1 b3 sealed buf v)
  show ?case
  proof (cases "buf = []")
    case True
    with "1.prems" show ?thesis by (simp add: verify_step.simps)
  next
    case False
    note run = "1.prems" [unfolded verify_step.simps [of b3 sealed buf]]
    show ?thesis
    proof (cases "split_frame buf")
      case (Frame p rest)
      with run False obtain r where r: "record_decode p = Inr r"
        by (cases "record_decode p") auto
      from run False Frame r have ok: "link_ok b3 (vf_head v) (vf_records v) r" "anchor_ok r"
        by (auto simp: anchor_ok_def split: if_splits)
      then have ok': "\<not> (ar_kind r = KAnchor \<and> anchored_head (ar_body r) \<noteq> Some (ar_prev_hash r))" by (simp add: anchor_ok_def)
      let ?v = "v\<lparr>vf_head := ar_hash r, vf_records := vf_records v + 1\<rparr>"
      from run False Frame r ok(1) ok' obtain rs' where rs: "rs = r # rs'" and rec: "verify_step b3 sealed rest ?v = Inr (w, rs')"
        by (auto simp: rbind_Inr_iff split: if_splits prod.splits)
      from "1.IH" [OF False Frame r _ ok' rec] ok show ?thesis by (simp add: rs add.assoc)
    qed (use run False in \<open>auto split: if_splits\<close>)
  qed
qed

lemma verify_segments_sound:
  "verify_segments b3 zdec d ns v = Inr (w, rs) \<Longrightarrow>
   linked b3 (vf_records v) (vf_head v) rs \<and> (\<forall>r \<in> set rs. anchor_ok r) \<and>
   vf_head w = head_after (vf_head v) rs \<and> vf_records w = vf_records v + of_nat (length rs)"
proof (induction ns arbitrary: v rs)
  case (Cons n ns)
  then obtain buf u rs1 rs2 where *: "verify_step b3 True buf v = Inr (u, rs1)" "verify_segments b3 zdec d ns u = Inr (w, rs2)" "rs = rs1 @ rs2"
    by (auto simp: rbind_Inr_iff)
  from verify_step_sound [OF *(1)] Cons.IH [OF *(2)] show ?case by (auto simp: *(3) linked_append)
qed simp

lemma verify_log:
  assumes "verify b3 zdec d = Inr (w, rs)"
  shows "linked b3 0 GENESIS rs \<and> (\<forall>r \<in> set rs. anchor_ok r) \<and> vf_head w = head_after GENESIS rs \<and> vf_records w = of_nat (length rs)"
proof -
  from assms obtain u rs1 rs2 where
    s: "verify_segments b3 zdec d (sealed_segments d) \<lparr>vf_records = 0, vf_head = GENESIS, vf_torn_tail = False\<rparr> = Inr (u, rs1)"
    and o: "w = u \<and> rs2 = [] \<or> (\<exists>buf. verify_step b3 False buf u = Inr (w, rs2))" and rs: "rs = rs1 @ rs2"
    by (auto simp: verify_def rbind_Inr_iff split: option.splits) blast
  from verify_segments_sound [OF s] o show ?thesis
    by (auto simp: rs linked_append dest: verify_step_sound)
qed

section \<open>The store as a growing log\<close>

text \<open>C24: \<open>Store::append\<close> refines adding one record at the end of a list. Whatever the record says
  about its own place, the store gives it the next number and links it to the last record; nothing
  already written changes; and when the segment is full the only other record is one anchor. The
  clock is assumed not to name the next segment before an existing one.\<close>

theorem append_extends_log:
  assumes "store_inv b3 zdec s log" and "submit_ok r0"
    and "\<forall>x. zdec (zenc x) = Some x" and "\<forall>x. length (b3 x) = 32"
    and "next_segment_last (st_disk s) ck" and "store_append b3 zenc ck s r0 = Inr (s', r)"
  shows "ar_seq r = of_nat (length log) \<and> ar_prev_hash r = head_after GENESIS log \<and>
    (store_inv b3 zdec s' (log @ [r]) \<or> (\<exists>a. ar_kind a = KAnchor \<and> store_inv b3 zdec s' (log @ [r, a])))"
proof -
  from assms(1) obtain logs lo where s: "store_holds b3 zdec s logs lo" and log: "log = concat logs @ lo"
    by (auto simp: store_inv_def)
  have p: "r = place b3 ck s r0" and h: "store_holds b3 zdec s' logs (lo @ [r]) \<or>
      (\<exists>a. ar_kind a = KAnchor \<and> anchor_ok a \<and> store_holds b3 zdec s' (logs @ [lo @ [r]]) [a])"
    using store_append_holds [OF s assms(2-6)] by blast+
  have "ar_seq r = of_nat (length log) \<and> ar_prev_hash r = head_after GENESIS log"
    using s by (simp add: p place_def Let_def store_holds_def log del: head_after_simps length_append)
  moreover have "store_holds b3 zdec s' logs (lo @ [r]) \<Longrightarrow> store_inv b3 zdec s' (log @ [r])"
    unfolding store_inv_def log by (intro exI conjI, assumption) simp
  moreover have "store_holds b3 zdec s' (logs @ [lo @ [r]]) [a] \<Longrightarrow> store_inv b3 zdec s' (log @ [r, a])" for a
    unfolding store_inv_def log by (intro exI conjI, assumption) simp
  ultimately show ?thesis using h by blast
qed

text \<open>What the readers see of a store in that state.\<close>

lemma open_after_cut:
  assumes "store_holds b3 zdec s logs lo"
  shows "\<exists>j d s'. j \<le> length lo \<and> store_open b3 zdec now (truncate_open (st_disk s) k) = (d, Inr s') \<and>
    store_holds b3 zdec s' logs (take j lo) \<and> (\<forall>i \<le> length lo. length (frames (take i lo)) \<le> k \<longrightarrow> i \<le> j)"
proof -
  have h: "disk_holds zdec (st_disk s) logs lo" and l: "log_ok b3 (concat logs @ lo)" using assms by (auto simp: store_holds_def)
  have tr: "truncate_open (st_disk s) k = AList.update OPEN_PATH (take k (frames lo)) (st_disk s)"
    using h by (simp add: truncate_open_def disk_holds_def del: map_of_eq_Some_iff)
  from replay_holds [OF h l, of k now] obtain j where j: "j \<le> length lo" "\<forall>i \<le> length lo. length (frames (take i lo)) \<le> k \<longrightarrow> i \<le> j"
    and r: "replay b3 zdec now (truncate_open (st_disk s) k) = (AList.update OPEN_PATH (frames (take j lo)) (st_disk s),
       Inr (of_nat (length (concat logs @ take j lo)), head_after GENESIS (concat logs @ take j lo), length (frames (take j lo))))"
    unfolding tr by blast
  let ?d = "AList.update OPEN_PATH (frames (take j lo)) (st_disk s)"
  let ?s = "\<lparr>st_disk = ?d, st_written = length (frames (take j lo)), st_seq = of_nat (length (concat logs @ take j lo)),
     st_head = head_after GENESIS (concat logs @ take j lo), st_last_sync_ms = now\<rparr>"
  have "store_open b3 zdec now (truncate_open (st_disk s) k) = (?d, Inr ?s)"
    by (simp only: store_open_def r split: prod.split) (simp add: update_conv' Let_def)
  moreover have "log_ok b3 (concat logs @ take j lo)"
    using l linked_append [of b3 0 GENESIS "concat logs @ take j lo" "drop j lo"] by (auto simp: log_ok_def dest: in_set_takeD)
  then have "store_holds b3 zdec ?s logs (take j lo)"
    using disk_holds_open [OF h] by (simp add: store_holds_def del: head_after_simps length_append)
  ultimately show ?thesis using j by blast
qed


lemma disk_unchanged: "disk_holds zdec d logs lo \<Longrightarrow> AList.update OPEN_PATH (frames lo) d = d"
  by (rule update_triv) (simp add: disk_holds_def)

lemma store_readable:
  assumes "store_inv b3 zdec s log"
  shows "store_open b3 zdec now (st_disk s) = (st_disk s, Inr (s\<lparr>st_last_sync_ms := now\<rparr>)) \<and> for_each zdec (st_disk s) = Inr log"
proof
  from assms obtain logs lo where s: "store_holds b3 zdec s logs lo" and log: "log = concat logs @ lo"
    by (auto simp: store_inv_def)
  have h: "disk_holds zdec (st_disk s) logs lo" and l: "log_ok b3 (concat logs @ lo)" using s by (auto simp: store_holds_def)
  have fr: "\<forall>r \<in> set (concat logs @ lo). framed r" using l by (simp add: log_ok_def)
  from replay_holds [OF h l, of "length (frames lo)" now] obtain j t where j: "j \<le> length lo"
    "take (length (frames lo)) (frames lo) = frames (take j lo) @ t"
    "length (frames (take (length lo) lo)) \<le> length (frames lo) \<longrightarrow> length lo \<le> j"
    and r: "replay b3 zdec now (AList.update OPEN_PATH (take (length (frames lo)) (frames lo)) (st_disk s)) =
      (AList.update OPEN_PATH (frames (take j lo)) (st_disk s),
       Inr (of_nat (length (concat logs @ take j lo)), head_after GENESIS (concat logs @ take j lo), length (frames (take j lo))))"
    by blast
  have "j = length lo" using j by simp
  then have r: "replay b3 zdec now (st_disk s) = (st_disk s, Inr (st_seq s, st_head s, st_written s))"
    using r s by (simp add: disk_unchanged [OF h] store_holds_def)
  have "map_of (st_disk s) OPEN_PATH \<noteq> None" using h by (auto simp: disk_holds_def)
  then show "store_open b3 zdec now (st_disk s) = (st_disk s, Inr (s\<lparr>st_last_sync_ms := now\<rparr>))"
    by (simp only: store_open_def r split: prod.split) (auto simp: Let_def intro: store.equality)
  have "list_all2 (\<lambda>n l. Option.bind (map_of (st_disk s) n) zdec = Some (frames l)) (sealed_segments (st_disk s)) logs"
    using h by (simp add: disk_holds_def)
  then have "map (\<lambda>n. rbind (read_sealed zdec (st_disk s) n) for_each_frame) (sealed_segments (st_disk s)) = map Inr logs"
    using fr by (induction rule: list_all2_induct) (auto simp: read_sealed_def for_each_frames)
  then show "for_each zdec (st_disk s) = Inr log"
    using h fr by (simp add: for_each_def disk_holds_def log for_each_frames del: map_of_eq_Some_iff)
qed

text \<open>A restart loses nothing: opening the directory of a store gives back its number, its head
  and its length without touching a byte, and \<open>for_each\<close> hands out exactly the records appended.\<close>

theorem reopen_recovers:
  assumes "store_inv b3 zdec s log"
  shows "store_open b3 zdec now (st_disk s) = (st_disk s, Inr (s\<lparr>st_last_sync_ms := now\<rparr>)) \<and> for_each zdec (st_disk s) = Inr log"
  using assms by (rule store_readable)

lemma verify_accepts_log:
  assumes "store_inv b3 zdec s log" and "\<forall>r \<in> set log. anchor_ok r"
  shows "verify b3 zdec (st_disk s) =
    Inr (\<lparr>vf_records = st_seq s, vf_head = st_head s, vf_torn_tail = False\<rparr>, log)"
proof -
  from assms obtain logs lo where s: "store_holds b3 zdec s logs lo" and log: "log = concat logs @ lo"
    by (auto simp: store_inv_def)
  have h: "disk_holds zdec (st_disk s) logs lo" and l: "log_ok b3 (concat logs @ lo)" using s by (auto simp: store_holds_def)
  let ?v = "\<lparr>vf_records = 0, vf_head = GENESIS, vf_torn_tail = False\<rparr>"
  have seg: "verify_segments b3 zdec (st_disk s) (sealed_segments (st_disk s)) ?v =
      Inr (?v\<lparr>vf_head := head_after GENESIS (concat logs), vf_records := of_nat (length (concat logs))\<rparr>, concat logs)"
    using verify_segments_frames [of "st_disk s" zdec _ logs b3 ?v] h l assms(2)
    by (auto simp: disk_holds_def log_ok_def linked_append log)
  show ?thesis
    using h l s assms(2) verify_step_frames [of b3 _ lo False]
    by (simp add: verify_def seg disk_holds_def log_ok_def linked_append log store_holds_def del: map_of_eq_Some_iff)
qed

section \<open>Tampering\<close>

lemma linked_snoc_hash: "linked b3 seq head (rs @ [r]) \<Longrightarrow>
   ar_prev_hash r = head_after head rs \<and> ar_seq r = seq + of_nat (length rs) \<and> ar_hash r = compute_hash b3 r"
  by (simp add: linked_append link_ok_def)

lemma chain_determines_log:
  assumes "linked b3 0 GENESIS rs" "linked b3 0 GENESIS rs'" "length rs = length rs'"
    "head_after GENESIS rs = head_after GENESIS rs'" "\<forall>r \<in> set rs \<union> set rs'. record_ok r"
    "inj_on b3 ((\<lambda>r. ar_prev_hash r @ record_unhashed r) ` (set rs \<union> set rs'))"
  shows "rs = rs'"
  using assms
proof (induction rs arbitrary: rs' rule: rev_induct)
  case (snoc r rs)
  then obtain qs q where q: "rs' = qs @ [q]" by (cases rs' rule: rev_cases) auto
  note lr = linked_snoc_hash [OF snoc.prems(1)] and lq = linked_snoc_hash [OF snoc.prems(2) [unfolded q]]
  have ok: "record_ok r" "record_ok q" using snoc.prems(5) by (auto simp: q)
  have hash: "ar_hash r = ar_hash q" using snoc.prems(4) by (simp add: q)
  then have "b3 (ar_prev_hash r @ record_unhashed r) = b3 (ar_prev_hash q @ record_unhashed q)"
    using lr lq by (simp add: compute_hash_def)
  then have "ar_prev_hash r @ record_unhashed r = ar_prev_hash q @ record_unhashed q"
    by (rule inj_onD [OF snoc.prems(6)]) (simp_all add: q)
  then have eq: "ar_prev_hash r = ar_prev_hash q" "record_unhashed r = record_unhashed q"
    using ok by (auto simp: record_ok_def)
  have "r = r\<lparr>ar_hash := ar_hash r\<rparr>" by simp
  also have "\<dots> = q\<lparr>ar_hash := ar_hash r\<rparr>" by (rule record_unhashed_inject [OF ok eq(2)])
  also have "\<dots> = q" unfolding hash by simp
  finally have "r = q" .
  have "rs = qs"
  proof (rule snoc.IH)
    show "linked b3 0 GENESIS rs" "linked b3 0 GENESIS qs" using snoc.prems(1,2) by (auto simp: q linked_append)
    show "length rs = length qs" using snoc.prems(3) by (simp add: q)
    show "head_after GENESIS rs = head_after GENESIS qs" using eq(1) lr lq by simp
    show "\<forall>r \<in> set rs \<union> set qs. record_ok r" using snoc.prems(5) by (auto simp: q)
    show "inj_on b3 ((\<lambda>r. ar_prev_hash r @ record_unhashed r) ` (set rs \<union> set qs))"
      by (rule inj_on_subset [OF snoc.prems(6)]) (auto simp: q)
  qed
  with \<open>r = q\<close> show ?case by (simp add: q)
qed simp

text \<open>C26: The head pins the whole log: two directories that verify with the same number of records
  and the same head hold the same records, in the same order, unless BLAKE3 collides on two of the
  records shown. Records are compared as values, and are assumed to have a body, which the decoder
  does not insist on.\<close>

theorem head_pins_log:
  assumes "verify b3 zdec d = Inr (v, rs)" and "verify b3 zdec d' = Inr (v', rs')"
    and "vf_head v = vf_head v'" and "length rs = length rs'"
    and "\<forall>r \<in> set rs \<union> set rs'. record_ok r"
    and "inj_on b3 ((\<lambda>r. ar_prev_hash r @ record_unhashed r) ` (set rs \<union> set rs'))"
  shows "rs = rs'"
  using verify_log [OF assms(1)] verify_log [OF assms(2)] assms(3-6) by (intro chain_determines_log [of b3]) auto

text \<open>\<open>replay\<close> and \<open>verify\<close> disagree about a sealed segment with one to three stray bytes at its
  end: \<open>replay\<close> leaves its loop and accepts the segment, \<open>verify\<close> reports a broken chain.\<close>

theorem sealed_stray_bytes:
  assumes "linked b3 seq head rs" and "\<forall>r \<in> set rs. framed r \<and> anchor_ok r" and "t \<noteq> []" and "length t < 4"
  shows "replay_sealed b3 (frames rs @ t) seq head = Inr (seq + of_nat (length rs), head_after head rs) \<and>
    verify_step b3 True (frames rs @ t) \<lparr>vf_records = seq, vf_head = head, vf_torn_tail = False\<rparr> =
      Inl (ChainBroken (seq + of_nat (length rs)))"
  using assms(1,2)
proof (induction rs arbitrary: seq head)
  case Nil
  have "split_frame t = FShort" using assms(4) by (simp add: split_frame_def)
  then show ?case using assms(3) by (simp add: replay_sealed.simps [of b3 t] verify_step.simps [of b3 True t])
next
  case (Cons r rs)
  have r: "ar_seq r = seq" "framed r" "anchor_ok r" "link_ok b3 head seq r" using Cons.prems by (auto simp: link_ok_def)
  have "frame_of r @ frames rs @ t \<noteq> []" by (simp add: frame_of_def encode_nonempty)
  then show ?case using Cons.IH [of "seq + 1" "ar_hash r"] Cons.prems r
    by (auto simp: replay_sealed.simps [of b3 "frame_of r @ frames rs @ t"] verify_step.simps [of b3 True "frame_of r @ frames rs @ t"]
        split_frame_of anchor_ok_def add.assoc simp del: append_is_Nil_conv)
qed

section \<open>Frame sizes\<close>

lemma length_puts:
  "length (put_u64 n) \<le> 9" "length (put_bytes b) \<le> 9 + length b" "length (put_text s) \<le> 9 + length s"
  "length (put_array k) \<le> 9" "length (put_map k) \<le> 9"
  using length_put_head by (simp_all add: put_u64_def put_bytes_def put_text_def put_array_def put_map_def)

lemma length_put_pairs_opt:
  "length (put_pairs (opt_entry k v)) \<le> 9 + length k + (case v of None \<Rightarrow> 0 | Some b \<Rightarrow> length b)"
  using length_puts(3) [of k] by (cases v) simp_all

lemma length_kind: "length (kind_as_str k) \<le> 13"
  by (cases k) simp_all

lemma length_record_encode:
  assumes "record_ok r"
  shows "length (record_encode r) \<le> 700 + length (ar_principal r) + length (ar_body r)"
proof -
  note p = length_put_pairs_opt
  have u: "length (put_bytes (ulid_bytes t)) \<le> 25" if "ulid_ok t" for t
    using length_puts(2) [of "ulid_bytes t"] that by (simp add: ulid_ok_def)
  have o: "length (put_pairs (opt_entry k (map_option f x))) \<le> 34 + length k" if "\<And>y. x = Some y \<Longrightarrow> length (f y) \<le> 25" for k f and x :: "'x option"
    using length_put_pairs_opt [of k "map_option f x"] that by (cases x) fastforce+
  have ulids: "length (put_pairs (opt_entry ''task_id'' (map_option (\<lambda>t. put_bytes (ulid_bytes t)) (ar_task_id r)))) \<le> 34 + 7"
    "length (put_pairs (opt_entry ''grant_id'' (map_option (\<lambda>t. put_bytes (ulid_bytes t)) (ar_grant_id r)))) \<le> 34 + 8"
    using o [of "ar_task_id r" "\<lambda>t. put_bytes (ulid_bytes t)" "''task_id''"] o [of "ar_grant_id r" "\<lambda>t. put_bytes (ulid_bytes t)" "''grant_id''"] assms
    by (simp_all add: u record_ok_def)
  have nums: "length (put_pairs (opt_entry ''req_id'' (map_option put_u64 (ar_req_id r)))) \<le> 34 + 6"
    "length (put_pairs (opt_entry ''serial'' (map_option put_u64 (ar_serial r)))) \<le> 34 + 6"
    using o [of "ar_req_id r" put_u64 "''req_id''"] o [of "ar_serial r" put_u64 "''serial''"] length_puts(1)
    by (simp_all add: le_trans [OF length_puts(1)])
  have chain: "length (put_pairs (opt_entry ''chain_id'' (map_option chain_bytes (ar_chain_id r)))) \<le> 34 + 8"
    using o [of "ar_chain_id r" chain_bytes "''chain_id''"] length_puts(2) by (simp add: chain_bytes_def le_trans [OF length_puts(2)])
  have fixed: "length (put_pairs (opt_entry ''ts'' (Some (put_u64 (ar_ts r))))) \<le> 20"
    "length (put_pairs (opt_entry ''seq'' (Some (put_u64 (ar_seq r))))) \<le> 21"
    "length (put_pairs (opt_entry ''mono'' (Some (put_u64 (ar_mono r))))) \<le> 22"
    "length (put_pairs (opt_entry ''kind'' (Some (put_text (kind_as_str (ar_kind r)))))) \<le> 35"
    "length (put_pairs (opt_entry ''body'' (Some (ar_body r)))) \<le> 13 + length (ar_body r)"
    "length (put_pairs (opt_entry ''prev_hash'' (Some (put_bytes (ar_prev_hash r))))) \<le> 59"
    "length (put_pairs (opt_entry ''principal'' (Some (put_text (ar_principal r))))) \<le> 27 + length (ar_principal r)"
    using p [of "''ts''" "Some (put_u64 (ar_ts r))"] p [of "''seq''" "Some (put_u64 (ar_seq r))"]
      p [of "''mono''" "Some (put_u64 (ar_mono r))"] p [of "''kind''" "Some (put_text (kind_as_str (ar_kind r)))"]
      p [of "''body''" "Some (ar_body r)"] p [of "''prev_hash''" "Some (put_bytes (ar_prev_hash r))"]
      p [of "''principal''" "Some (put_text (ar_principal r))"] length_puts(1) [of "ar_ts r"] length_puts(1) [of "ar_seq r"]
      length_puts(1) [of "ar_mono r"] length_puts(3) [of "kind_as_str (ar_kind r)"] length_kind [of "ar_kind r"]
      length_puts(2) [of "ar_prev_hash r"] length_puts(3) [of "ar_principal r"] assms
    unfolding record_ok_def by (simp_all del: opt_entry_simps)
  have "length (put_map (length (record_entries r))) \<le> 9" "length (put_array 2) \<le> 9" by (rule length_puts)+
  moreover have "length (put_bytes (ar_hash r)) \<le> 41"
    using length_puts(2) [of "ar_hash r"] assms by (simp add: record_ok_def)
  ultimately show ?thesis using fixed ulids nums chain
    unfolding record_encode_def record_unhashed_entries put_entries_def record_entries_def put_pairs_simps length_append by linarith
qed

lemma append_frame_total:
  assumes "submit_ok r0" "\<forall>x. length (b3 x) = 32" "length (st_head s) = 32" "length (ar_principal r0) + length (ar_body r0) \<le> 4000000"
  shows "\<exists>s' r. append_frame b3 ck s r0 = Inr (s', r) \<and> (\<exists>f. st_disk s' = AList.update OPEN_PATH f (st_disk s)) \<and>
    length (st_head s') = 32"
proof -
  have ok: "record_ok (place b3 ck s r0)" using place_ok [OF assms(1-3)] by simp
  have "ar_principal (place b3 ck s r0) = ar_principal r0" "ar_body (place b3 ck s r0) = ar_body r0" by (simp_all add: place_def Let_def)
  then have "length (record_encode (place b3 ck s r0)) \<le> MAX_FRAME"
    using length_record_encode [OF ok] assms(4) by (simp add: MAX_FRAME_def)
  moreover have "length (ar_hash (place b3 ck s r0)) = 32" using ok by (simp add: record_ok_def)
  ultimately show ?thesis by (auto simp: append_frame_def Let_def MAX_FRAME_def store_sync_def)
qed

section \<open>Reachable stores\<close>

lemma store_rotate_total:
  assumes b3: "\<forall>x. length (b3 x) = 32" and h: "length (st_head s) = 32"
    and n: "rstr (free_name (st_disk s) (utc_date (ck_ms ck)))" "length (free_name (st_disk s) (utc_date (ck_ms ck))) \<le> 255"
  shows "\<exists>t. store_rotate b3 zenc ck s = Inr t"
proof -
  let ?n = "free_name (st_disk s) (utc_date (ck_ms ck))"
  have "length (anchor_body ?n (st_head s)) \<le> 400"
    using n h length_puts(2) [of "st_head s"] length_puts(3) [of ?n] length_puts(3) [of "''head''"] length_puts(3) [of "''sealed''"]
      length_puts(5) [of "Suc (Suc 0)"]
    by (simp add: anchor_body_entries [OF n(1)] put_entries_def)
  then have "length (ar_principal (anchor_record ?n (st_head s))) + length (ar_body (anchor_record ?n (st_head s))) \<le> 4000000"
    by (simp add: anchor_record_def record_new_def)
  moreover have a: "submit_ok (anchor_record ?n (st_head s))" using anchor_submit [OF h n(1)] .
  ultimately have t: "\<exists>s' r. append_frame b3 ck t (anchor_record ?n (st_head s)) = Inr (s', r)" if "length (st_head t) = 32" for t
    using append_frame_total [OF a b3 that, of ck] by blast
  show ?thesis
    unfolding store_rotate_def Let_def using t h by (fastforce simp: store_sync_def map_sum_Inr)
qed

lemma store_append_total:
  assumes s: "store_holds b3 zdec s logs lo" and r0: "submit_ok r0" and b3: "\<forall>x. length (b3 x) = 32"
    and size: "length (ar_principal r0) + length (ar_body r0) \<le> 4000000" and last: "next_segment_last (st_disk s) ck"
  shows "\<exists>s' r. store_append b3 zenc ck s r0 = Inr (s', r)"
proof -
  have len: "length (st_head s) = 32" using s log_head_length [OF b3, of "concat logs @ lo"] by (simp add: store_holds_def)
  from append_frame_total [OF r0 b3 len size, of ck] obtain s1 r f where
    f: "append_frame b3 ck s r0 = Inr (s1, r)" "st_disk s1 = AList.update OPEN_PATH f (st_disk s)" and h1: "length (st_head s1) = 32"
    by auto
  have op: "map_of (st_disk s) OPEN_PATH \<noteq> None" using s by (auto simp: store_holds_def disk_holds_def)
  have "\<exists>t. store_rotate b3 zenc ck s1 = Inr t"
    by (rule store_rotate_total [OF b3 h1]) (use last in \<open>simp_all only: next_segment_last_def f(2) free_name_open [OF op]\<close>)
  then show ?thesis using f(1) by (auto simp: store_append_def)
qed

text \<open>The states a store can be in: a fresh directory, an append by a client, a restart after a crash
  that cut the open segment anywhere. Only the store writes anchors.\<close>

inductive reachable ::
  "(byte list \<Rightarrow> byte list) \<Rightarrow> (byte list \<Rightarrow> byte list) \<Rightarrow> (byte list \<Rightarrow> byte list option) \<Rightarrow> store \<Rightarrow> bool"
  for b3 zenc zdec where
  fresh: "store_open b3 zdec now [] = (d, Inr s) \<Longrightarrow> reachable b3 zenc zdec s"
| append: "reachable b3 zenc zdec s \<Longrightarrow> submit_ok r0 \<Longrightarrow> ar_kind r0 \<noteq> KAnchor \<Longrightarrow> next_segment_last (st_disk s) ck \<Longrightarrow>
    store_append b3 zenc ck s r0 = Inr (s', r) \<Longrightarrow> reachable b3 zenc zdec s'"
| crash: "reachable b3 zenc zdec s \<Longrightarrow> store_open b3 zdec now (truncate_open (st_disk s) k) = (d, Inr s') \<Longrightarrow>
    reachable b3 zenc zdec s'"

lemma fresh_store: "store_open b3 zdec now [] = ([(OPEN_PATH, [])],
   Inr \<lparr>st_disk = [(OPEN_PATH, [])], st_written = 0, st_seq = 0, st_head = GENESIS, st_last_sync_ms = now\<rparr>)"
  by (simp add: store_open_def replay_def sealed_segments_def Let_def)

lemma fresh_holds: "store_holds b3 zdec \<lparr>st_disk = [(OPEN_PATH, [])], st_written = 0, st_seq = 0, st_head = GENESIS, st_last_sync_ms = now\<rparr> [] []"
  by (simp add: store_holds_def disk_holds_def log_ok_def sealed_segments_def)

lemma reachable_holds:
  assumes "reachable b3 zenc zdec s" and z: "\<forall>x. zdec (zenc x) = Some x" and b3: "\<forall>x. length (b3 x) = 32"
  shows "\<exists>logs lo. store_holds b3 zdec s logs lo \<and> (\<forall>r \<in> set (concat logs @ lo). anchor_ok r)"
  using assms(1)
proof induction
  case (fresh now d s)
  then show ?case using fresh_store [of b3 zdec now] fresh_holds by (intro exI [of _ "[]"]) auto
next
  case (append s r0 ck s' r)
  then obtain logs lo where h: "store_holds b3 zdec s logs lo" "\<forall>r \<in> set (concat logs @ lo). anchor_ok r" by blast
  from store_append_holds [OF h(1) append.hyps(2) z b3 append.hyps(4,5)]
  have "r = place b3 ck s r0" and s': "store_holds b3 zdec s' logs (lo @ [r]) \<or>
      (\<exists>a. ar_kind a = KAnchor \<and> anchor_ok a \<and> store_holds b3 zdec s' (logs @ [lo @ [r]]) [a])" by blast+
  then have r: "anchor_ok r" using append.hyps(3) by (simp add: anchor_ok_def place_def Let_def)
  from s' show ?case
  proof
    assume "store_holds b3 zdec s' logs (lo @ [r])"
    with h(2) r show ?thesis by (intro exI [of _ logs] exI [of _ "lo @ [r]"]) auto
  next
    assume "\<exists>a. ar_kind a = KAnchor \<and> anchor_ok a \<and> store_holds b3 zdec s' (logs @ [lo @ [r]]) [a]"
    then obtain a where "anchor_ok a" "store_holds b3 zdec s' (logs @ [lo @ [r]]) [a]" by blast
    with h(2) r show ?thesis by (intro exI [of _ "logs @ [lo @ [r]]"] exI [of _ "[a]"]) auto
  qed
next
  case (crash s now k d s')
  then obtain logs lo where h: "store_holds b3 zdec s logs lo" "\<forall>r \<in> set (concat logs @ lo). anchor_ok r" by blast
  from open_after_cut [OF h(1), of now k] crash.hyps(2) obtain j where
    "store_holds b3 zdec s' logs (take j lo)" by auto
  with h(2) show ?case by (intro exI [of _ logs] exI [of _ "take j lo"]) (auto dest: in_set_takeD)
qed


text \<open>C27: An append always succeeds on a record the daemon can hand it: a body and a principal of
  together at most four million bytes fit a frame whatever the other fields hold, and the anchor of a
  rotation fits too.\<close>

theorem append_never_too_large:
  assumes "store_inv b3 zdec s log" and "submit_ok r0" and "\<forall>x. length (b3 x) = 32"
    and "length (ar_principal r0) + length (ar_body r0) \<le> 4000000" and "next_segment_last (st_disk s) ck"
  shows "\<exists>s' r. store_append b3 zenc ck s r0 = Inr (s', r)"
proof -
  from assms(1) obtain logs lo where "store_holds b3 zdec s logs lo" by (auto simp: store_inv_def)
  from store_append_total [OF this assms(2-5)] show ?thesis .
qed

section \<open>A clock that steps back\<close>

lemma sealed_segments_first:
  assumes "distinct (map fst d)" "is_sealed n" "map_of d n = None" "\<forall>m \<in> set (sealed_segments d). str_bytes n < str_bytes m"
  shows "sealed_segments (AList.update n v d) = n # sealed_segments d"
proof -
  let ?xs = "filter is_sealed (map fst d)"
  have n: "n \<notin> set (map fst d)" using assms(3) by (simp add: map_of_eq_None_iff)
  have "sorted_wrt (<) (map str_bytes (sort_key str_bytes ?xs))"
    using assms(1) by (intro sort_key_strict) (simp add: distinct_map inj_on_def)
  then have "sort_key str_bytes (?xs @ [n]) = n # sort_key str_bytes ?xs"
    using assms(4) by (intro sort_key_unique) (auto simp: sealed_segments_def)
  then show ?thesis using n assms(2) by (simp add: sealed_segments_def update_keys)
qed

lemma replay_sealed_wrong_start:
  "framed r \<Longrightarrow> ar_seq r \<noteq> seq \<Longrightarrow> replay_sealed b3 (frames (r # rs)) seq head = Inl (ChainBroken (ar_seq r))"
  by (simp add: replay_sealed.simps [of b3 "frame_of r @ frames rs"] split_frame_of link_ok_def)

text \<open>C28: If the wall clock steps back past a rotation, the store destroys its own order: the segment
  it seals is named before the ones already sealed, and the next \<open>Store::open\<close> reports a broken chain
  in a log nobody touched.\<close>

theorem clock_step_back_breaks_store:
  assumes "store_holds b3 zdec s logs (r # lo)" and "concat logs \<noteq> []" and "length (concat logs) < 2 ^ 64"
    and "\<forall>x. zdec (zenc x) = Some x"
    and "\<forall>m \<in> set (sealed_segments (st_disk s)). str_bytes (free_name (st_disk s) (utc_date (ck_ms ck))) < str_bytes m"
    and "store_rotate b3 zenc ck s = Inr s'"
  shows "\<exists>q. snd (store_open b3 zdec now (st_disk s')) = Inl (ChainBroken q)"
proof -
  let ?n = "free_name (st_disk s) (utc_date (ck_ms ck))"
  have h: "disk_holds zdec (st_disk s) logs (r # lo)" and l: "log_ok b3 (concat logs @ r # lo)" using assms(1) by (auto simp: store_holds_def)
  let ?d = "AList.update ?n (zenc (frames (r # lo))) (st_disk s)"
  have op: "map_of (st_disk s) OPEN_PATH = Some (frames (r # lo))" using h by (simp add: disk_holds_def)
  have ne: "?n \<noteq> OPEN_PATH" using free_name_free open_not_sealed by metis
  have "\<exists>f. st_disk s' = AList.update OPEN_PATH f (AList.update OPEN_PATH [] ?d)"
    using assms(6) op by (auto simp: store_rotate_def Let_def store_sync_def append_frame_def map_sum_Inr simp del: map_of_eq_Some_iff frames_simps split: if_splits)
  then obtain f where d: "st_disk s' = AList.update OPEN_PATH f ?d" by auto
  have "sealed_segments ?d = ?n # sealed_segments (st_disk s)"
    using h assms(5) free_name_free by (intro sealed_segments_first) (auto simp: disk_holds_def)
  then have seg: "sealed_segments (st_disk s') = ?n # sealed_segments (st_disk s)" by (simp add: d sealed_segments_other)
  have "ar_seq r = of_nat (length (concat logs))" and fr: "framed r" using l by (auto simp: log_ok_def linked_append link_ok_def)
  moreover have "(of_nat (length (concat logs)) :: u64) \<noteq> 0"
    using assms(2) unat_word_of_nat64 [OF assms(3)] by (metis length_0_conv unat_0)
  ultimately have "replay_sealed b3 (frames (r # lo)) 0 GENESIS = Inl (ChainBroken (ar_seq r))"
    by (intro replay_sealed_wrong_start) auto
  moreover have "read_sealed zdec (st_disk s') ?n = Inr (frames (r # lo))"
    using assms(4) ne by (simp add: read_sealed_def d update_conv' del: frames_simps)
  ultimately have "replay_segments b3 zdec (st_disk s') (sealed_segments (st_disk s')) 0 GENESIS = Inl (ChainBroken (ar_seq r))"
    by (simp add: seg del: frames_simps)
  then show ?thesis by (simp add: store_open_def replay_def)
qed

end
