(* ===== verification/AuditStore_Samples.thy ===== *)
theory AuditStore_Samples
  imports AuditStore_Laws
begin

text \<open>
  A concrete store: the witnesses of the audit store.
\<close>

section \<open>Samples\<close>

definition sample_hash :: "byte list \<Rightarrow> byte list" where
  "sample_hash _ = replicate 32 1"

definition sample_clocks :: clocks where
  "sample_clocks = \<lparr>ck_ns = 5, ck_mono = 6, ck_ms = 0\<rparr>"

definition late_clocks :: clocks where
  "late_clocks = \<lparr>ck_ns = 7, ck_mono = 8, ck_ms = 864000000\<rparr>"

definition sample_store :: store where
  "sample_store = \<lparr>st_disk = [(OPEN_PATH, [])], st_written = 0, st_seq = 0, st_head = GENESIS, st_last_sync_ms = 0\<rparr>"

definition sample_record :: audit_record where
  "sample_record = record_new\<lparr>ar_kind := KRequest, ar_principal := ''human'', ar_body := put_null\<rparr>"

lemma sample_hash_length: "\<forall>x. length (sample_hash x) = 32"
  by (simp add: sample_hash_def)

lemma sample_holds: "store_holds sample_hash Some sample_store [] []"
  unfolding sample_store_def by (rule fresh_holds)

lemma sample_submit: "submit_ok sample_record"
  unfolding submit_ok_def record_ok_def
  by (intro conjI exI [of _ CNull]) (simp_all add: sample_record_def record_new_def rstr_def utf8_ascii GENESIS_def)

lemma sample_size: "length (ar_principal sample_record) + length (ar_body sample_record) \<le> 4000000"
  using length_put_head by (simp add: sample_record_def put_null_def)

lemma replicate_3: "replicate 3 x = [x, x, x]"
  by (simp add: numeral_3_eq_3)

lemmas digit_simps = pad_dec_def dec_digits.simps char_of_def replicate_3 bit_Suc_0_iff

lemma utc_date_eq:
  assumes "unat ms div 86400000 + 719468 = days" "days div 146097 = era" "days mod 146097 = doe"
    "(doe - doe div 1460 + doe div 36524 - doe div 146096) div 365 = yoe"
    "doe - (365 * yoe + yoe div 4 - yoe div 100) = doy" "(5 * doy + 2) div 153 = mp"
    "doy - (153 * mp + 2) div 5 + 1 = d" "(if mp < 10 then mp + 3 else mp - 9) = m"
    "(if m \<le> 2 then yoe + era * 400 + 1 else yoe + era * 400) = y"
  shows "utc_date ms = pad_dec 4 y @ pad_dec 2 m @ pad_dec 2 d"
  by (simp only: utc_date_def Let_def assms)

lemma sample_dates: "utc_date (ck_ms sample_clocks) = ''19700101''" "utc_date (ck_ms late_clocks) = ''19700111''"
proof -
  have "utc_date 0 = pad_dec 4 1970 @ pad_dec 2 1 @ pad_dec 2 1"
    by (rule utc_date_eq [of 0 719468 4 135080 369 306 10 1 1 1970]) simp_all
  then show "utc_date (ck_ms sample_clocks) = ''19700101''" by (simp add: sample_clocks_def digit_simps)
  have "utc_date 864000000 = pad_dec 4 1970 @ pad_dec 2 1 @ pad_dec 2 11"
    by (rule utc_date_eq [of 864000000 719478 4 135090 369 316 10 11 1 1970]) simp_all
  then show "utc_date (ck_ms late_clocks) = ''19700111''" by (simp add: late_clocks_def digit_simps)
qed

lemma sample_free_name: "\<forall>n \<in> fst ` set d. n = OPEN_PATH \<or> n = ''audit-19700111-0000.cbor.zst'' \<Longrightarrow>
    free_name d ''19700101'' = ''audit-19700101-0000.cbor.zst''"
  "\<forall>n \<in> fst ` set d. n = OPEN_PATH \<Longrightarrow> free_name d ''19700111'' = ''audit-19700111-0000.cbor.zst''"
proof -
  have n: "sealed_name ''19700101'' 0 = ''audit-19700101-0000.cbor.zst''" "sealed_name ''19700111'' 0 = ''audit-19700111-0000.cbor.zst''"
    by (simp_all add: sealed_name_def SEALED_PREFIX_def SEALED_SUFFIX_def digit_simps)
  have e: "free_name d date = sealed_name date 0" if "map_of d (sealed_name date 0) = None" for date
  proof -
    have "[0..<Suc (length d)] = 0 # [1..<Suc (length d)]" by (simp add: upt_rec)
    then show ?thesis using that by (simp add: free_name_def)
  qed
  { assume d: "\<forall>n \<in> fst ` set d. n = OPEN_PATH \<or> n = ''audit-19700111-0000.cbor.zst''"
    then have "sealed_name ''19700101'' 0 \<notin> fst ` set d" by (auto simp: n OPEN_PATH_def)
    then show "free_name d ''19700101'' = ''audit-19700101-0000.cbor.zst''" using e n by (simp add: map_of_eq_None_iff) }
  { assume d: "\<forall>n \<in> fst ` set d. n = OPEN_PATH"
    then have "sealed_name ''19700111'' 0 \<notin> fst ` set d" by (auto simp: n OPEN_PATH_def)
    then show "free_name d ''19700111'' = ''audit-19700111-0000.cbor.zst''" using e n by (simp add: map_of_eq_None_iff) }
qed

lemma sample_segments: "sealed_segments [(OPEN_PATH, f)] = []"
  by (simp add: sealed_segments_def)

lemma sample_next: "next_segment_last [(OPEN_PATH, f)] sample_clocks" "next_segment_last [(OPEN_PATH, f)] late_clocks"
  by (simp_all add: next_segment_last_def sample_segments sample_dates sample_free_name rstr_def utf8_ascii)

lemma sample_disk: "st_disk sample_store = [(OPEN_PATH, [])]"
  by (simp add: sample_store_def)

lemma sample_append: "\<exists>s r. store_append sample_hash id sample_clocks sample_store sample_record = Inr (s, r)"
  by (rule store_append_total [OF sample_holds sample_submit sample_hash_length sample_size]) (simp add: sample_disk sample_next)

lemma sample_inv: "store_inv sample_hash Some sample_store []"
  unfolding store_inv_def using sample_holds by (intro exI [of _ "[]"]) simp

lemma append_extends_log_witness:
  "\<exists>s r. store_append sample_hash id sample_clocks sample_store sample_record = Inr (s, r) \<and> ar_seq r = 0 \<and>
     ar_prev_hash r = GENESIS \<and> (\<exists>as. store_inv sample_hash Some s (r # as))"
proof -
  obtain s r where sr: "store_append sample_hash id sample_clocks sample_store sample_record = Inr (s, r)" using sample_append by blast
  have "next_segment_last (st_disk sample_store) sample_clocks" by (simp add: sample_disk sample_next)
  from append_extends_log [OF sample_inv sample_submit _ sample_hash_length this sr] show ?thesis using sr by auto
qed

lemma append_never_too_large_witness:
  "\<exists>s r. store_append sample_hash id sample_clocks sample_store sample_record = Inr (s, r)"
  by (rule append_never_too_large [OF sample_inv sample_submit sample_hash_length sample_size]) (simp add: sample_disk sample_next)

text \<open>A store with one record in its open segment.\<close>

lemma sample_one: "\<exists>s r. store_holds sample_hash Some s [] [r] \<and> ar_kind r = KRequest \<and> (\<exists>f. st_disk s = [(OPEN_PATH, f)])"
proof -
  have "length (st_head sample_store) = 32" by (simp add: sample_store_def GENESIS_def)
  from append_frame_total [OF sample_submit sample_hash_length this sample_size, of sample_clocks]
  obtain s r where "append_frame sample_hash sample_clocks sample_store sample_record = Inr (s, r)" by blast
  from append_frame_holds [OF sample_holds sample_submit sample_hash_length this]
  have "r = place sample_hash sample_clocks sample_store sample_record" and h: "store_holds sample_hash Some s [] ([] @ [r])"
    and d: "st_disk s = AList.update OPEN_PATH (frames ([] @ [r])) (st_disk sample_store)" by blast+
  then have "ar_kind r = KRequest" by (simp add: place_def sample_record_def Let_def)
  with h d show ?thesis by (auto simp: sample_disk)
qed


lemma reopen_recovers_witness:
  "\<exists>s r. for_each Some (st_disk s) = Inr [r] \<and> store_open sample_hash Some 9 (st_disk s) = (st_disk s, Inr (s\<lparr>st_last_sync_ms := 9\<rparr>))"
proof -
  obtain s r where "store_holds sample_hash Some s [] [r]" using sample_one by blast
  then have "store_inv sample_hash Some s [r]" unfolding store_inv_def by (intro exI [of _ "[]"] exI [of _ "[r]"]) simp
  from reopen_recovers [OF this, of 9] show ?thesis by blast
qed


lemma head_pins_log_witness: "\<exists>d v r. verify sample_hash Some d = Inr (v, [r]) \<and> [r] = [r]"
proof -
  obtain s r where s: "store_holds sample_hash Some s [] [r]" "ar_kind r = KRequest" using sample_one by blast
  then have i: "store_inv sample_hash Some s [r]" unfolding store_inv_def by (intro exI [of _ "[]"] exI [of _ "[r]"]) simp
  have v: "verify sample_hash Some (st_disk s) = Inr (\<lparr>vf_records = st_seq s, vf_head = st_head s, vf_torn_tail = False\<rparr>, [r])"
    by (rule verify_accepts_log [OF i]) (simp add: anchor_ok_def s(2))
  have "record_ok r" using s(1) by (simp add: store_holds_def log_ok_def framed_def)
  then have "[r] = [r]" by (intro head_pins_log [OF v v]) simp_all
  with v show ?thesis by blast
qed

lemma sealed_stray_bytes_witness:
  "replay_sealed sample_hash [0] 0 GENESIS = Inr (0, GENESIS) \<and>
   verify_step sample_hash True [0] \<lparr>vf_records = 0, vf_head = GENESIS, vf_torn_tail = False\<rparr> = Inl (ChainBroken 0)"
  using sealed_stray_bytes [of sample_hash 0 GENESIS "[]" "[0]"] by simp

lemma clock_step_back_breaks_store_witness:
  "\<exists>s s' q. store_rotate sample_hash id sample_clocks s = Inr s' \<and> snd (store_open sample_hash Some 9 (st_disk s')) = Inl (ChainBroken q)"
proof -
  obtain s0 r f where s0: "store_holds sample_hash Some s0 [] [r]" and d0: "st_disk s0 = [(OPEN_PATH, f)]" using sample_one by blast
  have head: "length (st_head s) = 32" if "store_holds sample_hash Some s logs lo" for s logs lo
    using that log_head_length [OF sample_hash_length, of "concat logs @ lo"] by (simp add: store_holds_def)
  have n0: "next_segment_last (st_disk s0) late_clocks" by (simp add: d0 sample_next)
  obtain s where rot: "store_rotate sample_hash id late_clocks s0 = Inr s"
    using store_rotate_total [OF sample_hash_length head [OF s0], of late_clocks id] n0 by (auto simp: next_segment_last_def)
  from store_rotate_holds [OF s0 _ sample_hash_length n0 rot] obtain a where s: "store_holds sample_hash Some s [[r]] [a]" by auto
  have "OPEN_PATH \<noteq> ''audit-19700111-0000.cbor.zst''" by (simp add: OPEN_PATH_def)
  then have "\<exists>g h. st_disk s = [(OPEN_PATH, g), (''audit-19700111-0000.cbor.zst'', h)]"
    using rot by (auto simp: store_rotate_def Let_def store_sync_def append_frame_def map_sum_Inr d0 sample_dates sample_free_name split: if_splits)
  then obtain g h where d: "st_disk s = [(OPEN_PATH, g), (''audit-19700111-0000.cbor.zst'', h)]" by blast
  have nm: "free_name (st_disk s) (utc_date (ck_ms sample_clocks)) = ''audit-19700101-0000.cbor.zst''"
    by (simp add: d sample_dates sample_free_name)
  have "is_sealed ''audit-19700111-0000.cbor.zst''" by code_simp
  then have seg: "sealed_segments (st_disk s) = [''audit-19700111-0000.cbor.zst'']" by (simp add: d sealed_segments_def)
  have less: "str_bytes ''audit-19700101-0000.cbor.zst'' < str_bytes ''audit-19700111-0000.cbor.zst''" by code_simp
  obtain s' where rot': "store_rotate sample_hash id sample_clocks s = Inr s'"
    using store_rotate_total [OF sample_hash_length head [OF s], of sample_clocks id] by (auto simp: nm rstr_def utf8_ascii)
  have "\<exists>q. snd (store_open sample_hash Some 9 (st_disk s')) = Inl (ChainBroken q)"
    by (rule clock_step_back_breaks_store [OF s _ _ _ _ rot']) (simp_all add: seg nm less)
  with rot' show ?thesis by blast
qed

end
