(* ===== verification/TaskStore.thy ===== *)
theory TaskStore
  imports AuditStore Grant Scope Link
begin

text \<open>
  The task store and the grant ledger: \<open>ec-policyd/src/tasks.rs\<close>. Every operation journals to the
  audit store before it changes the state in memory. What the code takes from outside is in an
  environment: the hash, the compressor, the signing key's signature and public key, and which
  regular expressions compile. One operation reads each clock once. An operation that fails still
  returns the state it leaves; a failed append leaves the audit store as it was.
\<close>

section \<open>Capability lines\<close>

text \<open>The length of a Unicode whitespace character at the start of a UTF-8 string, else 0.\<close>

definition ws_len :: "string \<Rightarrow> nat" where
  "ws_len s =
    (case map (\<lambda>c. of_char c :: nat) (take 3 s) of
       [] \<Rightarrow> 0
     | a # t \<Rightarrow>
       if 9 \<le> a \<and> a \<le> 13 \<or> a = 32 then 1
       else case t of
         [] \<Rightarrow> 0
       | b # u \<Rightarrow>
         if a = 0xC2 \<and> (b = 0x85 \<or> b = 0xA0) then 2
         else case u of
           [] \<Rightarrow> 0
         | c # _ \<Rightarrow>
           if (a = 0xE1 \<and> b = 0x9A \<and> c = 0x80) \<or>
              (a = 0xE2 \<and> b = 0x80 \<and> (0x80 \<le> c \<and> c \<le> 0x8A \<or> c = 0xA8 \<or> c = 0xA9 \<or> c = 0xAF)) \<or>
              (a = 0xE2 \<and> b = 0x81 \<and> c = 0x9F) \<or> (a = 0xE3 \<and> b = 0x80 \<and> c = 0x80)
           then 3 else 0)"

text \<open>\<open>split_whitespace\<close>; \<open>cur\<close> is the word being read.\<close>

function split_ws :: "string \<Rightarrow> string \<Rightarrow> string list" where
  "split_ws cur [] = (if cur = [] then [] else [cur])"
| "split_ws cur (c # s) =
    (let k = ws_len (c # s) in
     if k = 0 then split_ws (cur @ [c]) s
     else (if cur = [] then [] else [cur]) @ split_ws [] (drop k (c # s)))"
  by pat_completeness auto
termination by (relation "measure (\<lambda>(cur, s). length s)") auto

text \<open>\<open>lines\<close>: a line ends at a line feed, and a carriage return just before it is dropped.\<close>

function str_lines :: "string \<Rightarrow> string list" where
  "str_lines s =
    (if s = [] then []
     else let l = takeWhile (\<lambda>c. c \<noteq> CHR 0x0A) s; rest = dropWhile (\<lambda>c. c \<noteq> CHR 0x0A) s in
       if rest = [] then [l]
       else (if l \<noteq> [] \<and> last l = CHR 0x0D then butlast l else l) # str_lines (tl rest))"
  by pat_completeness auto
termination
proof (relation "measure length")
  fix s l rest
  assume "s \<noteq> []" and r: "rest = dropWhile (\<lambda>c. c \<noteq> CHR 0x0A) s" "rest \<noteq> []"
  then have "length (tl rest) < length rest" by (cases rest) auto
  also have "length rest \<le> length s" using r(1) by (simp add: length_dropWhile_le)
  finally show "(tl rest, s) \<in> measure length" by simp
qed simp

definition capability_line :: "(regex \<Rightarrow> bool) \<Rightarrow> string \<Rightarrow> capability option" where
  "capability_line rxok line =
    (case split_ws [] line of
       [] \<Rightarrow> None
     | name # scopes \<Rightarrow>
         if \<not> list_all (\<lambda>b. ascii_lowercase b \<or> b = CHR ''.'' \<or> b = CHR ''_'') name then None
         else if scopes = [] \<or> list_ex (\<lambda>s. isl (scope_parse rxok s)) scopes then None
         else Some \<lparr>cap_name = name, cap_scopes = scopes, cap_quota = None\<rparr>)"

fun capability_lines :: "(regex \<Rightarrow> bool) \<Rightarrow> string list \<Rightarrow> capability list option" where
  "capability_lines rxok [] = Some []"
| "capability_lines rxok (l # ls) =
     Option.bind (capability_line rxok l) (\<lambda>c. map_option ((#) c) (capability_lines rxok ls))"

definition capabilities :: "(regex \<Rightarrow> bool) \<Rightarrow> string \<Rightarrow> capability list option" where
  "capabilities rxok scope = Option.bind (capability_lines rxok (str_lines scope)) (\<lambda>out. if out \<noteq> [] then Some out else None)"

section \<open>State\<close>

datatype grant_reason = GrRule | GrPrompt | GrManifest

fun grant_reason_as_str :: "grant_reason \<Rightarrow> string" where
  "grant_reason_as_str GrRule = ''rule''"
| "grant_reason_as_str GrPrompt = ''prompt''"
| "grant_reason_as_str GrManifest = ''manifest''"

datatype task_error = AlreadyLive ulid | UnknownTask ulid | TkIllegalTransition task_state task_event
  | ExpiryBeyondDeadline | TaskClosed | UnattendedTooLong | BadScope | TkStore store_error

record issued =
  is_grant :: grant
  is_cose :: "byte list"
  is_revoked :: bool

record env =
  te_b3 :: "byte list \<Rightarrow> byte list"
  te_zenc :: "byte list \<Rightarrow> byte list"
  te_zdec :: "byte list \<Rightarrow> byte list option"
  te_sign :: "byte list \<Rightarrow> byte list"
  te_key :: "byte list"
  te_rxok :: "regex \<Rightarrow> bool"

record task_store =
  ts_audit :: store
  ts_tasks :: "task list"
  ts_grants :: "issued list"
  ts_recent :: "(string \<times> tail_record) list"
  ts_hashes :: "byte list \<rightharpoonup> byte list"

definition RECENT :: nat where "RECENT = 1024"

type_synonym 'a ts_result = "task_store \<times> (task_error + 'a)"

section \<open>Task records\<close>

definition task_body :: "task \<Rightarrow> string \<Rightarrow> byte list \<Rightarrow> byte list" where
  "task_body t op hash =
    (let m = mb_insert_opt [] ''agent_note'' (map_option put_text (t_agent_note t));
         m = mb_insert m ''chain_root'' (put_text (t_chain_root t));
         m = mb_insert_opt m ''close_reason''
               (case t_state t of Closed r \<Rightarrow> Some (put_text (close_reason_as_str r)) | _ \<Rightarrow> None);
         m = mb_insert m ''counters'' (counters_encode (t_counters t));
         m = mb_insert m ''deadline'' (put_u64 (t_deadline_ms t));
         m = mb_insert m ''depth'' (put_u64 (ucast (t_depth t)));
         m = mb_insert m ''op'' (put_text op);
         m = mb_insert m ''opened'' (put_u64 (t_opened_ms t));
         m = mb_insert m ''origin'' (put_text (origin_as_str (t_origin t)));
         m = mb_insert m ''origin_ref'' (put_text (t_origin_ref t));
         m = mb_insert_opt m ''parent'' (map_option (\<lambda>p. put_bytes (ulid_bytes p)) (t_parent_task_id t));
         m = mb_insert m ''state'' (put_text (task_state_as_str (t_state t)));
         m = mb_insert m ''statement_hash'' (put_bytes hash)
     in mb_finish m)"

record task_acc =
  ka_task :: task
  ka_state :: string
  ka_close_reason :: "close_reason option"
  ka_hash :: "byte list"

definition task_acc_new :: "ulid \<Rightarrow> string \<Rightarrow> task_acc" where
  "task_acc_new i p = \<lparr>ka_task = \<lparr>t_id = i, t_principal = p, t_origin = OriginHuman, t_origin_ref = [], t_statement = [],
     t_agent_note = None, t_parent_task_id = None, t_depth = 0, t_state = Active, t_opened_ms = 0, t_deadline_ms = 0,
     t_chain_root = [], t_counters = counters_default\<rparr>, ka_state = ''active'', ka_close_reason = None, ka_hash = replicate 32 0\<rparr>"

abbreviation upd_task :: "task_acc \<Rightarrow> (task \<Rightarrow> task) \<Rightarrow> task_acc" where
  "upd_task a f \<equiv> a\<lparr>ka_task := f (ka_task a)\<rparr>"

definition task_step :: "string \<Rightarrow> task_acc \<Rightarrow> (cbor_error, task_acc) parser" where
  "task_step k a =
    (if k = ''agent_note'' then andthen rd_text (\<lambda>v. ret (upd_task a (\<lambda>t. t\<lparr>t_agent_note := Some v\<rparr>)))
     else if k = ''chain_root'' then andthen rd_text (\<lambda>v. ret (upd_task a (\<lambda>t. t\<lparr>t_chain_root := v\<rparr>)))
     else if k = ''close_reason'' then
       andthen rd_text (\<lambda>s. andthen (of_result (ok_or Type (close_reason_parse s))) (\<lambda>v. ret (a\<lparr>ka_close_reason := Some v\<rparr>)))
     else if k = ''counters'' then andthen counters_decode (\<lambda>v. ret (upd_task a (\<lambda>t. t\<lparr>t_counters := v\<rparr>)))
     else if k = ''deadline'' then andthen rd_u64 (\<lambda>v. ret (upd_task a (\<lambda>t. t\<lparr>t_deadline_ms := v\<rparr>)))
     else if k = ''depth'' then andthen rd_small (\<lambda>v. ret (upd_task a (\<lambda>t. t\<lparr>t_depth := v\<rparr>)))
     else if k = ''op'' then andthen rd_text (\<lambda>_. ret a)
     else if k = ''opened'' then andthen rd_u64 (\<lambda>v. ret (upd_task a (\<lambda>t. t\<lparr>t_opened_ms := v\<rparr>)))
     else if k = ''origin'' then
       andthen rd_text (\<lambda>s. andthen (of_result (ok_or Type (origin_parse s))) (\<lambda>v. ret (upd_task a (\<lambda>t. t\<lparr>t_origin := v\<rparr>))))
     else if k = ''origin_ref'' then andthen rd_text (\<lambda>v. ret (upd_task a (\<lambda>t. t\<lparr>t_origin_ref := v\<rparr>)))
     else if k = ''parent'' then
       andthen (rd_byte_array 16) (\<lambda>v. ret (upd_task a (\<lambda>t. t\<lparr>t_parent_task_id := Some (Ulid v)\<rparr>)))
     else if k = ''state'' then andthen rd_text (\<lambda>v. ret (a\<lparr>ka_state := v\<rparr>))
     else if k = ''statement_hash'' then andthen (rd_byte_array 32) (\<lambda>v. ret (a\<lparr>ka_hash := v\<rparr>))
     else fail Type)"

definition task_of_acc :: "task_acc \<Rightarrow> cbor_error + task \<times> byte list" where
  "task_of_acc a =
    map_sum id (\<lambda>st. ((ka_task a)\<lparr>t_state := st\<rparr>, ka_hash a))
     (if ka_state a = ''active'' then Inr Active
      else if ka_state a = ''paused'' then Inr Paused
      else if ka_state a = ''draining'' then Inr Draining
      else if ka_state a = ''closed'' then (case ka_close_reason a of Some r \<Rightarrow> Inr (Closed r) | None \<Rightarrow> Inl Type)
      else Inl Type)"

definition read_task_body :: "ulid \<Rightarrow> string \<Rightarrow> byte list \<Rightarrow> cbor_error + task \<times> byte list" where
  "read_task_body i p body = rbind (run_whole id (rd_map id task_step (task_acc_new i p)) body) task_of_acc"

section \<open>Grant and revocation records\<close>

definition grant_body :: "byte list \<Rightarrow> string \<Rightarrow> grant_reason \<Rightarrow> byte list" where
  "grant_body cose issuer reason =
    (let m = mb_insert [] ''cose'' (put_bytes cose);
         m = mb_insert m ''issuer'' (put_text issuer);
         m = mb_insert m ''reason'' (put_text (grant_reason_as_str reason))
     in mb_finish m)"

definition issued_step :: "string \<Rightarrow> byte list \<Rightarrow> (cbor_error, byte list) parser" where
  "issued_step k cose =
    (if k = ''cose'' then rd_bytes
     else if k = ''issuer'' \<or> k = ''reason'' then andthen rd_skip (\<lambda>_. ret cose)
     else fail Type)"

definition rd_payload :: "(cbor_error, byte list) parser" where
  "rd_payload = andthen rd_array_len (\<lambda>n. if n \<noteq> 4 then fail Type else
     andthen rd_bytes (\<lambda>_. andthen rd_map_begin (\<lambda>_. andthen rd_map_end (\<lambda>_. rd_bytes))))"

definition replay_issued :: "byte list \<Rightarrow> cbor_error + issued" where
  "replay_issued body =
     rbind (run_whole id (rd_map id issued_step []) body) (\<lambda>cose.
     rbind (map_sum id fst (rd_payload (reader_new cose))) (\<lambda>payload.
     rbind (grant_decode payload) (\<lambda>g.
     Inr \<lparr>is_grant = g, is_cose = cose, is_revoked = False\<rparr>)))"

definition revoke_body :: "ulid list \<Rightarrow> byte list" where
  "revoke_body ids =
    (let m = mb_insert [] ''grants'' (put_array (length ids) @ concat (map (\<lambda>i. put_bytes (ulid_bytes i)) ids));
         m = mb_insert m ''reason'' (put_text ''task_closed'')
     in mb_finish m)"

definition revoked_step :: "string \<Rightarrow> ulid list \<Rightarrow> (cbor_error, ulid list) parser" where
  "revoked_step k out =
    (if k = ''grants'' then
       andthen rd_array_len (\<lambda>n. andthen (rd_many (unat n) (rd_byte_array 16)) (\<lambda>is. ret (out @ map Ulid is)))
     else andthen rd_skip (\<lambda>_. ret out))"

definition replay_revoked :: "byte list \<Rightarrow> cbor_error + ulid list" where
  "replay_revoked body = run_whole id (rd_map id revoked_step []) body"

section \<open>Replay\<close>

record replay_state =
  rp_tasks :: "task list"
  rp_revoked :: "ulid list"
  rp_issued :: "issued list"
  rp_hashes :: "byte list \<rightharpoonup> byte list"

definition replay_new :: replay_state where
  "replay_new = \<lparr>rp_tasks = [], rp_revoked = [], rp_issued = [], rp_hashes = Map.empty\<rparr>"

text \<open>Overwrites the task with this id, or adds it.\<close>

definition put_task :: "task \<Rightarrow> task list \<Rightarrow> task list" where
  "put_task t ts =
    (case position (\<lambda>x. t_id x = t_id t) ts of Some i \<Rightarrow> ts[i := t] | None \<Rightarrow> ts @ [t])"

definition replay_record :: "replay_state \<Rightarrow> audit_record \<Rightarrow> cbor_error + replay_state" where
  "replay_record s r =
    (case ar_kind r of
       KTask \<Rightarrow>
         rbind (ok_or Type (ar_task_id r)) (\<lambda>i.
         rbind (read_task_body i (ar_principal r) (ar_body r)) (\<lambda>(t, h).
         Inr (s\<lparr>rp_hashes := (rp_hashes s)(ulid_bytes i \<mapsto> h), rp_tasks := put_task t (rp_tasks s)\<rparr>)))
     | KGrant \<Rightarrow> rbind (replay_issued (ar_body r)) (\<lambda>g. Inr (s\<lparr>rp_issued := rp_issued s @ [g]\<rparr>))
     | KRevoke \<Rightarrow> rbind (replay_revoked (ar_body r)) (\<lambda>is. Inr (s\<lparr>rp_revoked := rp_revoked s @ is\<rparr>))
     | _ \<Rightarrow> Inr s)"

fun replay_log :: "replay_state \<Rightarrow> audit_record list \<Rightarrow> cbor_error + replay_state" where
  "replay_log s [] = Inr s"
| "replay_log s (r # rs) = rbind (replay_record s r) (\<lambda>s. replay_log s rs)"

text \<open>The last loop of \<open>open\<close>: a closed task's grants are revoked with or without a record.\<close>

definition settle :: "replay_state \<Rightarrow> issued list" where
  "settle s = map (\<lambda>g.
     if (\<exists>t \<in> set (rp_tasks s). t_id t = g_task_id (is_grant g) \<and> \<not> is_live (t_state t)) \<or>
        g_id (is_grant g) \<in> set (rp_revoked s)
     then g\<lparr>is_revoked := True\<rparr> else g) (rp_issued s)"

definition task_open :: "env \<Rightarrow> u64 \<Rightarrow> disk \<Rightarrow> disk \<times> (task_error + task_store)" where
  "task_open e now d =
    (case store_open (te_b3 e) (te_zdec e) now d of
       (d, Inl err) \<Rightarrow> (d, Inl (TkStore err))
     | (d, Inr a) \<Rightarrow> (d,
         rbind (map_err TkStore (for_each (te_zdec e) d)) (\<lambda>rs.
         rbind (map_err (\<lambda>c. TkStore (StCbor c)) (replay_log replay_new rs)) (\<lambda>s.
         Inr \<lparr>ts_audit = a, ts_tasks = rp_tasks s, ts_grants = settle s, ts_recent = [], ts_hashes = rp_hashes s\<rparr>))))"

section \<open>Operations\<close>

definition task_of :: "task_store \<Rightarrow> ulid \<Rightarrow> task option" where
  "task_of s i = find (\<lambda>t. t_id t = i) (ts_tasks s)"

definition live_task :: "task_store \<Rightarrow> string \<Rightarrow> task option" where
  "live_task s p = find (\<lambda>t. t_principal t = p \<and> is_live (t_state t)) (ts_tasks s)"

definition is_live_grant :: "task_store \<Rightarrow> ulid \<Rightarrow> bool" where
  "is_live_grant s i = list_ex (\<lambda>g. g_id (is_grant g) = i \<and> \<not> is_revoked g) (ts_grants s)"

definition statement_hash :: "(byte list \<Rightarrow> byte list) \<Rightarrow> task \<Rightarrow> byte list" where
  "statement_hash b3 t = b3 (str_bytes (t_statement t))"

text \<open>\<open>audit.append(rec)?; audit.sync()?\<close>.\<close>

definition append_sync :: "env \<Rightarrow> clocks \<Rightarrow> task_store \<Rightarrow> audit_record \<Rightarrow> unit ts_result" where
  "append_sync e ck s r =
    (case store_append (te_b3 e) (te_zenc e) ck (ts_audit s) r of
       Inl err \<Rightarrow> (s, Inl (TkStore err))
     | Inr (a, _) \<Rightarrow> (s\<lparr>ts_audit := store_sync ck a\<rparr>, Inr ()))"

definition ts_bind :: "'a ts_result \<Rightarrow> (task_store \<Rightarrow> 'a \<Rightarrow> 'b ts_result) \<Rightarrow> 'b ts_result" where
  "ts_bind x f = (case x of (s, Inl err) \<Rightarrow> (s, Inl err) | (s, Inr a) \<Rightarrow> f s a)"

definition journal :: "env \<Rightarrow> clocks \<Rightarrow> task_store \<Rightarrow> task \<Rightarrow> string \<Rightarrow> unit ts_result" where
  "journal e ck s t op =
    (let (h, s) = (case ts_hashes s (ulid_bytes (t_id t)) of
           Some h \<Rightarrow> (h, s)
         | None \<Rightarrow> let h = statement_hash (te_b3 e) t in (h, s\<lparr>ts_hashes := (ts_hashes s)(ulid_bytes (t_id t) \<mapsto> h)\<rparr>))
     in append_sync e ck s (record_new\<lparr>ar_kind := KTask, ar_principal := t_principal t, ar_task_id := Some (t_id t),
          ar_body := task_body t op h\<rparr>))"

definition revoke_for_task :: "env \<Rightarrow> clocks \<Rightarrow> task_store \<Rightarrow> ulid \<Rightarrow> unit ts_result" where
  "revoke_for_task e ck s i =
    (let ids = map (\<lambda>g. g_id (is_grant g)) (filter (\<lambda>g. g_task_id (is_grant g) = i \<and> \<not> is_revoked g) (ts_grants s)) in
     if ids = [] then (s, Inr ())
     else
       let p = (case task_of s i of Some t \<Rightarrow> t_principal t | None \<Rightarrow> []) in
       ts_bind (append_sync e ck s (record_new\<lparr>ar_kind := KRevoke, ar_principal := p, ar_task_id := Some i,
           ar_body := revoke_body ids\<rparr>)) (\<lambda>s _.
         (s\<lparr>ts_grants := map (\<lambda>g. if g_id (is_grant g) \<in> set ids then g\<lparr>is_revoked := True\<rparr> else g) (ts_grants s)\<rparr>, Inr ())))"

definition open_task_from ::
  "env \<Rightarrow> clocks \<Rightarrow> byte list \<Rightarrow> task_store \<Rightarrow> string \<Rightarrow> origin \<Rightarrow> string \<Rightarrow> string \<Rightarrow> u64 \<Rightarrow> u64 \<Rightarrow> ulid option \<Rightarrow> ulid ts_result" where
  "open_task_from e ck entropy s p orig oref stmt deadline now resumes =
    (case live_task s p of
       Some t \<Rightarrow> (s, Inl (AlreadyLive (t_id t)))
     | None \<Rightarrow>
         let i = ulid_from_parts now entropy;
             t = \<lparr>t_id = i, t_principal = p, t_origin = orig, t_origin_ref = oref, t_statement = stmt, t_agent_note = None,
               t_parent_task_id = None, t_depth = 0, t_state = Active, t_opened_ms = now, t_deadline_ms = deadline,
               t_chain_root = [], t_counters = counters_default\<rparr>;
             t = (case Option.bind resumes (task_of s) of
               None \<Rightarrow> t
             | Some old \<Rightarrow>
                 let root = (if t_chain_root old = [] then ulid_to_text (t_id old) else t_chain_root old) in
                 t\<lparr>t_chain_root := ''collapsed:'' @ root,
                   t_counters := (t_counters t)\<lparr>irreversible := irreversible (t_counters old),
                     irreversible_by_class := irreversible_by_class (t_counters old),
                     denied_irreversible_streak := denied_irreversible_streak (t_counters old)\<rparr>\<rparr>)
         in ts_bind (journal e ck s t ''open'') (\<lambda>s _. (s\<lparr>ts_tasks := ts_tasks s @ [t]\<rparr>, Inr i)))"

definition open_task ::
  "env \<Rightarrow> clocks \<Rightarrow> byte list \<Rightarrow> task_store \<Rightarrow> string \<Rightarrow> origin \<Rightarrow> string \<Rightarrow> string \<Rightarrow> u64 \<Rightarrow> u64 \<Rightarrow> ulid ts_result" where
  "open_task e ck entropy s p orig oref stmt deadline now = open_task_from e ck entropy s p orig oref stmt deadline now None"

definition task_apply :: "env \<Rightarrow> clocks \<Rightarrow> task_store \<Rightarrow> ulid \<Rightarrow> task_event \<Rightarrow> task_state ts_result" where
  "task_apply e ck s i ev =
    (case position (\<lambda>t. t_id t = i) (ts_tasks s) of
       None \<Rightarrow> (s, Inl (UnknownTask i))
     | Some idx \<Rightarrow>
         (case transition (t_state (ts_tasks s ! idx)) ev of
            Inl err \<Rightarrow> (s, Inl (TkIllegalTransition (it_from err) (it_event err)))
          | Inr nxt \<Rightarrow>
              let closed = (case nxt of Closed _ \<Rightarrow> True | _ \<Rightarrow> False) in
              ts_bind (journal e ck s ((ts_tasks s ! idx)\<lparr>t_state := nxt\<rparr>) (if closed then ''close'' else ''state'')) (\<lambda>s _.
              ts_bind (if closed then revoke_for_task e ck s i else (s, Inr ())) (\<lambda>s _.
              (s\<lparr>ts_tasks := (ts_tasks s)[idx := (ts_tasks s ! idx)\<lparr>t_state := nxt\<rparr>]\<rparr>, Inr nxt)))))"

definition update_counters :: "env \<Rightarrow> clocks \<Rightarrow> task_store \<Rightarrow> ulid \<Rightarrow> (counters \<Rightarrow> counters) \<Rightarrow> unit ts_result" where
  "update_counters e ck s i f =
    (case position (\<lambda>t. t_id t = i) (ts_tasks s) of
       None \<Rightarrow> (s, Inl (UnknownTask i))
     | Some idx \<Rightarrow>
         let c = f (t_counters (ts_tasks s ! idx)) in
         ts_bind (journal e ck s ((ts_tasks s ! idx)\<lparr>t_counters := c\<rparr>) ''counters'') (\<lambda>s _.
         (s\<lparr>ts_tasks := (ts_tasks s)[idx := (ts_tasks s ! idx)\<lparr>t_counters := c\<rparr>]\<rparr>, Inr ())))"

definition issue_grant :: "env \<Rightarrow> clocks \<Rightarrow> byte list \<Rightarrow> task_store \<Rightarrow> grant \<Rightarrow> grant_reason \<Rightarrow> u64 \<Rightarrow> byte list ts_result" where
  "issue_grant e ck entropy s g reason now =
    (case task_of s (g_task_id g) of
       None \<Rightarrow> (s, Inl (UnknownTask (g_task_id g)))
     | Some t \<Rightarrow>
         if \<not> accepts_acting_requests (t_state t) then (s, Inl TaskClosed)
         else if t_deadline_ms t < g_expires_ms g then (s, Inl ExpiryBeyondDeadline)
         else if g_unattended g \<and> UNATTENDED_MAX_MS < sat_sub (g_expires_ms g) now then (s, Inl UnattendedTooLong)
         else
           let g = g\<lparr>g_issued_ms := now, g_id := ulid_from_parts now entropy, g_principal := t_principal t\<rparr>;
               prot = protected_header (te_b3 e) (te_key e);
               payload = grant_encode g;
               cose = cose_sign1 prot payload (te_sign e (sig_structure prot payload))
           in ts_bind (append_sync e ck s (record_new\<lparr>ar_kind := KGrant, ar_principal := g_principal g, ar_grant_id := Some (g_id g),
                ar_task_id := Some (g_task_id g), ar_body := grant_body cose (g_issuer g) reason\<rparr>)) (\<lambda>s _.
              (s\<lparr>ts_grants := ts_grants s @ [\<lparr>is_grant = g, is_cose = cose, is_revoked = False\<rparr>]\<rparr>, Inr cose)))"

definition task_record :: "env \<Rightarrow> clocks \<Rightarrow> task_store \<Rightarrow> emission \<Rightarrow> unit ts_result" where
  "task_record e ck s em =
    (case store_append (te_b3 e) (te_zenc e) ck (ts_audit s) (record_from_emission em) of
       Inl err \<Rightarrow> (s, Inl (TkStore err))
     | Inr (a, r) \<Rightarrow>
         (s\<lparr>ts_audit := a,
            ts_recent := (if length (ts_recent s) = RECENT then tl (ts_recent s) else ts_recent s) @
              [(ar_principal r, \<lparr>tl_kind = kind_as_str (ar_kind r), tl_req_id = ar_req_id r, tl_at_ns = ar_ts r\<rparr>)]\<rparr>, Inr ()))"

definition task_tail :: "task_store \<Rightarrow> string \<Rightarrow> nat \<Rightarrow> tail_record list" where
  "task_tail s p n = map snd (take n (filter (\<lambda>(q, _). q = p) (rev (ts_recent s))))"

definition first_grant :: "ulid \<Rightarrow> capability list \<Rightarrow> u64 \<Rightarrow> u64 \<Rightarrow> bool \<Rightarrow> grant" where
  "first_grant i caps now expires unattended = \<lparr>g_id = Ulid (replicate 16 0), g_principal = [], g_issued_ms = now,
     g_expires_ms = expires, g_issuer = ''policyd'', g_task_id = i, g_capabilities = caps,
     g_constraints = constraints_default, g_unattended = unattended\<rparr>"

definition open_for_human ::
  "env \<Rightarrow> clocks \<Rightarrow> byte list \<Rightarrow> byte list \<Rightarrow> task_store \<Rightarrow> string \<Rightarrow> string \<Rightarrow> u64 \<Rightarrow> string \<Rightarrow> string \<Rightarrow> ulid option \<Rightarrow> u64 \<Rightarrow>
   (ulid \<times> byte list) ts_result" where
  "open_for_human e ck ent_task ent_grant s p stmt deadline scope oref resumes now =
    (case (if split_ws [] scope = [] then Some [] else capabilities (te_rxok e) scope) of
       None \<Rightarrow> (s, Inl BadScope)
     | Some caps \<Rightarrow>
         if deadline \<le> now then (s, Inl ExpiryBeyondDeadline)
         else ts_bind (open_task_from e ck ent_task s p OriginHuman oref stmt deadline now resumes) (\<lambda>s i.
           (case issue_grant e ck ent_grant s (first_grant i caps now deadline False) GrManifest now of
              (s, Inr cose) \<Rightarrow> (s, Inr (i, cose))
            | (s, Inl err) \<Rightarrow> ts_bind (task_apply e ck s i Fault) (\<lambda>s _. (s, Inl err)))))"

definition mint_from_prompt ::
  "env \<Rightarrow> clocks \<Rightarrow> byte list \<Rightarrow> task_store \<Rightarrow> string \<Rightarrow> string \<Rightarrow> bool \<Rightarrow> u64 \<Rightarrow> byte list ts_result" where
  "mint_from_prompt e ck entropy s p scope unattended now =
    (case capabilities (te_rxok e) scope of
       None \<Rightarrow> (s, Inl BadScope)
     | Some caps \<Rightarrow>
         (case live_task s p of
            None \<Rightarrow> (s, Inl TaskClosed)
          | Some t \<Rightarrow>
              let expires = (if unattended then min (t_deadline_ms t) (sat_add now UNATTENDED_MAX_MS) else t_deadline_ms t)
              in issue_grant e ck entropy s (first_grant (t_id t) caps now expires unattended) GrPrompt now))"

definition defer_check :: "task_store \<Rightarrow> string \<Rightarrow> defer_answer" where
  "defer_check s p = (case live_task s p of
     Some t \<Rightarrow> if accepts_acting_requests (t_state t) then AnsPrompt else AnsDeny | None \<Rightarrow> AnsDeny)"

definition cancel_principal :: "env \<Rightarrow> clocks \<Rightarrow> task_store \<Rightarrow> string \<Rightarrow> bool ts_result" where
  "cancel_principal e ck s p =
    (case live_task s p of
       None \<Rightarrow> (s, Inr False)
     | Some t \<Rightarrow> ts_bind (task_apply e ck s (t_id t) Cancel) (\<lambda>s _. (s, Inr True)))"

end
