(* ===== verification/TaskStore_Codec.thy ===== *)
theory TaskStore_Codec
  imports TaskStore Grant_Laws AuditStore_Laws
begin

text \<open>
  The bodies of the records the task store journals: tasks, grants and revocations are read back from
  their encodings, and each body is one canonical item (\<open>item\<close>), as the audit store requires of what
  it is given.
\<close>

section \<open>Items\<close>

text \<open>One canonical item that nests at most \<open>d\<close> maps.\<close>

definition item :: "nat \<Rightarrow> byte list \<Rightarrow> bool" where
  "item d b \<longleftrightarrow> (\<exists>v. cval_ok v \<and> cdepth v \<le> d \<and> b = put_val v)"

lemma item_u64: "item d (put_u64 n)"
  unfolding item_def by (rule exI [of _ "CUInt n"]) (simp add: put_u64_def)

lemma item_text: "rstr s \<Longrightarrow> item d (put_text s)"
  unfolding item_def by (rule exI [of _ "CText (str_bytes s)"]) (simp add: put_text_def rstr_def)

lemma item_bytes: "length b < 2 ^ 64 \<Longrightarrow> item d (put_bytes b)"
  unfolding item_def by (rule exI [of _ "CBytes b"]) simp

lemma items_values: "\<forall>v \<in> set vs. item d v \<Longrightarrow> \<exists>cs. vs = map put_val cs \<and> (\<forall>c \<in> set cs. cval_ok c \<and> cdepth c \<le> d)"
proof (induction vs)
  case (Cons v vs)
  then obtain c cs where "v = put_val c" "cval_ok c" "cdepth c \<le> d" "vs = map put_val cs" "\<forall>c \<in> set cs. cval_ok c \<and> cdepth c \<le> d"
    by (auto simp: item_def)
  then show ?case by (intro exI [of _ "c # cs"]) simp
qed simp

lemma foldr_max_le: "\<forall>x \<in> set xs. x \<le> n \<Longrightarrow> foldr max xs 0 \<le> (n :: nat)"
  by (induction xs) auto

lemma item_array:
  assumes "\<forall>v \<in> set vs. item d v" "length vs < 2 ^ 64"
  shows "item d (put_array (length vs) @ concat vs)"
proof -
  from items_values [OF assms(1)] obtain cs where cs: "vs = map put_val cs" "\<forall>c \<in> set cs. cval_ok c \<and> cdepth c \<le> d" by blast
  then have "foldr max (map cdepth cs) 0 \<le> d" by (intro foldr_max_le) simp
  then show ?thesis unfolding item_def using cs assms(2) by (intro exI [of _ "CArr cs"]) simp
qed

lemma item_entries:
  assumes "canonical es" "\<forall>(k, v) \<in> set es. item d v"
  shows "item (Suc d) (put_entries es)"
proof -
  have "\<forall>v \<in> set (map snd es). item d v" using assms(2) by auto
  from items_values [OF this] obtain cs where cs: "map snd es = map put_val cs" "\<forall>c \<in> set cs. cval_ok c \<and> cdepth c \<le> d" by blast
  then have len: "length cs = length es" by (metis length_map)
  let ?vs = "zip (map fst es) cs"
  have es: "map (\<lambda>(k, v). (k, put_val v)) ?vs = es"
  proof -
    have "map (\<lambda>(k, v). (k, put_val v)) ?vs = zip (map fst es) (map put_val cs)" by (simp add: zip_map2 case_prod_unfold)
    also have "\<dots> = zip (map fst es) (map snd es)" by (simp add: cs(1))
    finally show ?thesis by (simp add: zip_map_fst_snd)
  qed
  have in_cs: "v \<in> set cs" if "(k, v) \<in> set ?vs" for k v using that by (rule set_zip_rightD)
  have "foldr max (map (\<lambda>(k, v). cdepth v) ?vs) 0 \<le> d"
    using in_cs cs(2) by (intro foldr_max_le) auto
  moreover have "cval_ok (CMap ?vs)" using es assms(1) in_cs cs(2) by auto
  ultimately show ?thesis unfolding item_def by (intro exI [of _ "CMap ?vs"]) (simp add: es)
qed

lemma item_opt: "(\<And>b. v = Some b \<Longrightarrow> item d b) \<Longrightarrow> \<forall>(k, v) \<in> set (opt_entry k' v). item d v"
  by (cases v) auto

section \<open>Counters\<close>

definition counters_entries :: "counters \<Rightarrow> entries" where
  "counters_entries c = [(''retries'', put_u64 (ucast (retries c))), (''irreversible'', encode_ring (irreversible c)),
    (''prompts_shown'', put_u64 (ucast (prompts_shown c))), (''egress_bytes_up'', put_u64 (egress_bytes_up c)),
    (''prompts_allowed'', put_u64 (ucast (prompts_allowed c))), (''channel_messages'', put_u64 (ucast (channel_messages c))),
    (''irreversible_by_class'', mb_finish (foldl (\<lambda>b (cls, ring). mb_insert b cls (encode_ring ring)) [] (irreversible_by_class c))),
    (''denied_irreversible_streak'', put_u64 (ucast (denied_irreversible_streak c)))]"

lemma counters_encode_eq: "counters_encode c = put_entries (counters_entries c)"
  unfolding counters_encode_def Let_def mb_insert_Nil mb_of_simps counters_entries_def
  by (rule keys_ok_finish) (simp_all add: counters_keys add_mset_commute)

lemma item_ring: "ring_ok r \<Longrightarrow> item d (encode_ring r)"
  using item_array [of "map put_u64 r" d] by (simp add: item_u64 encode_ring_def ring_ok_def RATE_RING_def)

lemma item_by_class:
  assumes "counters_ok c"
  shows "item 1 (mb_finish (foldl (\<lambda>b (cls, ring). mb_insert b cls (encode_ring ring)) [] (irreversible_by_class c)))"
proof -
  let ?es = "map (\<lambda>(cls, ring). (cls, encode_ring ring)) (irreversible_by_class c)"
  have can: "canonical ?es" by (rule by_class_canonical [OF assms])
  have "foldl (\<lambda>b (cls, ring). mb_insert b cls (encode_ring ring)) [] (irreversible_by_class c) = mb_of ?es"
    using fold_insert_mb [of encode_ring "[]"] by (simp add: mb_of_def)
  moreover have "mb_finish (mb_of ?es) = put_entries ?es"
    using can by (intro mb_finish_eq) (simp_all add: canonical_def)
  moreover have "item (Suc 0) (put_entries ?es)"
    by (rule item_entries [OF can]) (use assms in \<open>auto simp: counters_ok_def intro!: item_ring\<close>)
  ultimately show ?thesis by simp
qed

lemma item_mono: "item d b \<Longrightarrow> d \<le> e \<Longrightarrow> item e b"
  by (auto simp: item_def)

lemma item_counters:
  assumes "counters_ok c"
  shows "item 2 (counters_encode c)"
  unfolding counters_encode_eq numeral_2_eq_2
proof (rule item_entries)
  show "canonical (counters_entries c)" by (rule keys_ok_canonical) (simp_all add: counters_entries_def counters_keys)
  show "\<forall>(k, v) \<in> set (counters_entries c). item (Suc 0) v"
    using item_by_class [OF assms] assms by (auto simp: counters_entries_def item_u64 counters_ok_def intro!: item_ring)
qed

section \<open>Task bodies\<close>

text \<open>A task as the journal keeps it.\<close>

definition erase :: "task \<Rightarrow> task" where
  "erase t = t\<lparr>t_statement := []\<rparr>"

lemma erase_simps [simp]:
  "t_id (erase t) = t_id t" "t_principal (erase t) = t_principal t" "t_state (erase t) = t_state t"
  "t_deadline_ms (erase t) = t_deadline_ms t" "t_counters (erase t) = t_counters t" "t_chain_root (erase t) = t_chain_root t"
  "erase (erase t) = erase t"
  by (simp_all add: erase_def)

definition task_ok :: "task \<Rightarrow> bool" where
  "task_ok t \<longleftrightarrow> ulid_ok (t_id t) \<and> rstr (t_principal t) \<and> rstr (t_origin_ref t) \<and> rstr (t_chain_root t) \<and>
     (\<forall>n. t_agent_note t = Some n \<longrightarrow> rstr n) \<and> (\<forall>p. t_parent_task_id t = Some p \<longrightarrow> ulid_ok p) \<and> counters_ok (t_counters t)"

definition reason_of :: "task_state \<Rightarrow> close_reason option" where
  "reason_of s = (case s of Closed r \<Rightarrow> Some r | _ \<Rightarrow> None)"

definition task_entries :: "task \<Rightarrow> string \<Rightarrow> byte list \<Rightarrow> entries" where
  "task_entries t op hash = opt_entry ''op'' (Some (put_text op)) @ opt_entry ''depth'' (Some (put_u64 (ucast (t_depth t)))) @
     opt_entry ''state'' (Some (put_text (task_state_as_str (t_state t)))) @ opt_entry ''opened'' (Some (put_u64 (t_opened_ms t))) @
     opt_entry ''origin'' (Some (put_text (origin_as_str (t_origin t)))) @
     opt_entry ''parent'' (map_option (\<lambda>p. put_bytes (ulid_bytes p)) (t_parent_task_id t)) @
     opt_entry ''counters'' (Some (counters_encode (t_counters t))) @ opt_entry ''deadline'' (Some (put_u64 (t_deadline_ms t))) @
     opt_entry ''agent_note'' (map_option put_text (t_agent_note t)) @
     opt_entry ''chain_root'' (Some (put_text (t_chain_root t))) @ opt_entry ''origin_ref'' (Some (put_text (t_origin_ref t))) @
     opt_entry ''close_reason'' (map_option (\<lambda>r. put_text (close_reason_as_str r)) (reason_of (t_state t))) @
     opt_entry ''statement_hash'' (Some (put_bytes hash))"

lemma task_keys: "keys_ok [''op'', ''depth'', ''state'', ''opened'', ''origin'', ''parent'', ''counters'', ''deadline'', ''agent_note'',
   ''chain_root'', ''origin_ref'', ''close_reason'', ''statement_hash'']"
  by code_simp

lemma task_entries_canonical: "canonical (task_entries t op hash)"
proof -
  let ?ks = "[''op'', ''depth'', ''state'', ''opened'', ''origin'', ''parent'', ''counters'', ''deadline'', ''agent_note'',
   ''chain_root'', ''origin_ref'', ''close_reason'', ''statement_hash'']"
  have "subseq (map fst (task_entries t op hash)) ([''op''] @ [''depth''] @ [''state''] @ [''opened''] @ [''origin''] @
     [''parent''] @ [''counters''] @ [''deadline''] @ [''agent_note''] @ [''chain_root''] @ [''origin_ref''] @ [''close_reason''] @
     [''statement_hash''])"
    unfolding task_entries_def map_append by (intro list_emb_append_mono subseq_opt_entry)
  then have sub: "subseq (map fst (task_entries t op hash)) ?ks" by (simp only: append.simps)
  then have "length (map fst (task_entries t op hash)) \<le> length ?ks" by (rule list_emb_length)
  then have "length (task_entries t op hash) \<le> 13" by (simp only: length_map list.size)
  then show ?thesis by (intro keys_ok_canonical keys_ok_subseq [OF task_keys sub]) simp
qed

lemma task_body_entries: "task_body t op hash = put_entries (task_entries t op hash)"
proof -
  have c: "(case t_state t of Closed r \<Rightarrow> Some (put_text (close_reason_as_str r)) | _ \<Rightarrow> None) =
    map_option (\<lambda>r. put_text (close_reason_as_str r)) (reason_of (t_state t))" by (cases "t_state t") (simp_all add: reason_of_def)
  have "\<exists>es. task_body t op hash = mb_finish (mb_of es) \<and> mset es = mset (task_entries t op hash)"
    unfolding task_body_def Let_def mb_of_Nil c mb_insert_opt_of mb_of_simps
    by (rule exI, rule conjI, rule refl) (simp add: task_entries_def)
  then show ?thesis using rebuilt [OF task_entries_canonical] by metis
qed

lemma close_reason_strings: "rstr (close_reason_as_str r)" "close_reason_parse (close_reason_as_str r) = Some r"
  by (cases r, simp_all add: close_reason_parse_def rstr_def utf8_ascii)+

lemma origin_strings: "rstr (origin_as_str w)" "origin_parse (origin_as_str w) = Some w"
  by (cases w, simp_all add: origin_parse_def rstr_def utf8_ascii)+

lemma state_string: "rstr (task_state_as_str st)"
  by (cases st) (simp_all add: rstr_def utf8_ascii)

lemmas reason_strings = close_reason_strings origin_strings state_string

abbreviation acc :: "task \<Rightarrow> string \<Rightarrow> close_reason option \<Rightarrow> byte list \<Rightarrow> task_acc" where
  "acc t s c h \<equiv> \<lparr>ka_task = t, ka_state = s, ka_close_reason = c, ka_hash = h\<rparr>"

lemma task_steps:
  "rstr v \<Longrightarrow> reads d (task_step ''agent_note'' (acc t s c h)) (put_text v) (acc (t\<lparr>t_agent_note := Some v\<rparr>) s c h)"
  "rstr v \<Longrightarrow> reads d (task_step ''chain_root'' (acc t s c h)) (put_text v) (acc (t\<lparr>t_chain_root := v\<rparr>) s c h)"
  "reads d (task_step ''close_reason'' (acc t s c h)) (put_text (close_reason_as_str r)) (acc t s (Some r) h)"
  "counters_ok cs \<Longrightarrow> reads 2 (task_step ''counters'' (acc t s c h)) (counters_encode cs) (acc (t\<lparr>t_counters := cs\<rparr>) s c h)"
  "reads d (task_step ''deadline'' (acc t s c h)) (put_u64 k) (acc (t\<lparr>t_deadline_ms := k\<rparr>) s c h)"
  "reads d (task_step ''depth'' (acc t s c h)) (put_u64 (ucast m)) (acc (t\<lparr>t_depth := m\<rparr>) s c h)"
  "rstr v \<Longrightarrow> reads d (task_step ''op'' (acc t s c h)) (put_text v) (acc t s c h)"
  "reads d (task_step ''opened'' (acc t s c h)) (put_u64 k) (acc (t\<lparr>t_opened_ms := k\<rparr>) s c h)"
  "reads d (task_step ''origin'' (acc t s c h)) (put_text (origin_as_str w)) (acc (t\<lparr>t_origin := w\<rparr>) s c h)"
  "rstr v \<Longrightarrow> reads d (task_step ''origin_ref'' (acc t s c h)) (put_text v) (acc (t\<lparr>t_origin_ref := v\<rparr>) s c h)"
  "ulid_ok u \<Longrightarrow> reads d (task_step ''parent'' (acc t s c h)) (put_bytes (ulid_bytes u)) (acc (t\<lparr>t_parent_task_id := Some u\<rparr>) s c h)"
  "reads d (task_step ''state'' (acc t s c h)) (put_text (task_state_as_str st)) (acc t (task_state_as_str st) c h)"
  "length h' = 32 \<Longrightarrow> reads d (task_step ''statement_hash'' (acc t s c h)) (put_bytes h') (acc t s c h')"
  by (simp_all add: task_step_def)
    (rule reads_andthen1 reads_u64 reads_text reads_id16 reads_small reads_counters reads_retI reads_byte_array
      | simp add: ulid_ok_def reason_strings)+

lemma task_entry_steps:
  "t_agent_note t = None \<Longrightarrow> (\<forall>v. n = Some v \<longrightarrow> rstr v) \<Longrightarrow>
     steps 2 task_step (acc t s c h) (opt_entry ''agent_note'' (map_option put_text n)) (acc (t\<lparr>t_agent_note := n\<rparr>) s c h)"
  "rstr v \<Longrightarrow> steps 2 task_step (acc t s c h) (opt_entry ''chain_root'' (Some (put_text v))) (acc (t\<lparr>t_chain_root := v\<rparr>) s c h)"
  "c = None \<Longrightarrow>
     steps 2 task_step (acc t s c h) (opt_entry ''close_reason'' (map_option (\<lambda>r. put_text (close_reason_as_str r)) ro)) (acc t s ro h)"
  "counters_ok cs \<Longrightarrow> steps 2 task_step (acc t s c h) (opt_entry ''counters'' (Some (counters_encode cs))) (acc (t\<lparr>t_counters := cs\<rparr>) s c h)"
  "steps 2 task_step (acc t s c h) (opt_entry ''deadline'' (Some (put_u64 k))) (acc (t\<lparr>t_deadline_ms := k\<rparr>) s c h)"
  "steps 2 task_step (acc t s c h) (opt_entry ''depth'' (Some (put_u64 (ucast m)))) (acc (t\<lparr>t_depth := m\<rparr>) s c h)"
  "rstr v \<Longrightarrow> steps 2 task_step (acc t s c h) (opt_entry ''op'' (Some (put_text v))) (acc t s c h)"
  "steps 2 task_step (acc t s c h) (opt_entry ''opened'' (Some (put_u64 k))) (acc (t\<lparr>t_opened_ms := k\<rparr>) s c h)"
  "steps 2 task_step (acc t s c h) (opt_entry ''origin'' (Some (put_text (origin_as_str w)))) (acc (t\<lparr>t_origin := w\<rparr>) s c h)"
  "rstr v \<Longrightarrow> steps 2 task_step (acc t s c h) (opt_entry ''origin_ref'' (Some (put_text v))) (acc (t\<lparr>t_origin_ref := v\<rparr>) s c h)"
  "t_parent_task_id t = None \<Longrightarrow> (\<forall>u. p = Some u \<longrightarrow> ulid_ok u) \<Longrightarrow>
     steps 2 task_step (acc t s c h) (opt_entry ''parent'' (map_option (\<lambda>p. put_bytes (ulid_bytes p)) p)) (acc (t\<lparr>t_parent_task_id := p\<rparr>) s c h)"
  "steps 2 task_step (acc t s c h) (opt_entry ''state'' (Some (put_text (task_state_as_str st)))) (acc t (task_state_as_str st) c h)"
  "length h' = 32 \<Longrightarrow> steps 2 task_step (acc t s c h) (opt_entry ''statement_hash'' (Some (put_bytes h'))) (acc t s c h')"
  by (rule steps_opt; auto intro!: task_steps)+

lemma task_steps_all:
  assumes "task_ok t" "rstr op" "length hash = 32"
  shows "steps 2 task_step (task_acc_new (t_id t) (t_principal t)) (task_entries t op hash)
    (acc ((erase t)\<lparr>t_state := Active\<rparr>) (task_state_as_str (t_state t)) (reason_of (t_state t)) hash)"
  unfolding task_entries_def task_acc_new_def
  by (rule steps_eq, (rule steps_appI task_entry_steps | use assms in \<open>simp add: task_ok_def; fail\<close>)+)
    (cases t, simp add: erase_def)

lemma reads_task_body:
  assumes "task_ok t" "rstr op" "length hash = 32"
  shows "read_task_body (t_id t) (t_principal t) (task_body t op hash) = Inr (erase t, hash)"
proof -
  let ?a = "\<lparr>ka_task = (erase t)\<lparr>t_state := Active\<rparr>, ka_state = task_state_as_str (t_state t), ka_close_reason = reason_of (t_state t), ka_hash = hash\<rparr>"
  have "run_whole id (rd_map id task_step (task_acc_new (t_id t) (t_principal t))) (task_body t op hash) = Inr ?a"
    unfolding task_body_entries
    by (rule run_whole_reads [OF reads_map [OF task_steps_all [OF assms] task_entries_canonical]]) (simp add: MAX_MAP_DEPTH_def)
  moreover have "task_of_acc ?a = Inr (erase t, hash)"
    by (cases "t_state t") (simp_all add: task_of_acc_def reason_of_def erase_def)
  ultimately show ?thesis by (simp add: read_task_body_def)
qed

lemma item_task_body:
  assumes "task_ok t" "rstr op" "length hash = 32"
  shows "item 3 (task_body t op hash)"
  unfolding task_body_entries numeral_3_eq_3
proof (rule item_entries [OF task_entries_canonical])
  show "\<forall>(k, v) \<in> set (task_entries t op hash). item (Suc (Suc 0)) v"
    using assms item_counters [of "t_counters t", unfolded numeral_2_eq_2]
    by (cases "t_parent_task_id t"; cases "t_agent_note t"; cases "reason_of (t_state t)")
      (auto simp: task_entries_def task_ok_def item_u64 reason_strings ulid_ok_def intro!: item_text item_bytes)
qed

section \<open>Grant and revocation bodies\<close>

lemma grant_body_keys: "keys_ok [''cose'', ''issuer'', ''reason'']" by code_simp

definition grant_body_entries :: "byte list \<Rightarrow> string \<Rightarrow> grant_reason \<Rightarrow> entries" where
  "grant_body_entries cose issuer reason =
     [(''cose'', put_bytes cose), (''issuer'', put_text issuer), (''reason'', put_text (grant_reason_as_str reason))]"

lemma grant_body_canonical: "canonical (grant_body_entries cose issuer reason)"
  by (rule keys_ok_canonical) (simp_all add: grant_body_entries_def grant_body_keys)

lemma grant_body_eq: "grant_body cose issuer reason = put_entries (grant_body_entries cose issuer reason)"
  unfolding grant_body_def Let_def mb_insert_Nil mb_of_simps grant_body_entries_def
  by (rule keys_ok_finish) (simp_all add: grant_body_keys)

lemma rstr_grant_reason: "rstr (grant_reason_as_str reason)"
  by (cases reason) (simp_all add: rstr_def utf8_ascii)

lemma skip_text: "rstr s \<Longrightarrow> reads d rd_skip (put_text s) ()"
  using reads_skip [of "CText (str_bytes s)" d] by (simp add: put_text_def rstr_def)

lemma issued_steps:
  assumes "length cose < 2 ^ 64" "rstr issuer"
  shows "steps 0 issued_step [] (grant_body_entries cose issuer reason) cose"
proof -
  have c: "reads 0 (issued_step ''cose'' []) (put_bytes cose) cose" using assms by (simp add: issued_step_def reads_bytes)
  have t: "rstr s \<Longrightarrow> reads 0 (issued_step ''issuer'' cose) (put_text s) cose" "rstr s \<Longrightarrow> reads 0 (issued_step ''reason'' cose) (put_text s) cose" for s
    by (auto simp: issued_step_def intro!: reads_andthen1 [OF skip_text] reads_retI)
  show ?thesis
    unfolding grant_body_entries_def by (rule stepsI c t rstr_grant_reason assms | simp)+
qed

lemma reads_begin_end:
  assumes "reads d p bs v"
  shows "reads (Suc d) (andthen rd_map_begin (\<lambda>_. andthen rd_map_end (\<lambda>_. p))) (put_map 0 @ bs) v"
proof (rule readsI)
  fix r s assume r: "inb r" "rest r = (put_map 0 @ bs) @ s" "length (r_maps r) + Suc d \<le> MAX_MAP_DEPTH"
  from readsD [OF reads_empty_map [OF assms] r, of id Type]
  show "andthen rd_map_begin (\<lambda>_. andthen rd_map_end (\<lambda>_. p)) r = Inr (v, adv (length (put_map 0 @ bs)) r)"
    by (auto simp: andthen_def fail_def split: sum.splits if_splits)
qed

lemma reads_payload:
  assumes "length prot < 2 ^ 64" "length payload < 2 ^ 64"
  shows "map_sum id fst (rd_payload (reader_new (cose_sign1 prot payload sig))) = Inr payload"
proof -
  have "reads 1 rd_payload (put_array 4 @ put_bytes prot @ put_map 0 @ put_bytes payload) payload"
    unfolding rd_payload_def One_nat_def
    by (rule reads_andthen [OF reads_array_len], simp, simp, rule reads_andthen [OF reads_bytes], rule assms(1),
        rule reads_begin_end, rule reads_bytes, rule assms(2))
  from readsD [OF this, of "reader_new (cose_sign1 prot payload sig)" "put_bytes sig"] show ?thesis
    by (simp add: inb_def rest_def reader_new_def cose_sign1_def mb_finish_Nil MAX_MAP_DEPTH_def)
qed

lemma item_grant_body:
  assumes "length cose < 2 ^ 64" "rstr issuer"
  shows "item 1 (grant_body cose issuer reason)"
  unfolding grant_body_eq One_nat_def
  by (rule item_entries [OF grant_body_canonical])
    (use assms in \<open>auto simp: grant_body_entries_def rstr_grant_reason intro!: item_text item_bytes\<close>)

lemma grant_trip: "grant_ok g \<Longrightarrow> grant_decode (grant_encode g) = Inr g"
  unfolding grant_decode_def by (rule run_whole_reads [OF reads_grant]) (simp_all add: MAX_MAP_DEPTH_def)

lemma reads_issued:
  assumes g: "grant_ok g" and len: "length prot < 2 ^ 64" "length (grant_encode g) < 2 ^ 64"
      "length (cose_sign1 prot (grant_encode g) sig) < 2 ^ 64" and i: "rstr issuer"
  shows "replay_issued (grant_body (cose_sign1 prot (grant_encode g) sig) issuer reason) =
    Inr \<lparr>is_grant = g, is_cose = cose_sign1 prot (grant_encode g) sig, is_revoked = False\<rparr>"
proof -
  have "run_whole id (rd_map id issued_step []) (grant_body (cose_sign1 prot (grant_encode g) sig) issuer reason) =
      Inr (cose_sign1 prot (grant_encode g) sig)"
    unfolding grant_body_eq
    by (rule run_whole_reads [OF reads_map [OF issued_steps [OF len(3) i] grant_body_canonical]]) (simp add: MAX_MAP_DEPTH_def)
  then show ?thesis
    by (simp add: replay_issued_def reads_payload [OF len(1,2)] grant_trip [OF g])
qed

lemma revoke_keys: "keys_ok [''grants'', ''reason'']" by code_simp

definition revoke_entries :: "ulid list \<Rightarrow> entries" where
  "revoke_entries ids = [(''grants'', put_array (length ids) @ concat (map (\<lambda>i. put_bytes (ulid_bytes i)) ids)),
     (''reason'', put_text ''task_closed'')]"

lemma revoke_canonical: "canonical (revoke_entries ids)"
  by (rule keys_ok_canonical) (simp_all add: revoke_entries_def revoke_keys)

lemma revoke_body_eq: "revoke_body ids = put_entries (revoke_entries ids)"
  unfolding revoke_body_def Let_def mb_insert_Nil mb_of_simps revoke_entries_def
  by (rule keys_ok_finish) (simp_all add: revoke_keys)

lemma rstr_task_closed: "rstr ''task_closed''"
  by (simp add: rstr_def utf8_ascii)

lemma reads_revoked:
  assumes "\<forall>i \<in> set ids. ulid_ok i" "length ids < 2 ^ 64"
  shows "replay_revoked (revoke_body ids) = Inr ids"
proof -
  have b: "reads 0 (rd_many (length ids) (rd_byte_array 16)) (concat (map put_bytes (map ulid_bytes ids))) (map ulid_bytes ids)"
    using assms(1) by (intro id16c.reads_many) (auto simp: ulid_ok_def)
  have "reads 0 (revoked_step ''grants'' []) (put_array (length ids) @ concat (map (\<lambda>i. put_bytes (ulid_bytes i)) ids)) ids"
  proof -
    have "reads 0 (andthen (rd_many (unat (word_of_nat (length ids) :: u64)) (rd_byte_array 16)) (\<lambda>is. ret ([] @ map Ulid is)))
        (concat (map (\<lambda>i. put_bytes (ulid_bytes i)) ids)) ids"
      using b unfolding unat_word_of_nat64 [OF assms(2)]
      by (intro reads_andthen1 [of _ _ _ "map ulid_bytes ids"] reads_retI) (simp_all add: comp_def)
    then show ?thesis
      by (simp add: revoked_step_def) (rule reads_andthen [OF reads_array_len [OF assms(2)]], simp)
  qed
  moreover have "reads 0 (revoked_step ''reason'' ids) (put_text ''task_closed'') ids"
    by (simp add: revoked_step_def) (rule reads_andthen1 [OF skip_text [OF rstr_task_closed]], simp)
  ultimately have st: "steps 0 revoked_step [] (revoke_entries ids) ids"
    unfolding revoke_entries_def by (auto intro!: stepsI)
  show ?thesis
    unfolding replay_revoked_def revoke_body_eq
    by (rule run_whole_reads [OF reads_map [OF st revoke_canonical]]) (simp add: MAX_MAP_DEPTH_def)
qed

lemma item_revoke_body:
  assumes "\<forall>i \<in> set ids. ulid_ok i" "length ids < 2 ^ 64"
  shows "item 1 (revoke_body ids)"
proof -
  have "\<forall>v \<in> set (map (\<lambda>i. put_bytes (ulid_bytes i)) ids). item 0 v"
    using assms(1) by (auto simp: ulid_ok_def intro!: item_bytes)
  from item_array [OF this] assms(2) show ?thesis
    unfolding revoke_body_eq One_nat_def
    by (intro item_entries [OF revoke_canonical]) (auto simp: revoke_entries_def comp_def rstr_task_closed intro!: item_text)
qed

end
