(* ===== verification/TaskStore_Journal.thy ===== *)
theory TaskStore_Journal
  imports TaskStore_Codec
begin

text \<open>
  Replaying the journal. The locale \<open>audit_log\<close> is what the task store needs of an append-only log of
  records: an append adds the record, and nothing that replay looks at besides. Its laws say what replay
  rebuilds after an append. It is interpreted on the audit store.
\<close>

section \<open>The journal\<close>

text \<open>What replay reads of a record.\<close>

definition same_subject :: "audit_record \<Rightarrow> audit_record \<Rightarrow> bool" where
  "same_subject r r' \<longleftrightarrow> ar_kind r' = ar_kind r \<and> ar_principal r' = ar_principal r \<and> ar_task_id r' = ar_task_id r \<and> ar_body r' = ar_body r"

lemma replay_record_subject: "same_subject r r' \<Longrightarrow> replay_record rs r' = replay_record rs r"
  by (cases "ar_kind r") (simp_all add: same_subject_def replay_record_def)

lemma replay_log_append: "replay_log rs (log @ log') = rbind (replay_log rs log) (\<lambda>rs. replay_log rs log')"
  by (induction log arbitrary: rs) (auto simp: rbind_def split: sum.splits)

lemma replay_anchors: "\<forall>a \<in> set as. ar_kind a = KAnchor \<Longrightarrow> replay_log rs as = Inr rs"
  by (induction as) (simp_all add: replay_record_def)

text \<open>
  What the task store relies on: a log that an accepted append extends by the record, placed, and by
  anchors. \<open>replays\<close> says what state the log of a journal stands for.
\<close>

definition replays :: "('s \<Rightarrow> audit_record list \<Rightarrow> bool) \<Rightarrow> 's \<Rightarrow> replay_state \<Rightarrow> bool" where
  "replays entries s rs \<longleftrightarrow> (\<exists>log. entries s log \<and> replay_log replay_new log = Inr rs)"

locale audit_log =
  fixes entries :: "'s \<Rightarrow> audit_record list \<Rightarrow> bool"
    and append :: "'s \<Rightarrow> audit_record \<Rightarrow> store_error + 's \<times> audit_record"
    and ready :: "'s \<Rightarrow> bool"
    and ok :: "audit_record \<Rightarrow> bool"
  assumes appended: "entries s log \<Longrightarrow> ready s \<Longrightarrow> ok r \<Longrightarrow> append s r = Inr (s', r') \<Longrightarrow>
    same_subject r r' \<and> (\<exists>as. entries s' (log @ r' # as) \<and> (\<forall>a \<in> set as. ar_kind a = KAnchor))"
begin

lemma replays_append:
  assumes "replays entries s rs" "ready s" "ok r" "append s r = Inr (s', r')" "replay_record rs r = Inr rs'"
  shows "replays entries s' rs'"
proof -
  from assms(1) obtain log where log: "entries s log" "replay_log replay_new log = Inr rs" by (auto simp: replays_def)
  from appended [OF log(1) assms(2-4)] obtain as where
    as: "same_subject r r'" "entries s' (log @ r' # as)" "\<forall>a \<in> set as. ar_kind a = KAnchor" by blast
  have "replay_log replay_new (log @ r' # as) = Inr rs'"
    using log(2) replay_record_subject [OF as(1)] assms(5) replay_anchors [OF as(3)] by (simp add: replay_log_append)
  with as(2) show ?thesis by (auto simp: replays_def)
qed

lemma replays_append_other:
  assumes "replays entries s rs" "ready s" "ok r" "append s r = Inr (s', r')" "ar_kind r \<notin> {KTask, KGrant, KRevoke}"
  shows "replays entries s' rs"
  using assms(5) by (intro replays_append [OF assms(1-4)]) (cases "ar_kind r"; simp add: replay_record_def)

end

definition env_ok :: "env \<Rightarrow> bool" where
  "env_ok e \<longleftrightarrow> (\<forall>x. te_zdec e (te_zenc e x) = Some x) \<and> (\<forall>x. length (te_b3 e x) = 32) \<and> (\<forall>m. length (te_sign e m) = 64)"

definition holds :: "env \<Rightarrow> store \<Rightarrow> audit_record list \<Rightarrow> bool" where
  "holds e a log \<longleftrightarrow> env_ok e \<and> store_inv (te_b3 e) (te_zdec e) a log"

lemma holds_sync [simp]: "holds e (store_sync ck a) log \<longleftrightarrow> holds e a log"
  by (simp add: holds_def store_inv_def)

lemma place_subject: "same_subject r (place b3 ck a r)"
  by (simp add: same_subject_def place_def Let_def)

interpretation audit: audit_log "holds e" "store_append (te_b3 e) (te_zenc e) ck" "\<lambda>a. next_segment_last (st_disk a) ck" submit_ok for e ck
proof
  fix a log r a' r'
  assume h: "holds e a log" and last: "next_segment_last (st_disk a) ck" and ok: "submit_ok r"
    and run: "store_append (te_b3 e) (te_zenc e) ck a r = Inr (a', r')"
  from h obtain logs lo where s: "store_holds (te_b3 e) (te_zdec e) a logs lo" and log: "log = concat logs @ lo"
    by (auto simp: holds_def store_inv_def)
  have e: "env_ok e" using h by (simp add: holds_def)
  then have z: "\<forall>x. te_zdec e (te_zenc e x) = Some x" "\<forall>x. length (te_b3 e x) = 32" by (simp_all add: env_ok_def)
  from store_append_holds [OF s ok z last run]
  have p: "r' = place (te_b3 e) ck a r" and c: "store_holds (te_b3 e) (te_zdec e) a' logs (lo @ [r']) \<or>
      (\<exists>x. ar_kind x = KAnchor \<and> anchor_ok x \<and> store_holds (te_b3 e) (te_zdec e) a' (logs @ [lo @ [r']]) [x])" by blast+
  from c have "\<exists>as. holds e a' (log @ r' # as) \<and> (\<forall>a \<in> set as. ar_kind a = KAnchor)"
  proof
    assume "store_holds (te_b3 e) (te_zdec e) a' logs (lo @ [r'])"
    then show ?thesis using e log by (intro exI [of _ "[]"]) (auto simp: holds_def store_inv_def)
  next
    assume "\<exists>x. ar_kind x = KAnchor \<and> anchor_ok x \<and> store_holds (te_b3 e) (te_zdec e) a' (logs @ [lo @ [r']]) [x]"
    then obtain x where "ar_kind x = KAnchor" "store_holds (te_b3 e) (te_zdec e) a' (logs @ [lo @ [r']]) [x]" by blast
    then show ?thesis using e log
      by (intro exI [of _ "[x]"]) (auto simp: holds_def store_inv_def intro!: exI [of _ "logs @ [lo @ [r']]"] exI [of _ "[x]"])
  qed
  with p place_subject show "same_subject r r' \<and> (\<exists>as. holds e a' (log @ r' # as) \<and> (\<forall>a \<in> set as. ar_kind a = KAnchor))" by blast
qed

section \<open>Sizes\<close>

lemma length_entry: "(k, v) \<in> set es \<Longrightarrow> length v \<le> length (put_entries es)"
proof -
  assume "(k, v) \<in> set es"
  then have "length v \<le> length (put_pairs es)" by (induction es) (auto simp: put_pairs_def)
  then show ?thesis by (simp add: put_entries_def)
qed

lemma append_small:
  assumes "store_append b3 zenc ck a r = Inr (a', r')"
  shows "length (ar_body r) \<le> MAX_FRAME"
proof -
  have "length (record_encode (place b3 ck a r)) \<le> MAX_FRAME"
    using assms by (auto simp: store_append_def append_frame_def Let_def rbind_Inr_iff split: if_splits)
  moreover have "length (record_unhashed (place b3 ck a r)) \<le> length (record_encode (place b3 ck a r))"
    by (simp add: record_encode_def)
  moreover have "length (ar_body r) \<le> length (record_unhashed (place b3 ck a r))"
    unfolding record_unhashed_entries by (rule length_entry [of "''body''"]) (simp add: record_entries_def place_def Let_def)
  ultimately show ?thesis by linarith
qed

lemma submit_record:
  assumes "rstr p" "\<forall>x. g = Some x \<longrightarrow> ulid_ok x" "\<forall>x. t = Some x \<longrightarrow> ulid_ok x" "item 7 b"
  shows "submit_ok (record_new\<lparr>ar_kind := k, ar_principal := p, ar_grant_id := g, ar_task_id := t, ar_body := b\<rparr>)"
  using assms by (auto simp: submit_ok_def record_ok_def record_new_def item_def GENESIS_def)

lemma submit_record': 
  assumes "rstr p" "\<forall>x. t = Some x \<longrightarrow> ulid_ok x" "item 7 b"
  shows "submit_ok (record_new\<lparr>ar_kind := k, ar_principal := p, ar_task_id := t, ar_body := b\<rparr>)"
  using assms by (auto simp: submit_ok_def record_ok_def record_new_def item_def GENESIS_def)

text \<open>The clock keeps the order of the segments through the next \<open>n\<close> appends.\<close>

fun orderly :: "nat \<Rightarrow> env \<Rightarrow> clocks \<Rightarrow> store \<Rightarrow> bool" where
  "orderly 0 e ck a \<longleftrightarrow> True"
| "orderly (Suc n) e ck a \<longleftrightarrow> next_segment_last (st_disk a) ck \<and>
     (\<forall>r a' r'. store_append (te_b3 e) (te_zenc e) ck a r = Inr (a', r') \<longrightarrow> orderly n e ck (store_sync ck a'))"

lemma append_sync_Inl: "append_sync e ck s r = (s', Inl err) \<Longrightarrow> s' = s \<and> (\<exists>x. err = TkStore x)"
  by (auto simp: append_sync_def split: sum.splits)

lemma append_sync_Inr:
  assumes "append_sync e ck s r = (s', Inr ())" "replays (holds e) (ts_audit s) rs" "orderly (Suc n) e ck (ts_audit s)" "submit_ok r"
    "replay_record rs r = Inr rs'"
  shows "\<exists>a. s' = s\<lparr>ts_audit := a\<rparr> \<and> replays (holds e) a rs' \<and> orderly n e ck a"
proof -
  from assms(1) obtain a r' where a: "store_append (te_b3 e) (te_zenc e) ck (ts_audit s) r = Inr (a, r')" "s' = s\<lparr>ts_audit := store_sync ck a\<rparr>"
    by (auto simp: append_sync_def split: sum.splits)
  have "replays (holds e) a rs'"
    using audit.replays_append [OF assms(2) _ assms(4) a(1) assms(5)] assms(3) by simp
  then have "replays (holds e) (store_sync ck a) rs'" by (simp add: replays_def)
  moreover have "orderly n e ck (store_sync ck a)" using a(1) assms(3) by auto
  ultimately show ?thesis using a(2) by blast
qed

lemma append_sync_small: "append_sync e ck s r = (s', Inr ()) \<Longrightarrow> length (ar_body r) \<le> MAX_FRAME"
  by (auto simp: append_sync_def dest: append_small split: sum.splits)

lemma journal_Inr:
  assumes run: "journal e ck s t op = (s', Inr ())" and rep: "replays (holds e) (ts_audit s) rs"
    and ord: "orderly (Suc n) e ck (ts_audit s)" and t: "task_ok t" "rstr op" and e: "env_ok e"
    and hs: "\<forall>k h. ts_hashes s k = Some h \<longrightarrow> length h = 32"
  shows "\<exists>a h. s' = s\<lparr>ts_audit := a, ts_hashes := (ts_hashes s)(ulid_bytes (t_id t) \<mapsto> h)\<rparr> \<and> length h = 32 \<and>
    (ts_hashes s (ulid_bytes (t_id t)) = Some h \<or> ts_hashes s (ulid_bytes (t_id t)) = None) \<and>
    replays (holds e) a (rs\<lparr>rp_hashes := (rp_hashes rs)(ulid_bytes (t_id t) \<mapsto> h), rp_tasks := put_task (erase t) (rp_tasks rs)\<rparr>) \<and>
    orderly n e ck a \<and> length (t_chain_root t) \<le> MAX_FRAME"
proof -
  define h where "h = (case ts_hashes s (ulid_bytes (t_id t)) of Some h \<Rightarrow> h | None \<Rightarrow> statement_hash (te_b3 e) t)"
  define s1 where "s1 = s\<lparr>ts_hashes := (ts_hashes s)(ulid_bytes (t_id t) \<mapsto> h)\<rparr>"
  define r where "r = record_new\<lparr>ar_kind := KTask, ar_principal := t_principal t, ar_task_id := Some (t_id t), ar_body := task_body t op h\<rparr>"
  have h: "length h = 32" using hs e by (simp add: h_def statement_hash_def env_ok_def split: option.splits)
  have run': "append_sync e ck s1 r = (s', Inr ())"
  proof (cases "ts_hashes s (ulid_bytes (t_id t))")
    case None
    then show ?thesis using run by (simp add: journal_def Let_def h_def s1_def r_def)
  next
    case (Some x)
    then have "s1 = s" by (simp add: s1_def h_def fun_upd_idem)
    then show ?thesis using run Some by (simp add: journal_def Let_def h_def r_def)
  qed
  have sub: "submit_ok r"
    unfolding r_def by (rule submit_record') (use t item_mono [OF item_task_body [OF t h]] in \<open>auto simp: task_ok_def\<close>)
  have rec: "replay_record rs r = Inr (rs\<lparr>rp_hashes := (rp_hashes rs)(ulid_bytes (t_id t) \<mapsto> h), rp_tasks := put_task (erase t) (rp_tasks rs)\<rparr>)"
    using reads_task_body [OF t h] by (simp add: replay_record_def r_def)
  have "length (put_text (t_chain_root t)) \<le> length (task_body t op h)"
    unfolding task_body_entries by (rule length_entry [of "''chain_root''"]) (simp add: task_entries_def)
  then have "length (t_chain_root t) \<le> MAX_FRAME"
    using append_sync_small [OF run'] by (simp add: r_def put_text_def)
  moreover have "replays (holds e) (ts_audit s1) rs" "orderly (Suc n) e ck (ts_audit s1)" using rep ord by (simp_all add: s1_def)
  from append_sync_Inr [OF run' this sub rec] obtain a where a: "s' = s1\<lparr>ts_audit := a\<rparr>" "orderly n e ck a"
    "replays (holds e) a (rs\<lparr>rp_hashes := (rp_hashes rs)(ulid_bytes (t_id t) \<mapsto> h), rp_tasks := put_task (erase t) (rp_tasks rs)\<rparr>)" by blast
  moreover have "ts_hashes s (ulid_bytes (t_id t)) = Some h \<or> ts_hashes s (ulid_bytes (t_id t)) = None"
    by (cases "ts_hashes s (ulid_bytes (t_id t))") (simp_all add: h_def)
  moreover have "s' = s\<lparr>ts_audit := a, ts_hashes := (ts_hashes s)(ulid_bytes (t_id t) \<mapsto> h)\<rparr>" using a(1) by (simp add: s1_def)
  ultimately show ?thesis using h by (intro exI [of _ a] exI [of _ h] conjI) simp_all
qed

lemma journal_Inl:
  "journal e ck s t op = (s', Inl err) \<Longrightarrow> \<exists>x. err = TkStore x"
  by (auto simp: journal_def Let_def dest: append_sync_Inl split: option.splits)

section \<open>Lists of tasks\<close>

lemma position_Some: "position P xs = Some i \<Longrightarrow> i < length xs \<and> P (xs ! i)"
  using nth_length_takeWhile [of "\<lambda>x. \<not> P x" xs] by (auto simp: position_def Let_def split: if_splits)

lemma position_None: "position P xs = None \<longleftrightarrow> (\<forall>x \<in> set xs. \<not> P x)"
proof -
  have "length (takeWhile (\<lambda>x. \<not> P x) xs) < length xs \<longleftrightarrow> takeWhile (\<lambda>x. \<not> P x) xs \<noteq> xs"
    by (metis append_Nil2 append_eq_append_conv le_neq_implies_less length_takeWhile_le less_irrefl takeWhile_dropWhile_id)
  then show ?thesis by (auto simp: position_def Let_def takeWhile_eq_all_conv)
qed

lemma position_map: "position P (map f xs) = position (\<lambda>x. P (f x)) xs"
  by (simp add: position_def Let_def takeWhile_map comp_def)

lemma put_task_new: "\<forall>x \<in> set ts. t_id x \<noteq> t_id t \<Longrightarrow> put_task (erase t) (map erase ts) = map erase (ts @ [t])"
  by (simp add: put_task_def position_map iffD2 [OF position_None])

lemma put_task_at:
  "position (\<lambda>x. t_id x = i) ts = Some k \<Longrightarrow> t_id t = i \<Longrightarrow> put_task (erase t) (map erase ts) = map erase (ts[k := t])"
  by (auto simp: put_task_def position_map map_update split: option.splits)

section \<open>Which grants count as revoked\<close>

definition dead :: "task list \<Rightarrow> ulid \<Rightarrow> bool" where
  "dead ts i \<longleftrightarrow> (\<exists>t \<in> set ts. t_id t = i \<and> \<not> is_live (t_state t))"

lemma dead_erase [simp]: "dead (map erase ts) = dead ts"
  by (auto simp: dead_def fun_eq_iff)

lemma settle_eq: "settle rs = map (\<lambda>g. if dead (rp_tasks rs) (g_task_id (is_grant g)) \<or> g_id (is_grant g) \<in> set (rp_revoked rs)
    then g\<lparr>is_revoked := True\<rparr> else g) (rp_issued rs)"
  by (auto simp: settle_def dead_def)

lemma settle_close:
  assumes "\<And>j. dead ts' j \<longleftrightarrow> dead (rp_tasks rs) j \<or> j = i"
    and "ids = map (\<lambda>g. g_id (is_grant g)) (filter (\<lambda>g. g_task_id (is_grant g) = i \<and> \<not> is_revoked g) (settle rs))"
    and "\<forall>g \<in> set (rp_issued rs). \<not> is_revoked g"
  shows "settle (rs\<lparr>rp_tasks := ts', rp_revoked := rp_revoked rs @ ids\<rparr>) =
    map (\<lambda>g. if g_id (is_grant g) \<in> set ids then g\<lparr>is_revoked := True\<rparr> else g) (settle rs)"
proof -
  have "g_id (is_grant g) \<in> set ids" if "g \<in> set (rp_issued rs)" "g_task_id (is_grant g) = i"
    "\<not> dead (rp_tasks rs) i" "g_id (is_grant g) \<notin> set (rp_revoked rs)" for g
  proof -
    have "g \<in> set (settle rs)" using that by (force simp: settle_eq)
    then show ?thesis using that assms(3) unfolding assms(2) by auto
  qed
  then show ?thesis using assms(1) by (auto simp: settle_eq)
qed

end
