(* ===== verification/TaskStore_Inv.thy ===== *)
theory TaskStore_Inv
  imports TaskStore_Journal
begin

text \<open>
  The invariant \<open>ts_inv\<close> of the task store, and that each operation keeps it: the journal replays to what
  is in memory, task ids are distinct, a principal has one live task at most, and every grant is sealed
  and bound to a task of its principal.
\<close>

section \<open>The invariant\<close>

text \<open>What the store in memory and the replayed journal have in common.\<close>

definition mirrors :: "task_store \<Rightarrow> replay_state \<Rightarrow> bool" where
  "mirrors s rs \<longleftrightarrow> rp_tasks rs = map erase (ts_tasks s) \<and> settle rs = ts_grants s \<and>
     (\<forall>i \<in> set (rp_issued rs). \<not> is_revoked i) \<and> rp_hashes rs \<subseteq>\<^sub>m ts_hashes s \<and>
     dom (rp_hashes rs) = (\<lambda>t. ulid_bytes (t_id t)) ` set (ts_tasks s) \<and>
     set (rp_revoked rs) \<subseteq> (\<lambda>i. g_id (is_grant i)) ` set (ts_grants s)"

text \<open>At most one live task per principal.\<close>

definition one_live :: "task list \<Rightarrow> bool" where
  "one_live ts \<longleftrightarrow> (\<forall>t \<in> set ts. \<forall>u \<in> set ts. is_live (t_state t) \<and> is_live (t_state u) \<and> t_principal t = t_principal u \<longrightarrow> t_id t = t_id u)"

lemma one_liveD:
  "one_live ts \<Longrightarrow> t \<in> set ts \<Longrightarrow> u \<in> set ts \<Longrightarrow> is_live (t_state t) \<Longrightarrow> is_live (t_state u) \<Longrightarrow> t_principal t = t_principal u \<Longrightarrow> t_id t = t_id u"
  unfolding one_live_def by blast

lemma one_liveI:
  "(\<And>t u. t \<in> set ts \<Longrightarrow> u \<in> set ts \<Longrightarrow> is_live (t_state t) \<Longrightarrow> is_live (t_state u) \<Longrightarrow> t_principal t = t_principal u \<Longrightarrow> t_id t = t_id u) \<Longrightarrow> one_live ts"
  unfolding one_live_def by blast

definition tasks_ok :: "task list \<Rightarrow> bool" where
  "tasks_ok ts \<longleftrightarrow> distinct (map t_id ts) \<and> (\<forall>t \<in> set ts. task_ok t \<and> length (t_chain_root t) \<le> MAX_FRAME) \<and> one_live ts"

definition issued_ok :: "env \<Rightarrow> task list \<Rightarrow> issued \<Rightarrow> bool" where
  "issued_ok e ts i \<longleftrightarrow> (let g = is_grant i; prot = protected_header (te_b3 e) (te_key e) in
     grant_ok g \<and> length (grant_encode g) < 2 ^ 64 \<and>
     is_cose i = cose_sign1 prot (grant_encode g) (te_sign e (sig_structure prot (grant_encode g))) \<and>
     (\<exists>t \<in> set ts. t_id t = g_task_id g \<and> t_principal t = g_principal g \<and> g_expires_ms g \<le> t_deadline_ms t \<and>
        (\<not> is_revoked i \<longrightarrow> is_live (t_state t))) \<and>
     (g_unattended g \<longrightarrow> sat_sub (g_expires_ms g) (g_issued_ms g) \<le> UNATTENDED_MAX_MS))"

definition grants_ok :: "env \<Rightarrow> task list \<Rightarrow> issued list \<Rightarrow> bool" where
  "grants_ok e ts gs \<longleftrightarrow> distinct (map (\<lambda>i. g_id (is_grant i)) gs) \<and> (\<forall>i \<in> set gs. issued_ok e ts i)"

definition ts_inv :: "env \<Rightarrow> task_store \<Rightarrow> bool" where
  "ts_inv e s \<longleftrightarrow> (\<exists>rs. replays (holds e) (ts_audit s) rs \<and> mirrors s rs) \<and> tasks_ok (ts_tasks s) \<and>
     grants_ok e (ts_tasks s) (ts_grants s) \<and> (\<forall>k h. ts_hashes s k = Some h \<longrightarrow> length h = 32)"

lemma ts_invD:
  assumes "ts_inv e s"
  obtains rs where "replays (holds e) (ts_audit s) rs" "mirrors s rs" "tasks_ok (ts_tasks s)"
    "grants_ok e (ts_tasks s) (ts_grants s)" "\<forall>k h. ts_hashes s k = Some h \<longrightarrow> length h = 32" "env_ok e"
  using assms by (auto simp: ts_inv_def replays_def holds_def)

text \<open>Replacing a task by one with the same identity that is not more alive.\<close>

definition succeeds :: "task \<Rightarrow> task \<Rightarrow> bool" where
  "succeeds t t' \<longleftrightarrow> t_id t' = t_id t \<and> t_principal t' = t_principal t \<and> t_deadline_ms t' = t_deadline_ms t \<and>
     (is_live (t_state t') \<longrightarrow> is_live (t_state t))"

lemma ids_update: "k < length ts \<Longrightarrow> t_id t' = t_id (ts ! k) \<Longrightarrow> map t_id (ts[k := t']) = map t_id ts"
  by (simp add: map_update) (metis length_map list_update_id nth_map)

lemma one_live_update:
  assumes "one_live ts" "k < length ts" "succeeds (ts ! k) t'"
  shows "one_live (ts[k := t'])"
proof (rule one_liveI)
  have k: "ts ! k \<in> set ts" using assms(2) by simp
  have old: "\<exists>x \<in> set ts. t_id x = t_id t \<and> t_principal x = t_principal t \<and> is_live (t_state x)"
    if "t \<in> set (ts[k := t'])" "is_live (t_state t)" for t
  proof (cases "t = t'")
    case True
    then show ?thesis using that(2) k assms(3) by (intro bexI [of _ "ts ! k"]) (simp_all add: succeeds_def)
  next
    case False
    then show ?thesis using that set_update_subset_insert [of ts k t'] by blast
  qed
  fix t u assume t: "t \<in> set (ts[k := t'])" "u \<in> set (ts[k := t'])" "is_live (t_state t)" "is_live (t_state u)" "t_principal t = t_principal u"
  from old [OF t(1,3)] old [OF t(2,4)] obtain x y where x: "x \<in> set ts" "t_id x = t_id t" "t_principal x = t_principal t" "is_live (t_state x)"
    and y: "y \<in> set ts" "t_id y = t_id u" "t_principal y = t_principal u" "is_live (t_state y)" by blast
  show "t_id t = t_id u" using one_liveD [OF assms(1) x(1) y(1) x(4) y(4)] x(2,3) y(2,3) t(5) by metis
qed

lemma tasks_ok_update:
  assumes "tasks_ok ts" "k < length ts" "succeeds (ts ! k) t'" "task_ok t'" "length (t_chain_root t') \<le> MAX_FRAME"
  shows "tasks_ok (ts[k := t'])"
  unfolding tasks_ok_def
proof (intro conjI ballI)
  fix t assume "t \<in> set (ts[k := t'])"
  then have "t = t' \<or> t \<in> set ts" using set_update_subset_insert [of ts k t'] by blast
  then show "task_ok t" "length (t_chain_root t) \<le> MAX_FRAME" using assms(1,4,5) by (auto simp: tasks_ok_def)
qed (use assms one_live_update in \<open>simp_all add: ids_update succeeds_def tasks_ok_def\<close>)

lemma issued_ok_update:
  assumes "issued_ok e ts i" "k < length ts" "succeeds (ts ! k) t'"
    "is_live (t_state (ts ! k)) \<and> \<not> is_live (t_state t') \<longrightarrow> g_task_id (is_grant i) = t_id t' \<longrightarrow> is_revoked i"
  shows "issued_ok e (ts[k := t']) i"
proof -
  from assms(1) obtain t where t: "t \<in> set ts" "t_id t = g_task_id (is_grant i)" "t_principal t = g_principal (is_grant i)"
    "g_expires_ms (is_grant i) \<le> t_deadline_ms t" "\<not> is_revoked i \<longrightarrow> is_live (t_state t)" by (auto simp: issued_ok_def Let_def)
  have "\<exists>t \<in> set (ts[k := t']). t_id t = g_task_id (is_grant i) \<and> t_principal t = g_principal (is_grant i) \<and>
      g_expires_ms (is_grant i) \<le> t_deadline_ms t \<and> (\<not> is_revoked i \<longrightarrow> is_live (t_state t))"
  proof (cases "t = ts ! k")
    case True
    then show ?thesis using t assms(2-4) set_update_memI [OF assms(2), of t'] by (intro bexI [of _ t']) (auto simp: succeeds_def)
  next
    case False
    from t(1) obtain j where "j < length ts" "ts ! j = t" by (auto simp: in_set_conv_nth)
    then have "t \<in> set (ts[k := t'])" using False by (metis length_list_update nth_list_update_neq nth_mem)
    then show ?thesis using t by blast
  qed
  then show ?thesis using assms(1) by (simp add: issued_ok_def Let_def)
qed

lemma issued_ok_revoked: "issued_ok e ts i \<Longrightarrow> issued_ok e ts (i\<lparr>is_revoked := True\<rparr>)"
  by (auto simp: issued_ok_def Let_def)

lemma issued_ok_more: "issued_ok e ts i \<Longrightarrow> issued_ok e (ts @ us) i"
  by (auto simp: issued_ok_def Let_def)

lemma settle_cong: "dead ts' = dead (rp_tasks rs) \<Longrightarrow> settle (rs\<lparr>rp_hashes := h, rp_tasks := ts'\<rparr>) = settle rs"
  by (simp add: settle_eq)

lemma mirrors_task:
  assumes "mirrors s rs" "put_task (erase t) (map erase (ts_tasks s)) = map erase ts'" "dead ts' = dead (ts_tasks s)"
    "t_id ` set ts' = insert (t_id t) (t_id ` set (ts_tasks s))"
  shows "mirrors (s\<lparr>ts_audit := a, ts_hashes := (ts_hashes s)(ulid_bytes (t_id t) \<mapsto> h), ts_tasks := ts'\<rparr>)
    (rs\<lparr>rp_hashes := (rp_hashes rs)(ulid_bytes (t_id t) \<mapsto> h), rp_tasks := put_task (erase t) (rp_tasks rs)\<rparr>)"
proof -
  have m: "rp_tasks rs = map erase (ts_tasks s)" "settle rs = ts_grants s" "rp_hashes rs \<subseteq>\<^sub>m ts_hashes s"
    "dom (rp_hashes rs) = (\<lambda>t. ulid_bytes (t_id t)) ` set (ts_tasks s)" using assms(1) by (simp_all add: mirrors_def)
  have "settle (rs\<lparr>rp_hashes := (rp_hashes rs)(ulid_bytes (t_id t) \<mapsto> h), rp_tasks := map erase ts'\<rparr>) = settle rs"
    using assms(3) m(1) by (intro settle_cong) simp
  moreover have "(\<lambda>t. ulid_bytes (t_id t)) ` set ts' = insert (ulid_bytes (t_id t)) ((\<lambda>t. ulid_bytes (t_id t)) ` set (ts_tasks s))"
    using arg_cong [OF assms(4), of "image ulid_bytes"] by (simp add: image_image)
  ultimately show ?thesis using assms(1,2) m unfolding mirrors_def by (simp add: map_le_upd)
qed

lemma counters_ok_default: "counters_ok counters_default"
  by (simp add: counters_ok_def counters_default_def ring_ok_def RATE_RING_def)

lemma ulid_ok_parts: "length ent = 10 \<Longrightarrow> ulid_ok (ulid_from_parts now ent)"
  by (simp add: ulid_ok_def ulid_from_parts_def)

lemma open_task_from_Inl:
  "open_task_from e ck ent s p orig oref stmt dl now res = (s', Inl err) \<Longrightarrow> s' = s \<or> (\<exists>x. err = TkStore x)"
  by (auto simp: open_task_from_def Let_def ts_bind_def dest: journal_Inl split: option.splits prod.splits sum.splits)

lemma live_task_None: "live_task s p = None \<longleftrightarrow> (\<forall>t \<in> set (ts_tasks s). t_principal t = p \<longrightarrow> \<not> is_live (t_state t))"
  by (auto simp: live_task_def find_None_iff)

lemma find_SomeD: "find P xs = Some x \<Longrightarrow> x \<in> set xs \<and> P x"
  by (auto simp: find_Some_iff)

lemma utf8_append: "\<forall>c \<in> set s. (of_char c :: nat) < 128 \<Longrightarrow> utf8 (s @ t) \<longleftrightarrow> utf8 t"
  by (induction s) (auto simp: utf8_def str_bytes_def word_less_nat_alt)

lemma rstr_ulid_text: "rstr (ulid_to_text u)"
proof -
  have len: "length (ulid_to_text u) = 26" by (simp add: ulid_to_text_def Let_def)
  have "ulid_to_text u ! i \<in> set CROCKFORD" if "i < 26" for i
    unfolding ulid_text_digit [OF that] by (rule nth_mem) (simp add: CROCKFORD_def)
  then have "set (ulid_to_text u) \<subseteq> set CROCKFORD" by (auto simp: in_set_conv_nth len)
  moreover have "\<forall>c \<in> set CROCKFORD. (of_char c :: nat) < 128" by (simp add: CROCKFORD_def)
  ultimately show ?thesis using utf8_ascii [of "ulid_to_text u"] len by (auto simp: rstr_def)
qed

lemma rstr_collapsed:
  assumes "rstr root" "length root \<le> MAX_FRAME"
  shows "rstr (''collapsed:'' @ root)"
proof -
  have "utf8 (''collapsed:'' @ root)" using assms(1) by (subst utf8_append) (simp_all add: rstr_def)
  then show ?thesis using assms(2) by (simp add: rstr_def MAX_FRAME_def)
qed

lemma ts_bind_Inr: "ts_bind x f = (s', Inr b) \<longleftrightarrow> (\<exists>s1 a. x = (s1, Inr a) \<and> f s1 a = (s', Inr b))"
  by (auto simp: ts_bind_def split: prod.splits sum.splits)

lemma ts_bind_Inl: "ts_bind x f = (s', Inl err) \<longleftrightarrow> x = (s', Inl err) \<or> (\<exists>s1 a. x = (s1, Inr a) \<and> f s1 a = (s', Inl err))"
  by (auto simp: ts_bind_def split: prod.splits sum.splits)

text \<open>The task \<open>open_task_from\<close> builds.\<close>

definition new_task :: "task_store \<Rightarrow> ulid \<Rightarrow> string \<Rightarrow> origin \<Rightarrow> string \<Rightarrow> string \<Rightarrow> u64 \<Rightarrow> u64 \<Rightarrow> ulid option \<Rightarrow> task" where
  "new_task s i p orig oref stmt deadline now resumes =
    (let t = \<lparr>t_id = i, t_principal = p, t_origin = orig, t_origin_ref = oref, t_statement = stmt, t_agent_note = None,
               t_parent_task_id = None, t_depth = 0, t_state = Active, t_opened_ms = now, t_deadline_ms = deadline,
               t_chain_root = [], t_counters = counters_default\<rparr>
     in case Option.bind resumes (task_of s) of
               None \<Rightarrow> t
             | Some old \<Rightarrow>
                 let root = (if t_chain_root old = [] then ulid_to_text (t_id old) else t_chain_root old) in
                 t\<lparr>t_chain_root := ''collapsed:'' @ root,
                   t_counters := (t_counters t)\<lparr>irreversible := irreversible (t_counters old),
                     irreversible_by_class := irreversible_by_class (t_counters old),
                     denied_irreversible_streak := denied_irreversible_streak (t_counters old)\<rparr>\<rparr>)"

lemma new_task_simps [simp]:
  "t_id (new_task s i p orig oref stmt deadline now resumes) = i"
  "t_principal (new_task s i p orig oref stmt deadline now resumes) = p"
  "t_state (new_task s i p orig oref stmt deadline now resumes) = Active"
  "t_deadline_ms (new_task s i p orig oref stmt deadline now resumes) = deadline"
  by (simp_all add: new_task_def Let_def split: option.splits)

lemma open_task_from_eq:
  "open_task_from e ck ent s p orig oref stmt deadline now resumes =
    (case live_task s p of
       Some t \<Rightarrow> (s, Inl (AlreadyLive (t_id t)))
     | None \<Rightarrow>
         (let t = new_task s (ulid_from_parts now ent) p orig oref stmt deadline now resumes
          in ts_bind (journal e ck s t ''open'') (\<lambda>s _. (s\<lparr>ts_tasks := ts_tasks s @ [t]\<rparr>, Inr (t_id t)))))"
  unfolding open_task_from_def Let_def by (simp add: new_task_def Let_def split: option.splits)

lemma new_task_ok:
  assumes "tasks_ok (ts_tasks s)" "ulid_ok i" "rstr p" "rstr oref"
  shows "task_ok (new_task s i p orig oref stmt deadline now resumes)"
proof (cases "Option.bind resumes (task_of s)")
  case None
  then show ?thesis using assms by (simp add: new_task_def task_ok_def counters_ok_default rstr_def utf8_def str_bytes_def)
next
  case (Some old)
  then have "old \<in> set (ts_tasks s)" by (auto simp: task_of_def bind_eq_Some_conv dest: find_SomeD)
  then have old: "task_ok old" "length (t_chain_root old) \<le> MAX_FRAME" using assms(1) by (auto simp: tasks_ok_def)
  let ?root = "if t_chain_root old = [] then ulid_to_text (t_id old) else t_chain_root old"
  have "rstr ?root" "length ?root \<le> MAX_FRAME"
    using old rstr_ulid_text by (auto simp: task_ok_def ulid_to_text_def MAX_FRAME_def Let_def)
  then have "rstr (''collapsed:'' @ ?root)" by (rule rstr_collapsed)
  then show ?thesis using assms old Some by (auto simp: new_task_def task_ok_def counters_ok_def counters_default_def Let_def)
qed

lemma rstr_ops: "rstr ''open''" "rstr ''close''" "rstr ''state''" "rstr ''counters''"
  by (simp_all add: rstr_def utf8_ascii)

lemma tasks_ok_new:
  assumes "tasks_ok ts" "task_ok t" "length (t_chain_root t) \<le> MAX_FRAME" "\<forall>x \<in> set ts. t_id x \<noteq> t_id t"
    "\<forall>x \<in> set ts. t_principal x = t_principal t \<longrightarrow> \<not> is_live (t_state x)"
  shows "tasks_ok (ts @ [t])"
proof -
  have "one_live (ts @ [t])"
  proof (rule one_liveI)
    fix x y assume x: "x \<in> set (ts @ [t])" "y \<in> set (ts @ [t])" "is_live (t_state x)" "is_live (t_state y)" "t_principal x = t_principal y"
    have ts: "one_live ts" using assms(1) by (simp add: tasks_ok_def)
    have "x = t \<or> x \<in> set ts" "y = t \<or> y \<in> set ts" using x(1,2) by simp_all
    then show "t_id x = t_id y" using assms(5) x(3-5) one_liveD [OF ts, of x y] by metis
  qed
  moreover have "distinct (map t_id (ts @ [t]))" using assms(1,4) by (auto simp: tasks_ok_def)
  moreover have "\<forall>x \<in> set (ts @ [t]). task_ok x \<and> length (t_chain_root x) \<le> MAX_FRAME"
    using assms(1-3) by (auto simp: tasks_ok_def)
  ultimately show ?thesis unfolding tasks_ok_def by blast
qed

lemma open_task_from_inv:
  assumes inv: "ts_inv e s" and ord: "orderly (Suc n) e ck (ts_audit s)"
    and run: "open_task_from e ck ent s p orig oref stmt dl now res = (s', Inr i)"
    and p: "rstr p" "rstr oref" "length ent = 10" "\<forall>t \<in> set (ts_tasks s). t_id t \<noteq> ulid_from_parts now ent"
  shows "ts_inv e s' \<and> orderly n e ck (ts_audit s') \<and> ts_grants s' = ts_grants s \<and> i = ulid_from_parts now ent \<and>
    ts_tasks s' = ts_tasks s @ [new_task s i p orig oref stmt dl now res] \<and> live_task s p = None"
proof -
  let ?i = "ulid_from_parts now ent"
  define t where "t = new_task s ?i p orig oref stmt dl now res"
  from inv obtain rs where rs: "replays (holds e) (ts_audit s) rs" "mirrors s rs" "tasks_ok (ts_tasks s)"
    "grants_ok e (ts_tasks s) (ts_grants s)" "\<forall>k h. ts_hashes s k = Some h \<longrightarrow> length h = 32" "env_ok e" by (rule ts_invD)
  have tk: "task_ok t" unfolding t_def by (rule new_task_ok [OF rs(3) ulid_ok_parts [OF p(3)] p(1,2)])
  have live: "live_task s p = None" using run by (auto simp: open_task_from_eq split: option.splits)
  have "ts_bind (journal e ck s t ''open'') (\<lambda>s _. (s\<lparr>ts_tasks := ts_tasks s @ [t]\<rparr>, Inr (t_id t))) = (s', Inr i)"
    using run by (simp add: open_task_from_eq live t_def Let_def)
  then obtain s1 where j: "journal e ck s t ''open'' = (s1, Inr ())" and s': "s' = s1\<lparr>ts_tasks := ts_tasks s1 @ [t]\<rparr>" and i: "i = ?i"
    by (auto simp: ts_bind_Inr t_def)
  from journal_Inr [OF j rs(1) ord tk rstr_ops(1) rs(6) rs(5)] obtain a h where
    a: "s1 = s\<lparr>ts_audit := a, ts_hashes := (ts_hashes s)(ulid_bytes (t_id t) \<mapsto> h)\<rparr>" "length h = 32" "orderly n e ck a"
      "replays (holds e) a (rs\<lparr>rp_hashes := (rp_hashes rs)(ulid_bytes (t_id t) \<mapsto> h), rp_tasks := put_task (erase t) (rp_tasks rs)\<rparr>)"
      "length (t_chain_root t) \<le> MAX_FRAME" by blast
  have s'': "s' = s\<lparr>ts_audit := a, ts_hashes := (ts_hashes s)(ulid_bytes (t_id t) \<mapsto> h), ts_tasks := ts_tasks s @ [t]\<rparr>"
    using s' a(1) by simp
  have fresh: "\<forall>x \<in> set (ts_tasks s). t_id x \<noteq> t_id t" using p(4) by (simp add: t_def)
  have "mirrors s' (rs\<lparr>rp_hashes := (rp_hashes rs)(ulid_bytes (t_id t) \<mapsto> h), rp_tasks := put_task (erase t) (rp_tasks rs)\<rparr>)"
    unfolding s'' by (rule mirrors_task [OF rs(2) put_task_new [OF fresh]]) (auto simp: dead_def t_def fun_eq_iff)
  moreover have "tasks_ok (ts_tasks s @ [t])"
    using live by (intro tasks_ok_new rs(3) tk a(5) fresh) (simp add: live_task_None t_def)
  moreover have "grants_ok e (ts_tasks s @ [t]) (ts_grants s)"
    using rs(4) issued_ok_more by (auto simp: grants_ok_def)
  ultimately have "ts_inv e s'" using a(2,4) rs(5) unfolding ts_inv_def by (auto simp: s'')
  then show ?thesis using a(3) i live by (simp add: s'' t_def)
qed

lemma orderly_less: "orderly (Suc n) e ck a \<Longrightarrow> orderly n e ck a"
proof (induction n arbitrary: a)
  case (Suc n)
  have "next_segment_last (st_disk a) ck" using Suc.prems by simp
  moreover have "orderly n e ck (store_sync ck a')" if "store_append (te_b3 e) (te_zenc e) ck a r = Inr (a', r')" for r a' r'
    by (rule Suc.IH) (use Suc.prems that in \<open>auto simp del: orderly.simps(2) simp: orderly.simps(2) [of "Suc n"]\<close>)
  ultimately show ?case by auto
qed simp

lemma orderly_mono: "m \<le> n \<Longrightarrow> orderly n e ck a \<Longrightarrow> orderly m e ck a"
  by (induction rule: inc_induct) (blast dest: orderly_less)+

section \<open>Revocation\<close>

definition live_ids :: "issued list \<Rightarrow> ulid \<Rightarrow> ulid list" where
  "live_ids gs i = map (\<lambda>g. g_id (is_grant g)) (filter (\<lambda>g. g_task_id (is_grant g) = i \<and> \<not> is_revoked g) gs)"

definition revoke_all :: "ulid list \<Rightarrow> issued list \<Rightarrow> issued list" where
  "revoke_all ids gs = map (\<lambda>g. if g_id (is_grant g) \<in> set ids then g\<lparr>is_revoked := True\<rparr> else g) gs"

lemma revoke_all_Nil [simp]: "revoke_all [] gs = gs"
  by (simp add: revoke_all_def)

lemma length_ids: "length ids \<le> length (revoke_body ids)"
proof -
  have "length (put_array (length ids) @ concat (map (\<lambda>i. put_bytes (ulid_bytes i)) ids)) \<le> length (revoke_body ids)"
    unfolding revoke_body_eq by (rule length_entry [of "''grants''"]) (simp add: revoke_entries_def)
  moreover have "length ids \<le> length (concat (map (\<lambda>i. put_bytes (ulid_bytes i)) ids))"
  proof (induction ids)
    case (Cons i ids)
    have "0 < length (put_bytes (ulid_bytes i))" by (simp add: put_bytes_def put_head_def Let_def)
    then have "1 \<le> length (put_bytes (ulid_bytes i))" by linarith
    then show ?case using Cons by simp
  qed simp
  ultimately show ?thesis by simp
qed

lemma revoke_for_task_Inr:
  assumes run: "revoke_for_task e ck s i = (s', Inr ())" and rep: "replays (holds e) (ts_audit s) rs"
    and ord: "orderly (Suc n) e ck (ts_audit s)" and i: "ulid_ok i" "\<forall>t. task_of s i = Some t \<longrightarrow> rstr (t_principal t)"
    and gs: "\<forall>g \<in> set (ts_grants s). ulid_ok (g_id (is_grant g))"
  shows "\<exists>a. s' = s\<lparr>ts_audit := a, ts_grants := revoke_all (live_ids (ts_grants s) i) (ts_grants s)\<rparr> \<and>
    replays (holds e) a (rs\<lparr>rp_revoked := rp_revoked rs @ live_ids (ts_grants s) i\<rparr>) \<and> orderly n e ck a"
proof (cases "live_ids (ts_grants s) i = []")
  case True
  then have "s' = s" using run by (simp add: revoke_for_task_def live_ids_def)
  then show ?thesis using rep orderly_less [OF ord] by (intro exI [of _ "ts_audit s"]) (simp add: True)
next
  case False
  define ids where "ids = live_ids (ts_grants s) i"
  define p where "p = (case task_of s i of Some t \<Rightarrow> t_principal t | None \<Rightarrow> [])"
  define r where "r = record_new\<lparr>ar_kind := KRevoke, ar_principal := p, ar_task_id := Some i, ar_body := revoke_body ids\<rparr>"
  have "ts_bind (append_sync e ck s r) (\<lambda>s _. (s\<lparr>ts_grants := revoke_all ids (ts_grants s)\<rparr>, Inr ())) = (s', Inr ())"
    using run False unfolding revoke_for_task_def Let_def live_ids_def [symmetric] p_def [symmetric] ids_def [symmetric] r_def [symmetric] revoke_all_def [symmetric]
    by simp
  then obtain s1 where s1: "append_sync e ck s r = (s1, Inr ())" and s': "s' = s1\<lparr>ts_grants := revoke_all ids (ts_grants s1)\<rparr>"
    by (auto simp: ts_bind_Inr)
  have "length ids < 2 ^ 64"
    using append_sync_small [OF s1] length_ids [of ids] by (simp add: r_def MAX_FRAME_def)
  moreover have "\<forall>x \<in> set ids. ulid_ok x" using gs by (auto simp: ids_def live_ids_def)
  moreover have "rstr p" using i(2) by (auto simp: p_def rstr_def utf8_def str_bytes_def split: option.splits)
  ultimately have "submit_ok r" and rec: "replay_record rs r = Inr (rs\<lparr>rp_revoked := rp_revoked rs @ ids\<rparr>)"
    using i(1) by (auto simp: r_def replay_record_def reads_revoked intro!: submit_record' item_mono [OF item_revoke_body])
  from append_sync_Inr [OF s1 rep ord this] s' show ?thesis by (auto simp: ids_def)
qed

lemma revoke_for_task_Inl: "revoke_for_task e ck s i = (s', Inl err) \<Longrightarrow> \<exists>x. err = TkStore x"
  by (auto simp: revoke_for_task_def Let_def ts_bind_Inl dest: append_sync_Inl split: if_splits)

section \<open>Events\<close>

lemma dead_update:
  assumes "k < length ts" "succeeds (ts ! k) t'"
  shows "dead (ts[k := t']) j \<longleftrightarrow> dead ts j \<or> t_id t' = j \<and> \<not> is_live (t_state t')"
proof
  assume "dead (ts[k := t']) j"
  then show "dead ts j \<or> t_id t' = j \<and> \<not> is_live (t_state t')"
    using set_update_subset_insert [of ts k t'] by (auto simp: dead_def)
next
  have new: "t' \<in> set (ts[k := t'])" using assms(1) by (rule set_update_memI)
  assume "dead ts j \<or> t_id t' = j \<and> \<not> is_live (t_state t')"
  then show "dead (ts[k := t']) j"
  proof
    assume "dead ts j"
    then obtain x where x: "x \<in> set ts" "t_id x = j" "\<not> is_live (t_state x)" by (auto simp: dead_def)
    show ?thesis
    proof (cases "x = ts ! k")
      case True
      then show ?thesis using x new assms(2) by (auto simp: dead_def succeeds_def)
    next
      case False
      from x(1) obtain l where "l < length ts" "ts ! l = x" by (auto simp: in_set_conv_nth)
      then have "x \<in> set (ts[k := t'])" using False by (metis length_list_update nth_list_update_neq nth_mem)
      then show ?thesis using x by (auto simp: dead_def)
    qed
  qed (use new in \<open>auto simp: dead_def\<close>)
qed

lemma transition_live: "transition st ev = Inr nxt \<Longrightarrow> is_live st"
  by (cases st) simp_all

lemma revoke_all_in: "g' \<in> set (revoke_all ids gs) \<Longrightarrow>
    \<exists>g \<in> set gs. g' = (if g_id (is_grant g) \<in> set ids then g\<lparr>is_revoked := True\<rparr> else g)"
  by (auto simp: revoke_all_def)

lemma revoke_all_ids: "map (\<lambda>g. g_id (is_grant g)) (revoke_all ids gs) = map (\<lambda>g. g_id (is_grant g)) gs"
  by (auto simp: revoke_all_def)

lemma grants_ok_close:
  assumes "grants_ok e ts gs" "k < length ts" "succeeds (ts ! k) t'"
  shows "grants_ok e (ts[k := t']) (revoke_all (live_ids gs (t_id t')) gs)"
  unfolding grants_ok_def revoke_all_ids
proof (intro conjI ballI)
  fix g' assume "g' \<in> set (revoke_all (live_ids gs (t_id t')) gs)"
  then obtain g where g: "g \<in> set gs" "g' = (if g_id (is_grant g) \<in> set (live_ids gs (t_id t')) then g\<lparr>is_revoked := True\<rparr> else g)"
    by (blast dest: revoke_all_in)
  then have "issued_ok e ts g'" using assms(1) by (auto simp: grants_ok_def issued_ok_revoked)
  moreover have "g_task_id (is_grant g') = t_id t' \<longrightarrow> is_revoked g'" using g by (auto simp: live_ids_def)
  ultimately show "issued_ok e (ts[k := t']) g'" using assms(2,3) by (intro issued_ok_update) auto
qed (use assms(1) in \<open>simp add: grants_ok_def\<close>)

lemma grants_ok_update:
  assumes "grants_ok e ts gs" "k < length ts" "succeeds (ts ! k) t'" "is_live (t_state (ts ! k)) \<longrightarrow> is_live (t_state t')"
  shows "grants_ok e (ts[k := t']) gs"
  using assms by (auto simp: grants_ok_def intro!: issued_ok_update)

lemma put_task_ids:
  "k < length ts \<Longrightarrow> t_id t' = t_id (ts ! k) \<Longrightarrow> t_id ` set (ts[k := t']) = insert (t_id t') (t_id ` set ts)"
  using arg_cong [OF ids_update [of k ts t'], of set] by force

text \<open>Journalling a successor of a task and then storing it.\<close>

lemma update_inv:
  assumes inv: "ts_inv e s" and ord: "orderly (Suc n) e ck (ts_audit s)"
    and k: "position (\<lambda>t. t_id t = i) (ts_tasks s) = Some k" and t': "succeeds (ts_tasks s ! k) t'" "task_ok t'"
    and live: "is_live (t_state (ts_tasks s ! k)) \<longrightarrow> is_live (t_state t')"
    and run: "journal e ck s t' op = (s1, Inr ())" "rstr op"
  shows "ts_inv e (s1\<lparr>ts_tasks := (ts_tasks s1)[k := t']\<rparr>) \<and> orderly n e ck (ts_audit s1) \<and>
    ts_tasks s1 = ts_tasks s \<and> ts_grants s1 = ts_grants s"
proof -
  from inv obtain rs where rs: "replays (holds e) (ts_audit s) rs" "mirrors s rs" "tasks_ok (ts_tasks s)"
    "grants_ok e (ts_tasks s) (ts_grants s)" "\<forall>k h. ts_hashes s k = Some h \<longrightarrow> length h = 32" "env_ok e" by (rule ts_invD)
  from position_Some [OF k] have kl: "k < length (ts_tasks s)" and id: "t_id t' = i" using t'(1) by (simp_all add: succeeds_def)
  from journal_Inr [OF run(1) rs(1) ord t'(2) run(2) rs(6) rs(5)] obtain a h where
    a: "s1 = s\<lparr>ts_audit := a, ts_hashes := (ts_hashes s)(ulid_bytes (t_id t') \<mapsto> h)\<rparr>" "length h = 32" "orderly n e ck a"
      "replays (holds e) a (rs\<lparr>rp_hashes := (rp_hashes rs)(ulid_bytes (t_id t') \<mapsto> h), rp_tasks := put_task (erase t') (rp_tasks rs)\<rparr>)"
      "length (t_chain_root t') \<le> MAX_FRAME" by blast
  let ?ts = "(ts_tasks s)[k := t']"
  have "dead ?ts = dead (ts_tasks s)"
    using dead_update [OF kl t'(1)] live nth_mem [OF kl] t'(1) by (auto simp: fun_eq_iff dead_def succeeds_def)
  then have "mirrors (s\<lparr>ts_audit := a, ts_hashes := (ts_hashes s)(ulid_bytes (t_id t') \<mapsto> h), ts_tasks := ?ts\<rparr>)
     (rs\<lparr>rp_hashes := (rp_hashes rs)(ulid_bytes (t_id t') \<mapsto> h), rp_tasks := put_task (erase t') (rp_tasks rs)\<rparr>)"
    using kl t'(1) by (intro mirrors_task [OF rs(2) put_task_at [OF k id]] put_task_ids) (simp_all add: succeeds_def)
  moreover have "tasks_ok ?ts" by (rule tasks_ok_update [OF rs(3) kl t' a(5)])
  moreover have "grants_ok e ?ts (ts_grants s)" by (rule grants_ok_update [OF rs(4) kl t'(1) live])
  ultimately show ?thesis using a(2-4) rs(5) unfolding ts_inv_def by (auto simp: a(1))
qed

text \<open>Closing: journalling the closed task, revoking its grants, then storing it.\<close>

lemma close_inv:
  assumes inv: "ts_inv e s" and ord: "orderly (Suc (Suc n)) e ck (ts_audit s)"
    and k: "position (\<lambda>t. t_id t = i) (ts_tasks s) = Some k" and t': "succeeds (ts_tasks s ! k) t'" "task_ok t'"
    and closed: "\<not> is_live (t_state t')"
    and run: "journal e ck s t' op = (s1, Inr ())" "rstr op" "revoke_for_task e ck s1 i = (s2, Inr ())"
  shows "ts_inv e (s2\<lparr>ts_tasks := (ts_tasks s2)[k := t']\<rparr>) \<and> orderly n e ck (ts_audit s2) \<and>
    ts_tasks s2 = ts_tasks s \<and> ts_grants s2 = revoke_all (live_ids (ts_grants s) i) (ts_grants s)"
proof -
  from inv obtain rs where rs: "replays (holds e) (ts_audit s) rs" "mirrors s rs" "tasks_ok (ts_tasks s)"
    "grants_ok e (ts_tasks s) (ts_grants s)" "\<forall>k h. ts_hashes s k = Some h \<longrightarrow> length h = 32" "env_ok e" by (rule ts_invD)
  from position_Some [OF k] have kl: "k < length (ts_tasks s)" and id: "t_id t' = i" using t'(1) by (simp_all add: succeeds_def)
  from journal_Inr [OF run(1) rs(1) ord t'(2) run(2) rs(6) rs(5)] obtain a h where
    a: "s1 = s\<lparr>ts_audit := a, ts_hashes := (ts_hashes s)(ulid_bytes (t_id t') \<mapsto> h)\<rparr>" "length h = 32" "orderly (Suc n) e ck a"
      "replays (holds e) a (rs\<lparr>rp_hashes := (rp_hashes rs)(ulid_bytes (t_id t') \<mapsto> h), rp_tasks := put_task (erase t') (rp_tasks rs)\<rparr>)"
      "length (t_chain_root t') \<le> MAX_FRAME" by blast
  let ?ids = "live_ids (ts_grants s) i" and ?ts = "(ts_tasks s)[k := t']"
  let ?gs = "revoke_all ?ids (ts_grants s)"
  let ?rs = "rs\<lparr>rp_hashes := (rp_hashes rs)(ulid_bytes (t_id t') \<mapsto> h), rp_tasks := put_task (erase t') (rp_tasks rs)\<rparr>"
  have ok: "ulid_ok i" "\<forall>t. task_of s1 i = Some t \<longrightarrow> rstr (t_principal t)" "\<forall>g \<in> set (ts_grants s1). ulid_ok (g_id (is_grant g))"
    using t'(2) id rs(3,4) by (auto simp: a(1) task_of_def task_ok_def tasks_ok_def grants_ok_def issued_ok_def grant_ok_def Let_def dest!: find_SomeD)
  have rep1: "replays (holds e) (ts_audit s1) ?rs" "orderly (Suc n) e ck (ts_audit s1)" using a by simp_all
  from revoke_for_task_Inr [OF run(3) rep1 ok] obtain b where
    b: "s2 = s1\<lparr>ts_audit := b, ts_grants := ?gs\<rparr>" "replays (holds e) b (?rs\<lparr>rp_revoked := rp_revoked rs @ ?ids\<rparr>)" "orderly n e ck b"
    by (auto simp: a(1))
  have m: "rp_tasks rs = map erase (ts_tasks s)" "settle rs = ts_grants s" "\<forall>g \<in> set (rp_issued rs). \<not> is_revoked g"
    "rp_hashes rs \<subseteq>\<^sub>m ts_hashes s" "dom (rp_hashes rs) = (\<lambda>t. ulid_bytes (t_id t)) ` set (ts_tasks s)"
    "set (rp_revoked rs) \<subseteq> (\<lambda>i. g_id (is_grant i)) ` set (ts_grants s)"
    using rs(2) by (simp_all add: mirrors_def)
  have pt: "put_task (erase t') (rp_tasks rs) = map erase ?ts" using put_task_at [OF k id] m(1) by simp
  have "settle (rs\<lparr>rp_tasks := map erase ?ts, rp_revoked := rp_revoked rs @ ?ids\<rparr>) = ?gs"
    unfolding m(2) [symmetric] revoke_all_def
    by (rule settle_close [where i = i]) (use dead_update [OF kl t'(1)] closed id m(1,3) in \<open>auto simp: live_ids_def\<close>)
  then have settled: "settle (?rs\<lparr>rp_revoked := rp_revoked rs @ ?ids\<rparr>) = ?gs" by (simp add: settle_eq pt)
  have ids: "set ?ids \<subseteq> (\<lambda>i. g_id (is_grant i)) ` set ?gs" "(\<lambda>i. g_id (is_grant i)) ` set ?gs = (\<lambda>i. g_id (is_grant i)) ` set (ts_grants s)"
    using arg_cong [OF revoke_all_ids [of ?ids "ts_grants s"], of set] by (auto simp: live_ids_def)
  have doms: "(\<lambda>t. ulid_bytes (t_id t)) ` set ?ts = insert (ulid_bytes (t_id t')) ((\<lambda>t. ulid_bytes (t_id t)) ` set (ts_tasks s))"
    using arg_cong [OF put_task_ids [OF kl, of t'], of "image ulid_bytes"] t'(1) by (simp add: image_image succeeds_def)
  have "mirrors (s2\<lparr>ts_tasks := ?ts\<rparr>) (?rs\<lparr>rp_revoked := rp_revoked rs @ ?ids\<rparr>)"
    using settled m ids doms put_task_at [OF k id] by (simp add: mirrors_def a(1) b(1) map_le_upd)
  moreover have "tasks_ok ?ts" by (rule tasks_ok_update [OF rs(3) kl t' a(5)])
  moreover have "grants_ok e ?ts ?gs" using grants_ok_close [OF rs(4) kl t'(1)] id by simp
  ultimately show ?thesis using a(2) b(2,3) rs(5) unfolding ts_inv_def by (auto simp: a(1) b(1))
qed

lemma close_run: "transition st ev = Inr nxt \<Longrightarrow> (case nxt of Closed _ \<Rightarrow> True | _ \<Rightarrow> False) = (\<not> is_live nxt)"
  by (cases nxt) simp_all

lemma task_apply_Inr:
  assumes "task_apply e ck s i ev = (s', Inr nxt)"
  obtains k s1 s2 where "position (\<lambda>t. t_id t = i) (ts_tasks s) = Some k" "transition (t_state (ts_tasks s ! k)) ev = Inr nxt"
    "journal e ck s ((ts_tasks s ! k)\<lparr>t_state := nxt\<rparr>) (if is_live nxt then ''state'' else ''close'') = (s1, Inr ())"
    "(if is_live nxt then s2 = s1 else revoke_for_task e ck s1 i = (s2, Inr ()))"
    "s' = s2\<lparr>ts_tasks := (ts_tasks s2)[k := (ts_tasks s2 ! k)\<lparr>t_state := nxt\<rparr>]\<rparr>"
  using assms close_run
  by (auto simp: task_apply_def Let_def ts_bind_Inr split: option.splits sum.splits if_splits)

lemma apply_inv:
  assumes inv: "ts_inv e s" and ord: "orderly (Suc (Suc n)) e ck (ts_audit s)" and run: "task_apply e ck s i ev = (s', Inr nxt)"
  shows "ts_inv e s' \<and> orderly n e ck (ts_audit s') \<and>
    (\<exists>k. position (\<lambda>t. t_id t = i) (ts_tasks s) = Some k \<and> transition (t_state (ts_tasks s ! k)) ev = Inr nxt \<and>
       ts_tasks s' = (ts_tasks s)[k := (ts_tasks s ! k)\<lparr>t_state := nxt\<rparr>] \<and>
       ts_grants s' = (if is_live nxt then ts_grants s else revoke_all (live_ids (ts_grants s) i) (ts_grants s)))"
proof -
  from run obtain k s1 s2 where k: "position (\<lambda>t. t_id t = i) (ts_tasks s) = Some k" and tr: "transition (t_state (ts_tasks s ! k)) ev = Inr nxt"
    and j: "journal e ck s ((ts_tasks s ! k)\<lparr>t_state := nxt\<rparr>) (if is_live nxt then ''state'' else ''close'') = (s1, Inr ())"
    and r: "(if is_live nxt then s2 = s1 else revoke_for_task e ck s1 i = (s2, Inr ()))"
    and s': "s' = s2\<lparr>ts_tasks := (ts_tasks s2)[k := (ts_tasks s2 ! k)\<lparr>t_state := nxt\<rparr>]\<rparr>" by (rule task_apply_Inr)
  let ?t = "(ts_tasks s ! k)\<lparr>t_state := nxt\<rparr>"
  from position_Some [OF k] have kl: "k < length (ts_tasks s)" by simp
  then have "task_ok (ts_tasks s ! k)" using inv by (simp add: ts_inv_def tasks_ok_def)
  then have t: "succeeds (ts_tasks s ! k) ?t" "task_ok ?t"
    using transition_live [OF tr] by (simp_all add: succeeds_def task_ok_def)
  show ?thesis
  proof (cases "is_live nxt")
    case True
    then have j': "journal e ck s ?t ''state'' = (s1, Inr ())" and s2: "s2 = s1" using j r by simp_all
    have lv: "is_live (t_state (ts_tasks s ! k)) \<longrightarrow> is_live (t_state ?t)" using True by simp
    from update_inv [OF inv ord k t lv j' rstr_ops(3)] have u: "ts_inv e (s1\<lparr>ts_tasks := (ts_tasks s1)[k := ?t]\<rparr>)"
      "orderly (Suc n) e ck (ts_audit s1)" "ts_tasks s1 = ts_tasks s" "ts_grants s1 = ts_grants s" by blast+
    have "s' = s1\<lparr>ts_tasks := (ts_tasks s1)[k := ?t]\<rparr>" using s' s2 u(3) by simp
    then show ?thesis using True k tr u orderly_less [OF u(2)] by simp
  next
    case False
    then have j': "journal e ck s ?t ''close'' = (s1, Inr ())" and r': "revoke_for_task e ck s1 i = (s2, Inr ())" using j r by simp_all
    have dd: "\<not> is_live (t_state ?t)" using False by simp
    from close_inv [OF inv ord k t dd j' rstr_ops(2) r'] have u: "ts_inv e (s2\<lparr>ts_tasks := (ts_tasks s2)[k := ?t]\<rparr>)"
      "orderly n e ck (ts_audit s2)" "ts_tasks s2 = ts_tasks s" "ts_grants s2 = revoke_all (live_ids (ts_grants s) i) (ts_grants s)" by blast+
    have "s' = s2\<lparr>ts_tasks := (ts_tasks s2)[k := ?t]\<rparr>" using s' u(3) by simp
    then show ?thesis using False k tr u by simp
  qed
qed

lemma apply_Inl: "task_apply e ck s i ev = (s', Inl err) \<Longrightarrow> s' = s \<or> (\<exists>x. err = TkStore x)"
  by (auto simp: task_apply_def Let_def ts_bind_Inl dest: journal_Inl revoke_for_task_Inl split: option.splits sum.splits if_splits)

section \<open>Counters\<close>

lemma update_counters_inv:
  assumes inv: "ts_inv e s" and ord: "orderly (Suc n) e ck (ts_audit s)" and run: "update_counters e ck s i f = (s', Inr ())"
    and f: "\<forall>c. counters_ok c \<longrightarrow> counters_ok (f c)"
  shows "ts_inv e s' \<and> orderly n e ck (ts_audit s') \<and> ts_grants s' = ts_grants s \<and>
    (\<exists>k. position (\<lambda>t. t_id t = i) (ts_tasks s) = Some k \<and>
       ts_tasks s' = (ts_tasks s)[k := (ts_tasks s ! k)\<lparr>t_counters := f (t_counters (ts_tasks s ! k))\<rparr>])"
proof -
  from run obtain k s1 where k: "position (\<lambda>t. t_id t = i) (ts_tasks s) = Some k"
    and j: "journal e ck s ((ts_tasks s ! k)\<lparr>t_counters := f (t_counters (ts_tasks s ! k))\<rparr>) ''counters'' = (s1, Inr ())"
    and s': "s' = s1\<lparr>ts_tasks := (ts_tasks s1)[k := (ts_tasks s1 ! k)\<lparr>t_counters := f (t_counters (ts_tasks s ! k))\<rparr>]\<rparr>"
    by (auto simp: update_counters_def Let_def ts_bind_Inr split: option.splits)
  let ?t = "(ts_tasks s ! k)\<lparr>t_counters := f (t_counters (ts_tasks s ! k))\<rparr>"
  from position_Some [OF k] have kl: "k < length (ts_tasks s)" by simp
  then have "task_ok (ts_tasks s ! k)" using inv by (simp add: ts_inv_def tasks_ok_def)
  then have t: "succeeds (ts_tasks s ! k) ?t" "task_ok ?t" using f by (simp_all add: succeeds_def task_ok_def)
  have lv: "is_live (t_state (ts_tasks s ! k)) \<longrightarrow> is_live (t_state ?t)" by simp
  from update_inv [OF inv ord k t lv j rstr_ops(4)] have u: "ts_inv e (s1\<lparr>ts_tasks := (ts_tasks s1)[k := ?t]\<rparr>)"
    "orderly n e ck (ts_audit s1)" "ts_tasks s1 = ts_tasks s" "ts_grants s1 = ts_grants s" by blast+
  have "s' = s1\<lparr>ts_tasks := (ts_tasks s1)[k := ?t]\<rparr>" using s' u(3) by simp
  then show ?thesis using k u by simp
qed

lemma update_counters_Inl: "update_counters e ck s i f = (s', Inl err) \<Longrightarrow> s' = s \<or> (\<exists>x. err = TkStore x)"
  by (auto simp: update_counters_def Let_def ts_bind_Inl dest: journal_Inl split: option.splits)

section \<open>Grants\<close>

definition request_ok :: "grant \<Rightarrow> bool" where
  "request_ok g \<longleftrightarrow> rstr (g_issuer g) \<and> length (g_capabilities g) < 2 ^ 64 \<and> (\<forall>c \<in> set (g_capabilities g). cap_ok c) \<and>
     constraints_ok (g_constraints g)"

definition stamped :: "grant \<Rightarrow> task \<Rightarrow> ulid \<Rightarrow> u64 \<Rightarrow> grant" where
  "stamped g t i now = g\<lparr>g_issued_ms := now, g_id := i, g_principal := t_principal t\<rparr>"

lemma stamped_simps [simp]:
  "g_id (stamped g t i now) = i" "g_task_id (stamped g t i now) = g_task_id g" "g_principal (stamped g t i now) = t_principal t"
  "g_expires_ms (stamped g t i now) = g_expires_ms g" "g_issued_ms (stamped g t i now) = now"
  "g_unattended (stamped g t i now) = g_unattended g" "g_issuer (stamped g t i now) = g_issuer g"
  "g_capabilities (stamped g t i now) = g_capabilities g"
  by (simp_all add: stamped_def)

definition sealed :: "env \<Rightarrow> grant \<Rightarrow> byte list" where
  "sealed e g = (let prot = protected_header (te_b3 e) (te_key e)
     in cose_sign1 prot (grant_encode g) (te_sign e (sig_structure prot (grant_encode g))))"

definition grant_record :: "env \<Rightarrow> grant \<Rightarrow> grant_reason \<Rightarrow> audit_record" where
  "grant_record e g reason = record_new\<lparr>ar_kind := KGrant, ar_principal := g_principal g, ar_grant_id := Some (g_id g),
     ar_task_id := Some (g_task_id g), ar_body := grant_body (sealed e g) (g_issuer g) reason\<rparr>"

lemma issue_grant_Inr:
  assumes "issue_grant e ck ent s g reason now = (s', Inr cose)"
  obtains t s1 where "task_of s (g_task_id g) = Some t" "t_state t = Active" "g_expires_ms g \<le> t_deadline_ms t"
    "g_unattended g \<longrightarrow> sat_sub (g_expires_ms g) now \<le> UNATTENDED_MAX_MS"
    "append_sync e ck s (grant_record e (stamped g t (ulid_from_parts now ent) now) reason) = (s1, Inr ())"
    "s' = s1\<lparr>ts_grants := ts_grants s1 @ [\<lparr>is_grant = stamped g t (ulid_from_parts now ent) now, is_cose = cose, is_revoked = False\<rparr>]\<rparr>"
    "cose = sealed e (stamped g t (ulid_from_parts now ent) now)"
proof -
  have acts: "accepts_acting_requests st \<longleftrightarrow> st = Active" for st by (cases st) simp_all
  show ?thesis using assms that
    by (auto simp: issue_grant_def Let_def ts_bind_Inr acts stamped_def [symmetric] sealed_def [unfolded Let_def, symmetric]
        grant_record_def not_less split: option.splits if_splits)
qed

lemma issue_grant_Inl: "issue_grant e ck ent s g reason now = (s', Inl err) \<Longrightarrow> s' = s"
  by (auto simp: issue_grant_def Let_def ts_bind_Inl dest: append_sync_Inl split: option.splits if_splits)

lemma length_protected: "length (b3 key) = 32 \<Longrightarrow> length (protected_header b3 key) < 2 ^ 64"
  using length_put_head [of MAJOR_MAP 2] length_put_head [of MAJOR_BYTES "word_of_nat (length (b3 key))"] length_put_i64 [of ALG_EDDSA]
  unfolding protected_header_eq put_map_def put_bytes_def label_bytes key_id_def by simp

lemma issue_inv:
  assumes inv: "ts_inv e s" and ord: "orderly (Suc n) e ck (ts_audit s)" and run: "issue_grant e ck ent s g reason now = (s', Inr cose)"
    and g: "request_ok g" "length ent = 10" "\<forall>i \<in> set (ts_grants s). g_id (is_grant i) \<noteq> ulid_from_parts now ent"
  shows "ts_inv e s' \<and> orderly n e ck (ts_audit s') \<and> ts_tasks s' = ts_tasks s \<and>
    (\<exists>t. task_of s (g_task_id g) = Some t \<and> ts_grants s' = ts_grants s @
       [\<lparr>is_grant = stamped g t (ulid_from_parts now ent) now, is_cose = cose, is_revoked = False\<rparr>])"
proof -
  from inv obtain rs where rs: "replays (holds e) (ts_audit s) rs" "mirrors s rs" "tasks_ok (ts_tasks s)"
    "grants_ok e (ts_tasks s) (ts_grants s)" "\<forall>k h. ts_hashes s k = Some h \<longrightarrow> length h = 32" "env_ok e" by (rule ts_invD)
  from run obtain t s1 where t: "task_of s (g_task_id g) = Some t" "t_state t = Active" "g_expires_ms g \<le> t_deadline_ms t"
    "g_unattended g \<longrightarrow> sat_sub (g_expires_ms g) now \<le> UNATTENDED_MAX_MS"
    and ap: "append_sync e ck s (grant_record e (stamped g t (ulid_from_parts now ent) now) reason) = (s1, Inr ())"
    and s': "s' = s1\<lparr>ts_grants := ts_grants s1 @ [\<lparr>is_grant = stamped g t (ulid_from_parts now ent) now, is_cose = cose, is_revoked = False\<rparr>]\<rparr>"
    and cose: "cose = sealed e (stamped g t (ulid_from_parts now ent) now)" by (rule issue_grant_Inr)
  let ?g = "stamped g t (ulid_from_parts now ent) now"
  let ?i = "\<lparr>is_grant = ?g, is_cose = cose, is_revoked = False\<rparr>"
  let ?prot = "protected_header (te_b3 e) (te_key e)"
  have ts: "t \<in> set (ts_tasks s)" "t_id t = g_task_id g" using t(1) by (auto simp: task_of_def dest: find_SomeD)
  then have tok: "task_ok t" using rs(3) by (simp add: tasks_ok_def)
  have gok: "grant_ok ?g"
    using g(1) ulid_ok_parts [OF g(2)] tok ts(2) by (auto simp: grant_ok_def request_ok_def task_ok_def stamped_def)
  have "length (put_bytes cose) \<le> length (grant_body cose (g_issuer g) reason)"
    unfolding grant_body_eq by (rule length_entry [of "''cose''"]) (simp add: grant_body_entries_def)
  then have len: "length cose \<le> MAX_FRAME"
    using append_sync_small [OF ap] cose by (simp add: grant_record_def put_bytes_def)
  have "length (grant_encode ?g) \<le> length cose" by (simp add: cose sealed_def cose_sign1_def put_bytes_def Let_def)
  then have lens: "length (grant_encode ?g) < 2 ^ 64" "length cose < 2 ^ 64" using len by (simp_all add: MAX_FRAME_def)
  have prot: "length ?prot < 2 ^ 64" using rs(6) by (intro length_protected) (simp add: env_ok_def)
  have iss: "rstr (g_issuer g)" using g(1) by (simp add: request_ok_def)
  have "replay_issued (grant_body cose (g_issuer g) reason) = Inr ?i"
    using reads_issued [OF gok prot lens(1) _ iss] lens(2) unfolding cose sealed_def Let_def by blast
  then have rec: "replay_record rs (grant_record e ?g reason) = Inr (rs\<lparr>rp_issued := rp_issued rs @ [?i]\<rparr>)"
    by (simp add: replay_record_def grant_record_def cose)
  have sub: "submit_ok (grant_record e ?g reason)"
    unfolding grant_record_def using gok item_mono [OF item_grant_body [OF lens(2) iss]] cose
    by (intro submit_record) (auto simp: grant_ok_def)
  from append_sync_Inr [OF ap rs(1) ord sub rec] obtain a where
    a: "s1 = s\<lparr>ts_audit := a\<rparr>" "replays (holds e) a (rs\<lparr>rp_issued := rp_issued rs @ [?i]\<rparr>)" "orderly n e ck a" by blast
  have m: "rp_tasks rs = map erase (ts_tasks s)" "settle rs = ts_grants s" "set (rp_revoked rs) \<subseteq> (\<lambda>i. g_id (is_grant i)) ` set (ts_grants s)"
    using rs(2) by (simp_all add: mirrors_def)
  have "\<not> dead (ts_tasks s) (g_task_id g)"
  proof -
    have inj: "inj_on t_id (set (ts_tasks s))" using rs(3) by (simp add: tasks_ok_def distinct_map)
    have "x = t" if "x \<in> set (ts_tasks s)" "t_id x = g_task_id g" for x
      using inj_onD [OF inj _ that(1) ts(1)] that(2) ts(2) by simp
    then show ?thesis using t(2) by (auto simp: dead_def)
  qed
  moreover have "ulid_from_parts now ent \<notin> set (rp_revoked rs)" using m(3) g(3) by (metis imageE subsetD)
  ultimately have "settle (rs\<lparr>rp_issued := rp_issued rs @ [?i]\<rparr>) = ts_grants s @ [?i]"
    using m(1,2) by (simp add: settle_eq)
  then have "mirrors s' (rs\<lparr>rp_issued := rp_issued rs @ [?i]\<rparr>)" using rs(2) by (auto simp: mirrors_def s' a(1))
  moreover have "issued_ok e (ts_tasks s) ?i"
    using gok lens(1) ts t by (auto simp: issued_ok_def Let_def cose sealed_def)
  then have "grants_ok e (ts_tasks s) (ts_grants s @ [?i])" using rs(4) g(3) by (auto simp: grants_ok_def)
  ultimately have "ts_inv e s'" using a(2) rs(3,5) unfolding ts_inv_def by (auto simp: s' a(1))
  then show ?thesis using a(3) t(1) by (simp add: s' a(1))
qed

end
