(* ===== verification/Capability_Text.thy ===== *)
theory Capability_Text
  imports TaskStore Grant_Laws
begin

text \<open>
  Capability lines: splitting a Rust string at whitespace or at line ends yields Rust strings, so what a
  consent sheet's text parses to can be encoded.
\<close>

section \<open>Pieces of a string\<close>

lemma cont_in_front: "b # cs = xs @ v \<Longrightarrow> cont b \<Longrightarrow> v = [] \<or> \<not> cont (hd v) \<Longrightarrow> \<exists>ys. xs = b # ys \<and> cs = ys @ v"
  by (cases xs) auto

lemma utf8_valid_split:
  "utf8_valid (u @ v) \<Longrightarrow> v = [] \<or> \<not> cont (hd v) \<Longrightarrow> utf8_valid u \<and> utf8_valid v"
proof (induction u rule: length_induct)
  case (1 u)
  note nc = 1(3)
  show ?case
  proof (cases u)
    case Nil
    then show ?thesis using 1 by simp
  next
    case (Cons a w)
    have step: "utf8_valid x \<and> utf8_valid v" if "utf8_valid (x @ v)" "length x < length u" for x
      using 1 that by blast
    have val: "utf8_valid (a # (w @ v))" using 1(2) Cons by simp
    consider "a < 0x80" | "\<not> a < 0x80" "0xC2 \<le> a \<and> a \<le> 0xDF" | "\<not> a < 0x80" "\<not> (0xC2 \<le> a \<and> a \<le> 0xDF)" "0xE0 \<le> a \<and> a \<le> 0xEF"
      | "\<not> a < 0x80" "\<not> (0xC2 \<le> a \<and> a \<le> 0xDF)" "\<not> (0xE0 \<le> a \<and> a \<le> 0xEF)" "0xF0 \<le> a \<and> a \<le> 0xF4"
      using val by (fastforce split: if_splits)
    then show ?thesis
    proof cases
      case 1
      then show ?thesis using val step [of w] Cons by simp
    next
      case 2
      then obtain b cs where b: "b # cs = w @ v" "cont b" "utf8_valid cs"
        using val unfolding utf8_valid.simps by (simp only: if_False if_True) (cases "w @ v"; simp)
      from cont_in_front [OF b(1,2) nc] obtain w1 where w1: "w = b # w1" "cs = w1 @ v" by blast
      then show ?thesis using 2 b step [of w1] Cons by simp
    next
      case 3
      then obtain b c cs where b: "b # c # cs = w @ v" "cont b" "cont c" "utf8_valid cs" "a = 0xE0 \<longrightarrow> 0xA0 \<le> b" "a = 0xED \<longrightarrow> b \<le> 0x9F"
        using val unfolding utf8_valid.simps by (simp only: if_False if_True) (cases "w @ v"; cases "tl (w @ v)"; simp)
      from cont_in_front [OF b(1,2) nc] obtain w1 where w1: "w = b # w1" "c # cs = w1 @ v" by blast
      from cont_in_front [OF w1(2) b(3) nc] obtain w2 where w2: "w1 = c # w2" "cs = w2 @ v" by blast
      have "utf8_valid (a # b # c # w2) \<longleftrightarrow> utf8_valid w2"
        using 3 b(2,3,5,6) by (simp only: utf8_valid.simps(2) [of a "b # c # w2"] if_False if_True list.case simp_thms) blast
      then show ?thesis using b(4) step [of w2] Cons w1(1) w2 by simp
    next
      case 4
      then obtain b c d cs where b: "b # c # d # cs = w @ v" "cont b" "cont c" "cont d" "utf8_valid cs" "a = 0xF0 \<longrightarrow> 0x90 \<le> b" "a = 0xF4 \<longrightarrow> b \<le> 0x8F"
        using val unfolding utf8_valid.simps by (simp only: if_False if_True) (cases "w @ v"; cases "tl (w @ v)"; cases "tl (tl (w @ v))"; simp)
      from cont_in_front [OF b(1,2) nc] obtain w1 where w1: "w = b # w1" "c # d # cs = w1 @ v" by blast
      from cont_in_front [OF w1(2) b(3) nc] obtain w2 where w2: "w1 = c # w2" "d # cs = w2 @ v" by blast
      from cont_in_front [OF w2(2) b(4) nc] obtain w3 where w3: "w2 = d # w3" "cs = w3 @ v" by blast
      have "utf8_valid (a # b # c # d # w3) \<longleftrightarrow> utf8_valid w3"
        using 4 b(2-4,6,7) by (simp only: utf8_valid.simps(2) [of a "b # c # d # w3"] if_False if_True list.case simp_thms) blast
      then show ?thesis using b(5) step [of w3] Cons w1(1) w2(1) w3 by simp
    qed
  qed
qed

lemma utf8_split: "utf8 (s @ t) \<Longrightarrow> t = [] \<or> \<not> cont (hd (str_bytes t)) \<Longrightarrow> utf8 s \<and> utf8 t"
  using utf8_valid_split [of "str_bytes s" "str_bytes t"] by (auto simp: utf8_def str_bytes_def)

lemma ws_cases:
  assumes "ws_len (c # s) \<noteq> 0"
  obtains "9 \<le> (of_char c :: nat) \<and> (of_char c :: nat) \<le> 13 \<or> (of_char c :: nat) = 32" "ws_len (c # s) = 1"
  | "(of_char c :: nat) = 0xC2" "ws_len (c # s) = 2" | "(of_char c :: nat) \<in> {0xE1, 0xE2, 0xE3}" "ws_len (c # s) = 3"
  using assms by (auto simp: ws_len_def Let_def split: list.splits if_splits)

lemma unat_byte_of_char: "unat (word_of_nat (of_char c) :: byte) = of_char c"
  by (simp add: unat_of_nat of_char_mod_256)

lemma ws_not_cont:
  assumes "ws_len (c # s) \<noteq> 0"
  shows "\<not> cont (hd (str_bytes (c # s)))"
  using assms by (rule ws_cases) (use unat_byte_of_char [of c] in \<open>auto simp: str_bytes_def cont_def word_le_nat_alt\<close>)

lemma utf8_three:
  assumes "utf8_valid (a # bs)" "0xE0 \<le> a \<and> a \<le> 0xEF"
  shows "\<exists>y z ys. bs = y # z # ys \<and> utf8_valid ys"
proof -
  have "\<not> a < 0x80" "\<not> (0xC2 \<le> a \<and> a \<le> 0xDF)" using assms(2) by (auto simp: word_less_nat_alt word_le_nat_alt)
  then have "case bs of b # c # cs \<Rightarrow> cont b \<and> (a = 0xE0 \<longrightarrow> 0xA0 \<le> b) \<and> (a = 0xED \<longrightarrow> b \<le> 0x9F) \<and> cont c \<and> utf8_valid cs | _ \<Rightarrow> False"
    using assms by (simp only: utf8_valid.simps(2) [of a bs] if_False if_True simp_thms)
  then show ?thesis by (cases bs; cases "tl bs") (simp_all only: list.case list.sel; blast)+
qed

lemma ws_char_utf8:
  assumes "utf8 (c # s)" "ws_len (c # s) \<noteq> 0"
  shows "utf8 (drop (ws_len (c # s)) (c # s))"
proof -
  let ?n = "of_char c :: nat"
  have head: "str_bytes (c # s) = word_of_nat ?n # str_bytes s" by (simp add: str_bytes_def)
  have v: "utf8_valid (word_of_nat ?n # str_bytes s)" using assms(1) by (simp add: utf8_def head)
  have dr: "utf8 (drop k s) \<longleftrightarrow> utf8_valid (drop k (str_bytes s))" for k by (simp add: utf8_def str_bytes_def drop_map)
  from assms(2) show ?thesis
  proof (cases rule: ws_cases)
    case 1
    then have "(word_of_nat ?n :: byte) < 0x80" using unat_byte_of_char [of c] by (auto simp: word_less_nat_alt)
    then show ?thesis using v 1(2) dr [of 0] by simp
  next
    case 2
    then obtain y ys where "str_bytes s = y # ys" "utf8_valid ys" using v by (auto split: list.splits)
    then show ?thesis using 2 dr [of 1] by (simp add: drop_Suc)
  next
    case 3
    then have "(0xE0 :: byte) \<le> word_of_nat ?n \<and> (word_of_nat ?n :: byte) \<le> 0xEF" using unat_byte_of_char [of c] by (auto simp: word_le_nat_alt)
    from utf8_three [OF v this] obtain y z ys where "str_bytes s = y # z # ys" "utf8_valid ys" by blast
    then show ?thesis using 3(2) dr [of 2] by (simp add: numeral_2_eq_2 numeral_3_eq_3)
  qed
qed

lemma split_ws_utf8: "utf8 (cur @ s) \<Longrightarrow> w \<in> set (split_ws cur s) \<Longrightarrow> utf8 w \<and> length w \<le> length (cur @ s)"
proof (induction cur s arbitrary: w rule: split_ws.induct)
  case (1 cur)
  then show ?case by (auto split: if_splits)
next
  case (2 cur c s)
  show ?case
  proof (cases "ws_len (c # s) = 0")
    case True
    then show ?thesis using "2.IH"(1) [OF refl True, of w] "2.prems" by (simp add: Let_def)
  next
    case False
    have u: "utf8 cur" "utf8 (c # s)" using "2.prems"(1) utf8_split ws_not_cont [OF False] by blast+
    have d: "utf8 ([] @ drop (ws_len (c # s)) (c # s))" using ws_char_utf8 [OF u(2) False] by simp
    have "w = cur \<or> w \<in> set (split_ws [] (drop (ws_len (c # s)) (c # s)))"
      using "2.prems"(2) False by (auto simp: Let_def split: if_splits)
    then show ?thesis using "2.IH"(2) [OF refl False d, of w] u(1) by auto
  qed
qed

lemma lf_not_cont: "\<not> cont (hd (str_bytes (CHR 0x0A # s)))" "\<not> cont (hd (str_bytes (CHR 0x0D # s)))"
  by (simp_all add: str_bytes_def cont_def)

lemma utf8_tl: "utf8 (CHR 0x0A # s) \<Longrightarrow> utf8 s"
  by (simp add: utf8_def str_bytes_def)

declare str_lines.simps [simp del]

lemma str_lines_utf8: "utf8 s \<Longrightarrow> l \<in> set (str_lines s) \<Longrightarrow> utf8 l \<and> length l \<le> length s"
proof (induction s arbitrary: l rule: str_lines.induct)
  case (1 s)
  let ?l = "takeWhile (\<lambda>c. c \<noteq> CHR 0x0A) s" and ?rest = "dropWhile (\<lambda>c. c \<noteq> CHR 0x0A) s"
  have s: "?l @ ?rest = s" by simp
  have le: "length ?l \<le> length s" by (rule length_takeWhile_le)
  show ?case
  proof (cases "s = [] \<or> ?rest = []")
    case True
    have full: "?rest = [] \<Longrightarrow> ?l = s" using s by (metis append_Nil2)
    have "str_lines s = (if s = [] then [] else [?l])" using True by (subst str_lines.simps) (auto simp: Let_def)
    then have "l = ?l" "s \<noteq> []" using "1.prems"(2) by (simp_all split: if_splits)
    then have "l = s" using full True by blast
    then show ?thesis using "1.prems"(1) by simp
  next
    case False
    then obtain r where r: "?rest = CHR 0x0A # r" using hd_dropWhile [of "\<lambda>c. c \<noteq> CHR 0x0A" s] by (cases ?rest) auto
    have u: "utf8 ?l" "utf8 ?rest" using utf8_split [of ?l ?rest] "1.prems"(1) s r lf_not_cont(1) by auto
    let ?k = "if ?l \<noteq> [] \<and> last ?l = CHR 0x0D then butlast ?l else ?l"
    have "utf8 ?k \<and> length ?k \<le> length s"
    proof (cases "?l \<noteq> [] \<and> last ?l = CHR 0x0D")
      case True
      then have "?l = butlast ?l @ [CHR 0x0D]" by (metis append_butlast_last_id)
      then have "utf8 (butlast ?l)" using utf8_split [of "butlast ?l" "[CHR 0x0D]"] u(1) lf_not_cont(2) [of "[]"] by simp
      then show ?thesis using True le by simp
    next
      case False
      then show ?thesis using u(1) le by (simp only: if_False)
    qed
    moreover have "length (tl ?rest) \<le> length s" using length_dropWhile_le [of "\<lambda>c. c \<noteq> CHR 0x0A" s] by simp
    moreover have "l = ?k \<or> l \<in> set (str_lines (tl ?rest))"
      using "1.prems"(2) False by (subst (asm) str_lines.simps) (auto simp: Let_def split: if_splits)
    moreover have "utf8 (tl ?rest)" using u(2) r utf8_tl by simp
    ultimately show ?thesis using "1.IH" [of ?l ?rest l] False by auto
  qed
qed

text \<open>Every string of a parsed capability line is a string of the source.\<close>

lemma capability_line_ok:
  assumes "utf8 line" "length line < 2 ^ 64" "capability_line rxok line = Some c"
  shows "cap_ok c"
proof -
  from assms(3) obtain name scopes where w: "split_ws [] line = name # scopes" and c: "c = \<lparr>cap_name = name, cap_scopes = scopes, cap_quota = None\<rparr>"
    by (auto simp: capability_line_def split: list.splits if_splits)
  have ok: "rstr x" if "x \<in> set (name # scopes)" for x
    using split_ws_utf8 [of "[]" line x] assms(1,2) that w by (simp add: rstr_def)
  have "length (split_ws cur s) \<le> length cur + length s" for cur s
    by (induction cur s rule: split_ws.induct) (auto simp: Let_def Suc_le_eq)
  from this [of "[]" line] have "length scopes < 2 ^ 64" using w assms(2) by simp
  then show ?thesis using ok by (simp add: cap_ok_def c)
qed

lemma capability_lines_ok:
  "\<forall>l \<in> set ls. utf8 l \<and> length l < 2 ^ 64 \<Longrightarrow> capability_lines rxok ls = Some cs \<Longrightarrow> length cs = length ls \<and> (\<forall>c \<in> set cs. cap_ok c)"
  by (induction ls arbitrary: cs) (auto simp: bind_eq_Some_conv capability_line_ok)

lemma length_str_lines: "length (str_lines s) \<le> length s"
proof (induction s rule: str_lines.induct)
  case (1 s)
  show ?case
  proof (cases "s = [] \<or> dropWhile (\<lambda>c. c \<noteq> CHR 0x0A) s = []")
    case True
    then show ?thesis by (subst str_lines.simps) (cases s; auto simp: Let_def)
  next
    case False
    let ?rest = "dropWhile (\<lambda>c. c \<noteq> CHR 0x0A) s"
    have "length (tl ?rest) < length s" using False length_dropWhile_le [of "\<lambda>c. c \<noteq> CHR 0x0A" s] by (cases ?rest) auto
    moreover have "length (str_lines (tl ?rest)) \<le> length (tl ?rest)" using "1.IH" False by simp
    moreover have "length (str_lines s) = Suc (length (str_lines (tl ?rest)))"
      using False by (simp only: str_lines.simps [of s] Let_def if_False de_Morgan_disj length_Cons simp_thms)
    ultimately show ?thesis by linarith
  qed
qed

lemma capabilities_ok:
  assumes "rstr scope" "capabilities rxok scope = Some cs"
  shows "length cs < 2 ^ 64 \<and> (\<forall>c \<in> set cs. cap_ok c)"
proof -
  have "capability_lines rxok (str_lines scope) = Some cs" using assms(2) by (auto simp: capabilities_def bind_eq_Some_conv split: if_splits)
  moreover have "\<forall>l \<in> set (str_lines scope). utf8 l \<and> length l < 2 ^ 64"
  proof
    fix l assume "l \<in> set (str_lines scope)"
    then show "utf8 l \<and> length l < 2 ^ 64"
      using str_lines_utf8 [of scope l] assms(1) by (simp add: rstr_def)
  qed
  ultimately show ?thesis using capability_lines_ok [of "str_lines scope" rxok cs] length_str_lines [of scope] assms(1) by (simp add: rstr_def)
qed

end
