(* ===== verification/TaskStore_Steps.thy ===== *)
theory TaskStore_Steps
  imports TaskStore_Inv Capability_Text
begin

text \<open>
  The task store as a state machine: what no operation undoes (\<open>grows\<close>), what a restart finds, the step
  relation \<open>ts_step\<close>, and the invariant of every reachable store.
\<close>

section \<open>What no operation undoes\<close>

text \<open>Tasks and grants are never dropped or rewritten; a closed task stays closed for its reason, a
  revoked grant stays revoked.\<close>

definition grows :: "task_store \<Rightarrow> task_store \<Rightarrow> bool" where
  "grows s s' \<longleftrightarrow>
     (\<forall>t \<in> set (ts_tasks s). \<exists>t' \<in> set (ts_tasks s'). t_id t' = t_id t \<and> t_principal t' = t_principal t \<and>
        t_deadline_ms t' = t_deadline_ms t \<and> (\<forall>r. t_state t = Closed r \<longrightarrow> t_state t' = Closed r)) \<and>
     (\<forall>i \<in> set (ts_grants s). \<exists>i' \<in> set (ts_grants s'). is_grant i' = is_grant i \<and> is_cose i' = is_cose i \<and>
        (is_revoked i \<longrightarrow> is_revoked i'))"

lemma grows_same: "ts_tasks s' = ts_tasks s \<Longrightarrow> ts_grants s' = ts_grants s \<Longrightarrow> grows s s'"
  by (auto simp: grows_def)

lemma grows_refl [simp]: "grows s s"
  by (rule grows_same) simp_all

lemma grows_trans:
  assumes "grows s s1" "grows s1 s2"
  shows "grows s s2"
  unfolding grows_def
proof (intro conjI ballI)
  fix t assume "t \<in> set (ts_tasks s)"
  with assms(1) obtain u where u: "u \<in> set (ts_tasks s1)" "t_id u = t_id t" "t_principal u = t_principal t"
    "t_deadline_ms u = t_deadline_ms t" "\<forall>r. t_state t = Closed r \<longrightarrow> t_state u = Closed r" unfolding grows_def by blast
  with assms(2) obtain v where "v \<in> set (ts_tasks s2)" "t_id v = t_id u" "t_principal v = t_principal u"
    "t_deadline_ms v = t_deadline_ms u" "\<forall>r. t_state u = Closed r \<longrightarrow> t_state v = Closed r" unfolding grows_def by blast
  then show "\<exists>t' \<in> set (ts_tasks s2). t_id t' = t_id t \<and> t_principal t' = t_principal t \<and>
      t_deadline_ms t' = t_deadline_ms t \<and> (\<forall>r. t_state t = Closed r \<longrightarrow> t_state t' = Closed r)"
    using u by (intro bexI [of _ v]) simp_all
next
  fix i assume "i \<in> set (ts_grants s)"
  with assms(1) obtain j where j: "j \<in> set (ts_grants s1)" "is_grant j = is_grant i" "is_cose j = is_cose i"
    "is_revoked i \<longrightarrow> is_revoked j" unfolding grows_def by blast
  with assms(2) obtain k where "k \<in> set (ts_grants s2)" "is_grant k = is_grant j" "is_cose k = is_cose j"
    "is_revoked j \<longrightarrow> is_revoked k" unfolding grows_def by blast
  then show "\<exists>i' \<in> set (ts_grants s2). is_grant i' = is_grant i \<and> is_cose i' = is_cose i \<and> (is_revoked i \<longrightarrow> is_revoked i')"
    using j by (intro bexI [of _ k]) simp_all
qed

lemma grows_update:
  assumes "ts_tasks s' = (ts_tasks s)[k := t']" "k < length (ts_tasks s)" "succeeds (ts_tasks s ! k) t'"
    "\<forall>r. t_state (ts_tasks s ! k) = Closed r \<longrightarrow> t_state t' = Closed r"
    "ts_grants s' = ts_grants s \<or> ts_grants s' = revoke_all ids (ts_grants s)"
  shows "grows s s'"
  unfolding grows_def
proof (intro conjI ballI)
  fix t assume t: "t \<in> set (ts_tasks s)"
  show "\<exists>t' \<in> set (ts_tasks s'). t_id t' = t_id t \<and> t_principal t' = t_principal t \<and>
      t_deadline_ms t' = t_deadline_ms t \<and> (\<forall>r. t_state t = Closed r \<longrightarrow> t_state t' = Closed r)"
  proof (cases "t = ts_tasks s ! k")
    case True
    then show ?thesis using assms set_update_memI [OF assms(2), of t'] by (intro bexI [of _ t']) (simp_all add: succeeds_def)
  next
    case False
    from t obtain j where "j < length (ts_tasks s)" "ts_tasks s ! j = t" by (auto simp: in_set_conv_nth)
    then have "t \<in> set (ts_tasks s')" using False unfolding assms(1) by (metis length_list_update nth_list_update_neq nth_mem)
    then show ?thesis by blast
  qed
next
  fix i assume i: "i \<in> set (ts_grants s)"
  from assms(5) show "\<exists>i' \<in> set (ts_grants s'). is_grant i' = is_grant i \<and> is_cose i' = is_cose i \<and> (is_revoked i \<longrightarrow> is_revoked i')"
  proof
    assume "ts_grants s' = revoke_all ids (ts_grants s)"
    then have "(if g_id (is_grant i) \<in> set ids then i\<lparr>is_revoked := True\<rparr> else i) \<in> set (ts_grants s')"
      using i unfolding revoke_all_def by (simp only: set_map) (rule imageI)
    then show ?thesis by (rule bexI [rotated]) simp
  qed (use i in auto)
qed

lemma grows_apply:
  assumes "position (\<lambda>t. t_id t = i) (ts_tasks s) = Some k \<and> transition (t_state (ts_tasks s ! k)) ev = Inr nxt \<and>
       ts_tasks s' = (ts_tasks s)[k := (ts_tasks s ! k)\<lparr>t_state := nxt\<rparr>] \<and>
       ts_grants s' = (if is_live nxt then ts_grants s else revoke_all ids (ts_grants s))"
  shows "grows s s'"
  by (rule grows_update [where k = k and t' = "(ts_tasks s ! k)\<lparr>t_state := nxt\<rparr>" and ids = ids])
    (use assms transition_live [of "t_state (ts_tasks s ! k)" ev nxt] in \<open>auto simp: succeeds_def dest: position_Some\<close>)

lemma grows_more: "ts_tasks s' = ts_tasks s @ ts \<Longrightarrow> ts_grants s' = ts_grants s @ gs \<Longrightarrow> grows s s'"
  by (auto simp: grows_def)

section \<open>Emissions\<close>

lemma record_inv:
  assumes inv: "ts_inv e s" and ord: "next_segment_last (st_disk (ts_audit s)) ck" and run: "task_record e ck s em = (s', Inr ())"
    and em: "emission_ok em" "item 7 (e_body em)" "e_kind em \<notin> {KTask, KGrant, KRevoke}"
  shows "ts_inv e s' \<and> ts_tasks s' = ts_tasks s \<and> ts_grants s' = ts_grants s"
proof -
  from inv obtain rs where rs: "replays (holds e) (ts_audit s) rs" "mirrors s rs" "tasks_ok (ts_tasks s)"
    "grants_ok e (ts_tasks s) (ts_grants s)" "\<forall>k h. ts_hashes s k = Some h \<longrightarrow> length h = 32" "env_ok e" by (rule ts_invD)
  from run obtain a r where a: "store_append (te_b3 e) (te_zenc e) ck (ts_audit s) (record_from_emission em) = Inr (a, r)"
    and s': "\<exists>rec. s' = s\<lparr>ts_audit := a, ts_recent := rec\<rparr>"
    by (auto simp: task_record_def split: sum.splits)
  have "submit_ok (record_from_emission em)"
    using em(1,2) by (auto simp: submit_ok_def record_ok_def record_from_emission_def emission_ok_def GENESIS_def item_def)
  moreover have "ar_kind (record_from_emission em) \<notin> {KTask, KGrant, KRevoke}"
    using em(3) by (auto simp: record_from_emission_def)
  ultimately have "replays (holds e) a rs"
    using audit.replays_append_other [OF rs(1) ord _ a] by blast
  then show ?thesis using s' rs by (auto simp: ts_inv_def mirrors_def)
qed

section \<open>Composed operations\<close>

lemma first_grant_simps [simp]:
  "g_task_id (first_grant i caps now x u) = i" "g_unattended (first_grant i caps now x u) = u" "g_expires_ms (first_grant i caps now x u) = x"
  by (simp_all add: first_grant_def)

lemma request_ok_first: "length caps < 2 ^ 64 \<Longrightarrow> \<forall>c \<in> set caps. cap_ok c \<Longrightarrow> request_ok (first_grant i caps now x u)"
  by (simp add: request_ok_def first_grant_def constraints_ok_def constraints_default_def rstr_def utf8_ascii)

lemma open_for_human_inv:
  assumes inv: "ts_inv e s" and ord: "orderly 3 e ck (ts_audit s)"
    and run: "open_for_human e ck ent1 ent2 s p stmt dl scope oref res now = (s', r)" "\<forall>x. r \<noteq> Inl (TkStore x)"
    and p: "rstr p" "rstr oref" "rstr scope" "length ent1 = 10" "length ent2 = 10"
      "\<forall>t \<in> set (ts_tasks s). t_id t \<noteq> ulid_from_parts now ent1" "\<forall>i \<in> set (ts_grants s). g_id (is_grant i) \<noteq> ulid_from_parts now ent2"
  shows "ts_inv e s' \<and> grows s s'"
proof -
  let ?caps = "if split_ws [] scope = [] then Some [] else capabilities (te_rxok e) scope"
  show ?thesis
  proof (cases "?caps = None \<or> dl \<le> now")
    case True
    then have "s' = s" using run(1) by (auto simp: open_for_human_def split: option.splits)
    then show ?thesis using inv by simp
  next
    case False
    then obtain caps where caps: "?caps = Some caps" and dl: "\<not> dl \<le> now" by auto
    have ok: "request_ok (first_grant i caps now dl False)" for i
    proof (rule request_ok_first)
      show "length caps < 2 ^ 64" "\<forall>c \<in> set caps. cap_ok c"
        using caps capabilities_ok [OF p(3), of "te_rxok e" caps] by (auto split: if_splits)
    qed
    have ord3: "orderly (Suc (Suc (Suc 0))) e ck (ts_audit s)" using ord by (simp only: numeral_3_eq_3)
    obtain s1 o1 where op: "open_task_from e ck ent1 s p OriginHuman oref stmt dl now res = (s1, o1)" by fastforce
    have run': "(s', r) = ts_bind (s1, o1) (\<lambda>s i.
           (case issue_grant e ck ent2 s (first_grant i caps now dl False) GrManifest now of
              (s, Inr cose) \<Rightarrow> (s, Inr (i, cose))
            | (s, Inl err) \<Rightarrow> ts_bind (task_apply e ck s i Fault) (\<lambda>s _. (s, Inl err))))"
      using run(1) caps dl op by (simp add: open_for_human_def)
    show ?thesis
    proof (cases o1)
      case (Inl err)
      then have "s' = s1" "r = Inl err" using run' by (simp_all add: ts_bind_def)
      then show ?thesis using open_task_from_Inl [OF op [unfolded Inl]] run(2) inv by auto
    next
      case (Inr i)
      from open_task_from_inv [OF inv ord3 op [unfolded Inr] p(1,2,4,6)]
      have s1: "ts_inv e s1" "orderly (Suc (Suc 0)) e ck (ts_audit s1)" "ts_grants s1 = ts_grants s"
        and more: "ts_tasks s1 = ts_tasks s @ [new_task s i p OriginHuman oref stmt dl now res]" by blast+
      have g1: "grows s s1" using grows_more [OF more, of "[]"] s1(3) by simp
      obtain s2 o2 where ig: "issue_grant e ck ent2 s1 (first_grant i caps now dl False) GrManifest now = (s2, o2)" by fastforce
      show ?thesis
      proof (cases o2)
        case (Inr cose)
        then have "s' = s2" using run' ig \<open>o1 = Inr i\<close> by (simp add: ts_bind_def)
        moreover from issue_inv [OF s1(1,2) ig [unfolded Inr] ok p(5)] p(7) s1(3)
        have "ts_inv e s2" "ts_tasks s2 = ts_tasks s1" "\<exists>gs. ts_grants s2 = ts_grants s1 @ gs" by auto
        ultimately show ?thesis using grows_trans [OF g1] grows_more [of s2 s1 "[]"] by auto
      next
        case (Inl err)
        then have s2: "s2 = s1" using issue_grant_Inl ig by blast
        obtain s3 o3 where ap: "task_apply e ck s1 i Fault = (s3, o3)" by fastforce
        have f: "(s', r) = ts_bind (s3, o3) (\<lambda>s _. (s, Inl err))" using run' ig Inl \<open>o1 = Inr i\<close> ap s2 by (simp add: ts_bind_def)
        show ?thesis
        proof (cases o3)
          case (Inl err')
          then have "s' = s3" "r = Inl err'" using f by (simp_all add: ts_bind_def)
          then show ?thesis using apply_Inl [OF ap [unfolded Inl]] run(2) s1(1) g1 by auto
        next
          case (Inr st)
          then have "s' = s3" using f by (simp add: ts_bind_def)
          then show ?thesis using apply_inv [OF s1(1,2) ap [unfolded Inr]] grows_apply grows_trans [OF g1] by blast
        qed
      qed
    qed
  qed
qed

lemma mint_inv:
  assumes inv: "ts_inv e s" and ord: "orderly 1 e ck (ts_audit s)"
    and run: "mint_from_prompt e ck ent s p scope unatt now = (s', r)"
    and p: "rstr scope" "length ent = 10" "\<forall>i \<in> set (ts_grants s). g_id (is_grant i) \<noteq> ulid_from_parts now ent"
  shows "ts_inv e s' \<and> grows s s'"
proof (cases "capabilities (te_rxok e) scope = None \<or> live_task s p = None")
  case True
  then have "s' = s" using run by (auto simp: mint_from_prompt_def split: option.splits)
  then show ?thesis using inv by simp
next
  case False
  then obtain caps t where caps: "capabilities (te_rxok e) scope = Some caps" and t: "live_task s p = Some t" by auto
  define x where "x = (if unatt then min (t_deadline_ms t) (sat_add now UNATTENDED_MAX_MS) else t_deadline_ms t)"
  have run': "issue_grant e ck ent s (first_grant (t_id t) caps now x unatt) GrPrompt now = (s', r)"
    using run caps t by (simp add: mint_from_prompt_def x_def Let_def)
  have ok: "request_ok (first_grant (t_id t) caps now x unatt)"
    using capabilities_ok [OF p(1) caps] by (intro request_ok_first) auto
  show ?thesis
  proof (cases r)
    case (Inl err)
    then show ?thesis using issue_grant_Inl run' inv grows_refl by blast
  next
    case (Inr cose)
    have "orderly (Suc 0) e ck (ts_audit s)" using ord by simp
    from issue_inv [OF inv this run' [unfolded Inr] ok p(2,3)]
    have "ts_inv e s'" "ts_tasks s' = ts_tasks s" "\<exists>gs. ts_grants s' = ts_grants s @ gs" by auto
    then show ?thesis using grows_more [of s' s "[]"] by auto
  qed
qed

lemma cancel_inv:
  assumes inv: "ts_inv e s" and ord: "orderly 2 e ck (ts_audit s)"
    and run: "cancel_principal e ck s p = (s', r)" "\<forall>x. r \<noteq> Inl (TkStore x)"
  shows "ts_inv e s' \<and> grows s s'"
proof (cases "live_task s p")
  case None
  then show ?thesis using run inv by (simp add: cancel_principal_def)
next
  case (Some t)
  obtain s1 o1 where ap: "task_apply e ck s (t_id t) Cancel = (s1, o1)" by fastforce
  have f: "(s', r) = ts_bind (s1, o1) (\<lambda>s _. (s, Inr True))" using run Some ap by (simp add: cancel_principal_def)
  have ord2: "orderly (Suc (Suc 0)) e ck (ts_audit s)" using ord by (simp only: numeral_2_eq_2)
  show ?thesis
  proof (cases o1)
    case (Inl err)
    then have "s' = s1" "r = Inl err" using f by (simp_all add: ts_bind_def)
    then show ?thesis using apply_Inl [OF ap [unfolded Inl]] run(2) inv by auto
  next
    case (Inr st)
    then have "s' = s1" using f by (simp add: ts_bind_def)
    then show ?thesis using apply_inv [OF inv ord2 ap [unfolded Inr]] grows_apply by blast
  qed
qed

section \<open>Restart\<close>

text \<open>The store a restart finds: statements are not journalled, and the tail of recent emissions is not
  rebuilt.\<close>

definition restarted :: "task_store \<Rightarrow> u64 \<Rightarrow> (byte list \<rightharpoonup> byte list) \<Rightarrow> task_store" where
  "restarted s now hs = \<lparr>ts_audit = (ts_audit s)\<lparr>st_last_sync_ms := now\<rparr>, ts_tasks = map erase (ts_tasks s),
     ts_grants = ts_grants s, ts_recent = [], ts_hashes = hs\<rparr>"

lemma task_ok_erase [simp]: "task_ok (erase t) = task_ok t"
  by (simp add: task_ok_def erase_def)

lemma tasks_ok_erase:
  assumes "tasks_ok ts"
  shows "tasks_ok (map erase ts)"
proof -
  have "one_live (map erase ts)"
  proof (rule one_liveI)
    fix t u assume t: "t \<in> set (map erase ts)" "u \<in> set (map erase ts)" "is_live (t_state t)" "is_live (t_state u)" "t_principal t = t_principal u"
    then obtain x y where "x \<in> set ts" "t = erase x" "y \<in> set ts" "u = erase y" by auto
    then show "t_id t = t_id u" using one_liveD [of ts x y] assms t(3-5) unfolding tasks_ok_def by fastforce
  qed
  moreover have "distinct (map t_id (map erase ts))" using assms by (simp add: tasks_ok_def comp_def)
  moreover have "\<forall>t \<in> set (map erase ts). task_ok t \<and> length (t_chain_root t) \<le> MAX_FRAME" using assms by (simp add: tasks_ok_def)
  ultimately show ?thesis unfolding tasks_ok_def by blast
qed

lemma issued_ok_erase: "issued_ok e ts i \<Longrightarrow> issued_ok e (map erase ts) i"
  by (auto simp: issued_ok_def Let_def)

lemma reopen:
  assumes inv: "ts_inv e s"
  shows "\<exists>hs. task_open e now (st_disk (ts_audit s)) = (st_disk (ts_audit s), Inr (restarted s now hs)) \<and>
    (\<forall>t \<in> set (ts_tasks s). hs (ulid_bytes (t_id t)) = ts_hashes s (ulid_bytes (t_id t)) \<and> hs (ulid_bytes (t_id t)) \<noteq> None) \<and>
    ts_inv e (restarted s now hs)"
proof -
  from inv obtain rs where rs: "replays (holds e) (ts_audit s) rs" "mirrors s rs" "tasks_ok (ts_tasks s)"
    "grants_ok e (ts_tasks s) (ts_grants s)" "\<forall>k h. ts_hashes s k = Some h \<longrightarrow> length h = 32" "env_ok e" by (rule ts_invD)
  from rs(1) obtain log where log: "store_inv (te_b3 e) (te_zdec e) (ts_audit s) log" "replay_log replay_new log = Inr rs"
    by (auto simp: replays_def holds_def)
  from store_readable [OF log(1)] have open_ok: "store_open (te_b3 e) (te_zdec e) now (st_disk (ts_audit s)) =
      (st_disk (ts_audit s), Inr ((ts_audit s)\<lparr>st_last_sync_ms := now\<rparr>))"
    and each: "for_each (te_zdec e) (st_disk (ts_audit s)) = Inr log" by simp_all
  have m: "rp_tasks rs = map erase (ts_tasks s)" "settle rs = ts_grants s" "rp_hashes rs \<subseteq>\<^sub>m ts_hashes s"
    "dom (rp_hashes rs) = (\<lambda>t. ulid_bytes (t_id t)) ` set (ts_tasks s)" using rs(2) by (simp_all add: mirrors_def)
  have opened: "task_open e now (st_disk (ts_audit s)) = (st_disk (ts_audit s), Inr (restarted s now (rp_hashes rs)))"
    by (simp add: task_open_def open_ok each log(2) m(1,2) restarted_def)
  have hashes: "\<forall>t \<in> set (ts_tasks s). rp_hashes rs (ulid_bytes (t_id t)) = ts_hashes s (ulid_bytes (t_id t)) \<and>
      rp_hashes rs (ulid_bytes (t_id t)) \<noteq> None"
  proof
    fix t assume "t \<in> set (ts_tasks s)"
    then have d: "ulid_bytes (t_id t) \<in> dom (rp_hashes rs)" using m(4) by blast
    then have "rp_hashes rs (ulid_bytes (t_id t)) = ts_hashes s (ulid_bytes (t_id t))" using m(3) unfolding map_le_def by blast
    then show "rp_hashes rs (ulid_bytes (t_id t)) = ts_hashes s (ulid_bytes (t_id t)) \<and> rp_hashes rs (ulid_bytes (t_id t)) \<noteq> None"
      using d by (simp only: domIff simp_thms)
  qed
  have "store_inv (te_b3 e) (te_zdec e) ((ts_audit s)\<lparr>st_last_sync_ms := now\<rparr>) log"
    using log(1) by (simp add: store_inv_def store_holds_def)
  then have "replays (holds e) ((ts_audit s)\<lparr>st_last_sync_ms := now\<rparr>) rs" using log(2) rs(6) by (auto simp: replays_def holds_def)
  moreover have "mirrors (restarted s now (rp_hashes rs)) rs"
    using rs(2) by (simp add: mirrors_def restarted_def comp_def image_image)
  moreover have "\<forall>k h. rp_hashes rs k = Some h \<longrightarrow> length h = 32" using m(3) rs(5) unfolding map_le_def by (metis domI)
  moreover have "grants_ok e (map erase (ts_tasks s)) (ts_grants s)" using rs(4) by (simp add: grants_ok_def issued_ok_erase)
  ultimately have "ts_inv e (restarted s now (rp_hashes rs))" using tasks_ok_erase [OF rs(3)]
    unfolding ts_inv_def by (auto simp: restarted_def)
  with opened hashes show ?thesis by blast
qed

lemma grows_restarted: "grows s (restarted s now hs)"
  by (auto simp: grows_def restarted_def)

lemma boot:
  assumes "env_ok e" "task_open e now [] = (d, Inr s)"
  shows "ts_inv e s \<and> ts_tasks s = [] \<and> ts_grants s = []"
proof -
  let ?a = "\<lparr>st_disk = [(OPEN_PATH, [])], st_written = 0, st_seq = 0, st_head = GENESIS, st_last_sync_ms = now\<rparr>"
  have a: "store_open (te_b3 e) (te_zdec e) now [] = ([(OPEN_PATH, [])], Inr ?a)" by (rule fresh_store)
  have h: "store_inv (te_b3 e) (te_zdec e) ?a []" using fresh_holds by (auto simp: store_inv_def intro!: exI [of _ "[]"])
  have each: "for_each (te_zdec e) [(OPEN_PATH, [])] = Inr []" using store_readable [OF h] by simp
  have s: "s = \<lparr>ts_audit = ?a, ts_tasks = [], ts_grants = [], ts_recent = [], ts_hashes = Map.empty\<rparr>"
    using assms(2) by (auto simp: task_open_def a each settle_def replay_new_def)
  have "replays (holds e) ?a replay_new" using h assms(1) by (auto simp: replays_def holds_def)
  then have "ts_inv e s"
    by (auto simp: ts_inv_def s mirrors_def replay_new_def settle_def tasks_ok_def one_live_def grants_ok_def)
  then show ?thesis by (simp add: s)
qed

section \<open>Reachable stores\<close>

text \<open>A store error ends the daemon (\<open>main.rs\<close>), so an operation that reports one is not a step. Fresh
  identifiers are what 80 random bits are for.\<close>

definition answered :: "task_error + 'a \<Rightarrow> bool" where
  "answered r \<longleftrightarrow> (\<forall>x. r \<noteq> Inl (TkStore x))"

definition fresh_task :: "task_store \<Rightarrow> u64 \<Rightarrow> byte list \<Rightarrow> bool" where
  "fresh_task s now ent \<longleftrightarrow> length ent = 10 \<and> (\<forall>t \<in> set (ts_tasks s). t_id t \<noteq> ulid_from_parts now ent)"

definition fresh_grant :: "task_store \<Rightarrow> u64 \<Rightarrow> byte list \<Rightarrow> bool" where
  "fresh_grant s now ent \<longleftrightarrow> length ent = 10 \<and> (\<forall>i \<in> set (ts_grants s). g_id (is_grant i) \<noteq> ulid_from_parts now ent)"

inductive ts_step :: "env \<Rightarrow> task_store \<Rightarrow> task_store \<Rightarrow> bool" for e where
  step_open: "open_task_from e ck ent s p orig oref stmt dl now res = (s', r) \<Longrightarrow> answered r \<Longrightarrow>
    orderly 1 e ck (ts_audit s) \<Longrightarrow> rstr p \<Longrightarrow> rstr oref \<Longrightarrow> fresh_task s now ent \<Longrightarrow> ts_step e s s'"
| step_human: "open_for_human e ck ent1 ent2 s p stmt dl scope oref res now = (s', r) \<Longrightarrow> answered r \<Longrightarrow>
    orderly 3 e ck (ts_audit s) \<Longrightarrow> rstr p \<Longrightarrow> rstr oref \<Longrightarrow> rstr scope \<Longrightarrow> fresh_task s now ent1 \<Longrightarrow> fresh_grant s now ent2 \<Longrightarrow>
    ts_step e s s'"
| step_apply: "task_apply e ck s i ev = (s', r) \<Longrightarrow> answered r \<Longrightarrow> orderly 2 e ck (ts_audit s) \<Longrightarrow> ts_step e s s'"
| step_counters: "update_counters e ck s i f = (s', r) \<Longrightarrow> answered r \<Longrightarrow> orderly 1 e ck (ts_audit s) \<Longrightarrow>
    \<forall>c. counters_ok c \<longrightarrow> counters_ok (f c) \<Longrightarrow> ts_step e s s'"
| step_issue: "issue_grant e ck ent s g reason now = (s', r) \<Longrightarrow> answered r \<Longrightarrow> orderly 1 e ck (ts_audit s) \<Longrightarrow>
    request_ok g \<Longrightarrow> fresh_grant s now ent \<Longrightarrow> ts_step e s s'"
| step_mint: "mint_from_prompt e ck ent s p scope unatt now = (s', r) \<Longrightarrow> answered r \<Longrightarrow> orderly 1 e ck (ts_audit s) \<Longrightarrow>
    rstr scope \<Longrightarrow> fresh_grant s now ent \<Longrightarrow> ts_step e s s'"
| step_cancel: "cancel_principal e ck s p = (s', r) \<Longrightarrow> answered r \<Longrightarrow> orderly 2 e ck (ts_audit s) \<Longrightarrow> ts_step e s s'"
| step_record: "task_record e ck s em = (s', r) \<Longrightarrow> answered r \<Longrightarrow> orderly 1 e ck (ts_audit s) \<Longrightarrow>
    emission_ok em \<Longrightarrow> item 7 (e_body em) \<Longrightarrow> e_kind em \<notin> {KTask, KGrant, KRevoke} \<Longrightarrow> ts_step e s s'"
| step_restart: "task_open e now (st_disk (ts_audit s)) = (d, Inr s') \<Longrightarrow> ts_step e s s'"

inductive ts_reachable :: "env \<Rightarrow> task_store \<Rightarrow> bool" for e where
  reach_boot: "env_ok e \<Longrightarrow> task_open e now [] = (d, Inr s) \<Longrightarrow> ts_reachable e s"
| reach_step: "ts_reachable e s \<Longrightarrow> ts_step e s s' \<Longrightarrow> ts_reachable e s'"

lemma ts_step_inv: "ts_step e s s' \<Longrightarrow> ts_inv e s \<Longrightarrow> ts_inv e s' \<and> grows s s'"
proof (induction rule: ts_step.induct)
  case (step_open ck ent s p orig oref stmt dl now res s' r)
  show ?case
  proof (cases r)
    case (Inl err)
    then show ?thesis using step_open open_task_from_Inl by (metis answered_def grows_refl)
  next
    case (Inr i)
    have ord: "orderly (Suc 0) e ck (ts_audit s)" using step_open(3) by simp
    from open_task_from_inv [OF step_open(7) ord step_open(1) [unfolded Inr] step_open(4,5)] step_open(6)
    have "ts_inv e s'" "\<exists>ts. ts_tasks s' = ts_tasks s @ ts" "ts_grants s' = ts_grants s" by (auto simp: fresh_task_def)
    then show ?thesis using grows_more [of s' s _ "[]"] by auto
  qed
next
  case (step_human ck ent1 ent2 s p stmt dl scope oref res now s' r)
  from step_human(9,3,1) step_human(2,4-8) show ?case
    unfolding answered_def fresh_task_def fresh_grant_def by (elim conjE) (rule open_for_human_inv)
next
  case (step_apply ck s i ev s' r)
  show ?case
  proof (cases r)
    case (Inl err)
    then show ?thesis using step_apply apply_Inl by (metis answered_def grows_refl)
  next
    case (Inr st)
    have ord: "orderly (Suc (Suc 0)) e ck (ts_audit s)" using step_apply(3) by (simp only: numeral_2_eq_2)
    from apply_inv [OF step_apply(4) ord step_apply(1) [unfolded Inr]] show ?thesis using grows_apply by blast
  qed
next
  case (step_counters ck s i f s' r)
  show ?case
  proof (cases r)
    case (Inl err)
    then show ?thesis using step_counters update_counters_Inl by (metis answered_def grows_refl)
  next
    case (Inr u)
    have ord: "orderly (Suc 0) e ck (ts_audit s)" using step_counters(3) by simp
    from update_counters_inv [OF step_counters(5) ord _ step_counters(4)] step_counters(1) Inr
    obtain k where u: "ts_inv e s'" "ts_grants s' = ts_grants s" "position (\<lambda>t. t_id t = i) (ts_tasks s) = Some k"
      "ts_tasks s' = (ts_tasks s)[k := (ts_tasks s ! k)\<lparr>t_counters := f (t_counters (ts_tasks s ! k))\<rparr>]" by auto
    have "grows s s'" by (rule grows_update [OF u(4)]) (use position_Some [OF u(3)] u(2) in \<open>auto simp: succeeds_def\<close>)
    then show ?thesis using u(1) by simp
  qed
next
  case (step_issue ck ent s g reason now s' r)
  show ?case
  proof (cases r)
    case (Inl err)
    then show ?thesis using step_issue issue_grant_Inl by (metis grows_refl)
  next
    case (Inr cose)
    have ord: "orderly (Suc 0) e ck (ts_audit s)" using step_issue(3) by simp
    from issue_inv [OF step_issue(6) ord step_issue(1) [unfolded Inr] step_issue(4)] step_issue(5)
    have "ts_inv e s'" "ts_tasks s' = ts_tasks s" "\<exists>gs. ts_grants s' = ts_grants s @ gs" by (auto simp: fresh_grant_def)
    then show ?thesis using grows_more [of s' s "[]"] by auto
  qed
next
  case (step_mint ck ent s p scope unatt now s' r)
  then show ?case using mint_inv [OF step_mint(6,3,1,4)] by (simp add: fresh_grant_def)
next
  case (step_cancel ck s p s' r)
  then show ?case using cancel_inv [OF step_cancel(4,3,1)] by (simp add: answered_def)
next
  case (step_record ck s em s' r)
  show ?case
  proof (cases r)
    case (Inl err)
    then show ?thesis using step_record(1,2) by (auto simp: task_record_def answered_def split: sum.splits)
  next
    case (Inr u)
    have "next_segment_last (st_disk (ts_audit s)) ck" using step_record(3) by simp
    from record_inv [OF step_record(7) this _ step_record(4,5,6)] step_record(1) Inr show ?thesis using grows_same by auto
  qed
next
  case (step_restart now s d s')
  from reopen [OF step_restart(2), of now] step_restart(1) grows_restarted show ?case by auto
qed

lemma ts_reachable_inv: "ts_reachable e s \<Longrightarrow> ts_inv e s"
  by (induction rule: ts_reachable.induct) (use boot ts_step_inv in blast)+

end
