(* ===== verification/TaskStore_Total.thy ===== *)
theory TaskStore_Total
  imports TaskStore_Steps
begin

text \<open>
  Sizes of the journalled bodies, and the operations that cannot fail on input of ordinary size: a record
  fits in a frame, so the audit store takes it.
\<close>

section \<open>Appends that cannot fail\<close>

lemma append_sync_total:
  assumes "replays (holds e) (ts_audit s) rs" "orderly (Suc n) e ck (ts_audit s)" "submit_ok r"
    "length (ar_principal r) + length (ar_body r) \<le> 4000000"
  shows "\<exists>s'. append_sync e ck s r = (s', Inr ())"
proof -
  from assms(1) obtain logs lo where h: "env_ok e" "store_holds (te_b3 e) (te_zdec e) (ts_audit s) logs lo"
    by (auto simp: replays_def holds_def store_inv_def)
  have b3: "\<forall>x. length (te_b3 e x) = 32" using h(1) by (simp add: env_ok_def)
  have "next_segment_last (st_disk (ts_audit s)) ck" using assms(2) by simp
  from store_append_total [OF h(2) assms(3) b3 assms(4) this, of "te_zenc e"] show ?thesis by (auto simp: append_sync_def)
qed

text \<open>The body a task journals is small enough for a frame.\<close>

definition small_task :: "task \<Rightarrow> string \<Rightarrow> bool" where
  "small_task t op \<longleftrightarrow> (\<forall>h. length h = 32 \<longrightarrow> length (t_principal t) + length (task_body t op h) \<le> 4000000)"

lemma journal_total:
  assumes "replays (holds e) (ts_audit s) rs" "orderly (Suc n) e ck (ts_audit s)" "task_ok t" "rstr op" "env_ok e"
    "\<forall>k h. ts_hashes s k = Some h \<longrightarrow> length h = 32" "small_task t op"
  shows "\<exists>s'. journal e ck s t op = (s', Inr ())"
proof -
  have "\<exists>s'. append_sync e ck s1 (record_new\<lparr>ar_kind := KTask, ar_principal := t_principal t, ar_task_id := Some (t_id t),
          ar_body := task_body t op h\<rparr>) = (s', Inr ())" if "length h = 32" "ts_audit s1 = ts_audit s" for h s1
  proof (rule append_sync_total [where rs = rs and n = n])
    show "submit_ok (record_new\<lparr>ar_kind := KTask, ar_principal := t_principal t, ar_task_id := Some (t_id t), ar_body := task_body t op h\<rparr>)"
      by (rule submit_record') (use assms(3) item_mono [OF item_task_body [OF assms(3,4) that(1)]] in \<open>auto simp: task_ok_def\<close>)
  qed (use assms(1,2,7) that in \<open>simp_all add: small_task_def\<close>)
  moreover have "length (statement_hash (te_b3 e) t) = 32" using assms(5) by (simp add: statement_hash_def env_ok_def)
  ultimately show ?thesis using assms(6) by (auto simp: journal_def Let_def split: option.split)
qed

lemma length_revoke_body: "\<forall>i \<in> set ids. ulid_ok i \<Longrightarrow> length (revoke_body ids) \<le> 100 + 25 * length ids"
proof -
  assume ids: "\<forall>i \<in> set ids. ulid_ok i"
  have "length (concat (map (\<lambda>i. put_bytes (ulid_bytes i)) ids)) \<le> 25 * length ids"
    using ids
  proof (induction ids)
    case (Cons i ids)
    have "length (put_bytes (ulid_bytes i)) \<le> 25" using Cons.prems length_puts(2) [of "ulid_bytes i"] by (simp add: ulid_ok_def)
    then show ?case using Cons by simp
  qed simp
  then show ?thesis
    using length_puts(3) [of "''grants''"] length_puts(3) [of "''reason''"] length_puts(3) [of "''task_closed''"]
      length_puts(4) [of "length ids"] length_puts(5) [of "Suc (Suc 0)"]
    by (simp add: revoke_body_eq put_entries_def put_pairs_def revoke_entries_def)
qed

lemma revoke_for_task_total:
  assumes "replays (holds e) (ts_audit s) rs" "orderly (Suc n) e ck (ts_audit s)" "ulid_ok i"
    "\<forall>t. task_of s i = Some t \<longrightarrow> rstr (t_principal t) \<and> length (t_principal t) \<le> 1400000"
    "\<forall>g \<in> set (ts_grants s). ulid_ok (g_id (is_grant g))" "length (live_ids (ts_grants s) i) \<le> 100000"
  shows "\<exists>s'. revoke_for_task e ck s i = (s', Inr ())"
proof (cases "live_ids (ts_grants s) i = []")
  case True
  then show ?thesis by (simp add: revoke_for_task_def live_ids_def)
next
  case False
  define ids where "ids = live_ids (ts_grants s) i"
  define p where "p = (case task_of s i of Some t \<Rightarrow> t_principal t | None \<Rightarrow> [])"
  define r where "r = record_new\<lparr>ar_kind := KRevoke, ar_principal := p, ar_task_id := Some i, ar_body := revoke_body ids\<rparr>"
  have ok: "\<forall>x \<in> set ids. ulid_ok x" using assms(5) by (auto simp: ids_def live_ids_def)
  have len: "length ids \<le> 100000" using assms(6) by (simp add: ids_def)
  have p: "rstr p" "length p \<le> 1400000" using assms(4) by (auto simp: p_def rstr_def utf8_def str_bytes_def split: option.splits)
  have sub: "submit_ok r"
    unfolding r_def by (rule submit_record') (use p(1) assms(3) item_mono [OF item_revoke_body [OF ok]] len in auto)
  have size: "length (ar_principal r) + length (ar_body r) \<le> 4000000"
    using length_revoke_body [OF ok] p(2) len by (simp add: r_def)
  from append_sync_total [OF assms(1,2) sub size] obtain s1 where "append_sync e ck s r = (s1, Inr ())" by blast
  then show ?thesis
    using False unfolding revoke_for_task_def Let_def live_ids_def [symmetric] p_def [symmetric] ids_def [symmetric] r_def [symmetric]
    by (simp add: ts_bind_def)
qed

section \<open>Sizes of bodies\<close>

definition entries_size :: "entries \<Rightarrow> nat" where
  "entries_size es = sum_list (map (\<lambda>(k, v). length k + length v + 9) es)"

lemma entries_size_simps [simp]:
  "entries_size [] = 0" "entries_size ((k, v) # es) = length k + length v + 9 + entries_size es"
  "entries_size (es @ fs) = entries_size es + entries_size fs"
  by (simp_all add: entries_size_def)

lemma entries_size_opt: "entries_size (opt_entry k v) = (case v of None \<Rightarrow> 0 | Some b \<Rightarrow> length k + length b + 9)"
  by (cases v) simp_all

lemma length_put_entries: "length (put_entries es) \<le> 9 + entries_size es"
proof -
  have "length (put_pairs es) \<le> entries_size es"
  proof (induction es)
    case (Cons e es)
    then show ?case using length_puts(3) [of "fst e"] by (cases e) (simp add: put_pairs_def)
  qed (simp add: put_pairs_def)
  then show ?thesis using length_puts(5) [of "length es"] by (simp add: put_entries_def)
qed

text \<open>The part of a journal record that has no fixed bound.\<close>

definition task_bytes :: "task \<Rightarrow> nat" where
  "task_bytes t = length (t_principal t) + length (t_origin_ref t) + length (t_chain_root t) +
     (case t_agent_note t of None \<Rightarrow> 0 | Some n \<Rightarrow> length n) + length (counters_encode (t_counters t))"

lemma word_names: "length (task_state_as_str st) \<le> 10" "length (origin_as_str w) \<le> 20" "length (close_reason_as_str r) \<le> 20"
  by (cases st, simp_all) (cases w, simp_all, cases r, simp_all)

lemma length_task_body:
  assumes "task_ok t" "length h = 32" "length op \<le> 20"
  shows "length (task_body t op h) \<le> task_bytes t + 800"
proof -
  note le = order_trans [OF length_puts(1)] order_trans [OF length_puts(2)] order_trans [OF length_puts(3)]
  have opts: "(case map_option (\<lambda>p. put_bytes (ulid_bytes p)) (t_parent_task_id t) of None \<Rightarrow> 0 | Some b \<Rightarrow> length ''parent'' + length b + 9) \<le> 60"
    "(case map_option put_text (t_agent_note t) of None \<Rightarrow> 0 | Some b \<Rightarrow> length ''agent_note'' + length b + 9) \<le>
       40 + (case t_agent_note t of None \<Rightarrow> 0 | Some n \<Rightarrow> length n)"
    "(case map_option (\<lambda>r. put_text (close_reason_as_str r)) (reason_of (t_state t)) of None \<Rightarrow> 0 | Some b \<Rightarrow> length ''close_reason'' + length b + 9) \<le> 60"
    using assms(1) word_names(3) length_puts(2) length_puts(3)
    by (auto simp: task_ok_def ulid_ok_def split: option.split intro!: le order_trans [OF word_names(3)])
  have texts: "length (put_text op) \<le> 30" "length (put_text (task_state_as_str (t_state t))) \<le> 30"
    "length (put_text (origin_as_str (t_origin t))) \<le> 30" "length (put_bytes h) \<le> 50"
    using assms(2,3) by (auto intro!: le order_trans [OF word_names(1)] order_trans [OF word_names(2)])
  have "entries_size (task_entries t op h) \<le> task_bytes t + 700"
    using opts texts length_puts(1) [of "ucast (t_depth t)"] length_puts(1) [of "t_opened_ms t"] length_puts(1) [of "t_deadline_ms t"]
      length_puts(3) [of "t_chain_root t"] length_puts(3) [of "t_origin_ref t"]
    by (simp add: task_entries_def entries_size_opt task_bytes_def del: opt_entry_simps)
  then show ?thesis using length_put_entries [of "task_entries t op h"] by (simp add: task_body_entries)
qed

lemma task_small:
  assumes "task_ok t" "task_bytes t \<le> 1400000" "length op \<le> 20"
  shows "small_task t op"
  unfolding small_task_def
proof (intro allI impI)
  fix h :: "byte list" assume "length h = 32"
  from length_task_body [OF assms(1) this assms(3)] have "length (task_body t op h) \<le> task_bytes t + 800" .
  moreover have "length (t_principal t) \<le> task_bytes t" by (simp add: task_bytes_def)
  ultimately show "length (t_principal t) + length (task_body t op h) \<le> 4000000" using assms(2) by linarith
qed

section \<open>Cancellation cannot fail\<close>

lemma task_bytes_state [simp]: "task_bytes (t\<lparr>t_state := st\<rparr>) = task_bytes t"
  by (simp add: task_bytes_def)

lemma task_of_live:
  assumes "tasks_ok (ts_tasks s)" "t \<in> set (ts_tasks s)"
  shows "task_of s (t_id t) = Some t" "\<exists>k. position (\<lambda>x. t_id x = t_id t) (ts_tasks s) = Some k \<and> ts_tasks s ! k = t"
proof -
  have inj: "inj_on t_id (set (ts_tasks s))" using assms(1) by (simp add: tasks_ok_def distinct_map)
  have "task_of s (t_id t) \<noteq> None" using assms(2) by (auto simp: task_of_def find_None_iff)
  then obtain u where u: "task_of s (t_id t) = Some u" by blast
  then have "u \<in> set (ts_tasks s)" "t_id u = t_id t" by (auto simp: task_of_def dest: find_SomeD)
  then have "u = t" using inj_onD [OF inj] assms(2) by blast
  with u show "task_of s (t_id t) = Some t" by simp
  have "position (\<lambda>x. t_id x = t_id t) (ts_tasks s) \<noteq> None" using assms(2) by (auto simp: position_None)
  then obtain k where k: "position (\<lambda>x. t_id x = t_id t) (ts_tasks s) = Some k" by blast
  from position_Some [OF this] have "ts_tasks s ! k \<in> set (ts_tasks s)" "t_id (ts_tasks s ! k) = t_id t" by simp_all
  then have "ts_tasks s ! k = t" using inj_onD [OF inj] assms(2) by blast
  with k show "\<exists>k. position (\<lambda>x. t_id x = t_id t) (ts_tasks s) = Some k \<and> ts_tasks s ! k = t" by blast
qed

lemma live_events: "is_live st \<Longrightarrow> transition st Cancel = Inr (Closed Cancelled)" "is_live st \<Longrightarrow> transition st Fault = Inr (Closed Failed)"
  by (cases st; simp)+

lemma close_total:
  assumes inv: "ts_inv e s" and ord: "orderly (Suc (Suc n)) e ck (ts_audit s)" and t: "t \<in> set (ts_tasks s)"
    and tr: "transition (t_state t) ev = Inr (Closed r)"
    and size: "task_bytes t \<le> 1400000" "length (live_ids (ts_grants s) (t_id t)) \<le> 100000"
  shows "\<exists>s'. task_apply e ck s (t_id t) ev = (s', Inr (Closed r))"
proof -
  from inv obtain rs where rs: "replays (holds e) (ts_audit s) rs" "mirrors s rs" "tasks_ok (ts_tasks s)"
    "grants_ok e (ts_tasks s) (ts_grants s)" "\<forall>k h. ts_hashes s k = Some h \<longrightarrow> length h = 32" "env_ok e" by (rule ts_invD)
  from task_of_live [OF rs(3) t] obtain k where k: "position (\<lambda>x. t_id x = t_id t) (ts_tasks s) = Some k" "ts_tasks s ! k = t"
    and of: "task_of s (t_id t) = Some t" by blast
  let ?t = "t\<lparr>t_state := Closed r\<rparr>"
  have tk: "task_ok t" using rs(3) t by (simp add: tasks_ok_def)
  then have tok: "task_ok ?t" by (simp add: task_ok_def)
  have sm: "small_task ?t ''close''" using size(1) by (intro task_small tok) simp_all
  from journal_total [OF rs(1) ord tok rstr_ops(2) rs(6,5) sm] obtain s1 where j: "journal e ck s ?t ''close'' = (s1, Inr ())" by blast
  from journal_Inr [OF j rs(1) ord tok rstr_ops(2) rs(6,5)] obtain a h rs1 where
    s1: "s1 = s\<lparr>ts_audit := a, ts_hashes := (ts_hashes s)(ulid_bytes (t_id ?t) \<mapsto> h)\<rparr>" "replays (holds e) a rs1" "orderly (Suc n) e ck a" by blast
  have "\<exists>s2. revoke_for_task e ck s1 (t_id t) = (s2, Inr ())"
  proof (rule revoke_for_task_total)
    show "replays (holds e) (ts_audit s1) rs1" "orderly (Suc n) e ck (ts_audit s1)" using s1 by simp_all
    show "ulid_ok (t_id t)" using tk by (simp add: task_ok_def)
    have "task_of s1 (t_id t) = Some t" using of by (simp add: task_of_def s1(1))
    then show "\<forall>u. task_of s1 (t_id t) = Some u \<longrightarrow> rstr (t_principal u) \<and> length (t_principal u) \<le> 1400000"
      using tk size(1) by (simp add: task_ok_def task_bytes_def)
    show "\<forall>g \<in> set (ts_grants s1). ulid_ok (g_id (is_grant g))" using rs(4) by (simp add: s1(1) grants_ok_def issued_ok_def Let_def grant_ok_def)
    show "length (live_ids (ts_grants s1) (t_id t)) \<le> 100000" using size(2) by (simp add: s1(1))
  qed
  then obtain s2 where r2: "revoke_for_task e ck s1 (t_id t) = (s2, Inr ())" by blast
  show ?thesis using k tr j r2 by (simp add: task_apply_def Let_def ts_bind_def)
qed

section \<open>Issuing and opening cannot fail on small input\<close>

definition grant_bytes :: "grant \<Rightarrow> nat" where
  "grant_bytes g = length (g_issuer g) + length (encode_constraints (g_constraints g)) +
     length (concat (map encode_capability (g_capabilities g)))"

lemma length_bool: "length (put_bool b) \<le> 9"
  using length_put_head by (simp add: put_bool_def)

lemma length_grant_encode:
  assumes "grant_ok g"
  shows "length (grant_encode g) \<le> grant_bytes g + length (g_principal g) + 500"
proof -
  have "length (put_bytes (ulid_bytes (g_id g))) \<le> 25" "length (put_bytes (ulid_bytes (g_task_id g))) \<le> 25"
    using assms length_puts(2) [of "ulid_bytes (g_id g)"] length_puts(2) [of "ulid_bytes (g_task_id g)"]
    by (simp_all add: grant_ok_def ulid_ok_def)
  then have "entries_size (grant_entries g) \<le> grant_bytes g + length (g_principal g) + 400"
    using length_puts(1) [of "g_issued_ms g"] length_puts(1) [of "g_expires_ms g"] length_puts(3) [of "g_issuer g"]
      length_puts(3) [of "g_principal g"] length_puts(4) [of "length (g_capabilities g)"] length_bool [of "g_unattended g"]
    by (simp add: grant_entries_def grant_bytes_def)
  then show ?thesis using length_put_entries [of "grant_entries g"] by (simp add: grant_encode_eq)
qed

lemma length_sealed:
  assumes "grant_ok g" "env_ok e"
  shows "length (sealed e g) \<le> grant_bytes g + length (g_principal g) + 800"
proof -
  let ?prot = "protected_header (te_b3 e) (te_key e)"
  have "length (te_b3 e (te_key e)) = 32" "length (te_sign e (sig_structure ?prot (grant_encode g))) = 64" using assms(2) by (simp_all add: env_ok_def)
  then have "length ?prot \<le> 100"
    using length_puts(5) [of "Suc (Suc 0)"] length_puts(2) [of "te_b3 e (te_key e)"] length_put_i64 [of ALG_EDDSA]
    unfolding protected_header_eq label_bytes key_id_def by (simp add: numeral_2_eq_2)
  then show ?thesis
    using length_grant_encode [OF assms(1)] length_puts(2) [of ?prot] length_puts(2) [of "grant_encode g"] length_puts(4) [of 4]
      length_puts(2) [of "te_sign e (sig_structure ?prot (grant_encode g))"] assms(2) length_put_head [of MAJOR_MAP 0]
    by (simp add: sealed_def cose_sign1_def Let_def env_ok_def mb_finish_def sort_key_def)
qed

lemma issue_total:
  assumes inv: "ts_inv e s" and ord: "orderly (Suc n) e ck (ts_audit s)" and t: "task_of s (g_task_id g) = Some t" "t_state t = Active"
    "g_expires_ms g \<le> t_deadline_ms t" "g_unattended g \<longrightarrow> sat_sub (g_expires_ms g) now \<le> UNATTENDED_MAX_MS"
    and g: "request_ok g" "length ent = 10" "task_bytes t + grant_bytes g \<le> 1400000"
  shows "\<exists>s'. issue_grant e ck ent s g reason now = (s', Inr (sealed e (stamped g t (ulid_from_parts now ent) now)))"
proof -
  from inv obtain rs where rs: "replays (holds e) (ts_audit s) rs" "tasks_ok (ts_tasks s)" "env_ok e" by (rule ts_invD)
  let ?g = "stamped g t (ulid_from_parts now ent) now"
  have ts: "t \<in> set (ts_tasks s)" "t_id t = g_task_id g" using t(1) by (auto simp: task_of_def dest: find_SomeD)
  then have tok: "task_ok t" using rs(2) by (simp add: tasks_ok_def)
  have gok: "grant_ok ?g"
    using g(1) ulid_ok_parts [OF g(2)] tok ts(2) by (auto simp: grant_ok_def request_ok_def task_ok_def stamped_def)
  have gb: "grant_bytes ?g = grant_bytes g" by (simp add: grant_bytes_def stamped_def)
  have pr: "length (t_principal t) \<le> task_bytes t" by (simp add: task_bytes_def)
  have len: "length (sealed e ?g) \<le> grant_bytes g + length (t_principal t) + 800" using length_sealed [OF gok rs(3)] by (simp add: gb)
  have iss: "rstr (g_issuer g)" "length (g_issuer g) \<le> grant_bytes g" using g(1) by (simp_all add: request_ok_def grant_bytes_def)
  have "length (grant_reason_as_str reason) \<le> 8" by (cases reason) simp_all
  then have "length (t_principal t) + length (grant_body (sealed e ?g) (g_issuer g) reason) \<le> 4000000"
    using length_put_entries [of "grant_body_entries (sealed e ?g) (g_issuer g) reason"] len g(3) pr
      length_puts(2) [of "sealed e ?g"] length_puts(3) [of "g_issuer g"] length_puts(3) [of "grant_reason_as_str reason"] iss(2)
    by (simp add: grant_body_eq grant_body_entries_def)
  moreover have "submit_ok (grant_record e ?g reason)"
    unfolding grant_record_def using gok item_mono [OF item_grant_body [OF _ iss(1)]] len g(3) pr
    by (intro submit_record) (auto simp: grant_ok_def)
  ultimately have "\<exists>s1. append_sync e ck s (grant_record e ?g reason) = (s1, Inr ())"
    by (intro append_sync_total [OF rs(1) ord]) (simp_all add: grant_record_def)
  then obtain s1 where "append_sync e ck s (grant_record e ?g reason) = (s1, Inr ())" by blast
  then show ?thesis
    using t by (auto simp: issue_grant_def Let_def ts_bind_def stamped_def sealed_def grant_record_def)
qed

end
