(* ===== verification/TaskStore_Samples.thy ===== *)
theory TaskStore_Samples
  imports TaskStore_Total AuditStore_Samples
begin

text \<open>
  A concrete environment and a run: a new store, opened for the human with one task and one grant.
\<close>

section \<open>Opening\<close>

lemma open_total:
  assumes inv: "ts_inv e s" and ord: "orderly (Suc n) e ck (ts_audit s)" and live: "live_task s p = None"
    and p: "rstr p" "rstr oref" "length ent = 10"
    and size: "task_bytes (new_task s (ulid_from_parts now ent) p orig oref stmt dl now res) \<le> 1400000"
  shows "\<exists>s'. open_task_from e ck ent s p orig oref stmt dl now res = (s', Inr (ulid_from_parts now ent))"
proof -
  from inv obtain rs where rs: "replays (holds e) (ts_audit s) rs" "tasks_ok (ts_tasks s)"
    "\<forall>k h. ts_hashes s k = Some h \<longrightarrow> length h = 32" "env_ok e" by (rule ts_invD)
  let ?t = "new_task s (ulid_from_parts now ent) p orig oref stmt dl now res"
  have tok: "task_ok ?t" by (rule new_task_ok [OF rs(2) ulid_ok_parts [OF p(3)] p(1,2)])
  have "small_task ?t ''open''" using size by (intro task_small tok) simp_all
  from journal_total [OF rs(1) ord tok rstr_ops(1) rs(4,3) this] show ?thesis
    by (auto simp: open_task_from_eq live Let_def ts_bind_def)
qed

section \<open>A store with one task and one grant\<close>

lemma orderly_roomy:
  assumes "next_segment_last [(OPEN_PATH, [])] ck" "\<And>f. next_segment_last [(OPEN_PATH, f)] ck"
  shows "st_disk a = [(OPEN_PATH, f)] \<Longrightarrow> st_written a + n * (MAX_FRAME + 4) < SEGMENT_BYTES \<Longrightarrow> orderly n e ck a"
proof (induction n arbitrary: a f)
  case (Suc n)
  have "orderly n e ck (store_sync ck a')" if run: "store_append (te_b3 e) (te_zenc e) ck a r = Inr (a', r')" for r a' r'
  proof -
    from run obtain b q where b: "append_frame (te_b3 e) ck a r = Inr (b, q)" and
      rot: "(if SEGMENT_BYTES \<le> st_written b then rbind (store_rotate (te_b3 e) (te_zenc e) ck b) (\<lambda>s. Inr (s, q)) else Inr (b, q)) = Inr (a', r')"
      by (auto simp: store_append_def rbind_Inr_iff)
    have w: "st_written b \<le> st_written a + (MAX_FRAME + 4)" and d: "\<exists>f. st_disk b = [(OPEN_PATH, f)]"
      using b Suc.prems(1) by (auto simp: append_frame_def Let_def store_sync_def split: if_splits)
    have "st_written b + n * (MAX_FRAME + 4) < SEGMENT_BYTES" using w Suc.prems(2) by simp
    moreover from this have "a' = b" using rot by simp
    moreover obtain f' where "st_disk b = [(OPEN_PATH, f')]" using d by blast
    ultimately show ?thesis by (intro Suc.IH [of _ f']) (simp_all add: store_sync_def)
  qed
  then show ?case using assms(2) Suc.prems(1) by simp
qed simp

definition sample_env :: env where
  "sample_env = \<lparr>te_b3 = sample_hash, te_zenc = id, te_zdec = Some, te_sign = (\<lambda>_. replicate 64 3), te_key = [8], te_rxok = (\<lambda>_. True)\<rparr>"

lemma sample_env_ok: "env_ok sample_env"
  by (simp add: env_ok_def sample_env_def sample_hash_def)

definition first_store :: task_store where
  "first_store = \<lparr>ts_audit = sample_store, ts_tasks = [], ts_grants = [], ts_recent = [], ts_hashes = Map.empty\<rparr>"

lemma first_boot: "task_open sample_env 0 [] = ([(OPEN_PATH, [])], Inr first_store)"
proof -
  have a: "store_open (te_b3 sample_env) (te_zdec sample_env) 0 [] = ([(OPEN_PATH, [])], Inr sample_store)"
    unfolding sample_store_def by (rule fresh_store)
  have "store_inv sample_hash Some sample_store []" by (rule sample_inv)
  from store_readable [OF this] have "for_each (te_zdec sample_env) [(OPEN_PATH, [])] = Inr []" by (simp add: sample_env_def sample_disk)
  then show ?thesis by (simp add: task_open_def a settle_def replay_new_def first_store_def)
qed

lemma first_inv: "ts_inv sample_env first_store"
  using boot [OF sample_env_ok first_boot] by simp

lemma sample_orderly: "n \<le> 14 \<Longrightarrow> orderly n sample_env sample_clocks sample_store"
  by (rule orderly_roomy [where f = "[]"]) (auto simp: sample_next sample_store_def MAX_FRAME_def SEGMENT_BYTES_def)

definition sample_entropy :: "byte list" where "sample_entropy = replicate 10 7"

definition sample_scope :: string where "sample_scope = ''scene.list class:private''"

definition sample_caps :: "capability list" where
  "sample_caps = [\<lparr>cap_name = ''scene.list'', cap_scopes = [''class:private''], cap_quota = None\<rparr>]"

lemma sample_capabilities: "capabilities f sample_scope = (if isl (scope_parse f ''class:private'') then None else Some sample_caps)"
proof -
  have "split_ws [] sample_scope = [''scene.list'', ''class:private'']" unfolding sample_scope_def by code_simp
  moreover have "str_lines sample_scope = [sample_scope]" by (simp add: str_lines.simps [of sample_scope] sample_scope_def)
  ultimately show ?thesis
    by (simp add: capabilities_def capability_line_def sample_caps_def ascii_lowercase_def)
qed

lemma sample_scope_parses: "capabilities (te_rxok sample_env) sample_scope = Some sample_caps" "split_ws [] sample_scope \<noteq> []"
proof -
  have "\<not> isl (scope_parse (\<lambda>_. True) ''class:private'')" by code_simp
  then show "capabilities (te_rxok sample_env) sample_scope = Some sample_caps" by (simp add: sample_capabilities sample_env_def)
  show "split_ws [] sample_scope \<noteq> []" unfolding sample_scope_def by code_simp
qed

lemma rstr_samples: "rstr ''agent:a''" "rstr []" "rstr sample_scope" "length sample_entropy = 10"
  by (simp_all add: rstr_def utf8_ascii sample_scope_def utf8_def str_bytes_def sample_entropy_def)

lemma length_default_counters: "length (counters_encode counters_default) \<le> 1000"
  using length_put_entries [of "counters_entries counters_default"] length_puts(1) [of 0] length_puts(4) [of 0] length_put_head [of MAJOR_MAP 0]
  by (simp add: counters_encode_eq counters_entries_def counters_default_def encode_ring_def mb_finish_def sort_key_def)

abbreviation "sample_id \<equiv> ulid_from_parts 5 sample_entropy"

definition sample_task :: task where
  "sample_task = new_task first_store sample_id ''agent:a'' OriginHuman [] ''read the page'' 100 5 None"

lemma sample_task_simps [simp]:
  "t_id sample_task = sample_id" "t_principal sample_task = ''agent:a''" "t_state sample_task = Active" "t_deadline_ms sample_task = 100"
  by (simp_all add: sample_task_def)

lemma sample_task_bytes: "task_bytes sample_task \<le> 2000"
  using length_default_counters by (simp add: task_bytes_def sample_task_def new_task_def)

lemma sample_grant_bytes: "grant_bytes (first_grant i sample_caps now x u) \<le> 1000"
  by (simp add: grant_bytes_def first_grant_def sample_caps_def constraints_default_def encode_bytes)

lemma sample_request: "request_ok (first_grant i sample_caps now x u)"
  by (rule request_ok_first) (use capabilities_ok [OF rstr_samples(3) sample_scope_parses(1)] in simp_all)

abbreviation "sample_issued \<equiv> stamped (first_grant sample_id sample_caps 5 100 False) sample_task sample_id 5"

text \<open>The whole run of \<open>open_for_human\<close> on a new store.\<close>

lemma sample_run:
  obtains s where "open_for_human sample_env sample_clocks sample_entropy sample_entropy first_store ''agent:a'' ''read the page'' 100
      sample_scope [] None 5 = (s, Inr (sample_id, sealed sample_env sample_issued))"
    "ts_reachable sample_env s" "ts_tasks s = [sample_task]"
    "ts_grants s = [\<lparr>is_grant = sample_issued, is_cose = sealed sample_env sample_issued, is_revoked = False\<rparr>]"
    "orderly 10 sample_env sample_clocks (ts_audit s)"
proof -
  have o14: "orderly (Suc 11) sample_env sample_clocks (ts_audit first_store)"
    by (simp only: first_store_def task_store.select_convs) (rule sample_orderly, simp)
  have none: "live_task first_store ''agent:a'' = None" by (simp add: live_task_def first_store_def)
  have size: "task_bytes (new_task first_store sample_id ''agent:a'' OriginHuman [] ''read the page'' 100 5 None) \<le> 1400000"
    using sample_task_bytes by (simp add: sample_task_def)
  from open_total [OF first_inv o14 none rstr_samples(1,2,4) size] obtain s1 where
    op: "open_task_from sample_env sample_clocks sample_entropy first_store ''agent:a'' OriginHuman [] ''read the page'' 100 5 None = (s1, Inr sample_id)"
    by blast
  have fresh: "\<forall>t \<in> set (ts_tasks first_store). t_id t \<noteq> sample_id" by (simp add: first_store_def)
  from open_task_from_inv [OF first_inv o14 op rstr_samples(1,2,4) fresh]
  have s1: "ts_inv sample_env s1" "orderly (Suc 10) sample_env sample_clocks (ts_audit s1)" "ts_grants s1 = []" "ts_tasks s1 = [sample_task]"
    by (simp_all add: sample_task_def first_store_def)
  let ?g = "first_grant sample_id sample_caps 5 100 False"
  have of: "task_of s1 (g_task_id ?g) = Some sample_task" by (simp add: task_of_def s1(4))
  have gsize: "task_bytes sample_task + grant_bytes ?g \<le> 1400000"
    using sample_task_bytes sample_grant_bytes [of sample_id 5 100 False] by simp
  have "\<exists>s'. issue_grant sample_env sample_clocks sample_entropy s1 ?g GrManifest 5 =
      (s', Inr (sealed sample_env (stamped ?g sample_task (ulid_from_parts 5 sample_entropy) 5)))"
    by (rule issue_total [OF s1(1,2) of _ _ _ sample_request rstr_samples(4) gsize]) simp_all
  then obtain s where ig: "issue_grant sample_env sample_clocks sample_entropy s1 ?g GrManifest 5 = (s, Inr (sealed sample_env sample_issued))" by blast
  have "\<forall>i \<in> set (ts_grants s1). g_id (is_grant i) \<noteq> sample_id" by (simp add: s1(3))
  from issue_inv [OF s1(1,2) ig sample_request rstr_samples(4) this] of
  have s: "orderly 10 sample_env sample_clocks (ts_audit s)" "ts_tasks s = [sample_task]"
    "ts_grants s = [\<lparr>is_grant = sample_issued, is_cose = sealed sample_env sample_issued, is_revoked = False\<rparr>]" by (simp_all add: s1)
  have run: "open_for_human sample_env sample_clocks sample_entropy sample_entropy first_store ''agent:a'' ''read the page'' 100
      sample_scope [] None 5 = (s, Inr (sample_id, sealed sample_env sample_issued))"
    by (simp add: open_for_human_def sample_scope_parses op ig ts_bind_def)
  have "ts_step sample_env first_store s"
  proof (rule step_human [OF run])
    have "orderly 3 sample_env sample_clocks sample_store" by (rule sample_orderly) simp
    then show "orderly 3 sample_env sample_clocks (ts_audit first_store)" by (simp only: first_store_def task_store.select_convs)
  qed (simp_all only: answered_def fresh_task_def fresh_grant_def first_store_def rstr_samples task_store.select_convs, simp_all)
  then have "ts_reachable sample_env s" using reach_step reach_boot [OF sample_env_ok first_boot] by blast
  with run s show ?thesis using that by blast
qed

end
