(* ===== verification/TaskStore_Laws.thy ===== *)
theory TaskStore_Laws
  imports TaskStore_Samples
begin

text \<open>
  What the task store promises: a restart loses nothing, one live task per principal, grants within their
  tasks and verifiable, cancellation that gets through, complete decisions on requests, and authority that
  is never taken back up.
\<close>

lemma length_le_1I:
  assumes "distinct xs" "\<And>x y. x \<in> set xs \<Longrightarrow> y \<in> set xs \<Longrightarrow> x = y"
  shows "length xs \<le> 1"
proof (cases xs)
  case (Cons x ys)
  have "ys = []"
  proof (rule ccontr)
    assume "ys \<noteq> []"
    then obtain y where "y \<in> set ys" by (cases ys) auto
    then show False using assms(1) assms(2) [of x y] Cons by auto
  qed
  then show ?thesis using Cons by simp
qed simp

text \<open>C16: a restart loses nothing. Opening the directory of any reachable store replays the journal to the
  tasks, grants and revocations that were in memory: the statements of tasks are not journalled, their
  hashes are.\<close>

theorem restart_recovers_tasks:
  assumes "ts_reachable e s"
  shows "\<exists>hs. task_open e now (st_disk (ts_audit s)) = (st_disk (ts_audit s), Inr (restarted s now hs)) \<and>
    (\<forall>t \<in> set (ts_tasks s). hs (ulid_bytes (t_id t)) = ts_hashes s (ulid_bytes (t_id t)) \<and> hs (ulid_bytes (t_id t)) \<noteq> None)"
  using reopen [OF ts_reachable_inv [OF assms], of now] by blast

lemma restart_recovers_tasks_witness:
  "\<exists>s hs. ts_tasks s = [sample_task] \<and> task_open sample_env 9 (st_disk (ts_audit s)) = (st_disk (ts_audit s), Inr (restarted s 9 hs)) \<and>
     hs (ulid_bytes sample_id) \<noteq> None"
proof (rule sample_run)
  fix s assume "ts_reachable sample_env s" and t: "ts_tasks s = [sample_task]"
  from restart_recovers_tasks [OF this(1), of 9] t show ?thesis by (metis list.set_intros(1) sample_task_simps(1))
qed

text \<open>C21: in every reachable store task ids are distinct and a principal has at most one live task.\<close>

theorem one_live_task:
  assumes "ts_reachable e s"
  shows "distinct (map t_id (ts_tasks s)) \<and>
    length (filter (\<lambda>t. t_principal t = p \<and> is_live (t_state t)) (ts_tasks s)) \<le> 1"
proof -
  have ok: "tasks_ok (ts_tasks s)" using ts_reachable_inv [OF assms] by (simp add: ts_inv_def)
  let ?l = "filter (\<lambda>t. t_principal t = p \<and> is_live (t_state t)) (ts_tasks s)"
  have d: "distinct (map t_id ?l)" using ok by (simp add: tasks_ok_def distinct_map_filter)
  have "length (map t_id ?l) \<le> 1"
  proof (rule length_le_1I [OF d])
    fix i j assume "i \<in> set (map t_id ?l)" "j \<in> set (map t_id ?l)"
    then obtain x y where xy: "x \<in> set ?l" "i = t_id x" "y \<in> set ?l" "j = t_id y" unfolding set_map by blast
    have "one_live (ts_tasks s)" using ok by (simp add: tasks_ok_def)
    from xy(1,3) have m: "x \<in> set (ts_tasks s)" "y \<in> set (ts_tasks s)" "is_live (t_state x)" "is_live (t_state y)"
      "t_principal x = p" "t_principal y = p" unfolding set_filter by blast+
    from one_liveD [OF \<open>one_live (ts_tasks s)\<close> m(1-4)] m(5,6) show "i = j" unfolding xy(2,4) by metis
  qed
  then have "length ?l \<le> 1" by simp
  then show ?thesis using ok by (simp add: tasks_ok_def)
qed

lemma one_live_task_witness: "\<exists>s :: task_store. ts_tasks s = [sample_task] \<and> distinct (map t_id (ts_tasks s)) \<and>
    length (filter (\<lambda>t. t_principal t = ''agent:a'' \<and> is_live (t_state t)) (ts_tasks s)) \<le> 1"
proof (rule sample_run)
  fix s assume "ts_reachable sample_env s" "ts_tasks s = [sample_task]"
  then show ?thesis using one_live_task [of sample_env s "''agent:a''"] by (intro exI [of _ s]) simp
qed

text \<open>C17: authority is bounded by tasks. In every reachable store a grant belongs to one task of its own
  principal, does not outlive that task's deadline, is revoked once the task is closed, and an unattended
  grant lasts an hour at most.\<close>

theorem grants_within_tasks:
  assumes "ts_reachable e s" "i \<in> set (ts_grants s)"
  shows "(\<exists>t \<in> set (ts_tasks s). t_id t = g_task_id (is_grant i) \<and> t_principal t = g_principal (is_grant i) \<and>
      g_expires_ms (is_grant i) \<le> t_deadline_ms t \<and> (is_live (t_state t) \<or> is_revoked i)) \<and>
    (g_unattended (is_grant i) \<longrightarrow> sat_sub (g_expires_ms (is_grant i)) (g_issued_ms (is_grant i)) \<le> 3600000)"
proof -
  have "issued_ok e (ts_tasks s) i" using ts_reachable_inv [OF assms(1)] assms(2) by (simp add: ts_inv_def grants_ok_def)
  then show ?thesis by (auto simp: issued_ok_def Let_def UNATTENDED_MAX_MS_def)
qed

lemma grants_within_tasks_witness:
  "\<exists>(s :: task_store) (i :: issued). ts_grants s = [i] \<and> \<not> is_revoked i \<and> (\<exists>t \<in> set (ts_tasks s). t_id t = g_task_id (is_grant i) \<and> is_live (t_state t))"
proof (rule sample_run)
  fix s assume s: "ts_reachable sample_env s" "ts_grants s = [\<lparr>is_grant = sample_issued, is_cose = sealed sample_env sample_issued, is_revoked = False\<rparr>]"
  let ?i = "\<lparr>is_grant = sample_issued, is_cose = sealed sample_env sample_issued, is_revoked = False\<rparr>"
  have "?i \<in> set (ts_grants s)" using s(2) by simp
  from grants_within_tasks [OF s(1) this] have "\<exists>t \<in> set (ts_tasks s). t_id t = g_task_id (is_grant ?i) \<and> is_live (t_state t)" by auto
  then show ?thesis using s(2) by (intro exI [of _ s] exI [of _ ?i]) simp
qed

text \<open>C19: what the ledger holds verifies. When the signature scheme accepts the daemon's own signatures,
  the sealed bytes of every grant in a reachable store pass \<open>Grant::verify\<close> inside the grant's window and
  give the recorded grant back.\<close>

theorem issued_grants_verify:
  assumes "ts_reachable e s" "i \<in> set (ts_grants s)" "\<And>m. ed (te_key e) m (te_sign e m)"
    and "now < g_expires_ms (is_grant i)" "g_issued_ms (is_grant i) \<le> now"
  shows "grant_verify (te_b3 e) ed (is_cose i) (te_key e) now = Inr (is_grant i)"
proof -
  have inv: "ts_inv e s" by (rule ts_reachable_inv [OF assms(1)])
  then have ok: "issued_ok e (ts_tasks s) i" and env: "env_ok e" using assms(2) by (auto simp: ts_inv_def grants_ok_def replays_def holds_def)
  then have c: "grant_ok (is_grant i)" "length (grant_encode (is_grant i)) < 2 ^ 64"
    "is_cose i = cose_sign1 (protected_header (te_b3 e) (te_key e)) (grant_encode (is_grant i))
       (te_sign e (sig_structure (protected_header (te_b3 e) (te_key e)) (grant_encode (is_grant i))))"
    by (simp_all add: issued_ok_def Let_def)
  show ?thesis unfolding c(3)
    by (rule verify_complete [OF c(1) _ _ c(2)]) (use assms env in \<open>simp_all add: env_ok_def word_le_nat_alt\<close>)
qed

lemma issued_grants_verify_witness:
  "\<exists>i :: issued. grant_verify sample_hash (\<lambda>_ _ sig. sig = replicate 64 3) (is_cose i) [8] 50 = Inr (is_grant i) \<and> is_grant i = sample_issued"
proof (rule sample_run)
  fix s assume s: "ts_reachable sample_env s" "ts_grants s = [\<lparr>is_grant = sample_issued, is_cose = sealed sample_env sample_issued, is_revoked = False\<rparr>]"
  let ?i = "\<lparr>is_grant = sample_issued, is_cose = sealed sample_env sample_issued, is_revoked = False\<rparr>"
  have i: "?i \<in> set (ts_grants s)" using s(2) by simp
  have "grant_verify (te_b3 sample_env) (\<lambda>_ _ sig. sig = replicate 64 3) (is_cose ?i) (te_key sample_env) 50 = Inr (is_grant ?i)"
    by (rule issued_grants_verify [OF s(1) i]) (simp_all add: sample_env_def)
  then show ?thesis by (intro exI [of _ ?i]) (simp add: sample_env_def)
qed

text \<open>C20: authority never returns. No operation, however it ends short of a store error, and no restart drops a task or a grant, reopens a
  closed task, changes why it closed, or takes a revocation back.\<close>

theorem authority_never_returns:
  assumes "ts_reachable e s" "ts_step e s s'"
  shows "(\<forall>t \<in> set (ts_tasks s). \<exists>t' \<in> set (ts_tasks s'). t_id t' = t_id t \<and> t_principal t' = t_principal t \<and>
        t_deadline_ms t' = t_deadline_ms t \<and> (\<forall>r. t_state t = Closed r \<longrightarrow> t_state t' = Closed r)) \<and>
     (\<forall>i \<in> set (ts_grants s). \<exists>i' \<in> set (ts_grants s'). is_grant i' = is_grant i \<and> is_cose i' = is_cose i \<and>
        (is_revoked i \<longrightarrow> is_revoked i'))"
  using ts_step_inv [OF assms(2) ts_reachable_inv [OF assms(1)]] by (simp add: grows_def)

lemma authority_never_returns_witness:
  "\<exists>(s :: task_store) s' :: task_store. ts_step sample_env s s' \<and>
     ts_grants s = [\<lparr>is_grant = sample_issued, is_cose = sealed sample_env sample_issued, is_revoked = False\<rparr>] \<and>
     (\<exists>i' \<in> set (ts_grants s'). is_grant i' = sample_issued)"
proof (rule sample_run)
  fix s assume s: "ts_reachable sample_env s" "ts_grants s = [\<lparr>is_grant = sample_issued, is_cose = sealed sample_env sample_issued, is_revoked = False\<rparr>]"
  obtain hs where "task_open sample_env 9 (st_disk (ts_audit s)) = (st_disk (ts_audit s), Inr (restarted s 9 hs))"
    using reopen [OF ts_reachable_inv [OF s(1)], of 9] by blast
  then have st: "ts_step sample_env s (restarted s 9 hs)" by (rule step_restart)
  from authority_never_returns [OF s(1) st] have "\<exists>i' \<in> set (ts_grants (restarted s 9 hs)). is_grant i' = sample_issued"
    by (simp only: s(2) list.set ball_simps bex_simps) auto
  then show ?thesis using st s(2) by (intro exI [of _ s] exI [of _ "restarted s 9 hs"]) simp
qed

lemma distinct_idD: "tasks_ok ts \<Longrightarrow> t \<in> set ts \<Longrightarrow> u \<in> set ts \<Longrightarrow> t_id t = t_id u \<Longrightarrow> t = u"
  unfolding tasks_ok_def distinct_map by (blast dest: inj_onD)

lemma cancel_run:
  assumes inv: "ts_inv e s" and ord: "orderly 2 e ck (ts_audit s)" and live: "live_task s p = Some t"
    and size: "task_bytes t \<le> 1400000" "length (live_ids (ts_grants s) (t_id t)) \<le> 100000"
  obtains s' where "cancel_principal e ck s p = (s', Inr True)" "ts_inv e s'" "live_task s' p = None"
proof -
  from live have t: "t \<in> set (ts_tasks s)" "t_principal t = p" "is_live (t_state t)" by (auto simp: live_task_def dest: find_SomeD)
  have ok: "tasks_ok (ts_tasks s)" using inv by (simp add: ts_inv_def)
  have ord2: "orderly (Suc (Suc 0)) e ck (ts_audit s)" using ord by (simp only: numeral_2_eq_2)
  from close_total [OF inv ord2 t(1) live_events(1) [OF t(3)] size] obtain s' where
    ap: "task_apply e ck s (t_id t) Cancel = (s', Inr (Closed Cancelled))" by blast
  from apply_inv [OF inv ord2 ap] obtain k where k: "ts_inv e s'" "position (\<lambda>x. t_id x = t_id t) (ts_tasks s) = Some k"
    "ts_tasks s' = (ts_tasks s)[k := (ts_tasks s ! k)\<lparr>t_state := Closed Cancelled\<rparr>]" by blast
  let ?c = "(ts_tasks s ! k)\<lparr>t_state := Closed Cancelled\<rparr>"
  have kl: "k < length (ts_tasks s)" "t_id (ts_tasks s ! k) = t_id t" using position_Some [OF k(2)] by simp_all
  have ok': "tasks_ok (ts_tasks s')" using k(1) by (simp add: ts_inv_def)
  have c: "?c \<in> set (ts_tasks s')" unfolding k(3) using kl(1) by (rule set_update_memI)
  have "\<not> is_live (t_state u)" if u: "u \<in> set (ts_tasks s')" "t_principal u = p" for u
  proof
    assume lv: "is_live (t_state u)"
    then have "u \<noteq> ?c" by auto
    then have "u \<in> set (ts_tasks s)" using u(1) set_update_subset_insert [of "ts_tasks s" k ?c] unfolding k(3) by blast
    then have "t_id u = t_id t" using one_liveD [of "ts_tasks s" u t] ok t lv u(2) unfolding tasks_ok_def by metis
    then have "u = ?c" using distinct_idD [OF ok' u(1) c] kl(2) by simp
    with \<open>u \<noteq> ?c\<close> show False ..
  qed
  then have "live_task s' p = None" by (simp add: live_task_None)
  moreover have "cancel_principal e ck s p = (s', Inr True)" by (simp add: cancel_principal_def live ap ts_bind_def)
  ultimately show ?thesis using that k(1) by blast
qed

text \<open>C18: cancellation always gets through. In a reachable store, a cancelled principal with a live task of
  ordinary size gets an answer, has no live task afterwards, and every grant it ever had is revoked.\<close>

theorem cancel_revokes_everything:
  assumes "ts_reachable e s" "orderly 2 e ck (ts_audit s)" "live_task s p = Some t"
    and "task_bytes t \<le> 1400000" "length (live_ids (ts_grants s) (t_id t)) \<le> 100000"
  shows "\<exists>s'. cancel_principal e ck s p = (s', Inr True) \<and> live_task s' p = None \<and>
    (\<forall>i \<in> set (ts_grants s'). g_principal (is_grant i) = p \<longrightarrow> is_revoked i)"
proof -
  obtain s' where s': "cancel_principal e ck s p = (s', Inr True)" "ts_inv e s'" "live_task s' p = None"
    by (rule cancel_run [OF ts_reachable_inv [OF assms(1)] assms(2-5)])
  have "is_revoked i" if i: "i \<in> set (ts_grants s')" "g_principal (is_grant i) = p" for i
  proof -
    have "issued_ok e (ts_tasks s') i" using s'(2) i(1) by (simp add: ts_inv_def grants_ok_def)
    then obtain t where "t \<in> set (ts_tasks s')" "t_principal t = p" "\<not> is_revoked i \<longrightarrow> is_live (t_state t)"
      using i(2) by (auto simp: issued_ok_def Let_def)
    then show ?thesis using s'(3) unfolding live_task_None by blast
  qed
  then show ?thesis using s' by blast
qed

lemma cancel_revokes_everything_witness:
  "\<exists>s s' :: task_store. is_live_grant s sample_id \<and> cancel_principal sample_env sample_clocks s ''agent:a'' = (s', Inr True) \<and>
     live_task s' ''agent:a'' = None"
proof (rule sample_run)
  fix s assume s: "ts_reachable sample_env s" "ts_tasks s = [sample_task]"
    "ts_grants s = [\<lparr>is_grant = sample_issued, is_cose = sealed sample_env sample_issued, is_revoked = False\<rparr>]"
    "orderly 10 sample_env sample_clocks (ts_audit s)"
  have o2: "orderly 2 sample_env sample_clocks (ts_audit s)" by (rule orderly_mono [OF _ s(4)]) simp
  have lv: "live_task s ''agent:a'' = Some sample_task" by (simp add: live_task_def s(2))
  have "is_live_grant s sample_id" by (simp add: is_live_grant_def s(3))
  moreover have "length (live_ids (ts_grants s) (t_id sample_task)) \<le> 100000" by (simp add: live_ids_def s(3))
  from cancel_revokes_everything [OF s(1) o2 lv _ this] sample_task_bytes
  have "\<exists>s'. cancel_principal sample_env sample_clocks s ''agent:a'' = (s', Inr True) \<and> live_task s' ''agent:a'' = None" by auto
  ultimately show ?thesis by blast
qed

text \<open>\<open>issue_grant\<close> decides completely. On a reachable store, a request of ordinary size for a known
  task is answered by the first obstacle in order (the task takes no requests, the expiry is past the
  deadline, the unattended span is over an hour), and with none of them it is signed, with the daemon's
  own id, time and the task's principal in place of the caller's.\<close>

theorem issue_grant_decides:
  assumes "ts_reachable e s" "orderly 1 e ck (ts_audit s)" "task_of s (g_task_id g) = Some t"
    and "request_ok g" "length ent = 10" "task_bytes t + grant_bytes g \<le> 1400000"
  shows "snd (issue_grant e ck ent s g reason now) =
    (if t_state t \<noteq> Active then Inl TaskClosed
     else if t_deadline_ms t < g_expires_ms g then Inl ExpiryBeyondDeadline
     else if g_unattended g \<and> UNATTENDED_MAX_MS < sat_sub (g_expires_ms g) now then Inl UnattendedTooLong
     else Inr (sealed e (g\<lparr>g_issued_ms := now, g_id := ulid_from_parts now ent, g_principal := t_principal t\<rparr>)))"
proof -
  have acts: "accepts_acting_requests (t_state t) \<longleftrightarrow> t_state t = Active" by (cases "t_state t") simp_all
  show ?thesis
  proof (cases "t_state t = Active \<and> g_expires_ms g \<le> t_deadline_ms t \<and>
      (g_unattended g \<longrightarrow> sat_sub (g_expires_ms g) now \<le> UNATTENDED_MAX_MS)")
    case True
    have o: "orderly (Suc 0) e ck (ts_audit s)" using assms(2) by simp
    from issue_total [OF ts_reachable_inv [OF assms(1)] o assms(3) _ _ _ assms(4-6), of now reason] True
    obtain s' where "issue_grant e ck ent s g reason now = (s', Inr (sealed e (stamped g t (ulid_from_parts now ent) now)))" by blast
    then show ?thesis using True by (simp add: stamped_def not_less)
  next
    case False
    then show ?thesis using assms(3) by (auto simp: issue_grant_def acts not_less not_le)
  qed
qed

lemma issue_grant_decides_witness:
  "\<exists>s :: task_store. snd (issue_grant sample_env sample_clocks sample_entropy s (first_grant sample_id sample_caps 5 101 False) GrPrompt 6) =
     Inl ExpiryBeyondDeadline"
proof (rule sample_run)
  fix s assume s: "ts_reachable sample_env s" "ts_tasks s = [sample_task]" "orderly 10 sample_env sample_clocks (ts_audit s)"
  have o1: "orderly 1 sample_env sample_clocks (ts_audit s)" by (rule orderly_mono [OF _ s(3)]) simp
  have t: "task_of s (g_task_id (first_grant sample_id sample_caps 5 101 False)) = Some sample_task" by (simp add: task_of_def s(2))
  have z: "task_bytes sample_task + grant_bytes (first_grant sample_id sample_caps 5 101 False) \<le> 1400000"
    using sample_task_bytes sample_grant_bytes [of sample_id 5 101 False] by simp
  from issue_grant_decides [OF s(1) o1 t sample_request rstr_samples(4) z, of GrPrompt 6] show ?thesis
    by (intro exI [of _ s]) simp
qed

text \<open>A capability line and the capability it grants.\<close>

definition line_grants :: "(regex \<Rightarrow> bool) \<Rightarrow> string \<Rightarrow> capability \<Rightarrow> bool" where
  "line_grants rxok l c \<longleftrightarrow> split_ws [] l = cap_name c # cap_scopes c \<and> cap_quota c = None \<and> cap_scopes c \<noteq> [] \<and>
     (\<forall>x \<in> set (cap_scopes c). \<exists>sc. scope_parse rxok x = Inr sc)"

lemma capability_line_grants: "capability_line rxok l = Some c \<Longrightarrow> line_grants rxok l c"
  by (auto simp: capability_line_def line_grants_def list_ex_iff isl_def split: list.splits if_splits) (metis sum.exhaust)

lemma capability_lines_grant: "capability_lines rxok ls = Some cs \<Longrightarrow> list_all2 (line_grants rxok) ls cs"
  by (induction ls arbitrary: cs) (auto simp: bind_eq_Some_conv capability_line_grants)

lemma capabilities_grant: "capabilities rxok scope = Some cs \<Longrightarrow> cs \<noteq> [] \<and> list_all2 (line_grants rxok) (str_lines scope) cs"
  by (auto simp: capabilities_def bind_eq_Some_conv capability_lines_grant split: if_splits)

text \<open>C22: a prompt grants what it showed. On a reachable store, a mint that succeeds adds one unrevoked
  grant to the principal's live task: one capability per line of the text shown, with the line's words as
  its name and scopes, at least one scope each and every scope parsed, until the deadline at the latest
  and for an hour when unattended.\<close>

theorem mint_grants_what_was_shown:
  assumes "ts_reachable e s" "mint_from_prompt e ck ent s p scope unatt now = (s', Inr cose)"
  shows "\<exists>t i. live_task s p = Some t \<and> ts_tasks s' = ts_tasks s \<and> ts_grants s' = ts_grants s @ [i] \<and> is_cose i = cose \<and>
    \<not> is_revoked i \<and> g_task_id (is_grant i) = t_id t \<and> g_principal (is_grant i) = p \<and>
    g_expires_ms (is_grant i) \<le> t_deadline_ms t \<and> g_unattended (is_grant i) = unatt \<and>
    (unatt \<longrightarrow> sat_sub (g_expires_ms (is_grant i)) now \<le> UNATTENDED_MAX_MS) \<and>
    g_capabilities (is_grant i) \<noteq> [] \<and> list_all2 (line_grants (te_rxok e)) (str_lines scope) (g_capabilities (is_grant i))"
proof -
  obtain caps t where caps: "capabilities (te_rxok e) scope = Some caps" and t: "live_task s p = Some t"
    using assms(2) by (auto simp: mint_from_prompt_def split: option.splits)
  define x where "x = (if unatt then min (t_deadline_ms t) (sat_add now UNATTENDED_MAX_MS) else t_deadline_ms t)"
  have run: "issue_grant e ck ent s (first_grant (t_id t) caps now x unatt) GrPrompt now = (s', Inr cose)"
    using assms(2) caps t by (simp add: mint_from_prompt_def x_def Let_def)
  have m: "t \<in> set (ts_tasks s)" "t_principal t = p" using t by (auto simp: live_task_def dest: find_SomeD)
  have "tasks_ok (ts_tasks s)" using ts_reachable_inv [OF assms(1)] by (simp add: ts_inv_def)
  from task_of_live(1) [OF this m(1)] have of: "task_of s (t_id t) = Some t" .
  from run obtain u s1 where u: "task_of s (t_id t) = Some u" "x \<le> t_deadline_ms u" "unatt \<longrightarrow> sat_sub x now \<le> UNATTENDED_MAX_MS"
    and ap: "append_sync e ck s (grant_record e (stamped (first_grant (t_id t) caps now x unatt) u (ulid_from_parts now ent) now) GrPrompt) = (s1, Inr ())"
    and s': "s' = s1\<lparr>ts_grants := ts_grants s1 @ [\<lparr>is_grant = stamped (first_grant (t_id t) caps now x unatt) u (ulid_from_parts now ent) now, is_cose = cose, is_revoked = False\<rparr>]\<rparr>"
    by (rule issue_grant_Inr) simp
  have "u = t" using u(1) of by simp
  have "ts_tasks s1 = ts_tasks s" "ts_grants s1 = ts_grants s" using ap by (auto simp: append_sync_def split: sum.splits)
  then show ?thesis using t m(2) u(2,3) s' \<open>u = t\<close> capabilities_grant [OF caps]
    by (simp add: first_grant_def stamped_def)
qed

lemma mint_grants_what_was_shown_witness:
  "\<exists>s s' cose. mint_from_prompt sample_env sample_clocks sample_entropy s ''agent:a'' sample_scope True 6 = (s', Inr cose) \<and>
     (\<exists>i. ts_grants s' = ts_grants (s :: task_store) @ [i] \<and> g_expires_ms (is_grant i) \<le> 100)"
proof (rule sample_run)
  fix s assume s: "ts_reachable sample_env s" "ts_tasks s = [sample_task]" "orderly 10 sample_env sample_clocks (ts_audit s)"
  have lv: "live_task s ''agent:a'' = Some sample_task" by (simp add: live_task_def s(2))
  have o: "orderly (Suc 0) sample_env sample_clocks (ts_audit s)" by (rule orderly_mono [OF _ s(3)]) simp
  have t: "task_of s (g_task_id (first_grant sample_id sample_caps 6 100 True)) = Some sample_task" by (simp add: task_of_def s(2))
  have z: "task_bytes sample_task + grant_bytes (first_grant sample_id sample_caps 6 100 True) \<le> 1400000"
    using sample_task_bytes sample_grant_bytes [of sample_id 6 100 True] by simp
  have "\<exists>s'. issue_grant sample_env sample_clocks sample_entropy s (first_grant sample_id sample_caps 6 100 True) GrPrompt 6 =
      (s', Inr (sealed sample_env (stamped (first_grant sample_id sample_caps 6 100 True) sample_task (ulid_from_parts 6 sample_entropy) 6)))"
    by (rule issue_total [OF ts_reachable_inv [OF s(1)] o t _ _ _ sample_request rstr_samples(4) z]) (simp_all add: sat_sub_def UNATTENDED_MAX_MS_def)
  then obtain s' cose where ig: "issue_grant sample_env sample_clocks sample_entropy s (first_grant sample_id sample_caps 6 100 True) GrPrompt 6 = (s', Inr cose)" by blast
  have "min (100 :: u64) (sat_add 6 UNATTENDED_MAX_MS) = 100" by (simp add: sat_add_def UNATTENDED_MAX_MS_def)
  then have run: "mint_from_prompt sample_env sample_clocks sample_entropy s ''agent:a'' sample_scope True 6 = (s', Inr cose)"
    using ig by (simp add: mint_from_prompt_def sample_scope_parses lv)
  from mint_grants_what_was_shown [OF s(1) run] obtain t i where "live_task s ''agent:a'' = Some t" "ts_grants s' = ts_grants s @ [i]"
    "g_expires_ms (is_grant i) \<le> t_deadline_ms t" by blast
  then show ?thesis using run lv by (intro exI [of _ s] exI [of _ s'] exI [of _ cose]) auto
qed

lemma task_of_new: "ts_tasks s' = ts_tasks s @ [t] \<Longrightarrow> \<forall>x \<in> set (ts_tasks s). t_id x \<noteq> i \<Longrightarrow> t_id t = i \<Longrightarrow> task_of s' i = Some t"
proof -
  have "\<forall>x \<in> set xs. t_id x \<noteq> i \<Longrightarrow> t_id t = i \<Longrightarrow> find (\<lambda>t. t_id t = i) (xs @ [t]) = Some t" for xs
    by (induction xs) simp_all
  then show "ts_tasks s' = ts_tasks s @ [t] \<Longrightarrow> \<forall>x \<in> set (ts_tasks s). t_id x \<noteq> i \<Longrightarrow> t_id t = i \<Longrightarrow> ?thesis"
    by (simp add: task_of_def)
qed

text \<open>A fault on a live task only fails when the audit store does.\<close>

lemma fault_Inl:
  assumes "task_apply e ck s i Fault = (s', Inl err)" "t \<in> set (ts_tasks s)" "t_id t = i"
    "\<And>u. u \<in> set (ts_tasks s) \<Longrightarrow> t_id u = i \<Longrightarrow> is_live (t_state u)"
  shows "\<exists>x. err = TkStore x"
proof -
  have "position (\<lambda>t. t_id t = i) (ts_tasks s) \<noteq> None" using assms(2,3) by (auto simp: position_None)
  then obtain k where k: "position (\<lambda>t. t_id t = i) (ts_tasks s) = Some k" by blast
  then have "transition (t_state (ts_tasks s ! k)) Fault = Inr (Closed Failed)"
    using position_Some [OF k] assms(4) [of "ts_tasks s ! k"] by (intro live_events(2)) simp
  then show ?thesis using assms(1) k
    by (auto simp: task_apply_def Let_def ts_bind_Inl dest: journal_Inl revoke_for_task_Inl)
qed

lemma open_for_human_split:
  assumes "ts_inv e s" "orderly 3 e ck (ts_audit s)" "rstr p" "rstr oref" "rstr scope"
    and "fresh_task s now ent1" "fresh_grant s now ent2"
    and "open_for_human e ck ent1 ent2 s p stmt deadline scope oref resumes now = (s', r)"
  shows "case r of
      Inr (i, cose) \<Rightarrow> now < deadline \<and> (\<exists>caps. (if split_ws [] scope = [] then Some [] else capabilities (te_rxok e) scope) = Some caps \<and>
        ts_tasks s' = ts_tasks s @ [new_task s i p OriginHuman oref stmt deadline now resumes] \<and>
        ts_grants s' = ts_grants s @ [\<lparr>is_grant = (first_grant i caps now deadline False)\<lparr>g_id := ulid_from_parts now ent2, g_principal := p\<rparr>,
          is_cose = cose, is_revoked = False\<rparr>])
    | Inl err \<Rightarrow> s' = s \<or> (\<exists>x. err = TkStore x)"
proof -
  let ?caps = "if split_ws [] scope = [] then Some [] else capabilities (te_rxok e) scope"
  note inv = assms(1)
  note fr = assms(6,7) [unfolded fresh_task_def fresh_grant_def]
  show ?thesis
  proof (cases "?caps = None \<or> deadline \<le> now")
    case True
    then have "s' = s \<and> isl r" using assms(8) by (auto simp: open_for_human_def split: option.splits)
    then show ?thesis by (auto simp: isl_def)
  next
    case False
    then obtain caps where caps: "?caps = Some caps" and dl: "\<not> deadline \<le> now" by auto
    obtain s1 o1 where op: "open_task_from e ck ent1 s p OriginHuman oref stmt deadline now resumes = (s1, o1)" by fastforce
    have run: "(s', r) = ts_bind (s1, o1) (\<lambda>s i.
           (case issue_grant e ck ent2 s (first_grant i caps now deadline False) GrManifest now of
              (s, Inr cose) \<Rightarrow> (s, Inr (i, cose))
            | (s, Inl err) \<Rightarrow> ts_bind (task_apply e ck s i Fault) (\<lambda>s _. (s, Inl err))))"
      using assms(8) caps dl op by (simp add: open_for_human_def)
    show ?thesis
    proof (cases o1)
      case (Inl err)
      then have "s' = s1" "r = Inl err" using run by (simp_all add: ts_bind_def)
      then show ?thesis using open_task_from_Inl [OF op [unfolded Inl]] by simp
    next
      case (Inr i)
      have ord3: "orderly (Suc (Suc (Suc 0))) e ck (ts_audit s)" using assms(2) by (simp only: numeral_3_eq_3)
      from open_task_from_inv [OF inv ord3 op [unfolded Inr] assms(3,4)] fr(1)
      have s1: "ts_grants s1 = ts_grants s" "ts_tasks s1 = ts_tasks s @ [new_task s i p OriginHuman oref stmt deadline now resumes]"
        "i = ulid_from_parts now ent1" by auto
      let ?t = "new_task s i p OriginHuman oref stmt deadline now resumes"
      have of: "task_of s1 i = Some ?t" by (rule task_of_new [OF s1(2)]) (use fr(1) s1(3) in auto)
      obtain s2 o2 where ig: "issue_grant e ck ent2 s1 (first_grant i caps now deadline False) GrManifest now = (s2, o2)" by fastforce
      show ?thesis
      proof (cases o2)
        case (Inr cose)
        then have "s' = s2" "r = Inr (i, cose)" using run ig \<open>o1 = Inr i\<close> by (simp_all add: ts_bind_def)
        moreover from issue_grant_Inr [OF ig [unfolded Inr]] obtain t s3 where
          "task_of s1 i = Some t" "append_sync e ck s1 (grant_record e (stamped (first_grant i caps now deadline False) t (ulid_from_parts now ent2) now) GrManifest) = (s3, Inr ())"
          "s2 = s3\<lparr>ts_grants := ts_grants s3 @ [\<lparr>is_grant = stamped (first_grant i caps now deadline False) t (ulid_from_parts now ent2) now, is_cose = cose, is_revoked = False\<rparr>]\<rparr>"
          by (metis first_grant_simps(1))
        moreover from this have "ts_tasks s3 = ts_tasks s1" "ts_grants s3 = ts_grants s1" by (auto simp: append_sync_def split: sum.splits)
        ultimately show ?thesis using s1 of dl caps
          by (simp add: first_grant_def stamped_def not_le)
      next
        case (Inl err)
        then have "s2 = s1" "\<exists>x. err = TkStore x" using ig issue_grant_Inl
          by (blast, auto simp: issue_grant_def of Let_def ts_bind_Inl dest: append_sync_Inl split: if_splits)
        moreover obtain s3 o3 where ap: "task_apply e ck s1 i Fault = (s3, o3)" by fastforce
        moreover have "\<exists>x. err' = TkStore x" if "o3 = Inl err'" for err'
          by (rule fault_Inl [OF ap [unfolded that], of ?t]) (use fr(1) s1(2,3) in auto)
        ultimately show ?thesis using run ig Inl \<open>o1 = Inr i\<close> by (cases o3) (auto simp: ts_bind_def)
      qed
    qed
  qed
qed

text \<open>C23: opening for the human is all or nothing. On a reachable store it either adds the task and its
  first grant, bounded by the task's deadline, or it refuses and changes nothing, unless the audit store
  itself failed.\<close>

theorem open_for_human_all_or_nothing:
  assumes "ts_reachable e s" "orderly 3 e ck (ts_audit s)" "rstr p" "rstr oref" "rstr scope"
    and "fresh_task s now ent1" "fresh_grant s now ent2"
    and "open_for_human e ck ent1 ent2 s p stmt deadline scope oref resumes now = (s', r)"
  shows "case r of
      Inr (i, cose) \<Rightarrow> now < deadline \<and> (\<exists>caps. (if split_ws [] scope = [] then Some [] else capabilities (te_rxok e) scope) = Some caps \<and>
        ts_tasks s' = ts_tasks s @ [new_task s i p OriginHuman oref stmt deadline now resumes] \<and>
        ts_grants s' = ts_grants s @ [\<lparr>is_grant = (first_grant i caps now deadline False)\<lparr>g_id := ulid_from_parts now ent2, g_principal := p\<rparr>,
          is_cose = cose, is_revoked = False\<rparr>])
    | Inl err \<Rightarrow> s' = s \<or> (\<exists>x. err = TkStore x)"
  by (rule open_for_human_split [OF ts_reachable_inv [OF assms(1)] assms(2-8)])

lemma open_for_human_all_or_nothing_witness:
  "\<exists>s' i cose. open_for_human sample_env sample_clocks sample_entropy sample_entropy first_store ''agent:a'' ''read the page'' 100
      sample_scope [] None 5 = (s', Inr (i, cose)) \<and> length (ts_tasks s') = 1 \<and> length (ts_grants s') = 1"
proof (rule sample_run)
  fix s assume run: "open_for_human sample_env sample_clocks sample_entropy sample_entropy first_store ''agent:a'' ''read the page'' 100
      sample_scope [] None 5 = (s, Inr (sample_id, sealed sample_env sample_issued))"
  have r: "ts_reachable sample_env first_store" by (rule reach_boot [OF sample_env_ok first_boot])
  have o: "orderly 3 sample_env sample_clocks (ts_audit first_store)"
    by (simp only: first_store_def task_store.select_convs) (rule sample_orderly, simp)
  have f: "fresh_task first_store 5 sample_entropy" "fresh_grant first_store 5 sample_entropy"
    by (simp_all add: fresh_task_def fresh_grant_def first_store_def rstr_samples)
  from open_for_human_all_or_nothing [OF r o rstr_samples(1,2,3) f run] show ?thesis using run
    by (auto simp: first_store_def)
qed

end
