(* ===== verification/Peer.thy ===== *)
theory Peer
  imports TaskStore
begin

text \<open>
  Who may say what on \<open>policyd.sock\<close>: \<open>ec-policyd/src/peer.rs\<close>, and the packet filter \<open>accept\<close> of
  \<open>ec-policyd/src/main.rs\<close>. What the kernel says of a peer (its cgroup file and its executable, either of
  which may not read) is an argument.
\<close>

section \<open>Paths\<close>

text \<open>\<open>str::split\<close> at one character.\<close>

fun split_char :: "char \<Rightarrow> string \<Rightarrow> string list" where
  "split_char d [] = [[]]"
| "split_char d (c # s) =
    (if c = d then [] # split_char d s
     else case split_char d s of [] \<Rightarrow> [[c]] | w # ws \<Rightarrow> (c # w) # ws)"

text \<open>The components of an absolute path after its root: repeated and trailing slashes and single dots do
  not count.\<close>

definition path_parts :: "string \<Rightarrow> string list" where
  "path_parts p = filter (\<lambda>c. c \<noteq> [] \<and> c \<noteq> ''.'') (split_char CHR ''/'' p)"

definition absolute :: "string \<Rightarrow> bool" where
  "absolute p \<longleftrightarrow> starts_with ''/'' p"

text \<open>\<open>Path::file_name\<close> and the parts of \<open>Path::parent\<close>.\<close>

definition file_name :: "string \<Rightarrow> string option" where
  "file_name p = (let cs = path_parts p in if cs = [] \<or> last cs = ''..'' then None else Some (last cs))"

definition parent_parts :: "string \<Rightarrow> string list option" where
  "parent_parts p = (let cs = path_parts p in if cs = [] then None else Some (butlast cs))"

section \<open>Roles\<close>

datatype role = RoCompositor | RoAgentd | RoBrokerd

definition BIN_DIR :: string where "BIN_DIR = ''/usr/bin''"

definition by_name :: "string \<Rightarrow> role option" where
  "by_name name = (if name = ''ec-abyss'' then Some RoCompositor
     else if name = ''ec-agentd'' then Some RoAgentd
     else if name = ''ec-brokerd'' then Some RoBrokerd else None)"

definition from_exe :: "string \<Rightarrow> bool \<Rightarrow> role option" where
  "from_exe exe any_dir =
    (if \<not> (any_dir \<or> absolute exe \<and> parent_parts exe = Some (path_parts BIN_DIR)) then None
     else Option.bind (file_name exe) by_name)"

definition under_agents :: "string \<Rightarrow> bool" where
  "under_agents cgroup =
    (case str_lines cgroup of
       [line] \<Rightarrow> (case strip_prefix ''0::'' line of None \<Rightarrow> True | Some path \<Rightarrow> ''agents.slice'' \<in> set (split_char CHR ''/'' path))
     | _ \<Rightarrow> True)"

text \<open>\<open>unwrap_or_default\<close>: a cgroup file that does not read is the empty string.\<close>

definition peer_classify :: "bool \<Rightarrow> string option \<Rightarrow> string option \<Rightarrow> role option" where
  "peer_classify dev_peers cgroup exe =
    (if under_agents (case cgroup of Some s \<Rightarrow> s | None \<Rightarrow> []) then None
     else Option.bind exe (\<lambda>p. from_exe p dev_peers))"

fun may_emit :: "role \<Rightarrow> kind \<Rightarrow> bool" where
  "may_emit RoCompositor k = from_compositor k"
| "may_emit RoAgentd k = (k = KChannel \<or> k = KSandbox)"
| "may_emit RoBrokerd k = (k = KSecret)"

definition agentd_message :: "to_policyd \<Rightarrow> bool" where
  "agentd_message m = (case m of TPauseTask _ _ \<Rightarrow> True | TCancelTask _ _ _ \<Rightarrow> True | TExited _ _ _ \<Rightarrow> True | _ \<Rightarrow> False)"

fun may_send :: "role \<Rightarrow> to_policyd \<Rightarrow> bool" where
  "may_send RoAgentd m = agentd_message m"
| "may_send RoCompositor m = (\<not> agentd_message m)"
| "may_send RoBrokerd m = False"

definition takes_table :: "role \<Rightarrow> bool" where
  "takes_table r \<longleftrightarrow> r = RoCompositor"

section \<open>Packets\<close>

datatype accepted = AcEmission emission | AcMessage to_policyd

definition accept :: "role \<Rightarrow> byte list \<Rightarrow> accepted option" where
  "accept r packet =
    (if is_message packet then
       (case to_decode packet of Inr m \<Rightarrow> if may_send r m then Some (AcMessage m) else None | Inl _ \<Rightarrow> None)
     else
       (case emission_decode packet of Inr e \<Rightarrow> if may_emit r (e_kind e) then Some (AcEmission e) else None | Inl _ \<Rightarrow> None))"

text \<open>The checks \<open>hold\<close> makes of a received packet, whose real length \<open>recv\<close> reports: \<open>None\<close> ends the
  connection.\<close>

definition receive :: "role \<Rightarrow> byte list \<Rightarrow> accepted option" where
  "receive r packet = (if packet = [] \<or> MAX_EMISSION < length packet then None else accept r packet)"

end
