(* ===== verification/Manifest.thy ===== *)
theory Manifest
  imports Peer
begin

text \<open>
  Agent package manifests: \<open>ec-policyd/src/manifest.rs\<close>. The KDL parser is a third-party crate: it is the
  argument \<open>kp\<close>, from a text to the nodes of a document or nothing, and only the accessors the code
  calls on a node are kept here. The file system is two arguments, \<open>canon\<close> (\<open>canonicalize\<close>) and the
  contents of the \<open>manifest.kdl\<close> in a directory.
\<close>

section \<open>KDL nodes\<close>

text \<open>A float is kept as the bits of its double: the manifest reader reads no float, the policy compiler does.\<close>

type_synonym f64 = u64

datatype kdl_value = KdStr string | KdInt int | KdFloat f64 | KdBool bool | KdNull

datatype kdl_node = KdNode (kd_name: string) (kd_entries: "(string option \<times> kdl_value) list") (kd_children: "kdl_node list option")

fun as_string :: "kdl_value \<Rightarrow> string option" where
  "as_string (KdStr s) = Some s" | "as_string _ = None"

fun as_bool :: "kdl_value \<Rightarrow> bool option" where
  "as_bool (KdBool b) = Some b" | "as_bool _ = None"

fun as_integer :: "kdl_value \<Rightarrow> int option" where
  "as_integer (KdInt i) = Some i" | "as_integer _ = None"

text \<open>\<open>n.children().map(nodes).unwrap_or_default()\<close>.\<close>

definition kd_nodes :: "kdl_node \<Rightarrow> kdl_node list" where
  "kd_nodes n = (case kd_children n of Some ns \<Rightarrow> ns | None \<Rightarrow> [])"

definition has_props :: "kdl_node \<Rightarrow> bool" where
  "has_props n = list_ex (\<lambda>(k, _). k \<noteq> None) (kd_entries n)"

section \<open>Manifests\<close>

definition MAX_DEPTH_CEILING :: u32 where "MAX_DEPTH_CEILING = 3"
definition DEFAULT_DEADLINE_MS :: u64 where "DEFAULT_DEADLINE_MS = 2 * 3600000"
definition MAX_STRING :: nat where "MAX_STRING = 4096"

record requested =
  rq_name :: string
  rq_scopes :: "string list"
  rq_because :: string

definition requested_line :: "requested \<Rightarrow> string" where
  "requested_line r = rq_name r @ concat (map (\<lambda>sc. CHR '' '' # sc) (rq_scopes r))"

datatype pkg_origin = PkOwner | PkSystem

record inference =
  if_backend :: string
  if_model :: string

record manifest =
  mf_id :: string
  mf_name :: string
  mf_version :: string
  mf_publisher :: string
  mf_entrypoint :: "string list"
  mf_deadline_ms :: u64
  mf_max_depth :: u32
  mf_capabilities :: "requested list"
  mf_resumable :: "bool option"
  mf_sandbox :: "(string \<times> string) list"
  mf_inference :: "inference option"

datatype refusal = RfUnreadable | RfSyntax | RfField string | RfUnknownNode string | RfNoBecause string | RfUnscoped string
  | RfWildcardScope string | RfBadScope string | RfDepthOverCeiling | RfEntrypointOutsideTree | RfSecretExpose | RfPublisher
  | RfUnregisteredSchema

fun refusal_text :: "refusal \<Rightarrow> string" where
  "refusal_text RfUnreadable = ''manifest_unreadable''"
| "refusal_text RfSyntax = ''manifest_syntax''"
| "refusal_text (RfField n) = ''manifest_field:'' @ n"
| "refusal_text (RfUnknownNode _) = ''manifest_unknown_node''"
| "refusal_text (RfNoBecause _) = ''capability_without_because''"
| "refusal_text (RfUnscoped _) = ''capability_unscoped''"
| "refusal_text (RfWildcardScope _) = ''wildcard_scope''"
| "refusal_text (RfBadScope _) = ''bad_scope''"
| "refusal_text RfDepthOverCeiling = ''max_depth_over_ceiling''"
| "refusal_text RfEntrypointOutsideTree = ''entrypoint_outside_package''"
| "refusal_text RfSecretExpose = ''secret_expose_not_local''"
| "refusal_text RfPublisher = ''publisher_not_allowed''"
| "refusal_text RfUnregisteredSchema = ''unregistered_channel_schema''"

text \<open>A root counts when it resolves and \<open>dir\<close> is two components below it.\<close>

definition origin_of :: "(string \<Rightarrow> string option) \<Rightarrow> string \<Rightarrow> (string \<times> pkg_origin) list \<Rightarrow> pkg_origin option" where
  "origin_of canon dir roots =
    map_option snd (find (\<lambda>(r, _). case canon r of None \<Rightarrow> False
       | Some r \<Rightarrow> length (path_parts dir) = length (path_parts r) + 2 \<and> take (length (path_parts r)) (path_parts dir) = path_parts r) roots)"

definition is_resumable :: "manifest \<Rightarrow> bool" where
  "is_resumable m = (case mf_resumable m of Some b \<Rightarrow> b | None \<Rightarrow> mf_publisher m = ''local'')"

section \<open>Parsing\<close>

definition kd_string :: "kdl_value \<Rightarrow> string \<Rightarrow> refusal + string" where
  "kd_string v what =
    rbind (ok_or (RfField what) (as_string v)) (\<lambda>s. if MAX_STRING < length s then Inl (RfField what) else Inr s)"

text \<open>The one positional argument of a node that has no properties.\<close>

definition kd_one :: "kdl_node \<Rightarrow> string \<Rightarrow> refusal + kdl_value" where
  "kd_one n what =
    (case filter (\<lambda>(k, _). k = None) (kd_entries n) of
       [(_, v)] \<Rightarrow> if has_props n then Inl (RfField what) else Inr v
     | _ \<Rightarrow> Inl (RfField what))"

definition one_string :: "kdl_node \<Rightarrow> string \<Rightarrow> refusal + string" where
  "one_string n what = rbind (kd_one n what) (\<lambda>v. kd_string v what)"

text \<open>A loop over nodes that may refuse.\<close>

fun rfold :: "('x \<Rightarrow> 's \<Rightarrow> 'e + 's) \<Rightarrow> 'x list \<Rightarrow> 's \<Rightarrow> 'e + 's" where
  "rfold f [] s = Inr s"
| "rfold f (x # xs) s = rbind (f x s) (\<lambda>s. rfold f xs s)"

definition inference_step :: "kdl_node \<Rightarrow> string option \<times> string option \<Rightarrow> refusal + string option \<times> string option" where
  "inference_step c = (\<lambda>(backend, model).
     if kd_name c = ''backend'' then
       (if backend \<noteq> None then Inl (RfField ''inference'')
        else rbind (one_string c ''inference'') (\<lambda>s. Inr (Some s, model)))
     else if kd_name c = ''model'' then
       (if model \<noteq> None then Inl (RfField ''inference'')
        else rbind (one_string c ''inference'') (\<lambda>s. Inr (backend, Some s)))
     else Inl (RfUnknownNode (''inference.'' @ kd_name c)))"

definition parse_inference :: "kdl_node \<Rightarrow> refusal + inference" where
  "parse_inference n =
     rbind (rfold inference_step (kd_nodes n) (None, None)) (\<lambda>(backend, model).
     rbind (ok_or (RfField ''inference.backend'') backend) (\<lambda>backend.
     rbind (ok_or (RfField ''inference.model'') model) (\<lambda>model.
     let model_ok = model \<noteq> [] \<and> length model \<le> 64 \<and>
           list_all (\<lambda>b. ascii_alphanumeric b \<or> b = CHR ''-'' \<or> b = CHR ''.'') model
     in if backend \<noteq> ''api'' \<and> backend \<noteq> ''claude-code'' then Inl (RfField ''inference.backend'')
        else if \<not> model_ok then Inl (RfField ''inference.model'')
        else Inr \<lparr>if_backend = backend, if_model = model\<rparr>)))"

definition duration_ms :: "string \<Rightarrow> u64 option" where
  "duration_ms s =
    (let num = takeWhile ascii_digit s; unit = dropWhile ascii_digit s in
     if unit = [] \<or> num = [] then None
     else
       let n = foldl (\<lambda>a c. a * 10 + (of_char c - 48)) (0 :: nat) num;
           ms = (if unit = ''s'' then Some 1000 else if unit = ''m'' then Some 60000
                 else if unit = ''h'' then Some 3600000 else None)
       in if 2 ^ 64 \<le> n then None
          else Option.bind ms (\<lambda>ms. if 2 ^ 64 \<le> n * ms then None else Some (of_nat (n * ms))))"

definition id_ok :: "string \<Rightarrow> bool" where
  "id_ok s \<longleftrightarrow> s \<noteq> [] \<and> length s \<le> 64 \<and>
     list_all (\<lambda>b. ascii_lowercase b \<or> ascii_digit b \<or> b = CHR ''-'' \<or> b = CHR ''.'') s \<and> \<not> starts_with ''.'' s"

text \<open>\<open>contains(char::is_whitespace)\<close>.\<close>

fun has_ws :: "string \<Rightarrow> bool" where
  "has_ws [] = False"
| "has_ws (c # s) = (ws_len (c # s) \<noteq> 0 \<or> has_ws s)"

definition wildcard :: "string \<Rightarrow> bool" where
  "wildcard v = list_all (\<lambda>c. c = CHR ''*'' \<or> c = CHR ''?'') v"

definition scope_clause :: "(regex \<Rightarrow> bool) \<Rightarrow> string \<Rightarrow> kdl_node \<Rightarrow> string list \<Rightarrow> refusal + string list" where
  "scope_clause rxok name s scopes =
     rbind (one_string s ''scope'') (\<lambda>v.
     if wildcard v then Inl (RfWildcardScope name)
     else let clause = kd_name s @ '':'' @ v in
       if isl (scope_parse rxok clause) \<or> has_ws clause then Inl (RfBadScope name)
       else Inr (scopes @ [clause]))"

fun parse_caps :: "(regex \<Rightarrow> bool) \<Rightarrow> kdl_node list \<Rightarrow> requested option \<Rightarrow> requested list \<Rightarrow> refusal + requested list" where
  "parse_caps rxok [] opn out = (case opn of Some r \<Rightarrow> Inl (RfNoBecause (rq_name r)) | None \<Rightarrow> Inr out)"
| "parse_caps rxok (c # cs) opn out =
    (let name = kd_name c in
     if name = ''because'' then
       (case opn of
          None \<Rightarrow> Inl (RfNoBecause [])
        | Some r \<Rightarrow> rbind (one_string c ''because'') (\<lambda>b. parse_caps rxok cs None (out @ [r\<lparr>rq_because := b\<rparr>])))
     else case opn of
       Some r \<Rightarrow> Inl (RfNoBecause (rq_name r))
     | None \<Rightarrow>
         if \<not> list_all (\<lambda>b. ascii_lowercase b \<or> b = CHR ''.'' \<or> b = CHR ''_'') name \<or> name = [] then Inl (RfUnknownNode name)
         else if kd_entries c \<noteq> [] \<and> kd_entries c \<noteq> [(None, KdStr ''scope'')] then Inl (RfBadScope name)
         else if kd_entries c = [] \<or> kd_nodes c = [] then Inl (RfUnscoped name)
         else rbind (rfold (scope_clause rxok name) (kd_nodes c) []) (\<lambda>scopes.
           parse_caps rxok cs (Some \<lparr>rq_name = name, rq_scopes = remdups_adj (sort_key str_bytes scopes), rq_because = []\<rparr>) out))"

definition manifest_new :: manifest where
  "manifest_new = \<lparr>mf_id = [], mf_name = [], mf_version = [], mf_publisher = [], mf_entrypoint = [],
     mf_deadline_ms = DEFAULT_DEADLINE_MS, mf_max_depth = 0, mf_capabilities = [], mf_resumable = None, mf_sandbox = [],
     mf_inference = None\<rparr>"

definition task_node :: "kdl_node \<Rightarrow> manifest \<Rightarrow> refusal + manifest" where
  "task_node t m =
    (if kd_name t = ''default_deadline'' then
       rbind (one_string t ''default_deadline'') (\<lambda>s.
       rbind (ok_or (RfField ''default_deadline'') (duration_ms s)) (\<lambda>d. Inr (m\<lparr>mf_deadline_ms := d\<rparr>)))
     else if kd_name t = ''max_depth'' then
       rbind (kd_one t ''max_depth'') (\<lambda>v.
       rbind (ok_or (RfField ''max_depth'') (Option.bind (as_integer v) (\<lambda>d. if 0 \<le> d \<and> d < 2 ^ 32 then Some (of_int d) else None)))
         (\<lambda>d. Inr (m\<lparr>mf_max_depth := d\<rparr>)))
     else Inl (RfUnknownNode (kd_name t)))"

definition sandbox_node :: "kdl_node \<Rightarrow> manifest \<Rightarrow> refusal + manifest" where
  "sandbox_node s m = rbind (one_string s ''sandbox'') (\<lambda>v. Inr (m\<lparr>mf_sandbox := mf_sandbox m @ [(kd_name s, v)]\<rparr>))"

definition agent_node :: "(regex \<Rightarrow> bool) \<Rightarrow> kdl_node \<Rightarrow> manifest \<Rightarrow> refusal + manifest" where
  "agent_node rxok n m =
    (let name = kd_name n in
     if name = ''id'' then rbind (one_string n ''id'') (\<lambda>s. Inr (m\<lparr>mf_id := s\<rparr>))
     else if name = ''name'' then rbind (one_string n ''name'') (\<lambda>s. Inr (m\<lparr>mf_name := s\<rparr>))
     else if name = ''version'' then rbind (one_string n ''version'') (\<lambda>s. Inr (m\<lparr>mf_version := s\<rparr>))
     else if name = ''publisher'' then rbind (one_string n ''publisher'') (\<lambda>s. Inr (m\<lparr>mf_publisher := s\<rparr>))
     else if name = ''entrypoint'' then
       (if has_props n \<or> kd_children n \<noteq> None then Inl (RfField ''entrypoint'')
        else rbind (rfold (\<lambda>(_, v) out. rbind (kd_string v ''entrypoint'') (\<lambda>s. Inr (out @ [s]))) (kd_entries n) [])
          (\<lambda>e. Inr (m\<lparr>mf_entrypoint := e\<rparr>)))
     else if name = ''runtime'' \<or> name = ''sdk'' then rbind (one_string n ''runtime'') (\<lambda>_. Inr m)
     else if name = ''resumable'' then
       rbind (kd_one n ''resumable'') (\<lambda>v. rbind (ok_or (RfField ''resumable'') (as_bool v)) (\<lambda>b. Inr (m\<lparr>mf_resumable := Some b\<rparr>)))
     else if name = ''task'' then rfold task_node (kd_nodes n) m
     else if name = ''capabilities'' then rbind (parse_caps rxok (kd_nodes n) None []) (\<lambda>cs. Inr (m\<lparr>mf_capabilities := cs\<rparr>))
     else if name = ''sandbox'' then rfold sandbox_node (kd_nodes n) m
     else if name = ''channels'' then (if kd_nodes n \<noteq> [] then Inl RfUnregisteredSchema else Inr m)
     else if name = ''inference'' then rbind (parse_inference n) (\<lambda>i. Inr (m\<lparr>mf_inference := Some i\<rparr>))
     else if name = ''integrity'' then Inr m
     else Inl (RfUnknownNode name))"

text \<open>Each node is refused when its name was seen before.\<close>

definition agent_step :: "(regex \<Rightarrow> bool) \<Rightarrow> kdl_node \<Rightarrow> string list \<times> manifest \<Rightarrow> refusal + string list \<times> manifest" where
  "agent_step rxok n = (\<lambda>(seen, m).
     if kd_name n \<in> set seen then Inl (RfUnknownNode (kd_name n))
     else rbind (agent_node rxok n m) (\<lambda>m. Inr (seen @ [kd_name n], m)))"

definition manifest_complete :: "manifest \<Rightarrow> refusal + manifest" where
  "manifest_complete m =
    (if mf_id m = [] then Inl (RfField ''id'')
     else if mf_name m = [] then Inl (RfField ''name'')
     else if mf_version m = [] then Inl (RfField ''version'')
     else if mf_publisher m = [] then Inl (RfField ''publisher'')
     else if \<not> id_ok (mf_id m) then Inl (RfField ''id'')
     else if \<not> id_ok (mf_version m) then Inl (RfField ''version'')
     else if mf_entrypoint m = [] then Inl (RfField ''entrypoint'')
     else Inr m)"

definition manifest_parse :: "(regex \<Rightarrow> bool) \<Rightarrow> (string \<Rightarrow> kdl_node list option) \<Rightarrow> string \<Rightarrow> refusal + manifest" where
  "manifest_parse rxok kp text =
    (case kp text of
       Some [agent] \<Rightarrow>
         if kd_name agent \<noteq> ''agent'' \<or> kd_entries agent \<noteq> [] then Inl RfSyntax
         else rbind (ok_or RfSyntax (kd_children agent)) (\<lambda>body.
           rbind (rfold (agent_step rxok) body ([], manifest_new)) (\<lambda>(_, m). manifest_complete m))
     | _ \<Rightarrow> Inl RfSyntax)"

text \<open>All components of the entry point are ordinary or single dots.\<close>

definition inside_tree :: "string \<Rightarrow> bool" where
  "inside_tree p \<longleftrightarrow> \<not> absolute p \<and> ''..'' \<notin> set (split_char CHR ''/'' p)"

definition manifest_validate :: "manifest \<Rightarrow> pkg_origin \<Rightarrow> refusal + unit" where
  "manifest_validate m orig =
    (if mf_publisher m \<noteq> (case orig of PkOwner \<Rightarrow> ''local'' | PkSystem \<Rightarrow> ''eclipse'') then Inl RfPublisher
     else if MAX_DEPTH_CEILING < mf_max_depth m then Inl RfDepthOverCeiling
     else if orig \<noteq> PkOwner \<and> list_ex (\<lambda>c. rq_name c = ''secret.expose'') (mf_capabilities m) then Inl RfSecretExpose
     else case find (\<lambda>(kind, v). kind = ''net.egress'' \<and> wildcard v) (mf_sandbox m) of
       Some (kind, _) \<Rightarrow> Inl (RfWildcardScope kind)
     | None \<Rightarrow>
         if CHR ''/'' \<in> set (hd (mf_entrypoint m)) \<and> \<not> inside_tree (hd (mf_entrypoint m)) then Inl RfEntrypointOutsideTree
         else Inr ())"

text \<open>\<open>load\<close>. The directory is \<open><id>/<version>\<close>.\<close>

definition manifest_load ::
  "(regex \<Rightarrow> bool) \<Rightarrow> (string \<Rightarrow> kdl_node list option) \<Rightarrow> (string \<Rightarrow> string option) \<Rightarrow> string \<Rightarrow> pkg_origin \<Rightarrow> refusal + manifest" where
  "manifest_load rxok kp rd dir orig =
    (case rd dir of
       None \<Rightarrow> Inl RfUnreadable
     | Some text \<Rightarrow>
         if \<not> utf8 text then Inl RfUnreadable
         else rbind (manifest_parse rxok kp text) (\<lambda>m.
           rbind (manifest_validate m orig) (\<lambda>_.
           if file_name dir \<noteq> Some (mf_version m) then Inl (RfField ''version'')
           else if Option.bind (parent_parts dir) (\<lambda>p. if p = [] \<or> last p = ''..'' then None else Some (last p)) \<noteq> Some (mf_id m)
             then Inl (RfField ''id'')
           else Inr m)))"

end
