(* ===== verification/Dispatch.thy ===== *)
theory Dispatch
  imports Manifest
begin

text \<open>
  Installing packages, previewing drafts and creating tasks: \<open>ec-policyd/src/dispatch.rs\<close>. The hash maps
  are association lists with distinct keys; nothing the code does depends on their order. Each read of the
  file system is an argument of its own (\<open>rd\<close>, the contents of \<open>manifest.kdl\<close> in a directory), so it may
  change between two reads of one operation. Random bytes are arguments.
\<close>

definition MAX_DEADLINE_MS :: u64 where "MAX_DEADLINE_MS = 24 * 3600000"
definition MAX_STATEMENT :: nat where "MAX_STATEMENT = 1000"
definition REVIEW_TTL_MS :: u64 where "REVIEW_TTL_MS = 5 * 60000"
definition MAX_PREVIEWS :: nat where "MAX_PREVIEWS = 64"

datatype dest = ToAsker | ToAgentd | ToAll

type_synonym out_msgs = "(dest \<times> from_policyd) list"

record install =
  in_id :: string
  in_version :: string
  in_dir :: string
  in_hash :: "byte list"
  in_lines :: "string list"
  in_seq :: u64

record review =
  rv_req :: u64
  rv_manifest :: manifest
  rv_dir :: string
  rv_hash :: "byte list"
  rv_expires_ms :: u64

record preview =
  pw_slot :: u64
  pw_package :: string
  pw_version :: string
  pw_statement :: string
  pw_deadline_ms :: u64
  pw_lines :: "string list"
  pw_continuation :: string
  pw_resumes :: string
  pw_account :: string
  pw_table_version :: u64
  pw_install_seq :: u64

text \<open>\<open>dp_files\<close>: the files of the \<open>installs\<close> directory. \<open>paused\<close> has one possible value, so it is its keys.\<close>

record dispatch =
  dp_files :: "(string \<times> byte list) list"
  dp_roots :: "(string \<times> pkg_origin) list"
  dp_installs :: "(string \<times> install) list"
  dp_reviews :: "(u64 \<times> review) list"
  dp_previews :: "(u64 \<times> preview) list"
  dp_paused :: "string list"
  dp_next :: u64

text \<open>What comes from outside beside the environment of the task store.\<close>

record pkg_env =
  pe_kp :: "string \<Rightarrow> kdl_node list option"
  pe_canon :: "string \<Rightarrow> string option"

type_synonym reads = "string \<Rightarrow> string option"

definition refused :: "u64 \<Rightarrow> string \<Rightarrow> out_msgs" where
  "refused req why = [(ToAsker, FRefused req why)]"

section \<open>Install records\<close>

definition put_texts :: "string list \<Rightarrow> byte list" where
  "put_texts ts = put_array (length ts) @ concat (map put_text ts)"

definition encode_install :: "install \<Rightarrow> byte list" where
  "encode_install i =
    (let m = mb_insert [] ''id'' (put_text (in_id i));
         m = mb_insert m ''version'' (put_text (in_version i));
         m = mb_insert m ''dir'' (put_text (in_dir i));
         m = mb_insert m ''manifest_hash'' (put_bytes (in_hash i));
         m = mb_insert m ''seq'' (put_u64 (in_seq i));
         m = mb_insert m ''lines'' (put_texts (in_lines i))
     in mb_finish m)"

record install_acc =
  ia_id :: "string option"
  ia_version :: "string option"
  ia_dir :: "string option"
  ia_hash :: "byte list option"
  ia_seq :: "u64 option"
  ia_lines :: "string list option"

definition install_acc_new :: install_acc where
  "install_acc_new = \<lparr>ia_id = None, ia_version = None, ia_dir = None, ia_hash = None, ia_seq = None, ia_lines = None\<rparr>"

text \<open>At most 256 lines are read, whatever the array's length says.\<close>

definition install_step :: "string \<Rightarrow> install_acc \<Rightarrow> (cbor_error, install_acc) parser" where
  "install_step k a =
    (if k = ''dir'' then andthen rd_text (\<lambda>v. ret (a\<lparr>ia_dir := Some v\<rparr>))
     else if k = ''id'' then andthen rd_text (\<lambda>v. ret (a\<lparr>ia_id := Some v\<rparr>))
     else if k = ''lines'' then
       andthen rd_array_len (\<lambda>n. andthen (rd_many (min (unat n) 256) rd_text) (\<lambda>v. ret (a\<lparr>ia_lines := Some v\<rparr>)))
     else if k = ''manifest_hash'' then andthen (rd_byte_array 32) (\<lambda>v. ret (a\<lparr>ia_hash := Some v\<rparr>))
     else if k = ''seq'' then andthen rd_u64 (\<lambda>v. ret (a\<lparr>ia_seq := Some v\<rparr>))
     else if k = ''version'' then andthen rd_text (\<lambda>v. ret (a\<lparr>ia_version := Some v\<rparr>))
     else fail Type)"

definition decode_install :: "byte list \<Rightarrow> install option" where
  "decode_install b =
    (case run_whole id (rd_map id install_step install_acc_new) b of
       Inl _ \<Rightarrow> None
     | Inr a \<Rightarrow>
         (case (ia_id a, ia_version a, ia_dir a, ia_hash a, ia_lines a, ia_seq a) of
            (Some i, Some v, Some d, Some h, Some ls, Some s) \<Rightarrow>
              Some \<lparr>in_id = i, in_version = v, in_dir = d, in_hash = h, in_lines = ls, in_seq = s\<rparr>
          | _ \<Rightarrow> None))"

text \<open>The write and the rename, when neither fails.\<close>

definition write_install :: "(string \<times> byte list) list \<Rightarrow> install \<Rightarrow> (string \<times> byte list) list" where
  "write_install files i = AList.update (in_id i @ ''.cbor'') (encode_install i) files"

text \<open>\<open>Path::extension\<close> is \<open>cbor\<close>: a name with something before the last dot.\<close>

definition cbor_file :: "string \<Rightarrow> bool" where
  "cbor_file n \<longleftrightarrow> ends_with ''.cbor'' n \<and> n \<noteq> ''.cbor''"

fun load_installs :: "(string \<times> byte list) list \<Rightarrow> (string \<times> install) list \<Rightarrow> (string \<times> install) list" where
  "load_installs [] is' = is'"
| "load_installs ((n, b) # fs) is' =
     load_installs fs (if cbor_file n then (case decode_install b of Some i \<Rightarrow> AList.update (in_id i) i is' | None \<Rightarrow> is') else is')"

definition dispatch_open :: "(string \<times> byte list) list \<Rightarrow> (string \<times> pkg_origin) list \<Rightarrow> dispatch" where
  "dispatch_open files roots = \<lparr>dp_files = files, dp_roots = roots, dp_installs = load_installs files [],
     dp_reviews = [], dp_previews = [], dp_paused = [], dp_next = 1\<rparr>"

text \<open>\<open>b\<close>: the eight random bytes.\<close>

definition dispatch_id :: "u64 \<Rightarrow> dispatch \<Rightarrow> u64 \<times> dispatch" where
  "dispatch_id b d = (b XOR (dp_next d + 1), d\<lparr>dp_next := dp_next d + 1\<rparr>)"

definition installed :: "dispatch \<Rightarrow> string \<Rightarrow> install option" where
  "installed d p = map_of (dp_installs d) p"

section \<open>Displays\<close>

definition put_cap :: "string list \<Rightarrow> requested \<Rightarrow> byte list" where
  "put_cap prev c =
    (let e = mb_insert [] ''line'' (put_text (requested_line c));
         e = mb_insert e ''because'' (put_text (rq_because c));
         e = mb_insert e ''added'' (put_bool (requested_line c \<notin> set prev))
     in mb_finish e)"

definition review_display :: "manifest \<Rightarrow> install option \<Rightarrow> byte list" where
  "review_display m previous =
    (let prev = (case previous of Some p \<Rightarrow> in_lines p | None \<Rightarrow> []);
         d = mb_insert [] ''id'' (put_text (mf_id m));
         d = mb_insert d ''name'' (put_text (mf_name m));
         d = mb_insert d ''publisher'' (put_text (mf_publisher m));
         d = mb_insert d ''version'' (put_text (mf_version m));
         d = mb_insert_opt d ''previous'' (map_option (\<lambda>p. put_text (in_version p)) previous);
         d = mb_insert d ''caps'' (put_array (length (mf_capabilities m)) @ concat (map (put_cap prev) (mf_capabilities m)));
         now = map requested_line (mf_capabilities m);
         d = mb_insert d ''removed'' (put_texts (filter (\<lambda>l. l \<notin> set now) prev));
         absent = map fst (filter (\<lambda>(_, p). \<not> list_ex (\<lambda>c. starts_with p (rq_name c)) (mf_capabilities m))
           [(''capture'', ''screen.capture''), (''clipboard'', ''clipboard.''), (''shell'', ''launch.outside_sandbox''),
            (''secrets'', ''secret.'')]);
         d = mb_insert d ''absent'' (put_texts absent);
         warn = (if list_ex (\<lambda>(k, _). k = ''net.egress'') (mf_sandbox m) \<and> list_ex (\<lambda>c. rq_name c = ''secret.expose'') (mf_capabilities m)
                 then [''secret_expose_with_egress''] else []);
         d = mb_insert d ''warnings'' (put_texts warn);
         d = mb_insert d ''sandbox'' (put_texts (map (\<lambda>(k, v). k @ '' '' @ v) (mf_sandbox m) @
               (case mf_inference m of None \<Rightarrow> [] | Some i \<Rightarrow> [''inference '' @ if_backend i @ '' '' @ if_model i])))
     in mb_finish d)"

definition slot_display :: "manifest \<Rightarrow> string \<Rightarrow> u64 \<Rightarrow> string list \<Rightarrow> bool \<Rightarrow> string \<Rightarrow> string \<Rightarrow> string \<Rightarrow> byte list" where
  "slot_display m statement deadline_ms lns narrowed continuation resumes account =
    (let d = mb_insert [] ''package_name'' (put_text (mf_name m));
         d = mb_insert d ''package'' (put_text (mf_id m));
         d = mb_insert d ''publisher'' (put_text (mf_publisher m));
         d = mb_insert d ''statement'' (put_text statement);
         d = mb_insert d ''deadline_ms'' (put_u64 deadline_ms);
         d = mb_insert d ''could'' (put_texts lns);
         d = mb_insert d ''narrowed'' (put_bool narrowed);
         d = mb_insert d ''continuation'' (put_text continuation);
         d = mb_insert d ''resumes'' (put_text resumes);
         d = mb_insert d ''account'' (put_text account);
         d = mb_insert d ''untrusted_predecessor'' (put_bool (continuation \<noteq> [] \<or> resumes \<noteq> []))
     in mb_finish d)"

section \<open>Installing\<close>

definition install_begin ::
  "env \<Rightarrow> pkg_env \<Rightarrow> reads \<Rightarrow> reads \<Rightarrow> u64 \<Rightarrow> dispatch \<Rightarrow> u64 \<Rightarrow> string \<Rightarrow> u64 \<Rightarrow> dispatch \<times> out_msgs" where
  "install_begin e pe rd rd2 b d req path now =
    (let d = d\<lparr>dp_reviews := filter (\<lambda>(_, r). now < rv_expires_ms r) (dp_reviews d)\<rparr> in
     case pe_canon pe path of
       None \<Rightarrow> (d, refused req ''not_found'')
     | Some dir \<Rightarrow>
     (case origin_of (pe_canon pe) dir (dp_roots d) of
       None \<Rightarrow> (d, refused req ''outside_agent_dirs'')
     | Some orig \<Rightarrow>
     (case manifest_load (te_rxok e) (pe_kp pe) rd dir orig of
       Inl r \<Rightarrow> (d, refused req (refusal_text r))
     | Inr m \<Rightarrow>
     (case rd2 dir of
       None \<Rightarrow> (d, refused req (refusal_text RfUnreadable))
     | Some text \<Rightarrow>
         let hash = te_b3 e (str_bytes text);
             display = review_display m (installed d (mf_id m));
             (review, d) = dispatch_id b d
         in (d\<lparr>dp_reviews := AList.update review \<lparr>rv_req = req, rv_manifest = m, rv_dir = dir, rv_hash = hash,
               rv_expires_ms = now + REVIEW_TTL_MS\<rparr> (dp_reviews d)\<rparr>,
             [(ToAsker, FInstallReview req review display)])))))"

definition install_record :: "install \<Rightarrow> emission" where
  "install_record i =
    \<lparr>e_kind = KPolicy, e_principal = ''human'', e_grant_id = None, e_task_id = None, e_chain_id = None, e_req_id = None,
     e_serial = None,
     e_body = (let m = mb_insert [] ''op'' (put_text ''install'');
                   m = mb_insert m ''package'' (put_text (in_id i));
                   m = mb_insert m ''version'' (put_text (in_version i));
                   m = mb_insert m ''manifest_hash'' (put_bytes (in_hash i));
                   m = mb_insert m ''lines'' (put_u64 (of_nat (length (in_lines i))))
               in mb_finish m)\<rparr>"

text \<open>\<open>wr\<close>: whether the install record can be written.\<close>

definition install_answer ::
  "env \<Rightarrow> clocks \<Rightarrow> reads \<Rightarrow> bool \<Rightarrow> dispatch \<Rightarrow> task_store \<Rightarrow> u64 \<Rightarrow> bool \<Rightarrow> u64 \<Rightarrow> dispatch \<times> out_msgs ts_result" where
  "install_answer e ck rd wr d s review approve now =
    (let found = map_of (dp_reviews d) review;
         d = d\<lparr>dp_reviews := AList.delete review (dp_reviews d)\<rparr> in
     case found of
       None \<Rightarrow> (d, s, Inr [])
     | Some r \<Rightarrow>
         if \<not> now < rv_expires_ms r then (d, s, Inr [])
         else if \<not> approve then (d, s, Inr (refused (rv_req r) ''refused_by_human''))
         else if \<not> (case rd (rv_dir r) of Some t \<Rightarrow> te_b3 e (str_bytes t) = rv_hash r | None \<Rightarrow> False)
           then (d, s, Inr (refused (rv_req r) ''package_changed''))
         else
           let m = rv_manifest r;
               i = \<lparr>in_id = mf_id m, in_version = mf_version m, in_dir = rv_dir r, in_hash = rv_hash r,
                    in_lines = map requested_line (mf_capabilities m),
                    in_seq = (case installed d (mf_id m) of None \<Rightarrow> 1 | Some i \<Rightarrow> in_seq i + 1)\<rparr>
           in (case task_record e ck s (install_record i) of
                 (s, Inl err) \<Rightarrow> (d, s, Inl err)
               | (s, Inr _) \<Rightarrow>
                   if \<not> wr then (d, s, Inl (TkStore StIo))
                   else (d\<lparr>dp_files := write_install (dp_files d) i, dp_installs := AList.update (in_id i) i (dp_installs d)\<rparr>,
                         s, Inr [(ToAsker, FDone (rv_req r))])))"

section \<open>Previews\<close>

text \<open>Unicode characters of a valid UTF-8 string: its bytes that are not continuation bytes.\<close>

definition char_count :: "string \<Rightarrow> nat" where
  "char_count s = length (filter (\<lambda>c. (of_char c :: nat) < 128 \<or> 192 \<le> (of_char c :: nat)) s)"

fun narrow_loop :: "string list \<Rightarrow> nat \<Rightarrow> string list \<Rightarrow> (cbor_error, string list) parser" where
  "narrow_loop ins 0 out = ret out"
| "narrow_loop ins (Suc n) out = andthen rd_text (\<lambda>l.
     if l \<notin> set ins \<or> l \<in> set out then fail Type else narrow_loop ins n (out @ [l]))"

definition narrow :: "string list \<Rightarrow> byte list \<Rightarrow> string list option" where
  "narrow ins narrow_to =
    (if narrow_to = [] then Some ins
     else case run_whole id (andthen rd_array_len (\<lambda>n. if 256 < n then fail Type else narrow_loop ins (unat n) [])) narrow_to of
       Inl _ \<Rightarrow> None | Inr out \<Rightarrow> Some out)"

text \<open>\<open>find\<close> and the other lookups by a task's text.\<close>

definition task_named :: "task_store \<Rightarrow> string \<Rightarrow> task option" where
  "task_named s txt = find (\<lambda>t. ulid_to_text (t_id t) = txt) (ts_tasks s)"

definition resume_ok :: "env \<Rightarrow> task_store \<Rightarrow> manifest \<Rightarrow> string \<Rightarrow> string \<Rightarrow> string + unit" where
  "resume_ok e s m resumes statement =
    (if \<not> is_resumable m then Inl ''not_resumable''
     else rbind (ok_or ''resume_unknown'' (task_named s resumes)) (\<lambda>t.
       if is_live (t_state t) then Inl ''resume_not_closed''
       else if \<not> (case Option.bind (strip_prefix ''agent:'' (t_principal t)) (strip_prefix (mf_id m)) of
                    Some suf \<Rightarrow> starts_with ''-'' suf | None \<Rightarrow> False) then Inl ''resume_other_package''
       else if ts_hashes s (ulid_bytes (t_id t)) \<noteq> Some (te_b3 e (str_bytes statement)) then Inl ''resume_statement_changed''
       else Inr ()))"

definition current_manifest :: "env \<Rightarrow> pkg_env \<Rightarrow> reads \<Rightarrow> reads \<Rightarrow> dispatch \<Rightarrow> install \<Rightarrow> string + manifest" where
  "current_manifest e pe rd rd2 d i =
     rbind (ok_or ''not_installed'' (rd (in_dir i))) (\<lambda>text.
     if te_b3 e (str_bytes text) \<noteq> in_hash i then Inl ''package_changed''
     else rbind (ok_or ''not_installed'' (origin_of (pe_canon pe) (in_dir i) (dp_roots d))) (\<lambda>orig.
       map_err refusal_text (manifest_load (te_rxok e) (pe_kp pe) rd2 (in_dir i) orig)))"

text \<open>The checks of \<open>preview\<close>: a refusal, or the install record, the manifest, the deadline and the lines.\<close>

definition preview_checks ::
  "env \<Rightarrow> pkg_env \<Rightarrow> reads \<Rightarrow> reads \<Rightarrow> dispatch \<Rightarrow> task_store \<Rightarrow> string \<Rightarrow> string \<Rightarrow> u64 \<Rightarrow> byte list \<Rightarrow> string \<Rightarrow> string \<Rightarrow> string \<Rightarrow>
   u64 \<Rightarrow> bool \<Rightarrow> string + install \<times> manifest \<times> u64 \<times> string list" where
  "preview_checks e pe rd rd2 d s package statement deadline_ms narrow_to continuation resumes account table_version agentd_live =
    (if table_version = 0 then Inl ''policy_unavailable''
     else if \<not> account_ok account then Inl ''bad_account''
     else if \<not> agentd_live then Inl ''agentd_unavailable''
     else if char_count statement = 0 \<or> MAX_STATEMENT < char_count statement then Inl ''statement_length''
     else rbind (ok_or ''not_installed'' (installed d package)) (\<lambda>install.
       rbind (current_manifest e pe rd rd2 d install) (\<lambda>m.
       let deadline = (if deadline_ms = 0 then mf_deadline_ms m else deadline_ms) in
       if MAX_DEADLINE_MS < deadline then Inl ''deadline_too_long''
       else rbind (ok_or ''narrowing_widens'' (narrow (in_lines install) narrow_to)) (\<lambda>lns.
       if continuation \<noteq> [] \<and> resumes \<noteq> [] then Inl ''continuation_and_resumes''
       else rbind (if resumes \<noteq> [] then resume_ok e s m resumes statement else Inr ()) (\<lambda>_.
       if continuation \<noteq> [] \<and> \<not> list_ex (\<lambda>t. ulid_to_text (t_id t) = continuation \<and> \<not> is_live (t_state t)) (ts_tasks s)
       then Inl ''continuation_not_closed''
       else Inr (install, m, deadline, lns))))))"

definition dispatch_preview ::
  "env \<Rightarrow> pkg_env \<Rightarrow> reads \<Rightarrow> reads \<Rightarrow> u64 \<Rightarrow> dispatch \<Rightarrow> task_store \<Rightarrow> u64 \<Rightarrow> u64 \<Rightarrow> string \<Rightarrow> string \<Rightarrow> u64 \<Rightarrow> byte list \<Rightarrow> string \<Rightarrow> string \<Rightarrow>
   string \<Rightarrow> u64 \<Rightarrow> bool \<Rightarrow> dispatch \<times> out_msgs" where
  "dispatch_preview e pe rd rd2 b d s req slot package statement deadline_ms narrow_to continuation resumes account table_version agentd_live =
    (case preview_checks e pe rd rd2 d s package statement deadline_ms narrow_to continuation resumes account table_version agentd_live of
       Inl why \<Rightarrow> (d, refused req why)
     | Inr (install, m, deadline, lns) \<Rightarrow>
         let display = slot_display m statement deadline lns (1 < length narrow_to) continuation resumes account;
             ps = (if MAX_PREVIEWS \<le> length (dp_previews d) then [] else dp_previews d);
             ps = filter (\<lambda>(_, p). pw_slot p \<noteq> slot) ps;
             (preview, d) = dispatch_id b d
         in (d\<lparr>dp_previews := AList.update preview \<lparr>pw_slot = slot, pw_package = mf_id m, pw_version = mf_version m,
               pw_statement = statement, pw_deadline_ms = deadline, pw_lines = lns, pw_continuation = continuation,
               pw_resumes = resumes, pw_account = account, pw_table_version = table_version,
               pw_install_seq = in_seq install\<rparr> ps\<rparr>,
             [(ToAsker, FPreview req preview display)]))"

section \<open>Creating tasks\<close>

definition hex_digit :: "nat \<Rightarrow> char" where
  "hex_digit n = (if n < 10 then char_of (48 + n) else char_of (87 + n))"

definition hex_byte :: "byte \<Rightarrow> string" where
  "hex_byte b = [hex_digit (unat b div 16), hex_digit (unat b mod 16)]"

definition task_principal :: "string \<Rightarrow> byte list \<Rightarrow> string" where
  "task_principal package rnd = ''agent:'' @ package @ ''-'' @ concat (map hex_byte rnd)"

text \<open>\<open>join("\n")\<close>.\<close>

fun join_lines :: "string list \<Rightarrow> string" where
  "join_lines [] = []"
| "join_lines [l] = l"
| "join_lines (l # ls) = l @ CHR 0x0A # join_lines ls"

fun task_error_short :: "task_error \<Rightarrow> string" where
  "task_error_short (AlreadyLive _) = ''already_live''"
| "task_error_short ExpiryBeyondDeadline = ''deadline''"
| "task_error_short BadScope = ''bad_scope''"
| "task_error_short _ = ''task''"

text \<open>The random bytes of one \<open>create\<close>: three for the principal, ten for each identifier.\<close>

record create_random =
  cr_suffix :: "byte list"
  cr_task :: "byte list"
  cr_grant :: "byte list"

definition dispatch_create ::
  "env \<Rightarrow> clocks \<Rightarrow> create_random \<Rightarrow> dispatch \<Rightarrow> task_store \<Rightarrow> u64 \<Rightarrow> u64 \<Rightarrow> u64 \<Rightarrow> u64 \<Rightarrow> bool \<Rightarrow> u64 \<Rightarrow>
   dispatch \<times> out_msgs ts_result" where
  "dispatch_create e ck cr d s req slot preview table_version agentd_live now =
    (let found = map_of (dp_previews d) preview;
         d = d\<lparr>dp_previews := AList.delete preview (dp_previews d)\<rparr> in
     case found of
       None \<Rightarrow> (d, s, Inr (refused req ''preview_stale''))
     | Some p \<Rightarrow>
         if pw_slot p \<noteq> slot \<or> pw_table_version p \<noteq> table_version \<or>
            map_option in_seq (installed d (pw_package p)) \<noteq> Some (pw_install_seq p)
         then (d, s, Inr (refused req ''preview_stale''))
         else if \<not> agentd_live then (d, s, Inr (refused req ''agentd_unavailable''))
         else
           let princ = task_principal (pw_package p) (cr_suffix cr);
               deadline = now + pw_deadline_ms p;
               scope = join_lines (pw_lines p);
               resumes = (if pw_resumes p = [] then Some None
                 else case task_named s (pw_resumes p) of
                   Some t \<Rightarrow> if is_live (t_state t) then None else Some (Some (t_id t))
                 | None \<Rightarrow> None)
           in (case resumes of
                 None \<Rightarrow> (d, s, Inr (refused req ''preview_stale''))
               | Some resumes \<Rightarrow>
                   (case open_for_human e ck (cr_task cr) (cr_grant cr) s princ (pw_statement p) deadline scope
                           (''slot:'' @ dec_digits (unat slot)) resumes now of
                      (s, Inl (TkStore err)) \<Rightarrow> (d, s, Inl (TkStore err))
                    | (s, Inl err) \<Rightarrow> (d, s, Inr (refused req (''refused:'' @ task_error_short err)))
                    | (s, Inr (i, cose)) \<Rightarrow>
                        (d, s, Inr [(ToAsker, FTaskCreated req (ulid_to_text i)),
                           (ToAgentd, FProvision (ulid_to_text i) princ (pw_package p) (pw_version p) (pw_statement p) deadline cose
                              (pw_continuation p) (pw_resumes p) (pw_account p))]))))"

section \<open>Task state from the console and the slot\<close>

definition dispatch_transition ::
  "env \<Rightarrow> clocks \<Rightarrow> task_store \<Rightarrow> ulid \<Rightarrow> string \<Rightarrow> task_event \<Rightarrow> string \<Rightarrow> out_msgs ts_result" where
  "dispatch_transition e ck s i princ ev why =
    (case task_apply e ck s i ev of
       (s, Inl (TkStore err)) \<Rightarrow> (s, Inl (TkStore err))
     | (s, Inl _) \<Rightarrow> (s, Inr [])
     | (s, Inr nxt) \<Rightarrow>
         let (state, reason) = (case nxt of Closed r \<Rightarrow> (''closed'', close_reason_as_str r) | st \<Rightarrow> (task_state_as_str st, why))
         in (s, Inr ((ToAll, FTaskState (ulid_to_text i) state reason) #
               (if state = ''closed'' then [(ToAll, FRevoked princ)] else []))))"

definition dispatch_pause :: "env \<Rightarrow> clocks \<Rightarrow> dispatch \<Rightarrow> task_store \<Rightarrow> u64 \<Rightarrow> string \<Rightarrow> dispatch \<times> out_msgs ts_result" where
  "dispatch_pause e ck d s req txt =
    (case task_named s txt of
       None \<Rightarrow> (d, s, Inr (refused req ''not_active''))
     | Some t \<Rightarrow>
         if t_state t \<noteq> Active then (d, s, Inr (refused req ''not_active''))
         else (case dispatch_transition e ck s (t_id t) (t_principal t) Pause ''human'' of
             (s, Inl err) \<Rightarrow> (d, s, Inl err)
           | (s, Inr out) \<Rightarrow>
               if out = [] then (d, s, Inr (refused req ''not_active''))
               else (d\<lparr>dp_paused := List.insert txt (dp_paused d)\<rparr>, s, Inr ((ToAsker, FDone req) # out))))"

definition dispatch_unpause :: "env \<Rightarrow> clocks \<Rightarrow> dispatch \<Rightarrow> task_store \<Rightarrow> u64 \<Rightarrow> string \<Rightarrow> dispatch \<times> out_msgs ts_result" where
  "dispatch_unpause e ck d s req txt =
    (case task_named s txt of
       None \<Rightarrow> (d, s, Inr (refused req ''not_paused''))
     | Some t \<Rightarrow>
         if t_state t \<noteq> Paused then (d, s, Inr (refused req ''not_paused''))
         else if txt \<notin> set (dp_paused d) then (d, s, Inr (refused req ''panel_only''))
         else (case dispatch_transition e ck s (t_id t) (t_principal t) Resume ''human'' of
             (s, Inl err) \<Rightarrow> (d, s, Inl err)
           | (s, Inr out) \<Rightarrow>
               if out = [] then (d, s, Inr (refused req ''not_paused''))
               else (d\<lparr>dp_paused := removeAll txt (dp_paused d)\<rparr>, s, Inr ((ToAsker, FDone req) # out))))"

definition dispatch_cancel ::
  "env \<Rightarrow> clocks \<Rightarrow> dispatch \<Rightarrow> task_store \<Rightarrow> u64 \<Rightarrow> string \<Rightarrow> cancel_mode \<Rightarrow> dispatch \<times> out_msgs ts_result" where
  "dispatch_cancel e ck d s req txt mode =
    (case task_named s txt of
       None \<Rightarrow> (d, s, Inr (refused req ''not_found''))
     | Some t \<Rightarrow>
         if \<not> is_live (t_state t) then (d, s, Inr (refused req ''closed''))
         else
           let ev = (if mode = CmDrain \<and> t_state t \<noteq> Draining then Drain else Cancel)
           in (case dispatch_transition e ck s (t_id t) (t_principal t) ev ''human'' of
                 (s, Inl err) \<Rightarrow> (d, s, Inl err)
               | (s, Inr out) \<Rightarrow>
                   if out = [] then (d, s, Inr (refused req ''illegal_transition''))
                   else (d\<lparr>dp_paused := removeAll txt (dp_paused d)\<rparr>, s, Inr ((ToAsker, FDone req) # out))))"

definition dispatch_exited :: "env \<Rightarrow> clocks \<Rightarrow> dispatch \<Rightarrow> task_store \<Rightarrow> u64 \<Rightarrow> string \<Rightarrow> string \<Rightarrow> dispatch \<times> out_msgs ts_result" where
  "dispatch_exited e ck d s req txt how =
    (case task_named s txt of
       None \<Rightarrow> (d, s, Inr (refused req ''not_found''))
     | Some t \<Rightarrow>
         if \<not> is_live (t_state t) then (d, s, Inr [(ToAsker, FDone req)])
         else
           let run = (\<lambda>s ev. dispatch_transition e ck s (t_id t) (t_principal t) ev ''exited'');
               (s, r) =
                 (if how = ''completed'' then
                    ts_bind (if t_state t \<noteq> Draining then run s Drain else (s, Inr [])) (\<lambda>s out.
                    ts_bind (run s Drained) (\<lambda>s more. (s, Inr (out @ more))))
                  else run s Fault)
           in (case r of
                 Inl err \<Rightarrow> (d, s, Inl err)
               | Inr out \<Rightarrow> (d\<lparr>dp_paused := removeAll txt (dp_paused d)\<rparr>, s, Inr ((ToAsker, FDone req) # out))))"

end
