(* ===== verification/Manifest_Laws.thy ===== *)
theory Manifest_Laws
  imports Dispatch Capability_Text
begin

text \<open>
  Manifests that load ask for capabilities the task store can parse: the words of a request's line are its
  name and clauses, joined lines split into themselves, and every request of a manifest is good.
\<close>

section \<open>Words of a line\<close>

lemma take_3: "take 3 (a # b # c # v) = [a, b, c]" "take 3 [a, b] = [a, b]" "take 3 [a] = [a]"
  by (simp_all add: numeral_3_eq_3)

lemma space_code: "(of_char CHR '' '' :: nat) = 32"
  by simp

lemma ws_len_before_space: "s \<noteq> [] \<Longrightarrow> ws_len s = 0 \<Longrightarrow> ws_len (s @ CHR '' '' # t) = 0"
proof -
  assume s: "s \<noteq> []" "ws_len s = 0"
  then obtain a u where "s = a # u" by (cases s) auto
  then consider "s = [a]" | b where "s = [a, b]" | b c v where "s = a # b # c # v" by (metis list.exhaust)
  then show ?thesis
  proof cases
    case 1
    have "\<not> (9 \<le> (of_char a :: nat) \<and> (of_char a :: nat) \<le> 13 \<or> (of_char a :: nat) = 32)"
      using s(2) unfolding 1 ws_len_def take_3 by (simp split: if_splits)
    then show ?thesis unfolding 1 ws_len_def append.simps by (cases t) (simp_all only: take_3 list.map list.case space_code, simp_all)
  next
    case (2 b)
    then show ?thesis using s(2) unfolding 2 ws_len_def append.simps
      by (simp only: take_3 list.map list.case space_code) (auto split: if_splits)
  next
    case (3 b c v)
    then show ?thesis using s(2) unfolding 3 ws_len_def append.simps by (simp only: take_3)
  qed
qed

lemma ws_len_space: "ws_len (CHR '' '' # t) = 1"
  by (simp add: ws_len_def)

lemma split_ws_word: "\<not> has_ws w \<Longrightarrow> split_ws cur (w @ CHR '' '' # t) = (if cur @ w = [] then [] else [cur @ w]) @ split_ws [] t"
proof (induction w arbitrary: cur)
  case Nil
  show ?case by (simp add: ws_len_space Let_def)
next
  case (Cons c w)
  have "ws_len (c # w @ CHR '' '' # t) = 0" using ws_len_before_space [of "c # w" t] Cons.prems by simp
  then show ?case using Cons by (simp add: Let_def)
qed

lemma split_ws_last: "\<not> has_ws w \<Longrightarrow> split_ws cur w = (if cur @ w = [] then [] else [cur @ w])"
  by (induction w arbitrary: cur) (auto simp: Let_def)

definition line_of :: "string \<Rightarrow> string list \<Rightarrow> string" where
  "line_of name scopes = name @ concat (map (\<lambda>sc. CHR '' '' # sc) scopes)"

lemma split_ws_line:
  "\<not> has_ws w \<Longrightarrow> w \<noteq> [] \<Longrightarrow> \<forall>x \<in> set ws. \<not> has_ws x \<and> x \<noteq> [] \<Longrightarrow> split_ws [] (line_of w ws) = w # ws"
proof (induction ws arbitrary: w)
  case Nil
  then show ?case by (simp add: line_of_def split_ws_last)
next
  case (Cons x xs)
  have "line_of w (x # xs) = w @ CHR '' '' # line_of x xs" by (simp add: line_of_def)
  then show ?case using Cons by (simp add: split_ws_word)
qed

lemma ws_len_0:
  "(of_char c :: nat) \<notin> {9..13} \<union> {32, 0xC2, 0xE1, 0xE2, 0xE3} \<Longrightarrow> ws_len (c # s) = 0"
proof -
  assume c: "(of_char c :: nat) \<notin> {9..13} \<union> {32, 0xC2, 0xE1, 0xE2, 0xE3}"
  consider "s = []" | b where "s = [b]" | a b u where "s = a # b # u" by (metis list.exhaust)
  then show ?thesis
    by cases (use c in \<open>simp_all only: ws_len_def take_3 list.map list.case, simp_all\<close>)
qed

lemma name_no_ws: "list_all (\<lambda>b. ascii_lowercase b \<or> b = CHR ''.'' \<or> b = CHR ''_'') n \<Longrightarrow> \<not> has_ws n"
proof (induction n)
  case (Cons c n)
  have "ws_len (c # n) = 0"
  proof -
    have "(of_char c :: nat) = 46 \<or> (of_char c :: nat) = 95 \<or> 97 \<le> (of_char c :: nat) \<and> (of_char c :: nat) \<le> 122"
      using Cons.prems by (auto simp: ascii_lowercase_def Let_def)
    then show ?thesis by (intro ws_len_0) auto
  qed
  then show ?case using Cons by simp
qed simp

section \<open>What a manifest may request\<close>

definition clause_good :: "(regex \<Rightarrow> bool) \<Rightarrow> string \<Rightarrow> bool" where
  "clause_good rxok x \<longleftrightarrow> \<not> has_ws x \<and> \<not> isl (scope_parse rxok x) \<and> x \<noteq> []"

definition request_good :: "(regex \<Rightarrow> bool) \<Rightarrow> requested \<Rightarrow> bool" where
  "request_good rxok r \<longleftrightarrow> rq_name r \<noteq> [] \<and> list_all (\<lambda>b. ascii_lowercase b \<or> b = CHR ''.'' \<or> b = CHR ''_'') (rq_name r) \<and>
     rq_scopes r \<noteq> [] \<and> (\<forall>x \<in> set (rq_scopes r). clause_good rxok x)"

lemma two_refusals: "(if a then Inl x else if b then Inl y else Inr z) = Inr w \<Longrightarrow> w = z" "(if a then Inl x else if b then Inl y else Inr z) = Inr w \<Longrightarrow> \<not> b"
  by (simp_all split: if_splits)

lemma sort_key_Nil: "sort_key f xs = [] \<longleftrightarrow> xs = []"
  by (metis length_0_conv length_sort)

lemma clauses_good:
  "rfold (scope_clause rxok name) ns out = Inr out' \<Longrightarrow> \<forall>x \<in> set out. clause_good rxok x \<Longrightarrow>
   length out' = length out + length ns \<and> (\<forall>x \<in> set out'. clause_good rxok x)"
proof (induction ns arbitrary: out)
  case (Cons n ns)
  from Cons.prems(1) obtain out1 where o: "scope_clause rxok name n out = Inr out1" "rfold (scope_clause rxok name) ns out1 = Inr out'"
    by (auto simp: rbind_Inr_iff)
  from o(1) have "\<exists>v. (if wildcard v then Inl (RfWildcardScope name)
     else let clause = kd_name n @ '':'' @ v in
       if isl (scope_parse rxok clause) \<or> has_ws clause then Inl (RfBadScope name) else Inr (out @ [clause])) = Inr out1"
    unfolding scope_clause_def rbind_Inr_iff by blast
  then obtain v where "(if wildcard v then Inl (RfWildcardScope name)
     else if isl (scope_parse rxok (kd_name n @ '':'' @ v)) \<or> has_ws (kd_name n @ '':'' @ v) then Inl (RfBadScope name)
       else Inr (out @ [kd_name n @ '':'' @ v])) = Inr out1" unfolding Let_def by blast
  then have v: "out1 = out @ [kd_name n @ '':'' @ v]" "\<not> isl (scope_parse rxok (kd_name n @ '':'' @ v))" "\<not> has_ws (kd_name n @ '':'' @ v)"
    by (blast dest: two_refusals)+
  have "clause_good rxok (kd_name n @ '':'' @ v)" unfolding clause_good_def using v(2,3) by simp
  then have "\<forall>x \<in> set out1. clause_good rxok x" using Cons.prems(2) unfolding v(1) by simp
  from Cons.IH [OF o(2) this] show ?case unfolding v(1) by simp
qed simp

lemma remdups_adj_Nil: "remdups_adj xs = [] \<longleftrightarrow> xs = []"
  by (metis remdups_adj.simps(1) remdups_adj_set set_empty)

lemma parse_caps_good:
  "parse_caps rxok ns opn out = Inr rs \<Longrightarrow> \<forall>r. opn = Some r \<longrightarrow> request_good rxok r \<Longrightarrow> \<forall>r \<in> set out. request_good rxok r \<Longrightarrow>
   \<forall>r \<in> set rs. request_good rxok r"
proof (induction rxok ns opn out arbitrary: rs rule: parse_caps.induct)
  case (1 rxok opn out)
  then show ?case by (auto split: option.splits)
next
  case (2 rxok c cs opn out)
  show ?case
  proof (cases "kd_name c = ''because''")
    case True
    then have run: "(case opn of None \<Rightarrow> Inl (RfNoBecause [])
        | Some r \<Rightarrow> rbind (one_string c ''because'') (\<lambda>b. parse_caps rxok cs None (out @ [r\<lparr>rq_because := b\<rparr>]))) = Inr rs"
      using 2(3) unfolding parse_caps.simps(2) Let_def by (simp only: if_True refl)
    then obtain r where o: "opn = Some r" by (cases opn) simp_all
    then obtain b where r: "opn = Some r" "parse_caps rxok cs None (out @ [r\<lparr>rq_because := b\<rparr>]) = Inr rs"
      using run unfolding o option.case rbind_Inr_iff by blast
    have "request_good rxok (r\<lparr>rq_because := b\<rparr>)" using 2(4) r(1) by (simp add: request_good_def)
    then show ?thesis by (intro 2(1) [OF refl True r(1) r(2)]) (use 2(5) in simp_all)
  next
    case False
    then have run: "(case opn of Some r \<Rightarrow> Inl (RfNoBecause (rq_name r)) | None \<Rightarrow>
         if \<not> list_all (\<lambda>b. ascii_lowercase b \<or> b = CHR ''.'' \<or> b = CHR ''_'') (kd_name c) \<or> kd_name c = [] then Inl (RfUnknownNode (kd_name c))
         else if kd_entries c \<noteq> [] \<and> kd_entries c \<noteq> [(None, KdStr ''scope'')] then Inl (RfBadScope (kd_name c))
         else if kd_entries c = [] \<or> kd_nodes c = [] then Inl (RfUnscoped (kd_name c))
         else rbind (rfold (scope_clause rxok (kd_name c)) (kd_nodes c) []) (\<lambda>scopes.
           parse_caps rxok cs (Some \<lparr>rq_name = kd_name c, rq_scopes = remdups_adj (sort_key str_bytes scopes), rq_because = []\<rparr>) out)) = Inr rs"
      using 2(3) unfolding parse_caps.simps(2) Let_def by (simp only: if_False)
    then have o: "opn = None" by (cases opn) simp_all
    from run have n: "list_all (\<lambda>b. ascii_lowercase b \<or> b = CHR ''.'' \<or> b = CHR ''_'') (kd_name c)" "kd_name c \<noteq> []"
        "\<not> (kd_entries c \<noteq> [] \<and> kd_entries c \<noteq> [(None, KdStr ''scope'')])" "\<not> (kd_entries c = [] \<or> kd_nodes c = [])"
      and "rbind (rfold (scope_clause rxok (kd_name c)) (kd_nodes c) []) (\<lambda>scopes.
           parse_caps rxok cs (Some \<lparr>rq_name = kd_name c, rq_scopes = remdups_adj (sort_key str_bytes scopes), rq_because = []\<rparr>) out) = Inr rs"
      unfolding o option.case by (simp_all only: if_bool_eq_conj split: if_splits) blast+
    then obtain scopes where sc: "rfold (scope_clause rxok (kd_name c)) (kd_nodes c) [] = Inr scopes"
      and rest: "parse_caps rxok cs (Some \<lparr>rq_name = kd_name c, rq_scopes = remdups_adj (sort_key str_bytes scopes), rq_because = []\<rparr>) out = Inr rs"
      unfolding rbind_Inr_iff by blast
    have "length scopes = length (kd_nodes c)" "\<forall>x \<in> set scopes. clause_good rxok x"
      using clauses_good [OF sc] by simp_all
    then have "request_good rxok \<lparr>rq_name = kd_name c, rq_scopes = remdups_adj (sort_key str_bytes scopes), rq_because = []\<rparr>"
      using n by (auto simp: request_good_def remdups_adj_Nil sort_key_Nil)
    then show ?thesis by (intro 2(2) [OF refl False o _ _ _ rest]) (use 2(5) n in simp_all)
  qed
qed

lemma requested_line_eq: "requested_line r = line_of (rq_name r) (rq_scopes r)"
  by (simp add: requested_line_def line_of_def)

lemma request_words:
  assumes "request_good rxok r"
  shows "split_ws [] (requested_line r) = rq_name r # rq_scopes r"
  unfolding requested_line_eq
  by (rule split_ws_line) (use assms name_no_ws in \<open>auto simp: request_good_def clause_good_def\<close>)

lemma request_line_capability:
  assumes "request_good rxok r"
  shows "capability_line rxok (requested_line r) = Some \<lparr>cap_name = rq_name r, cap_scopes = rq_scopes r, cap_quota = None\<rparr>"
proof -
  have "\<not> list_ex (\<lambda>s. isl (scope_parse rxok s)) (rq_scopes r)"
    using assms by (auto simp: request_good_def clause_good_def list_ex_iff)
  then show ?thesis using assms unfolding capability_line_def request_words [OF assms] list.case by (simp add: request_good_def)
qed

section \<open>Lines joined and split again\<close>

lemma no_ws_breaks: "\<not> has_ws w \<Longrightarrow> CHR 0x0A \<notin> set w \<and> CHR 0x0D \<notin> set w"
proof (induction w)
  case (Cons c w)
  have "ws_len (CHR 0x0A # s) = 1" "ws_len (CHR 0x0D # s) = 1" for s by (simp_all add: ws_len_def)
  then show ?case using Cons by auto
qed simp

definition line_good :: "string \<Rightarrow> bool" where
  "line_good l \<longleftrightarrow> l \<noteq> [] \<and> CHR 0x0A \<notin> set l \<and> CHR 0x0D \<notin> set l"

lemma request_line_good:
  assumes "request_good rxok r"
  shows "line_good (requested_line r)"
proof -
  have n: "rq_name r \<noteq> []" "\<not> has_ws (rq_name r)" using assms name_no_ws by (auto simp: request_good_def)
  have x: "\<not> has_ws x" if "x \<in> set (rq_scopes r)" for x using assms that by (simp add: request_good_def clause_good_def)
  show ?thesis using n(1) no_ws_breaks [OF n(2)] no_ws_breaks [OF x]
    unfolding line_good_def requested_line_def by auto
qed

lemma str_lines_join: "\<forall>l \<in> set ls. line_good l \<Longrightarrow> str_lines (join_lines ls) = ls"
proof (induction ls rule: join_lines.induct)
  case 1
  show ?case by (simp add: str_lines.simps [of "[]"])
next
  case (2 l)
  then have "takeWhile (\<lambda>c. c \<noteq> CHR 0x0A) l = l" "dropWhile (\<lambda>c. c \<noteq> CHR 0x0A) l = []" "l \<noteq> []"
    by (auto simp: line_good_def takeWhile_eq_all_conv)
  then show ?case by (simp only: join_lines.simps str_lines.simps [of l] Let_def if_True if_False simp_thms)
next
  case (3 l m ls)
  let ?s = "join_lines (l # m # ls)" and ?t = "join_lines (m # ls)"
  have l: "l \<noteq> []" "CHR 0x0A \<notin> set l" "last l \<noteq> CHR 0x0D" using 3(2) by (auto simp: line_good_def dest: last_in_set)
  have s: "?s = l @ CHR 0x0A # ?t" by simp
  have w: "takeWhile (\<lambda>c. c \<noteq> CHR 0x0A) ?s = l" "dropWhile (\<lambda>c. c \<noteq> CHR 0x0A) ?s = CHR 0x0A # ?t"
    unfolding s using l(2) by (auto simp: takeWhile_append dropWhile_append dropWhile_eq_Nil_conv)
  have "?s \<noteq> []" unfolding s by simp
  then have "str_lines ?s = l # str_lines ?t"
    using l by (simp only: str_lines.simps [of ?s] w Let_def list.sel list.distinct if_False simp_thms)
  then show ?case using 3 by simp
qed

section \<open>Manifests that parse\<close>

lemma rfold_inv: "(\<And>x s s'. f x s = Inr s' \<Longrightarrow> P s \<Longrightarrow> P s') \<Longrightarrow> rfold f xs s = Inr s' \<Longrightarrow> P s \<Longrightarrow> P s'"
  by (induction xs arbitrary: s) (auto simp: rbind_Inr_iff)

definition requests_good :: "(regex \<Rightarrow> bool) \<Rightarrow> manifest \<Rightarrow> bool" where
  "requests_good rxok m \<longleftrightarrow> (\<forall>r \<in> set (mf_capabilities m). request_good rxok r)"

lemma task_node_good: "task_node t m = Inr m' \<Longrightarrow> requests_good rxok m \<Longrightarrow> requests_good rxok m'"
  by (auto simp: task_node_def rbind_Inr_iff requests_good_def split: if_splits)

lemma sandbox_node_good: "sandbox_node t m = Inr m' \<Longrightarrow> requests_good rxok m \<Longrightarrow> requests_good rxok m'"
  by (auto simp: sandbox_node_def rbind_Inr_iff requests_good_def)

lemma agent_node_good:
  assumes "agent_node rxok n m = Inr m'" "requests_good rxok m"
  shows "requests_good rxok m'"
proof -
  have t: "rfold task_node ns m = Inr m' \<Longrightarrow> requests_good rxok m'" for ns
    by (rule rfold_inv [where P = "requests_good rxok", OF task_node_good _ assms(2)])
  have s: "rfold sandbox_node ns m = Inr m' \<Longrightarrow> requests_good rxok m'" for ns
    by (rule rfold_inv [where P = "requests_good rxok", OF sandbox_node_good _ assms(2)])
  have c: "parse_caps rxok ns None [] = Inr cs \<Longrightarrow> requests_good rxok (m\<lparr>mf_capabilities := cs\<rparr>)" for ns cs
    using parse_caps_good [of rxok ns None "[]" cs] by (simp add: requests_good_def)
  show ?thesis using assms t s c
    unfolding agent_node_def Let_def by (auto simp: rbind_Inr_iff requests_good_def split: if_splits)
qed

lemma parse_good:
  assumes "manifest_parse rxok kp text = Inr m"
  shows "requests_good rxok m \<and> id_ok (mf_id m) \<and> id_ok (mf_version m)"
proof -
  from assms obtain agent body sn where "rfold (agent_step rxok) body ([], manifest_new) = Inr (sn, m)" "manifest_complete m = Inr m"
    by (auto simp: manifest_parse_def rbind_Inr_iff manifest_complete_def split: option.splits list.splits if_splits)
  moreover have "requests_good rxok (snd s')" if "agent_step rxok x s = Inr s'" "requests_good rxok (snd s)" for x s s'
    using that agent_node_good by (auto simp: agent_step_def rbind_Inr_iff split: prod.splits if_splits)
  ultimately have "requests_good rxok (snd (sn, m))"
    using rfold_inv [of "agent_step rxok" "\<lambda>s. requests_good rxok (snd s)" body "([], manifest_new)" "(sn, m)"]
    by (simp add: requests_good_def manifest_new_def)
  then show ?thesis using \<open>manifest_complete m = Inr m\<close> by (auto simp: manifest_complete_def split: if_splits)
qed

lemma load_good:
  assumes "manifest_load rxok kp rd dir orig = Inr m"
  shows "requests_good rxok m \<and> id_ok (mf_id m) \<and> id_ok (mf_version m)"
proof -
  from assms obtain x where "manifest_parse rxok kp x = Inr m"
    by (auto simp: manifest_load_def rbind_Inr_iff split: option.splits if_splits)
  then show ?thesis by (rule parse_good)
qed

end
