(* ===== verification/Install_Laws.thy ===== *)
theory Install_Laws
  imports Manifest_Laws AuditStore_Frames Cbor_Laws
begin

text \<open>
  Install records: one of at most 256 lines reads back as it was written, a longer one does not read at
  all, because the reader takes 256 lines and meets the next where it expects a key.
\<close>

section \<open>Install records\<close>

definition install_entries :: "install \<Rightarrow> entries" where
  "install_entries i = [(''id'', put_text (in_id i)), (''dir'', put_text (in_dir i)), (''seq'', put_u64 (in_seq i)),
     (''lines'', put_texts (in_lines i)), (''version'', put_text (in_version i)), (''manifest_hash'', put_bytes (in_hash i))]"

lemma install_keys: "keys_ok [''id'', ''dir'', ''seq'', ''lines'', ''version'', ''manifest_hash'']" by code_simp

lemma install_canonical: "canonical (install_entries i)"
  by (rule keys_ok_canonical) (simp_all add: install_entries_def install_keys)

lemma encode_install_eq: "encode_install i = put_entries (install_entries i)"
  unfolding encode_install_def Let_def mb_insert_Nil mb_of_simps install_entries_def
  by (rule keys_ok_finish) (simp_all add: install_keys add_mset_commute)

definition install_strings :: "install \<Rightarrow> bool" where
  "install_strings i \<longleftrightarrow> rstr (in_id i) \<and> rstr (in_version i) \<and> rstr (in_dir i) \<and> length (in_hash i) = 32 \<and>
     length (in_lines i) < 2 ^ 64 \<and> (\<forall>l \<in> set (in_lines i). rstr l)"

lemma install_steps:
  "rstr s \<Longrightarrow> reads d (install_step ''id'' a) (put_text s) (a\<lparr>ia_id := Some s\<rparr>)"
  "rstr s \<Longrightarrow> reads d (install_step ''dir'' a) (put_text s) (a\<lparr>ia_dir := Some s\<rparr>)"
  "rstr s \<Longrightarrow> reads d (install_step ''version'' a) (put_text s) (a\<lparr>ia_version := Some s\<rparr>)"
  "length h = 32 \<Longrightarrow> reads d (install_step ''manifest_hash'' a) (put_bytes h) (a\<lparr>ia_hash := Some h\<rparr>)"
  "reads d (install_step ''seq'' a) (put_u64 n) (a\<lparr>ia_seq := Some n\<rparr>)"
  by (simp_all add: install_step_def)
    (rule reads_andthen1 reads_text reads_u64 reads_byte_array reads_retI | simp)+

lemma reads_lines:
  assumes "length ls < 2 ^ 64" "\<forall>l \<in> set ls. rstr l"
  shows "reads d (install_step ''lines'' a) (put_array (length ls) @ concat (map put_text (take 256 ls))) (a\<lparr>ia_lines := Some (take 256 ls)\<rparr>)"
proof -
  have "reads d (rd_many (min (length ls) 256) rd_text) (concat (map put_text (take 256 ls))) (take 256 ls)"
    by (rule reads_at, rule textc.reads_many) (use assms(2) in \<open>auto dest: in_set_takeD\<close>)
  then have "reads d (andthen (rd_many (min (unat (word_of_nat (length ls) :: u64)) 256) rd_text) (\<lambda>v. ret (a\<lparr>ia_lines := Some v\<rparr>)))
      (concat (map put_text (take 256 ls))) (a\<lparr>ia_lines := Some (take 256 ls)\<rparr>)"
    unfolding unat_word_of_nat64 [OF assms(1)] by (rule reads_andthen1) (simp add: reads_retI)
  then show ?thesis by (simp add: install_step_def) (rule reads_andthen [OF reads_array_len [OF assms(1)]])
qed

lemma install_trip:
  assumes i: "install_strings i" and n: "length (in_lines i) \<le> 256"
  shows "decode_install (encode_install i) = Some i"
proof -
  let ?a = "\<lparr>ia_id = Some (in_id i), ia_version = Some (in_version i), ia_dir = Some (in_dir i), ia_hash = Some (in_hash i),
     ia_seq = Some (in_seq i), ia_lines = Some (in_lines i)\<rparr>"
  have l: "reads 0 (install_step ''lines'' a) (put_texts (in_lines i)) (a\<lparr>ia_lines := Some (in_lines i)\<rparr>)" for a
    using reads_lines [of "in_lines i" 0 a] i n by (simp add: install_strings_def put_texts_def)
  have "steps 0 install_step install_acc_new (install_entries i) ?a"
    unfolding install_entries_def
    by (rule steps_eq, (rule stepsI install_steps l | use i in \<open>simp add: install_strings_def install_acc_new_def\<close>)+)
  from run_whole_reads [OF reads_map [OF this install_canonical]] show ?thesis
    by (simp add: decode_install_def encode_install_eq MAX_MAP_DEPTH_def)
qed


text \<open>A decoder that has read some entries of a longer map is at the next key.\<close>

lemma reads_prefix:
  assumes "steps d step s es s'" "sorted_wrt (<) (map (\<lambda>(k, v). put_text k) es)" "\<forall>(k, v) \<in> set es. rstr k" "inb r" "rest r = put_pairs es @ t"
    "r_maps r = (prev, left) # fs" "length es < unat left" "Suc (length fs) + d \<le> MAX_MAP_DEPTH"
    "\<forall>p. prev = Some p \<longrightarrow> (\<forall>(k, v) \<in> set es. p < put_text k)"
  shows "\<exists>r'. loop_n (length es + m) (\<lambda>s. andthen (lift_err g rd_key) (\<lambda>k. step k s)) s r =
       loop_n m (\<lambda>s. andthen (lift_err g rd_key) (\<lambda>k. step k s)) s' r' \<and> inb r' \<and> rest r' = t \<and> length (r_maps r') = Suc (length fs)"
  using assms
proof (induction es arbitrary: s r prev left)
  case Nil
  then show ?case by (auto intro!: exI [of _ r])
next
  case (Cons e es)
  obtain k v where e: "e = (k, v)" by fastforce
  from Cons.prems(1) obtain s1 where v: "reads d (step k s) v s1" and rec: "steps d step s1 es s'"
    by (auto simp: e)
  have left: "left \<noteq> 0" "length es < unat (left - 1)"
    using Cons.prems(7) unat_minus_one [of left] by (cases "left = 0"; simp)+
  let ?r1 = "(adv (length (put_text k)) r)\<lparr>r_maps := (Some (put_text k), left - 1) # fs\<rparr>"
  have key: "rd_key r = Inr (k, ?r1)"
    using rd_key_reads [OF Cons.prems(4) _ _ Cons.prems(6) left(1), of k "v @ put_pairs es @ t"] Cons.prems by (auto simp: e)
  have "rest ?r1 = v @ put_pairs es @ t"
    using rest_adv [of r "put_text k" "v @ put_pairs es @ t"] Cons.prems(5) by (simp add: e rest_def)
  moreover have "inb ?r1"
    using inb_adv [OF Cons.prems(4), of "put_text k"] Cons.prems(5) by (simp add: e inb_def)
  ultimately have val: "step k s ?r1 = Inr (s1, adv (length v) ?r1)"
    and r2: "rest (adv (length v) ?r1) = put_pairs es @ t" "inb (adv (length v) ?r1)"
    using readsD [OF v, of ?r1] rest_adv [of ?r1 v] inb_adv [of ?r1 v] Cons.prems(8) by auto
  have ord: "sorted_wrt (<) (map (\<lambda>(k, v). put_text k) es)" "\<forall>(k', v') \<in> set es. put_text k < put_text k'" "\<forall>(k, v) \<in> set es. rstr k"
    using Cons.prems(2,3) by (auto simp: e)
  have "\<exists>r'. loop_n (length es + m) (\<lambda>s. andthen (lift_err g rd_key) (\<lambda>k. step k s)) s1 (adv (length v) ?r1) =
       loop_n m (\<lambda>s. andthen (lift_err g rd_key) (\<lambda>k. step k s)) s' r' \<and> inb r' \<and> rest r' = t \<and> length (r_maps r') = Suc (length fs)"
    by (rule Cons.IH [OF rec ord(1,3) r2(2,1), of "Some (put_text k)" "left - 1"]) (use left(2) Cons.prems(8) ord(2) in auto)
  then show ?case using key val by (simp add: e andthen_def lift_err_def)
qed

lemma stray_key:
  assumes "rest r = put_text x @ t" "rstr x" "inb r" "length (r_maps r) \<le> MAX_MAP_DEPTH" "\<And>s r. \<exists>err. step x s r = Inl err"
  shows "\<exists>err. loop_n (Suc m) (\<lambda>s. andthen (lift_err g rd_key) (\<lambda>k. step k s)) s r = Inl err"
proof -
  have "rd_text r = Inr (x, adv (length (put_text x)) r)"
    by (rule readsD [OF textc.reads_put [OF assms(2)] assms(3,1)]) (use assms(4) in simp)
  then have key: "(\<exists>err. rd_key r = Inl err) \<or> (\<exists>r'. rd_key r = Inr (x, r'))"
    by (cases "check_key (r_pos r) (adv (length (put_text x)) r)") (auto simp: rd_key_def andthen_def ret_def)
  have step: "step x s r' \<noteq> Inr y" for r' y using assms(5) [of s r'] by auto
  show ?thesis
    using key step by (auto simp: andthen_def lift_err_def map_err_def split: sum.split)
qed

lemma rd_map_opened:
  assumes "length es < 2 ^ 64"
  shows "\<exists>r. rd_map g step s (reader_new (put_entries es)) = andthen (loop_n (length es) (\<lambda>s. andthen (lift_err g rd_key) (\<lambda>k. step k s)) s)
      (\<lambda>s'. andthen (lift_err g rd_map_end) (\<lambda>_. ret s')) r \<and> inb r \<and> rest r = put_pairs es \<and> r_maps r = [(None, word_of_nat (length es))]"
proof -
  let ?r0 = "reader_new (put_entries es)" let ?n = "word_of_nat (length es) :: u64"
  let ?r1 = "(adv (length (put_map (length es))) ?r0)\<lparr>r_maps := [(None, ?n)]\<rparr>"
  have n: "unat ?n = length es" using unat_word_of_nat64 [OF assms] by simp
  have rest0: "rest ?r0 = put_map (length es) @ put_pairs es" "inb ?r0"
    by (simp_all add: rest_def reader_new_def put_entries_def inb_def del: put_pairs_simps)
  have "rd_expect MAJOR_MAP ?r0 = Inr (?n, adv (length (put_map (length es))) ?r0)"
    using readsD [of 0 "rd_expect MAJOR_MAP" "put_map (length es)" ?n ?r0 "put_pairs es"] rest0 reads_expect
    by (simp add: put_map_def reader_new_def MAX_MAP_DEPTH_def)
  then have "rd_map_begin ?r0 = Inr (?n, ?r1)"
    by (simp add: rd_map_begin_def andthen_def push_frame_def ret_def reader_new_def adv_def MAX_MAP_DEPTH_def)
  then have "rd_map g step s ?r0 = andthen (loop_n (length es) (\<lambda>s. andthen (lift_err g rd_key) (\<lambda>k. step k s)) s)
      (\<lambda>s'. andthen (lift_err g rd_map_end) (\<lambda>_. ret s')) ?r1"
    by (simp add: rd_map_def andthen_def lift_err_def n)
  moreover have "inb ?r1" "rest ?r1 = put_pairs es"
    using rest_adv [of ?r0 "put_map (length es)" "put_pairs es"] inb_adv [of ?r0 "put_map (length es)" "put_pairs es"] rest0
    by (simp_all add: rest_def inb_def)
  ultimately show ?thesis by (intro exI [of _ ?r1]) simp
qed

lemma andthen_Inl: "p r = Inl err \<Longrightarrow> andthen p f r = Inl err"
  by (simp add: andthen_def)

lemma unknown_line: "CHR '' '' \<in> set x \<Longrightarrow> \<exists>err. install_step x s r = Inl err"
proof -
  assume sp: "CHR '' '' \<in> set x"
  have "x \<noteq> k" if "CHR '' '' \<notin> set k" for k using sp that by blast
  then have "x \<noteq> ''dir''" "x \<noteq> ''id''" "x \<noteq> ''lines''" "x \<noteq> ''manifest_hash''" "x \<noteq> ''seq''" "x \<noteq> ''version''" by simp_all
  then show ?thesis by (simp add: install_step_def fail_def)
qed

lemma install_long:
  assumes i: "install_strings i" and n: "256 < length (in_lines i)" and sp: "\<And>l. l \<in> set (in_lines i) \<Longrightarrow> CHR '' '' \<in> set l"
  shows "decode_install (encode_install i) = None"
proof -
  let ?ls = "in_lines i" let ?x = "?ls ! 256"
  have len: "length ?ls < 2 ^ 64" "\<forall>l \<in> set ?ls. rstr l" and x: "?x \<in> set ?ls" using i n by (simp_all add: install_strings_def)
  define es where "es = [(''id'', put_text (in_id i)), (''dir'', put_text (in_dir i)), (''seq'', put_u64 (in_seq i)),
     (''lines'', put_array (length ?ls) @ concat (map put_text (take 256 ?ls)))]"
  define t where "t = put_text ?x @ concat (map put_text (drop 257 ?ls)) @
     put_pairs [(''version'', put_text (in_version i)), (''manifest_hash'', put_bytes (in_hash i))]"
  let ?a = "\<lparr>ia_id = Some (in_id i), ia_version = None, ia_dir = Some (in_dir i), ia_hash = None,
     ia_seq = Some (in_seq i), ia_lines = Some (take 256 ?ls)\<rparr>"
  have st: "steps 0 install_step install_acc_new es ?a"
    unfolding es_def
    by (rule steps_eq, (rule stepsI install_steps reads_lines [OF len] | use i in \<open>simp add: install_strings_def install_acc_new_def\<close>)+)
  have "?ls = take 256 ?ls @ ?x # drop 257 ?ls" using id_take_nth_drop [OF n] by simp
  then have "concat (map put_text ?ls) = concat (map put_text (take 256 ?ls)) @ put_text ?x @ concat (map put_text (drop 257 ?ls))"
    by (metis concat.simps(2) concat_append list.simps(9) map_append)
  then have pairs: "put_pairs (install_entries i) = put_pairs es @ t"
    by (simp add: install_entries_def es_def t_def put_texts_def)
  obtain r where r: "rd_map id install_step install_acc_new (reader_new (put_entries (install_entries i))) =
      andthen (loop_n (length es + 2) (\<lambda>s. andthen (lift_err id rd_key) (\<lambda>k. install_step k s)) install_acc_new)
        (\<lambda>s'. andthen (lift_err id rd_map_end) (\<lambda>_. ret s')) r"
      "inb r" "rest r = put_pairs es @ t" "r_maps r = [(None, 6)]"
    using rd_map_opened [of "install_entries i" id install_step install_acc_new] pairs
    by (auto simp: install_entries_def es_def)
  have "sorted_wrt (<) (map (\<lambda>(k, v). put_text k) es)" "\<forall>(k, v) \<in> set es. rstr k"
    using install_canonical [of i] by (simp_all add: canonical_def install_entries_def es_def)
  from reads_prefix [OF st this r(2-4), of 2 id] obtain r' where
    r': "loop_n (length es + 2) (\<lambda>s. andthen (lift_err id rd_key) (\<lambda>k. install_step k s)) install_acc_new r =
       loop_n 2 (\<lambda>s. andthen (lift_err id rd_key) (\<lambda>k. install_step k s)) ?a r'" "inb r'" "rest r' = t" "length (r_maps r') = 1"
    by (auto simp: es_def MAX_MAP_DEPTH_def)
  have "\<exists>err. loop_n (Suc 1) (\<lambda>s. andthen (lift_err id rd_key) (\<lambda>k. install_step k s)) ?a r' = Inl err"
    by (rule stray_key [OF r'(3) [unfolded t_def] _ r'(2)]) (use len x sp r'(4) unknown_line in \<open>auto simp: MAX_MAP_DEPTH_def\<close>)
  then have "\<exists>err. loop_n 2 (\<lambda>s. andthen (lift_err id rd_key) (\<lambda>k. install_step k s)) ?a r' = Inl err" by (simp only: Suc_1)
  then have "\<exists>err. rd_map id install_step install_acc_new (reader_new (encode_install i)) = Inl err"
    unfolding encode_install_eq r(1) using andthen_Inl r'(1) by metis
  then show ?thesis by (auto simp: decode_install_def run_whole_def andthen_def)
qed

end
