(* ===== verification/Dispatch_Laws.thy ===== *)
theory Dispatch_Laws
  imports Install_Laws Link_Laws TaskStore_Inv
begin

text \<open>
  The invariant \<open>d_inv\<close> of the dispatch state and that every operation and a restart keep it: installed
  packages carry the lines of good requests, reviews hold manifests that load, a preview made under the
  current install lists lines of that install, and the files of the \<open>installs\<close> directory are the records.
\<close>

section \<open>What the dispatch state says\<close>

abbreviation dir_id :: "string \<Rightarrow> string option" where
  "dir_id dir \<equiv> Option.bind (parent_parts dir) (\<lambda>p. if p = [] \<or> last p = ''..'' then None else Some (last p))"

definition lines_good :: "(regex \<Rightarrow> bool) \<Rightarrow> string list \<Rightarrow> bool" where
  "lines_good rxok ls \<longleftrightarrow> length ls < 2 ^ 64 \<and> (\<exists>rs. ls = map requested_line rs \<and> (\<forall>r \<in> set rs. request_good rxok r \<and> rstr (requested_line r)))"

definition install_good :: "(regex \<Rightarrow> bool) \<Rightarrow> install \<Rightarrow> bool" where
  "install_good rxok i \<longleftrightarrow> id_ok (in_id i) \<and> id_ok (in_version i) \<and> dir_id (in_dir i) = Some (in_id i) \<and>
     length (in_hash i) = 32 \<and> rstr (in_dir i) \<and> lines_good rxok (in_lines i)"

definition review_good :: "(regex \<Rightarrow> bool) \<Rightarrow> review \<Rightarrow> bool" where
  "review_good rxok r \<longleftrightarrow> requests_good rxok (rv_manifest r) \<and> id_ok (mf_id (rv_manifest r)) \<and> id_ok (mf_version (rv_manifest r)) \<and>
     dir_id (rv_dir r) = Some (mf_id (rv_manifest r)) \<and> length (rv_hash r) = 32"

definition preview_good :: "dispatch \<Rightarrow> preview \<Rightarrow> bool" where
  "preview_good d p \<longleftrightarrow> id_ok (pw_package p) \<and> pw_deadline_ms p \<le> MAX_DEADLINE_MS \<and>
     (\<exists>i. installed d (pw_package p) = Some i \<and> pw_install_seq p \<le> in_seq i \<and>
       (pw_install_seq p = in_seq i \<longrightarrow> set (pw_lines p) \<subseteq> set (in_lines i)))"

definition files_good :: "(regex \<Rightarrow> bool) \<Rightarrow> dispatch \<Rightarrow> bool" where
  "files_good rxok d \<longleftrightarrow> distinct (map fst (dp_files d)) \<and>
     (\<forall>(n, b) \<in> set (dp_files d). \<exists>i. install_good rxok i \<and> n = in_id i @ ''.cbor'' \<and> b = encode_install i \<and>
        (length (in_lines i) \<le> 256 \<longrightarrow> installed d (in_id i) = Some i)) \<and>
     (\<forall>(k, i) \<in> set (dp_installs d). map_of (dp_files d) (k @ ''.cbor'') = Some (encode_install i))"

definition d_inv :: "(regex \<Rightarrow> bool) \<Rightarrow> dispatch \<Rightarrow> bool" where
  "d_inv rxok d \<longleftrightarrow> distinct (map fst (dp_installs d)) \<and>
     (\<forall>(k, i) \<in> set (dp_installs d). k = in_id i \<and> install_good rxok i) \<and>
     (\<forall>(k, r) \<in> set (dp_reviews d). review_good rxok r) \<and>
     (\<forall>(k, p) \<in> set (dp_previews d). preview_good d p) \<and> files_good rxok d"

lemma d_inv_installed: "d_inv rxok d \<Longrightarrow> installed d k = Some i \<Longrightarrow> in_id i = k \<and> install_good rxok i"
  unfolding d_inv_def installed_def by (auto dest!: map_of_SomeD)

lemma d_inv_preview: "d_inv rxok d \<Longrightarrow> map_of (dp_previews d) k = Some p \<Longrightarrow> preview_good d p"
  unfolding d_inv_def by (auto dest!: map_of_SomeD)

lemma d_inv_review: "d_inv rxok d \<Longrightarrow> map_of (dp_reviews d) k = Some r \<Longrightarrow> review_good rxok r"
  unfolding d_inv_def by (auto dest!: map_of_SomeD)

text \<open>Changes that keep it: fewer reviews and previews, or one more that is good.\<close>

lemma d_inv_same:
  assumes "d_inv rxok d" "dp_installs d' = dp_installs d" "dp_files d' = dp_files d"
    "\<forall>(k, r) \<in> set (dp_reviews d'). (k, r) \<in> set (dp_reviews d) \<or> review_good rxok r"
    "\<forall>(k, p) \<in> set (dp_previews d'). (k, p) \<in> set (dp_previews d) \<or> preview_good d p"
  shows "d_inv rxok d'"
proof -
  have "installed d' = installed d" using assms(2) by (simp add: installed_def fun_eq_iff)
  then have p: "preview_good d' = preview_good d" "files_good rxok d' = files_good rxok d"
    using assms(2,3) by (simp_all add: preview_good_def files_good_def fun_eq_iff)
  have "\<forall>(k, r) \<in> set (dp_reviews d'). review_good rxok r" "\<forall>(k, p) \<in> set (dp_previews d'). preview_good d p"
    using assms(1,4,5) unfolding d_inv_def by blast+
  then show ?thesis using assms(1,2) unfolding d_inv_def p by simp
qed

lemma set_update_AList: "(k, v) \<in> set (AList.update a b xs) \<Longrightarrow> (k, v) \<in> set xs \<or> v = b"
  by (induction xs) (auto split: if_splits)

lemma set_delete_AList: "(k, v) \<in> set (AList.delete a xs) \<Longrightarrow> (k, v) \<in> set xs"
  by (auto simp: AList.delete_eq)

section \<open>Installing\<close>

definition rust_strings :: "dispatch \<Rightarrow> bool" where
  "rust_strings d \<longleftrightarrow>
     (\<forall>(k, p) \<in> set (dp_previews d). rstr (join_lines (pw_lines p))) \<and>
     (\<forall>(k, r) \<in> set (dp_reviews d). rstr (rv_dir r) \<and> length (mf_capabilities (rv_manifest r)) < 2 ^ 64 \<and>
        (\<forall>c \<in> set (mf_capabilities (rv_manifest r)). rstr (requested_line c)))"

definition seq_room :: "dispatch \<Rightarrow> bool" where
  "seq_room d \<longleftrightarrow> (\<forall>(k, i) \<in> set (dp_installs d). in_seq i \<noteq> - 1)"

lemma load_dir:
  assumes "manifest_load rxok kp rd dir orig = Inr m"
  shows "dir_id dir = Some (mf_id m) \<and> file_name dir = Some (mf_version m)"
  using assms by (auto simp: manifest_load_def rbind_Inr_iff split: option.splits if_splits)

lemma install_begin_inv:
  assumes "install_begin e pe rd rd2 b d req path now = (d', out)" "d_inv (te_rxok e) d" "env_ok e"
  shows "d_inv (te_rxok e) d' \<and> dp_installs d' = dp_installs d \<and> dp_files d' = dp_files d"
proof -
  let ?d = "d\<lparr>dp_reviews := filter (\<lambda>(_, r). now < rv_expires_ms r) (dp_reviews d)\<rparr>"
  consider "d' = ?d" | dir orig m x where "manifest_load (te_rxok e) (pe_kp pe) rd dir orig = Inr m"
    "d' = snd (dispatch_id b ?d)\<lparr>dp_reviews := AList.update (fst (dispatch_id b ?d)) \<lparr>rv_req = req, rv_manifest = m, rv_dir = dir,
         rv_hash = te_b3 e (str_bytes x), rv_expires_ms = now + REVIEW_TTL_MS\<rparr> (dp_reviews ?d)\<rparr>"
    using assms(1) unfolding install_begin_def Let_def
    by (auto simp: dispatch_id_def split: option.splits sum.splits)
  then show ?thesis
  proof cases
    case 1
    then show ?thesis using d_inv_same [OF assms(2), of d'] by auto
  next
    case (2 dir orig m x)
    have "review_good (te_rxok e) \<lparr>rv_req = req, rv_manifest = m, rv_dir = dir, rv_hash = te_b3 e (str_bytes x), rv_expires_ms = now + REVIEW_TTL_MS\<rparr>"
      using load_good [OF 2(1)] load_dir [OF 2(1)] assms(3) by (simp add: review_good_def env_ok_def)
    then have "d_inv (te_rxok e) d'"
      using assms(2) unfolding 2(2) by (intro d_inv_same [OF assms(2)]) (auto simp: dispatch_id_def dest!: set_update_AList)
    then show ?thesis unfolding 2(2) by (simp add: dispatch_id_def)
  qed
qed

definition install_of :: "dispatch \<Rightarrow> review \<Rightarrow> install" where
  "install_of d r = \<lparr>in_id = mf_id (rv_manifest r), in_version = mf_version (rv_manifest r), in_dir = rv_dir r, in_hash = rv_hash r,
     in_lines = map requested_line (mf_capabilities (rv_manifest r)),
     in_seq = (case installed d (mf_id (rv_manifest r)) of None \<Rightarrow> 1 | Some i \<Rightarrow> in_seq i + 1)\<rparr>"

lemma install_answer_cases:
  assumes "install_answer e ck rd wr d s review approve now = (d', s', Inr out)"
  obtains (kept) "d' = d\<lparr>dp_reviews := AList.delete review (dp_reviews d)\<rparr>" "s' = s" "\<forall>q. (ToAsker, FDone q) \<notin> set out"
  | (new) r where "map_of (dp_reviews d) review = Some r" "approve" "now < rv_expires_ms r"
    "\<exists>x. rd (rv_dir r) = Some x \<and> te_b3 e (str_bytes x) = rv_hash r"
    "task_record e ck s (install_record (install_of d r)) = (s', Inr ())"
    "d' = d\<lparr>dp_reviews := AList.delete review (dp_reviews d), dp_files := write_install (dp_files d) (install_of d r),
       dp_installs := AList.update (in_id (install_of d r)) (install_of d r) (dp_installs d)\<rparr>"
    "out = [(ToAsker, FDone (rv_req r))]"
proof -
  let ?i = "install_of d"
  have l: "installed (d\<lparr>dp_reviews := x\<rparr>) = installed d" for x by (simp add: installed_def fun_eq_iff)
  show thesis
  proof (cases "map_of (dp_reviews d) review")
    case None
    then show thesis using assms kept by (auto simp: install_answer_def Let_def)
  next
    case (Some r)
    show thesis
    proof (cases "now < rv_expires_ms r \<and> approve \<and> (case rd (rv_dir r) of Some t \<Rightarrow> te_b3 e (str_bytes t) = rv_hash r | None \<Rightarrow> False)")
      case False
      then show thesis using assms kept Some by (auto simp: install_answer_def Let_def refused_def split: if_splits)
    next
      case True
      obtain s1 r1 where tr: "task_record e ck s (install_record (?i r)) = (s1, r1)" by fastforce
      have "(case task_record e ck s (install_record (?i r)) of
              (s, Inl err) \<Rightarrow> (d\<lparr>dp_reviews := AList.delete review (dp_reviews d)\<rparr>, s, Inl err)
            | (s, Inr _) \<Rightarrow> if \<not> wr then (d\<lparr>dp_reviews := AList.delete review (dp_reviews d)\<rparr>, s, Inl (TkStore StIo))
                else (d\<lparr>dp_reviews := AList.delete review (dp_reviews d), dp_files := write_install (dp_files d) (?i r),
                  dp_installs := AList.update (in_id (?i r)) (?i r) (dp_installs d)\<rparr>, s, Inr [(ToAsker, FDone (rv_req r))])) = (d', s', Inr out)"
        using assms Some True by (auto simp: install_answer_def Let_def l install_of_def split: sum.splits prod.splits)
      then show thesis using new [of r] Some True unfolding tr
        by (auto split: sum.splits if_splits option.splits)
    qed
  qed
qed

lemma id_ok_rstr: "id_ok s \<Longrightarrow> rstr s"
proof -
  assume i: "id_ok s"
  have "(of_char c :: nat) < 128" if "c \<in> set s" for c
    using i that by (auto simp: id_ok_def list_all_iff ascii_lowercase_def ascii_digit_def Let_def dest!: bspec [of _ _ c])
  then have "utf8 s" by (blast intro: utf8_ascii)
  then show ?thesis using i by (simp add: rstr_def id_ok_def)
qed

lemma install_good_strings: "install_good rxok i \<Longrightarrow> install_strings i"
  by (auto simp: install_good_def install_strings_def lines_good_def id_ok_rstr)

lemma install_of_good:
  assumes "review_good rxok r" "rstr (rv_dir r)" "length (mf_capabilities (rv_manifest r)) < 2 ^ 64"
    "\<forall>c \<in> set (mf_capabilities (rv_manifest r)). rstr (requested_line c)"
  shows "install_good rxok (install_of d r)"
  using assms by (auto simp: install_good_def install_of_def review_good_def lines_good_def requests_good_def)

lemma cbor_name_inject: "a @ ''.cbor'' = b @ ''.cbor'' \<longleftrightarrow> a = b"
  by simp

lemma installed_new: "installed (d\<lparr>dp_reviews := x, dp_files := y, dp_installs := AList.update k i (dp_installs d)\<rparr>) = (installed d)(k \<mapsto> i)"
  by (simp add: installed_def fun_eq_iff update_conv')

lemma install_new_files:
  assumes f: "files_good rxok d" and i: "install_good rxok i" and k: "\<forall>(k, i) \<in> set (dp_installs d). k = in_id i"
    and dist: "distinct (map fst (dp_installs d))"
  shows "files_good rxok (d\<lparr>dp_reviews := x, dp_files := write_install (dp_files d) i, dp_installs := AList.update (in_id i) i (dp_installs d)\<rparr>)"
    (is "files_good rxok ?d")
  unfolding files_good_def
proof (intro conjI ballI)
  show "distinct (map fst (dp_files ?d))" using f by (simp add: files_good_def write_install_def distinct_update)
next
  fix nb assume a: "nb \<in> set (dp_files ?d)"
  obtain n b where nb: "nb = (n, b)" "(n, b) \<in> set (dp_files ?d)" by (cases nb) (use a in blast)
  have d: "distinct (map fst (dp_files ?d))" using f by (simp add: files_good_def write_install_def distinct_update)
  have m: "map_of (dp_files ?d) n = Some b" using map_of_is_SomeI [OF d nb(2)] .
  show "case nb of (n, b) \<Rightarrow> \<exists>i. install_good rxok i \<and> n = in_id i @ ''.cbor'' \<and> b = encode_install i \<and>
      (length (in_lines i) \<le> 256 \<longrightarrow> installed ?d (in_id i) = Some i)"
  proof (cases "n = in_id i @ ''.cbor''")
    case True
    then have "b = encode_install i" using m by (simp add: write_install_def update_conv')
    then show ?thesis using True i nb(1) by (auto simp: installed_new)
  next
    case False
    then have "map_of (dp_files d) n = Some b" using m by (simp add: write_install_def update_conv')
    then have "(n, b) \<in> set (dp_files d)" by (rule map_of_SomeD)
    then obtain j where j: "install_good rxok j" "n = in_id j @ ''.cbor''" "b = encode_install j"
      "length (in_lines j) \<le> 256 \<longrightarrow> installed d (in_id j) = Some j" using f unfolding files_good_def by blast
    have "in_id j \<noteq> in_id i" using False j(2) by simp
    then show ?thesis using j nb(1) by (auto simp: installed_new)
  qed
next
  fix kj assume "kj \<in> set (dp_installs ?d)"
  then have a: "kj \<in> set (AList.update (in_id i) i (dp_installs d))" by simp
  obtain k' j where kj: "kj = (k', j)" "(k', j) \<in> set (AList.update (in_id i) i (dp_installs d))" by (cases kj) (use a in blast)
  have "distinct (map fst (AList.update (in_id i) i (dp_installs d)))" using dist by (rule distinct_update)
  from map_of_is_SomeI [OF this kj(2)] have m: "((map_of (dp_installs d))(in_id i \<mapsto> i)) k' = Some j" by (simp add: update_conv')
  show "case kj of (k, i') \<Rightarrow> map_of (dp_files ?d) (k @ ''.cbor'') = Some (encode_install i')"
  proof (cases "k' = in_id i")
    case True
    then show ?thesis using m kj(1) by (simp add: write_install_def update_conv')
  next
    case False
    then have "(k', j) \<in> set (dp_installs d)" using m by (auto dest: map_of_SomeD)
    then show ?thesis using f False kj(1) by (auto simp: files_good_def write_install_def update_conv')
  qed
qed


lemma word_inc_less: "(n :: u64) \<noteq> - 1 \<Longrightarrow> n < n + 1"
proof -
  assume "n \<noteq> - 1"
  then have "1 + n \<noteq> 0" by (metis add_eq_0_iff)
  then show ?thesis using unatSuc [of n] by (simp add: word_less_nat_alt add.commute)
qed

lemma install_answer_inv:
  assumes "install_answer e ck rd wr d s review approve now = (d', s', Inr out)" "d_inv (te_rxok e) d" "rust_strings d" "seq_room d"
  shows "d_inv (te_rxok e) d'"
proof -
  note rd = set_delete_AList
  have k: "\<forall>(k, i) \<in> set (dp_installs d). k = in_id i" "distinct (map fst (dp_installs d))" "files_good (te_rxok e) d"
    using assms(2) unfolding d_inv_def by auto
  from assms(1) show ?thesis
  proof (cases rule: install_answer_cases)
    case kept
    then show ?thesis by (intro d_inv_same [OF assms(2)]) (auto dest: rd)
  next
    case (new r)
    let ?i = "install_of d r"
    have r: "(review, r) \<in> set (dp_reviews d)" using new(1) by (rule map_of_SomeD)
    have i: "install_good (te_rxok e) ?i"
      using d_inv_review [OF assms(2) new(1)] r assms(3) by (intro install_of_good) (auto simp: rust_strings_def)
    have ins: "installed d' = (installed d)(in_id ?i \<mapsto> ?i)" unfolding new(6) by (rule installed_new)
    have "preview_good d' p" if p: "preview_good d p" for p
    proof (cases "pw_package p = in_id ?i")
      case False
      then show ?thesis using p by (simp add: preview_good_def ins)
    next
      case True
      from p obtain j where j: "installed d (in_id ?i) = Some j" "pw_install_seq p \<le> in_seq j"
        by (auto simp: preview_good_def True)
      from j(1) have "(in_id ?i, j) \<in> set (dp_installs d)" unfolding installed_def by (rule map_of_SomeD)
      then have "in_seq j \<noteq> - 1" using assms(4) by (auto simp: seq_room_def)
      then have "in_seq j < in_seq j + 1" by (rule word_inc_less)
      moreover have "in_seq ?i = in_seq j + 1" using j(1) by (simp add: install_of_def)
      ultimately have "pw_install_seq p < in_seq ?i" using j(2) by simp
      then show ?thesis using p by (auto simp: preview_good_def ins True)
    qed
    then have "\<forall>(k, p) \<in> set (dp_previews d'). preview_good d' p" using assms(2) unfolding new(6) d_inv_def by auto
    moreover have "files_good (te_rxok e) d'" unfolding new(6) by (rule install_new_files [OF k(3) i k(1,2)])
    moreover have "\<forall>(k, r) \<in> set (dp_reviews d'). review_good (te_rxok e) r"
      using assms(2) unfolding new(6) d_inv_def by (auto dest: rd)
    moreover have "distinct (map fst (dp_installs d'))" unfolding new(6) using k(2) by (simp add: distinct_update)
    moreover have "\<forall>(k, i) \<in> set (dp_installs d'). k = in_id i \<and> install_good (te_rxok e) i"
    proof
      fix kj assume "kj \<in> set (dp_installs d')"
      then have a: "kj \<in> set (AList.update (in_id ?i) ?i (dp_installs d))" unfolding new(6) by simp
      have "map_of (AList.update (in_id ?i) ?i (dp_installs d)) (fst kj) = Some (snd kj)"
        using a k(2) by (intro map_of_is_SomeI distinct_update) simp_all
      then show "case kj of (k, i) \<Rightarrow> k = in_id i \<and> install_good (te_rxok e) i"
        using i assms(2) by (auto simp: update_conv' d_inv_def split: if_splits dest!: map_of_SomeD)
    qed
    ultimately show ?thesis unfolding d_inv_def by blast
  qed
qed

section \<open>Previews\<close>

lemma narrow_loop_sub: "narrow_loop ins n out r = Inr (x, r') \<Longrightarrow> set out \<subseteq> set ins \<Longrightarrow> set x \<subseteq> set ins"
  by (induction ins n out arbitrary: r rule: narrow_loop.induct) (auto simp: andthen_Inr ret_Inr fail_Inr split: if_splits)

lemma narrow_sub: "narrow ins b = Some out \<Longrightarrow> set out \<subseteq> set ins"
  using narrow_loop_sub [of ins _ "[]"]
  by (auto simp: narrow_def run_whole_iff andthen_Inr fail_Inr split: if_splits sum.splits) blast

lemma preview_checks_Inr:
  assumes "preview_checks e pe rd rd2 d s package statement deadline_ms narrow_to continuation resumes account tv live = Inr (i, m, deadline, lns)"
  shows "installed d package = Some i \<and> set lns \<subseteq> set (in_lines i) \<and> deadline \<le> MAX_DEADLINE_MS \<and> tv \<noteq> 0 \<and> live \<and>
    current_manifest e pe rd rd2 d i = Inr m"
  using assms unfolding preview_checks_def Let_def
  by (auto simp: rbind_Inr_iff dest: narrow_sub split: if_splits option.splits)

lemma current_manifest_Inr:
  assumes "current_manifest e pe rd rd2 d i = Inr m"
  shows "dir_id (in_dir i) = Some (mf_id m) \<and> id_ok (mf_id m)"
proof -
  from assms obtain orig where "manifest_load (te_rxok e) (pe_kp pe) rd2 (in_dir i) orig = Inr m"
    by (auto simp: current_manifest_def rbind_Inr_iff split: if_splits)
  from load_dir [OF this] load_good [OF this] show ?thesis by blast
qed

lemma preview_inv:
  assumes "dispatch_preview e pe rd rd2 b d s req slot package statement deadline_ms narrow_to continuation resumes account tv live = (d', out)"
    "d_inv (te_rxok e) d"
  shows "d_inv (te_rxok e) d' \<and> dp_installs d' = dp_installs d \<and> dp_files d' = dp_files d"
proof (cases "preview_checks e pe rd rd2 d s package statement deadline_ms narrow_to continuation resumes account tv live")
  case (Inl why)
  then show ?thesis using assms by (simp add: dispatch_preview_def)
next
  case (Inr x)
  obtain i m deadline lns where x: "x = (i, m, deadline, lns)" by (cases x)
  from preview_checks_Inr [OF Inr [unfolded x]] have c: "installed d package = Some i" "set lns \<subseteq> set (in_lines i)"
    "deadline \<le> MAX_DEADLINE_MS" "current_manifest e pe rd rd2 d i = Inr m" by blast+
  have "mf_id m = package" "id_ok package"
    using current_manifest_Inr [OF c(4)] d_inv_installed [OF assms(2) c(1)] by (auto simp: install_good_def)
  then have g: "preview_good d \<lparr>pw_slot = slot, pw_package = mf_id m, pw_version = mf_version m, pw_statement = statement,
      pw_deadline_ms = deadline, pw_lines = lns, pw_continuation = continuation, pw_resumes = resumes, pw_account = account,
      pw_table_version = tv, pw_install_seq = in_seq i\<rparr>" (is "preview_good d ?p")
    using c by (simp add: preview_good_def)
  let ?ps = "filter (\<lambda>(_, p). pw_slot p \<noteq> slot) (if MAX_PREVIEWS \<le> length (dp_previews d) then [] else dp_previews d)"
  have d': "d' = snd (dispatch_id b d)\<lparr>dp_previews := AList.update (fst (dispatch_id b d)) ?p ?ps\<rparr>"
    using assms(1) unfolding dispatch_preview_def Inr x by (simp add: dispatch_id_def Let_def)
  have "\<forall>(k, p) \<in> set (dp_previews d'). (k, p) \<in> set (dp_previews d) \<or> preview_good d p"
    using g unfolding d' by (auto dest!: set_update_AList split: if_splits)
  then have "d_inv (te_rxok e) d'" by (intro d_inv_same [OF assms(2)]) (auto simp: d' dispatch_id_def)
  then show ?thesis by (simp add: d' dispatch_id_def)
qed


section \<open>Restarting\<close>

definition short :: "install \<Rightarrow> bool" where "short i \<longleftrightarrow> length (in_lines i) \<le> 256"

text \<open>A record of more than 256 lines does not come back.\<close>

lemma decode_good:
  assumes "install_good rxok i"
  shows "decode_install (encode_install i) = (if short i then Some i else None)"
proof (cases "short i")
  case True
  then show ?thesis using install_trip [OF install_good_strings [OF assms]] by (simp add: short_def)
next
  case False
  have "CHR '' '' \<in> set l" if l: "l \<in> set (in_lines i)" for l
  proof -
    from l assms obtain r where "l = requested_line r" "rq_scopes r \<noteq> []"
      unfolding install_good_def lines_good_def request_good_def by auto
    then show ?thesis by (cases "rq_scopes r") (simp_all add: requested_line_def)
  qed
  then show ?thesis using install_long [OF install_good_strings [OF assms]] False by (simp add: short_def)
qed

lemma cbor_file_name: "id_ok s \<Longrightarrow> cbor_file (s @ ''.cbor'')"
  by (simp add: cbor_file_def ends_with_def id_ok_def)

lemma load_installs_of:
  assumes "distinct (map fst fs)" "\<forall>(n, b) \<in> set fs. cbor_file n \<and> (\<forall>i. decode_install b = Some i \<longrightarrow> n = in_id i @ ''.cbor'')"
  shows "distinct (map fst is') \<Longrightarrow> distinct (map fst (load_installs fs is')) \<and>
    map_of (load_installs fs is') k = (case Option.bind (map_of fs (k @ ''.cbor'')) decode_install of Some i \<Rightarrow> Some i | None \<Rightarrow> map_of is' k)"
  using assms
proof (induction fs arbitrary: is')
  case Nil
  then show ?case by simp
next
  case (Cons nb fs)
  obtain n b where nb: "nb = (n, b)" by (cases nb)
  define js where "js = (case decode_install b of Some i \<Rightarrow> AList.update (in_id i) i is' | None \<Rightarrow> is')"
  have l: "load_installs (nb # fs) is' = load_installs fs js" using Cons.prems nb by (simp add: js_def)
  have d: "distinct (map fst js)" using Cons.prems(1) by (simp add: js_def distinct_update split: option.split)
  have fs: "distinct (map fst fs)" "\<forall>(n, b) \<in> set fs. cbor_file n \<and> (\<forall>i. decode_install b = Some i \<longrightarrow> n = in_id i @ ''.cbor'')"
    "n \<notin> fst ` set fs" using Cons.prems nb by auto
  note ih = Cons.IH [OF d fs(1,2)]
  show ?case
  proof (cases "n = k @ ''.cbor''")
    case False
    then have "map_of js k = map_of is' k" using Cons.prems nb by (auto simp: js_def update_conv' split: option.split)
    then show ?thesis using ih False unfolding l unfolding nb by (simp split: option.split)
  next
    case True
    then have "map_of fs (k @ ''.cbor'') = None" using fs(3) by (simp add: map_of_eq_None_iff)
    moreover have "map_of js k = (case decode_install b of Some i \<Rightarrow> Some i | None \<Rightarrow> map_of is' k)"
      using Cons.prems nb True by (auto simp: js_def update_conv' split: option.split)
    ultimately show ?thesis using ih True unfolding l unfolding nb by (simp split: option.split)
  qed
qed

lemma reopen_installs:
  assumes "d_inv rxok d"
  shows "distinct (map fst (dp_installs (dispatch_open (dp_files d) roots)))"
    "installed (dispatch_open (dp_files d) roots) k = Option.bind (installed d k) (\<lambda>i. if short i then Some i else None)"
proof -
  from assms have f: "files_good rxok d" by (simp add: d_inv_def)
  have g: "\<exists>i. install_good rxok i \<and> n = in_id i @ ''.cbor'' \<and> b = encode_install i \<and> (short i \<longrightarrow> installed d (in_id i) = Some i)"
    if "(n, b) \<in> set (dp_files d)" for n b using f that unfolding files_good_def short_def by blast
  have "\<forall>(n, b) \<in> set (dp_files d). cbor_file n \<and> (\<forall>i. decode_install b = Some i \<longrightarrow> n = in_id i @ ''.cbor'')"
    using g by (fastforce simp: decode_good install_good_def cbor_file_name split: if_splits)
  from load_installs_of [OF _ this, of "[]" k] f
  have l: "distinct (map fst (load_installs (dp_files d) []))"
    "map_of (load_installs (dp_files d) []) k = Option.bind (map_of (dp_files d) (k @ ''.cbor'')) decode_install"
    by (simp_all add: files_good_def split: option.splits)
  show "distinct (map fst (dp_installs (dispatch_open (dp_files d) roots)))" using l(1) by (simp add: dispatch_open_def)
  have "Option.bind (map_of (dp_files d) (k @ ''.cbor'')) decode_install = Option.bind (installed d k) (\<lambda>i. if short i then Some i else None)"
  proof (cases "installed d k")
    case (Some i)
    then have i: "in_id i = k" "install_good rxok i" using d_inv_installed [OF assms] by blast+
    have "(k, i) \<in> set (dp_installs d)" using Some unfolding installed_def by (rule map_of_SomeD)
    then have "map_of (dp_files d) (k @ ''.cbor'') = Some (encode_install i)" using f unfolding files_good_def by blast
    then show ?thesis using Some decode_good [OF i(2)] by simp
  next
    case None
    have "decode_install b = None" if b: "map_of (dp_files d) (k @ ''.cbor'') = Some b" for b
    proof -
      from g [OF map_of_SomeD [OF b]] obtain i where i: "install_good rxok i" "in_id i = k" "b = encode_install i"
        "short i \<longrightarrow> installed d (in_id i) = Some i" by auto
      then have "\<not> short i" using None by auto
      then show ?thesis using decode_good [OF i(1)] i(3) by simp
    qed
    then show ?thesis using None by (cases "map_of (dp_files d) (k @ ''.cbor'')") simp_all
  qed
  then show "installed (dispatch_open (dp_files d) roots) k = Option.bind (installed d k) (\<lambda>i. if short i then Some i else None)"
    using l(2) by (simp add: dispatch_open_def installed_def)
qed

lemma reopen_inv:
  assumes "d_inv rxok d"
  shows "d_inv rxok (dispatch_open (dp_files d) roots)"
proof -
  let ?d = "dispatch_open (dp_files d) roots"
  have f: "files_good rxok d" using assms by (simp add: d_inv_def)
  have ins: "k = in_id i \<and> install_good rxok i \<and> map_of (dp_files d) (k @ ''.cbor'') = Some (encode_install i)"
    if "(k, i) \<in> set (dp_installs ?d)" for k i
  proof -
    have "installed ?d k = Some i" using map_of_is_SomeI [OF reopen_installs(1) [OF assms] that] by (simp add: installed_def)
    then have i: "installed d k = Some i" using reopen_installs(2) [OF assms, of roots k] by (auto split: if_splits bind_splits)
    then have "(k, i) \<in> set (dp_installs d)" unfolding installed_def by (rule map_of_SomeD)
    then show ?thesis using f d_inv_installed [OF assms i] unfolding files_good_def by blast
  qed
  have files: "dp_files ?d = dp_files d" "dp_reviews ?d = []" "dp_previews ?d = []" by (simp_all add: dispatch_open_def)
  have "files_good rxok ?d"
    unfolding files_good_def files(1)
  proof (intro conjI ballI)
    fix nb assume a: "nb \<in> set (dp_files d)"
    obtain n b where nb: "nb = (n, b)" by (cases nb)
    with a f obtain i where i: "install_good rxok i" "n = in_id i @ ''.cbor''" "b = encode_install i"
      "length (in_lines i) \<le> 256 \<longrightarrow> installed d (in_id i) = Some i" unfolding files_good_def by blast
    then have "length (in_lines i) \<le> 256 \<longrightarrow> installed ?d (in_id i) = Some i"
      using reopen_installs(2) [OF assms, of roots "in_id i"] by (simp add: short_def)
    then show "case nb of (n, b) \<Rightarrow> \<exists>i. install_good rxok i \<and> n = in_id i @ ''.cbor'' \<and> b = encode_install i \<and>
        (length (in_lines i) \<le> 256 \<longrightarrow> installed ?d (in_id i) = Some i)" using i(1-3) nb by auto
  next
    fix ki assume a: "ki \<in> set (dp_installs ?d)"
    obtain k i where ki: "ki = (k, i)" by (cases ki)
    show "case ki of (k, i) \<Rightarrow> map_of (dp_files d) (k @ ''.cbor'') = Some (encode_install i)"
      unfolding ki prod.case using ins [of k i] a ki by blast
  qed (use f in \<open>simp add: files_good_def\<close>)
  then show ?thesis using ins reopen_installs(1) [OF assms] files unfolding d_inv_def by auto
qed

lemma d_inv_first: "d_inv rxok (dispatch_open [] roots)"
  by (simp add: d_inv_def files_good_def dispatch_open_def)

end
