(* ===== verification/Daemon.thy ===== *)
theory Daemon
  imports Dispatch
begin

text \<open>
  The main thread of \<open>policyd\<close> (\<open>ec-policyd/src/main.rs\<close>): one answer per packet, in the order the packets
  were queued, and who each answer is sent to. Threads, sockets and the policy watcher are not modelled: a
  packet arrives with its sender's role and what the thread reads of the clock, the table's version and the
  connections when it takes it.
\<close>

record facts =
  fa_now_ms :: u64
  fa_table_version :: u64
  fa_agentd_live :: bool

text \<open>What one answer takes from outside: clocks, two reads of the file system, whether a file can be
  written, and random bytes.\<close>

record draw =
  dr_clocks :: clocks
  dr_read1 :: reads
  dr_read2 :: reads
  dr_write :: bool
  dr_id :: u64
  dr_entropy :: "byte list"
  dr_create :: create_random

record daemon =
  dm_store :: task_store
  dm_dispatch :: dispatch

definition answer ::
  "env \<Rightarrow> pkg_env \<Rightarrow> draw \<Rightarrow> facts \<Rightarrow> dispatch \<Rightarrow> task_store \<Rightarrow> to_policyd \<Rightarrow> dispatch \<times> out_msgs ts_result" where
  "answer e pe dr at d s m =
    (let ck = dr_clocks dr; now = fa_now_ms at;
         cancel = (\<lambda>p. let task = map_option (\<lambda>t. ulid_to_text (t_id t)) (live_task s p) in
            (d, ts_bind (cancel_principal e ck s p) (\<lambda>s _. (s, Inr ((ToAsker, FRevoked p) #
              (case task of Some t \<Rightarrow> [(ToAgentd, FTaskState t ''closed'' ''cancelled'')] | None \<Rightarrow> [])))))) in
     case m of
       TRevoke p \<Rightarrow> cancel p
     | TTerminate p \<Rightarrow> cancel p
     | TAuditTail req p n \<Rightarrow> (d, s, Inr [(ToAsker, FAuditRecords req (task_tail s p (unat n)))])
     | TMint req p scope unattended \<Rightarrow>
         (d, case mint_from_prompt e ck (dr_entropy dr) s p scope unattended now of
               (s, Inr grant) \<Rightarrow> (s, Inr [(ToAsker, FMinted req grant)])
             | (s, Inl (TkStore err)) \<Rightarrow> (s, Inl (TkStore err))
             | (s, Inl _) \<Rightarrow> (s, Inr [(ToAsker, FMintRefused req)]))
     | TDefer req p _ _ \<Rightarrow> (d, s, Inr [(ToAsker, FDeferAnswer req (defer_check s p))])
     | TPreviewTask req slot package statement deadline narrow_to continuation resumes account \<Rightarrow>
         (let (d, out) = dispatch_preview e pe (dr_read1 dr) (dr_read2 dr) (dr_id dr) d s req slot package statement deadline
                narrow_to continuation resumes account (fa_table_version at) (fa_agentd_live at)
          in (d, s, Inr out))
     | TCreateTask req slot preview \<Rightarrow>
         dispatch_create e ck (dr_create dr) d s req slot preview (fa_table_version at) (fa_agentd_live at) now
     | TUnpauseTask req _ task \<Rightarrow> dispatch_unpause e ck d s req task
     | TInstallBegin req path \<Rightarrow>
         (let (d, out) = install_begin e pe (dr_read1 dr) (dr_read2 dr) (dr_id dr) d req path now in (d, s, Inr out))
     | TInstallAnswer review approve \<Rightarrow> install_answer e ck (dr_read1 dr) (dr_write dr) d s review approve now
     | TPauseTask req task \<Rightarrow> dispatch_pause e ck d s req task
     | TCancelTask req task mode \<Rightarrow> dispatch_cancel e ck d s req task mode
     | TExited req task reason \<Rightarrow> dispatch_exited e ck d s req task reason)"

text \<open>One queued packet, accepted from a peer (\<open>write\<close>): \<open>Inl\<close> ends the daemon.\<close>

definition daemon_step :: "env \<Rightarrow> pkg_env \<Rightarrow> draw \<Rightarrow> facts \<Rightarrow> daemon \<Rightarrow> accepted \<Rightarrow> daemon \<times> (task_error + out_msgs)" where
  "daemon_step e pe dr at dm p =
    (case p of
       AcEmission em \<Rightarrow> (case task_record e (dr_clocks dr) (dm_store dm) em of
           (s, r) \<Rightarrow> (dm\<lparr>dm_store := s\<rparr>, map_sum id (\<lambda>_. []) r))
     | AcMessage m \<Rightarrow> (case answer e pe dr at (dm_dispatch dm) (dm_store dm) m of
           (d, s, r) \<Rightarrow> (\<lparr>dm_store = s, dm_dispatch = d\<rparr>, r)))"

text \<open>\<open>route\<close>: the messages a connection of a role is sent, when it asked and when it did not.\<close>

definition routed :: "bool \<Rightarrow> role \<Rightarrow> out_msgs \<Rightarrow> from_policyd list" where
  "routed asked r out = map snd (filter (\<lambda>(to, _). case to of
     ToAsker \<Rightarrow> asked | ToAgentd \<Rightarrow> r = RoAgentd | ToAll \<Rightarrow> r \<noteq> RoBrokerd) out)"

end
