(* ===== verification/Skip_Depth.thy ===== *)
theory Skip_Depth
  imports Emission_Laws TaskStore_Codec
begin

text \<open>
  The nesting an accepted packet may have: a skipped item fits below the maps that are open when it is
  skipped, so the body of every emission that decodes is an item the audit store can frame (\<open>accepted_body\<close>).
\<close>

section \<open>A skipped item fits below the open maps\<close>

definition fits :: "nat \<Rightarrow> ('e, 'a) parser \<Rightarrow> byte list \<Rightarrow> bool" where
  "fits d p bs \<longleftrightarrow> (\<forall>r s x r'. inb r \<and> rest r = bs @ s \<and> length (r_maps r) \<le> MAX_MAP_DEPTH \<and> p r = Inr (x, r') \<longrightarrow>
     length (r_maps r) + d \<le> MAX_MAP_DEPTH)"

lemma fitsD:
  "fits d p bs \<Longrightarrow> inb r \<Longrightarrow> rest r = bs @ s \<Longrightarrow> length (r_maps r) \<le> MAX_MAP_DEPTH \<Longrightarrow> p r = Inr (x, r') \<Longrightarrow>
   length (r_maps r) + d \<le> MAX_MAP_DEPTH"
  unfolding fits_def by blast

lemma fitsI:
  "(\<And>r s x r'. inb r \<Longrightarrow> rest r = bs @ s \<Longrightarrow> length (r_maps r) \<le> MAX_MAP_DEPTH \<Longrightarrow> p r = Inr (x, r') \<Longrightarrow>
     length (r_maps r) + d \<le> MAX_MAP_DEPTH) \<Longrightarrow> fits d p bs"
  unfolding fits_def by blast

lemma fits_head:
  assumes "m < 8" "m = MAJOR_SIMPLE \<longrightarrow> n < 24" "fits d (skip_step rd_skip (m, n)) bs"
  shows "fits d rd_skip (put_head m n @ bs)"
proof (rule fitsI)
  fix r s x r' assume r: "inb r" "rest r = (put_head m n @ bs) @ s" "length (r_maps r) \<le> MAX_MAP_DEPTH" "rd_skip r = Inr (x, r')"
  let ?r = "adv (length (put_head m n)) r"
  have "rd_head r = Inr ((m, n), ?r)"
    by (rule readsD [OF reads_head [OF assms(1,2), of 0], of r "bs @ s"]) (use r in simp_all)
  then have "skip_step rd_skip (m, n) ?r = Inr (x, r')" using r(4) by (simp add: skip_unfold [THEN fun_cong] andthen_def)
  moreover have "inb ?r" "rest ?r = bs @ s" using r rest_adv [of r "put_head m n" "bs @ s"] inb_adv [of r "put_head m n" "bs @ s"] by simp_all
  ultimately show "length (r_maps r) + d \<le> MAX_MAP_DEPTH" using fitsD [OF assms(3), of ?r s] r(3) by simp
qed

lemma fits_0: "fits 0 p bs"
  by (rule fitsI) simp

text \<open>Items in a row, each read to its end.\<close>

lemma fits_loop:
  assumes "\<forall>v \<in> set vs. cval_ok v \<and> fits (cdepth v) rd_skip (put_val v)"
  shows "inb r \<Longrightarrow> rest r = concat (map put_val vs) @ s \<Longrightarrow> length (r_maps r) \<le> MAX_MAP_DEPTH \<Longrightarrow>
    loop_n (length vs) (\<lambda>_. rd_skip) () r = Inr (x, r') \<Longrightarrow> \<forall>v \<in> set vs. length (r_maps r) + cdepth v \<le> MAX_MAP_DEPTH"
  using assms
proof (induction vs arbitrary: r)
  case (Cons v vs)
  from Cons.prems(4) obtain r1 where r1: "rd_skip r = Inr ((), r1)" "loop_n (length vs) (\<lambda>_. rd_skip) () r1 = Inr (x, r')"
    by (auto simp: andthen_def split: sum.splits)
  have rst: "rest r = put_val v @ concat (map put_val vs) @ s" using Cons.prems(2) by simp
  have f: "fits (cdepth v) rd_skip (put_val v)" using Cons.prems(5) by simp
  have d: "length (r_maps r) + cdepth v \<le> MAX_MAP_DEPTH"
    by (rule fitsD [OF f Cons.prems(1) rst Cons.prems(3) r1(1)])
  have "rd_skip r = Inr ((), adv (length (put_val v)) r)"
    by (rule readsD [OF reads_skip [of v "cdepth v"] Cons.prems(1) rst]) (use Cons.prems(5) d in simp_all)
  then have "r1 = adv (length (put_val v)) r" using r1(1) by simp
  then have "\<forall>v \<in> set vs. length (r_maps r1) + cdepth v \<le> MAX_MAP_DEPTH"
    using Cons.IH [of r1] rest_adv [OF rst] inb_adv [OF Cons.prems(1) rst] Cons.prems(3,5) r1(2) by simp
  then show ?case using d \<open>r1 = _\<close> by simp
qed simp

lemma fits_pairs:
  assumes "\<forall>(k, v) \<in> set es. cval_ok v \<and> fits (cdepth v) rd_skip (put_val v)"
  shows "canonical (map (\<lambda>(k, v). (k, put_val v)) es) \<Longrightarrow> inb r \<Longrightarrow> rest r = put_pairs (map (\<lambda>(k, v). (k, put_val v)) es) @ s \<Longrightarrow>
    r_maps r = (prev, word_of_nat (length es)) # fs \<Longrightarrow> length (r_maps r) \<le> MAX_MAP_DEPTH \<Longrightarrow>
    \<forall>p. prev = Some p \<longrightarrow> (\<forall>(k, v) \<in> set es. p < put_text k) \<Longrightarrow>
    loop_n (length es) (\<lambda>_. andthen rd_key (\<lambda>_. rd_skip)) () r = Inr (x, r') \<Longrightarrow>
    \<forall>(k, v) \<in> set es. length (r_maps r) + cdepth v \<le> MAX_MAP_DEPTH"
  using assms
proof (induction es arbitrary: r prev)
  case (Cons e es)
  obtain k v where e: "e = (k, v)" by fastforce
  let ?ps = "put_pairs (map (\<lambda>(k, v). (k, put_val v)) es)"
  have can: "canonical (map (\<lambda>(k, v). (k, put_val v)) es)" "rstr k" "length (e # es) < 2 ^ 64"
    "\<forall>(k', v) \<in> set es. put_text k < put_text k'"
    using Cons.prems(1) by (auto simp: canonical_def e)
  from Cons.prems(7) obtain r1 r2 k' where r1: "rd_key r = Inr (k', r1)" "rd_skip r1 = Inr ((), r2)"
    "loop_n (length es) (\<lambda>_. andthen rd_key (\<lambda>_. rd_skip)) () r2 = Inr (x, r')"
    by (auto simp: andthen_def split: sum.splits)
  have rst: "rest r = put_text k @ put_val v @ ?ps @ s" using Cons.prems(3) by (simp add: e)
  have left: "(word_of_nat (length (e # es)) :: u64) \<noteq> 0" using unat_word_of_nat64 [OF can(3)] by (metis length_Cons nat.distinct(1) unat_0)
  have "rd_key r = Inr (k, (adv (length (put_text k)) r)\<lparr>r_maps := (Some (put_text k), word_of_nat (length (e # es)) - 1) # fs\<rparr>)"
    by (rule rd_key_reads [OF Cons.prems(2) rst can(2) Cons.prems(4) left Cons.prems(5)]) (use Cons.prems(6) in \<open>auto simp: e\<close>)
  then have r1': "r1 = (adv (length (put_text k)) r)\<lparr>r_maps := (Some (put_text k), word_of_nat (length es)) # fs\<rparr>" using r1(1) by simp
  have i1: "inb r1" "rest r1 = put_val v @ ?ps @ s"
    using rest_adv [OF rst] inb_adv [OF Cons.prems(2) rst] by (simp_all add: r1' inb_def rest_def)
  have l1: "length (r_maps r1) = length (r_maps r)" using Cons.prems(4) by (simp add: r1')
  have ok: "cval_ok v" "fits (cdepth v) rd_skip (put_val v)" using Cons.prems(8) by (simp_all add: e)
  have d: "length (r_maps r) + cdepth v \<le> MAX_MAP_DEPTH"
    using fitsD [OF ok(2) i1 _ r1(2)] Cons.prems(5) l1 by simp
  have "rd_skip r1 = Inr ((), adv (length (put_val v)) r1)"
    by (rule readsD [OF reads_skip [OF ok(1), of "cdepth v"] i1]) (use d l1 in simp_all)
  then have r2: "r2 = adv (length (put_val v)) r1" using r1(2) by simp
  have i2: "inb r2" "rest r2 = ?ps @ s" using rest_adv [OF i1(2)] inb_adv [OF i1] by (simp_all add: r2)
  have m2: "r_maps r2 = (Some (put_text k), word_of_nat (length es)) # fs" by (simp add: r2 r1')
  have "\<forall>(k, v) \<in> set es. length (r_maps r2) + cdepth v \<le> MAX_MAP_DEPTH"
    by (rule Cons.IH [OF can(1) i2 m2 _ _ r1(3)]) (use Cons.prems(5,8) l1 can(4) in \<open>auto simp: r2\<close>)
  then show ?case using d l1 by (simp add: e r2)
qed simp

lemma skip_fits: "cval_ok v \<Longrightarrow> fits (cdepth v) rd_skip (put_val v)"
proof (induction v)
  case (CArr vs)
  have el: "\<forall>v \<in> set vs. cval_ok v \<and> fits (cdepth v) rd_skip (put_val v)" using CArr by simp
  have "fits (cdepth (CArr vs)) (skip_step rd_skip (MAJOR_ARRAY, word_of_nat (length vs))) (concat (map put_val vs))"
  proof (rule fitsI)
    fix r s x r' assume r: "inb r" "rest r = concat (map put_val vs) @ s" "length (r_maps r) \<le> MAX_MAP_DEPTH"
      "skip_step rd_skip (MAJOR_ARRAY, word_of_nat (length vs)) r = Inr (x, r')"
    have "loop_n (length vs) (\<lambda>_. rd_skip) () r = Inr (x, r')"
      using r(4) CArr.prems by (simp add: skip_step_def major_defs unat_word_of_nat64)
    from fits_loop [OF el r(1-3) this] have "\<forall>d \<in> set (map cdepth vs). d \<le> MAX_MAP_DEPTH - length (r_maps r)" by auto
    then have "foldr max (map cdepth vs) 0 \<le> MAX_MAP_DEPTH - length (r_maps r)" by (rule foldr_max_le)
    then show "length (r_maps r) + cdepth (CArr vs) \<le> MAX_MAP_DEPTH" using r(3) by simp
  qed
  then show ?case by (simp add: put_array_def fits_head)
next
  case (CMap es)
  let ?es = "map (\<lambda>(k, v). (k, put_val v)) es"
  have el: "\<forall>(k, v) \<in> set es. cval_ok v \<and> fits (cdepth v) rd_skip (put_val v)"
    using CMap by (auto dest: bspec)
  have can: "canonical ?es" using CMap.prems by simp
  have len: "length es < 2 ^ 64" using can by (simp add: canonical_def)
  have "fits (cdepth (CMap es)) (skip_step rd_skip (MAJOR_MAP, word_of_nat (length es))) (put_pairs ?es)"
  proof (rule fitsI)
    fix r s x r' assume r: "inb r" "rest r = put_pairs ?es @ s" "length (r_maps r) \<le> MAX_MAP_DEPTH"
      "skip_step rd_skip (MAJOR_MAP, word_of_nat (length es)) r = Inr (x, r')"
    have b: "map_body id (\<lambda>_ _. rd_skip) (word_of_nat (length es)) () r = Inr (x, r')"
      using r(4) by (simp add: skip_step_def major_defs)
    let ?r = "r\<lparr>r_maps := (None, word_of_nat (length es)) # r_maps r\<rparr>"
    have deep: "\<not> MAX_MAP_DEPTH \<le> length (r_maps r)" using b by (auto simp: map_body_unit andthen_def push_frame_def)
    then obtain r1 where l: "loop_n (length es) (\<lambda>_. andthen rd_key (\<lambda>_. rd_skip)) () ?r = Inr ((), r1)"
      using b len by (auto simp: map_body_unit andthen_def push_frame_def unat_word_of_nat64 split: sum.splits)
    have "\<forall>(k, v) \<in> set es. length (r_maps ?r) + cdepth v \<le> MAX_MAP_DEPTH"
    proof (rule fits_pairs [OF el can _ _ _ _ _ l])
      show "\<forall>p. (None :: byte list option) = Some p \<longrightarrow> (\<forall>(k, v) \<in> set es. p < put_text k)" by simp
    qed (use r deep in \<open>simp_all add: inb_def rest_def\<close>)
    then have "\<forall>d \<in> set (map (\<lambda>(k, v). cdepth v) es). d \<le> MAX_MAP_DEPTH - Suc (length (r_maps r))" by auto
    then have "foldr max (map (\<lambda>(k, v). cdepth v) es) 0 \<le> MAX_MAP_DEPTH - Suc (length (r_maps r))" by (rule foldr_max_le)
    then show "length (r_maps r) + cdepth (CMap es) \<le> MAX_MAP_DEPTH" using deep by simp
  qed
  then show ?case unfolding put_val.simps put_entries_def put_map_def length_map by (intro fits_head) simp_all
qed (simp_all add: fits_0)

section \<open>Emissions from the socket\<close>

lemma two_left: "unat (n :: u64) = Suc (Suc k) \<Longrightarrow> n \<noteq> 0 \<and> n - 1 \<noteq> 0"
proof -
  assume n: "unat n = Suc (Suc k)"
  have "n \<noteq> 0" "n \<noteq> 1" using n by auto
  then show "n \<noteq> 0 \<and> n - 1 \<noteq> 0" by simp
qed

lemma loop_second:
  "loop_n (Suc (Suc n)) (\<lambda>s. andthen (lift_err g rd_key) (\<lambda>k. step k s)) s r1 = Inr y \<Longrightarrow> rd_key r1 = Inr (k1, r2) \<Longrightarrow>
   step k1 s r2 = Inr (s1, r3) \<Longrightarrow> rd_key r3 = Inr (k2, r4) \<Longrightarrow> \<exists>x. step k2 s1 r4 = Inr x"
  by (auto simp: andthen_def lift_err_def map_err_def split: sum.splits)

text \<open>A map decoder that succeeds has taken its second value with one map open.\<close>

lemma second_value:
  assumes can: "canonical ((k1, v1) # (k2, v2) # es)" and st: "reads 0 (step k1 s) v1 s1"
    and run: "run_whole g (rd_map g step s) (put_entries ((k1, v1) # (k2, v2) # es)) = Inr a"
  shows "\<exists>r x. inb r \<and> rest r = v2 @ put_pairs es \<and> length (r_maps r) = 1 \<and> step k2 s1 r = Inr x"
proof -
  let ?es = "(k1, v1) # (k2, v2) # es" let ?r0 = "reader_new (put_entries ?es)" let ?n = "word_of_nat (length ?es) :: u64"
  let ?r1 = "(adv (length (put_map (length ?es))) ?r0)\<lparr>r_maps := [(None, ?n)]\<rparr>"
  have len: "length ?es < 2 ^ 64" and k: "rstr k1" "rstr k2" "put_text k1 < put_text k2" using can by (simp_all add: canonical_def)
  have n: "unat ?n = Suc (Suc (length es))" using unat_word_of_nat64 [OF len] by simp
  then have n0: "?n \<noteq> 0" "?n - 1 \<noteq> 0" using two_left by blast+
  have rest0: "rest ?r0 = put_map (length ?es) @ put_pairs ?es" "inb ?r0"
    by (simp_all add: rest_def reader_new_def put_entries_def inb_def del: put_pairs_simps)
  have "rd_expect MAJOR_MAP ?r0 = Inr (?n, adv (length (put_map (length ?es))) ?r0)"
    using readsD [of 0 "rd_expect MAJOR_MAP" "put_map (length ?es)" ?n ?r0 "put_pairs ?es"] rest0 reads_expect
    by (simp add: put_map_def reader_new_def MAX_MAP_DEPTH_def)
  then have "rd_map_begin ?r0 = Inr (?n, ?r1)"
    by (simp add: rd_map_begin_def andthen_def push_frame_def ret_def reader_new_def adv_def MAX_MAP_DEPTH_def)
  then obtain y where loop: "loop_n (Suc (Suc (length es))) (\<lambda>s. andthen (lift_err g rd_key) (\<lambda>k. step k s)) s ?r1 = Inr y"
    using run n by (auto simp: run_whole_def rd_map_def andthen_def lift_err_def map_err_def map_sum_Inr simp del: loop_n.simps split: sum.splits)
  have r1: "inb ?r1" "rest ?r1 = put_text k1 @ v1 @ put_text k2 @ v2 @ put_pairs es"
    using rest_adv [of ?r0 "put_map (length ?es)" "put_pairs ?es"] inb_adv [of ?r0 "put_map (length ?es)" "put_pairs ?es"] rest0
    by (simp_all add: rest_def inb_def)
  let ?r2 = "(adv (length (put_text k1)) ?r1)\<lparr>r_maps := [(Some (put_text k1), ?n - 1)]\<rparr>"
  have key1: "rd_key ?r1 = Inr (k1, ?r2)"
    using rd_key_reads [OF r1 k(1), of None ?n "[]"] n0 by (simp add: MAX_MAP_DEPTH_def)
  have r2: "inb ?r2" "rest ?r2 = v1 @ put_text k2 @ v2 @ put_pairs es"
    using rest_adv [OF r1(2)] inb_adv [OF r1] by (simp_all add: rest_def inb_def)
  have step1: "step k1 s ?r2 = Inr (s1, adv (length v1) ?r2)"
    by (rule readsD [OF st r2]) (simp add: MAX_MAP_DEPTH_def)
  let ?r3 = "adv (length v1) ?r2"
  have r3: "inb ?r3" "rest ?r3 = put_text k2 @ v2 @ put_pairs es" using rest_adv [OF r2(2)] inb_adv [OF r2] by simp_all
  let ?r4 = "(adv (length (put_text k2)) ?r3)\<lparr>r_maps := [(Some (put_text k2), ?n - 1 - 1)]\<rparr>"
  have key2: "rd_key ?r3 = Inr (k2, ?r4)"
    using rd_key_reads [OF r3 k(2), of "Some (put_text k1)" "?n - 1" "[]"] n0 k(3) by (simp add: MAX_MAP_DEPTH_def)
  have r4: "inb ?r4" "rest ?r4 = v2 @ put_pairs es" using rest_adv [OF r3(2)] inb_adv [OF r3] by (simp_all add: rest_def inb_def)
  have "\<exists>x. step k2 s1 ?r4 = Inr x"
    by (rule loop_second [OF loop key1 step1 key2])
  then show ?thesis using r4 by (intro exI [of _ ?r4]) simp
qed

lemma accepted_body:
  assumes "emission_decode b = Inr em"
  shows "emission_ok em \<and> item 7 (e_body em)"
proof -
  have em: "emission_encode em = b" "emission_ok em" using emission_decode_exact [OF assms] by simp_all
  then obtain v where v: "cval_ok v" "e_body em = put_val v" by (auto simp: emission_ok_def)
  let ?es = "emission_acc_entries (acc_of_emission em)"
  have can: "canonical ?es" by (rule emission_entries_canonical)
  obtain es where es: "emission_encode em = mb_finish (mb_of es)" "mset es = mset ?es" using emission_encode_entries [of em] by blast
  have "mb_finish (mb_of es) = put_entries ?es" using es(2) can by (intro mb_finish_eq) (simp_all add: canonical_def)
  then have b: "b = put_entries ?es" using em(1) es(1) by simp
  obtain tl where tl: "?es = (''v'', put_u64 EMISSION_VERSION) # (''body'', put_val v) # tl"
    by (simp add: emission_acc_entries_def acc_of_emission_def v(2))
  obtain a where run: "run_whole EmCbor (rd_map EmCbor emission_step emission_acc_new) (put_entries ?es) = Inr a"
    using assms by (auto simp: emission_decode_def rbind_Inr_iff b)
  have st: "reads 0 (emission_step ''v'' emission_acc_new) (put_u64 EMISSION_VERSION) (emission_acc_new\<lparr>ea_v := Some EMISSION_VERSION\<rparr>)"
    by (simp add: emission_step_def) (rule reads_andthen1 reads_lift reads_u64 reads_retI | simp)+
  from second_value [OF can [unfolded tl] st run [unfolded tl]] obtain r x where
    r: "inb r" "rest r = put_val v @ put_pairs tl" "length (r_maps r) = 1"
      "emission_step ''body'' (emission_acc_new\<lparr>ea_v := Some EMISSION_VERSION\<rparr>) r = Inr x" by blast
  obtain y where "rd_skip r = Inr y"
    using r(4) by (auto simp: emission_step_def rd_raw_item_def andthen_def lift_err_def map_err_def split: sum.splits)
  then have "length (r_maps r) + cdepth v \<le> MAX_MAP_DEPTH"
    using fitsD [OF skip_fits [OF v(1)] r(1,2)] r(3) by (cases y) (simp add: MAX_MAP_DEPTH_def)
  then show ?thesis using em(2) v r(3) by (auto simp: item_def MAX_MAP_DEPTH_def)
qed

end
