(* ===== verification/Daemon_Steps.thy ===== *)
theory Daemon_Steps
  imports Dispatch_Laws Daemon Skip_Depth TaskStore_Laws
begin

text \<open>
  The daemon as a state machine: one packet at a time, or a restart. Every step is a run of the task
  store's own steps and keeps the invariant of the dispatch state.
\<close>

section \<open>Packets\<close>

lemma received_message:
  assumes "receive r b = Some (AcMessage m)"
  shows "may_send r m \<and> (\<exists>w. to_ok w \<and> m = to_clamp w)"
  using assms by (auto simp: receive_def accept_def split: if_splits sum.splits dest: to_encode_decode)

lemma received_emission:
  assumes "receive r b = Some (AcEmission em)"
  shows "may_emit r (e_kind em) \<and> emission_ok em \<and> item 7 (e_body em)"
  using assms by (auto simp: receive_def accept_def split: if_splits sum.splits dest: accepted_body)

lemma may_emit_kinds: "may_emit r k \<Longrightarrow> k \<notin> {KTask, KGrant, KRevoke}"
  by (cases r; cases k) auto

lemma received_mint: "receive r b = Some (AcMessage (TMint req p scope u)) \<Longrightarrow> rstr scope"
proof -
  assume "receive r b = Some (AcMessage (TMint req p scope u))"
  then obtain w where "to_ok w" "TMint req p scope u = to_clamp w" using received_message by blast
  then show ?thesis by (cases w) simp_all
qed

section \<open>Steps of the daemon\<close>

text \<open>What a run may count on: random identifiers are new ones, the clock and the name of the next segment
  are in order.\<close>

definition draw_ok :: "env \<Rightarrow> task_store \<Rightarrow> facts \<Rightarrow> draw \<Rightarrow> bool" where
  "draw_ok e s at dr \<longleftrightarrow> orderly 4 e (dr_clocks dr) (ts_audit s) \<and> fresh_grant s (fa_now_ms at) (dr_entropy dr) \<and>
     fresh_task s (fa_now_ms at) (cr_task (dr_create dr)) \<and> fresh_grant s (fa_now_ms at) (cr_grant (dr_create dr)) \<and>
     length (cr_suffix (dr_create dr)) = 3"

inductive dm_step :: "env \<Rightarrow> pkg_env \<Rightarrow> daemon \<Rightarrow> daemon \<Rightarrow> bool" for e pe where
  dm_packet: "receive r b = Some p \<Longrightarrow> daemon_step e pe dr at dm p = (dm', Inr out) \<Longrightarrow> draw_ok e (dm_store dm) at dr \<Longrightarrow>
    rust_strings (dm_dispatch dm) \<Longrightarrow> seq_room (dm_dispatch dm) \<Longrightarrow> dm_step e pe dm dm'"
| dm_restart: "task_open e now (st_disk (ts_audit (dm_store dm))) = (d, Inr s) \<Longrightarrow>
    dm_step e pe dm \<lparr>dm_store = s, dm_dispatch = dispatch_open (dp_files (dm_dispatch dm)) roots\<rparr>"

inductive dm_reachable :: "env \<Rightarrow> pkg_env \<Rightarrow> daemon \<Rightarrow> bool" for e pe where
  dm_boot: "env_ok e \<Longrightarrow> task_open e now [] = (d, Inr s) \<Longrightarrow>
    dm_reachable e pe \<lparr>dm_store = s, dm_dispatch = dispatch_open [] roots\<rparr>"
| dm_next: "dm_reachable e pe dm \<Longrightarrow> dm_step e pe dm dm' \<Longrightarrow> dm_reachable e pe dm'"

section \<open>The task store underneath\<close>

lemma orderly_4: "orderly 4 e ck a \<Longrightarrow> n \<le> 4 \<Longrightarrow> orderly n e ck a"
  by (rule orderly_mono)

lemma transition_step:
  assumes "dispatch_transition e ck s i p ev why = (s', Inr out)" "orderly 2 e ck (ts_audit s)" "ts_reachable e s"
  shows "ts_reachable e s'"
proof -
  obtain s1 r where ap: "task_apply e ck s i ev = (s1, r)" by fastforce
  then have "s1 = s'" "answered r"
    using assms(1) by (auto simp: dispatch_transition_def answered_def Let_def split: sum.splits task_error.splits task_state.splits)
  then show ?thesis using ap assms(2,3) reach_step step_apply by metis
qed

lemma transition_orderly:
  assumes "dispatch_transition e ck s i p ev why = (s', Inr out)" "orderly 4 e ck (ts_audit s)" "ts_reachable e s"
  shows "orderly 2 e ck (ts_audit s')"
proof -
  obtain s1 r where ap: "task_apply e ck s i ev = (s1, r)" by fastforce
  then have s1: "s1 = s'" "answered r"
    using assms(1) by (auto simp: dispatch_transition_def answered_def Let_def split: sum.splits task_error.splits task_state.splits)
  show ?thesis
  proof (cases r)
    case (Inl err)
    then have "s' = s" using ap s1 apply_Inl unfolding answered_def by blast
    then show ?thesis using orderly_4 [OF assms(2), of 2] by simp
  next
    case (Inr nxt)
    have "orderly (Suc (Suc 2)) e ck (ts_audit s)" using assms(2) by (simp add: eval_nat_numeral)
    from apply_inv [OF ts_reachable_inv [OF assms(3)] this ap [unfolded Inr]] s1(1) show ?thesis by simp
  qed
qed

lemma cancel_answer:
  assumes "ts_bind (cancel_principal e ck s p) (\<lambda>s _. (s, Inr (f s))) = (s', Inr out)" "orderly 2 e ck (ts_audit s)" "ts_reachable e s"
  shows "ts_reachable e s'"
proof -
  obtain s1 r where c: "cancel_principal e ck s p = (s1, r)" by fastforce
  then have "s1 = s'" "answered r" using assms(1) by (auto simp: ts_bind_def answered_def split: sum.splits)
  then show ?thesis using c assms(2,3) reach_step step_cancel by metis
qed

lemma mint_answer:
  assumes "(case mint_from_prompt e ck ent s p scope u now of
      (s, Inr grant) \<Rightarrow> (s, Inr (f grant)) | (s, Inl (TkStore err)) \<Rightarrow> (s, Inl (TkStore err)) | (s, Inl _) \<Rightarrow> (s, Inr g)) = (s', Inr out)"
    "orderly 1 e ck (ts_audit s)" "ts_reachable e s" "rstr scope" "fresh_grant s now ent"
  shows "ts_reachable e s'"
proof -
  obtain s1 r where c: "mint_from_prompt e ck ent s p scope u now = (s1, r)" by fastforce
  then have "s1 = s'" "answered r" using assms(1) by (auto simp: answered_def split: sum.splits task_error.splits)
  then show ?thesis using c assms(2-5) reach_step step_mint by metis
qed

declare dec_digits.simps [simp del]

lemma dec_digits_ascii: "\<forall>c \<in> set (dec_digits n). (of_char c :: nat) < 128"
proof (induction n rule: dec_digits.induct)
  case (1 n)
  have "(of_char (char_of (48 + d) :: char) :: nat) < 128" if "d < 10" for d :: nat using that by (simp add: of_char_of)
  then show ?case using 1 by (subst dec_digits.simps) auto
qed

lemma length_dec_digits: "n < 10 ^ Suc k \<Longrightarrow> length (dec_digits n) \<le> Suc k"
proof (induction k arbitrary: n)
  case 0
  then show ?case by (subst dec_digits.simps) simp
next
  case (Suc k)
  have "n div 10 < 10 ^ Suc k" using Suc.prems by (simp add: div_less_iff_less_mult)
  then have "length (dec_digits (n div 10)) \<le> Suc k" by (rule Suc.IH)
  then show ?case by (subst dec_digits.simps) simp
qed

lemma slot_rstr: "rstr (''slot:'' @ dec_digits (unat (slot :: u64)))"
proof -
  have "unat slot < 2 ^ 64" using unsigned_less [where w = slot and 'a = nat] by simp
  then have "unat slot < 10 ^ Suc 19" by (rule order_less_le_trans) simp
  then have "length (dec_digits (unat slot)) \<le> 20" using length_dec_digits by fastforce
  moreover have "utf8 (''slot:'' @ dec_digits (unat slot))" by (rule utf8_ascii) (use dec_digits_ascii in auto)
  ultimately show ?thesis by (simp add: rstr_def)
qed

lemma hex_ascii: "\<forall>c \<in> set (hex_byte b). (of_char c :: nat) < 128"
proof -
  have "(of_char (hex_digit n) :: nat) < 128" if "n < 16" for n using that by (auto simp: hex_digit_def of_char_of)
  moreover have "unat b div 16 < 16" using unsigned_less [of b] by (simp add: div_less_iff_less_mult)
  ultimately show ?thesis by (simp add: hex_byte_def)
qed

lemma principal_rstr:
  assumes "id_ok p" "length rnd = 3"
  shows "rstr (task_principal p rnd)"
proof -
  have "length (concat (map hex_byte rnd)) = 2 * length rnd" by (induction rnd) (simp_all add: hex_byte_def)
  moreover have "utf8 (task_principal p rnd)"
  proof (rule utf8_ascii)
    have "(of_char c :: nat) < 128" if "c \<in> set p" for c
      using assms(1) that by (auto simp: id_ok_def list_all_iff ascii_lowercase_def ascii_digit_def Let_def dest!: bspec [of _ _ c])
    moreover have "(of_char c :: nat) < 128" if "c \<in> set (concat (map hex_byte rnd))" for c using that hex_ascii by auto
    ultimately show "\<forall>c \<in> set (task_principal p rnd). (of_char c :: nat) < 128" by (auto simp: task_principal_def)
  qed
  ultimately show ?thesis using assms by (simp add: task_principal_def rstr_def id_ok_def)
qed


definition opened :: "dispatch \<Rightarrow> task_store \<Rightarrow> preview \<Rightarrow> ulid option \<Rightarrow> bool" where
  "opened d s p res \<longleftrightarrow> (if pw_resumes p = [] then res = None
     else \<exists>t. task_named s (pw_resumes p) = Some t \<and> \<not> is_live (t_state t) \<and> res = Some (t_id t))"

text \<open>\<open>create\<close> in a run that goes on: the preview is gone; either nothing else happened, or the task was
  opened from exactly what the preview holds, and the reply says so.\<close>

lemma create_cases:
  assumes "dispatch_create e ck cr d s req slot pv tv live now = (d', s', Inr out)"
  obtains (refused) why where "d' = d\<lparr>dp_previews := AList.delete pv (dp_previews d)\<rparr>" "s' = s" "out = refused req why"
  | (opened) p res r where "d' = d\<lparr>dp_previews := AList.delete pv (dp_previews d)\<rparr>" "map_of (dp_previews d) pv = Some p" "pw_slot p = slot"
    "pw_table_version p = tv" "map_option in_seq (installed d (pw_package p)) = Some (pw_install_seq p)" "live" "opened d s p res"
    "open_for_human e ck (cr_task cr) (cr_grant cr) s (task_principal (pw_package p) (cr_suffix cr)) (pw_statement p)
       (now + pw_deadline_ms p) (join_lines (pw_lines p)) (''slot:'' @ dec_digits (unat slot)) res now = (s', r)" "answered r"
    "out = (case r of Inl err \<Rightarrow> refused req (''refused:'' @ task_error_short err)
       | Inr (i, cose) \<Rightarrow> [(ToAsker, FTaskCreated req (ulid_to_text i)),
           (ToAgentd, FProvision (ulid_to_text i) (task_principal (pw_package p) (cr_suffix cr)) (pw_package p) (pw_version p)
              (pw_statement p) (now + pw_deadline_ms p) cose (pw_continuation p) (pw_resumes p) (pw_account p))])"
proof -
  let ?d = "d\<lparr>dp_previews := AList.delete pv (dp_previews d)\<rparr>"
  have l: "installed ?d = installed d" by (simp add: installed_def fun_eq_iff)
  note run = assms [unfolded dispatch_create_def Let_def l]
  show thesis
  proof (cases "map_of (dp_previews d) pv")
    case None
    then show thesis using run refused [of "''preview_stale''"] by auto
  next
    case (Some p)
    show thesis
    proof (cases "pw_slot p \<noteq> slot \<or> pw_table_version p \<noteq> tv \<or> map_option in_seq (installed d (pw_package p)) \<noteq> Some (pw_install_seq p) \<or> \<not> live")
      case True
      then show thesis using run Some refused by (auto split: if_splits)
    next
      case False
      let ?open = "\<lambda>res. open_for_human e ck (cr_task cr) (cr_grant cr) s (task_principal (pw_package p) (cr_suffix cr)) (pw_statement p)
           (now + pw_deadline_ms p) (join_lines (pw_lines p)) (''slot:'' @ dec_digits (unat slot)) res now"
      from False have ok: "pw_slot p = slot" "pw_table_version p = tv" "map_option in_seq (installed d (pw_package p)) = Some (pw_install_seq p)" "live"
        by blast+
      show thesis
      proof (cases "pw_resumes p \<noteq> [] \<and> (\<forall>t. task_named s (pw_resumes p) = Some t \<longrightarrow> is_live (t_state t))")
        case True
        then have "(?d, s, Inr (refused req ''preview_stale'')) = (d', s', Inr out)"
          using run Some ok by (cases "task_named s (pw_resumes p)") simp_all
        then show thesis using refused [of "''preview_stale''"] by simp
      next
        case False
        define res where "res = (if pw_resumes p = [] then None else map_option t_id (task_named s (pw_resumes p)))"
        have op: "opened d s p res" using False by (auto simp: opened_def res_def)
        obtain s1 r where o: "?open res = (s1, r)" by fastforce
        have "(case (s1, r) of (s, Inl (TkStore err)) \<Rightarrow> (?d, s, Inl (TkStore err))
            | (s, Inl err) \<Rightarrow> (?d, s, Inr (refused req (''refused:'' @ task_error_short err)))
            | (s, Inr (i, cose)) \<Rightarrow> (?d, s, Inr [(ToAsker, FTaskCreated req (ulid_to_text i)),
                (ToAgentd, FProvision (ulid_to_text i) (task_principal (pw_package p) (cr_suffix cr)) (pw_package p) (pw_version p)
                   (pw_statement p) (now + pw_deadline_ms p) cose (pw_continuation p) (pw_resumes p) (pw_account p))])) = (d', s', Inr out)"
        proof (cases "pw_resumes p = []")
          case True
          then show ?thesis using run Some ok o by (simp add: res_def)
        next
          case nonempty: False
          with False obtain t where "task_named s (pw_resumes p) = Some t" "\<not> is_live (t_state t)" by blast
          then show ?thesis using run Some ok o nonempty by (simp add: res_def)
        qed
        then have "s1 = s'" "d' = ?d" "answered r"
          "out = (case r of Inl err \<Rightarrow> refused req (''refused:'' @ task_error_short err)
             | Inr (i, cose) \<Rightarrow> [(ToAsker, FTaskCreated req (ulid_to_text i)),
                 (ToAgentd, FProvision (ulid_to_text i) (task_principal (pw_package p) (cr_suffix cr)) (pw_package p) (pw_version p)
                    (pw_statement p) (now + pw_deadline_ms p) cose (pw_continuation p) (pw_resumes p) (pw_account p))])"
          by (auto simp: answered_def split: sum.splits task_error.splits)
        then show thesis using Some ok o op by (intro opened [of p res r]) simp_all
      qed
    qed
  qed
qed


section \<open>Every answer\<close>

lemma same_installs_inv: "d_inv rxok d \<Longrightarrow> d_inv rxok (d\<lparr>dp_paused := x\<rparr>)"
  by (rule d_inv_same) auto

definition install_body :: "install \<Rightarrow> entries" where
  "install_body i = [(''op'', put_text ''install''), (''lines'', put_u64 (of_nat (length (in_lines i)))), (''package'', put_text (in_id i)),
     (''version'', put_text (in_version i)), (''manifest_hash'', put_bytes (in_hash i))]"

lemma install_body_keys: "keys_ok [''op'', ''lines'', ''package'', ''version'', ''manifest_hash'']" by code_simp

lemma install_body_eq: "e_body (install_record i) = put_entries (install_body i)"
  unfolding install_record_def Let_def emission.select_convs mb_insert_Nil mb_of_simps install_body_def
  by (rule keys_ok_finish) (simp_all add: install_body_keys add_mset_commute)

lemma install_record_ok:
  assumes "install_strings i"
  shows "emission_ok (install_record i) \<and> item 7 (e_body (install_record i)) \<and> e_kind (install_record i) \<notin> {KTask, KGrant, KRevoke}"
proof -
  have c: "canonical (install_body i)" by (rule keys_ok_canonical) (simp_all add: install_body_def install_body_keys)
  have "item (Suc 6) (put_entries (install_body i))"
  proof (rule item_entries [OF c])
    show "\<forall>(k, v) \<in> set (install_body i). item 6 v"
      using assms by (auto simp: install_body_def install_strings_def item_u64 rstr_def utf8_ascii intro!: item_text item_bytes)
  qed
  then have "item 7 (e_body (install_record i))" by (simp add: install_body_eq)
  then have "item 7 (e_body (install_record i))" "\<exists>v. cval_ok v \<and> e_body (install_record i) = put_val v" by (auto simp: item_def)
  then show ?thesis by (simp_all add: emission_ok_def) (simp add: install_record_def principal_ok_def rstr_def utf8_ascii)
qed

lemma create_step:
  assumes "dispatch_create e ck cr d s req slot pv tv live now = (d', s', Inr out)" "orderly 4 e ck (ts_audit s)" "ts_reachable e s"
    "d_inv (te_rxok e) d" "rust_strings d" "fresh_task s now (cr_task cr)" "fresh_grant s now (cr_grant cr)" "length (cr_suffix cr) = 3"
  shows "ts_reachable e s' \<and> d_inv (te_rxok e) d'"
proof -
  have d: "d_inv (te_rxok e) (d\<lparr>dp_previews := AList.delete pv (dp_previews d)\<rparr>)"
    by (rule d_inv_same [OF assms(4)]) (auto dest: set_delete_AList)
  from assms(1) show ?thesis
  proof (cases rule: create_cases)
    case refused
    then show ?thesis using d assms(3) by simp
  next
    case (opened p res r)
    have "(pv, p) \<in> set (dp_previews d)" using opened(2) by (rule map_of_SomeD)
    then have scope: "rstr (join_lines (pw_lines p))" using assms(5) unfolding rust_strings_def by blast
    have "id_ok (pw_package p)" using d_inv_preview [OF assms(4) opened(2)] by (simp add: preview_good_def)
    then have "ts_step e s s'"
      by (intro step_human [OF opened(8,9)] orderly_4 [OF assms(2)] principal_rstr slot_rstr scope assms(6-8)) simp
    then show ?thesis using d opened(1) assms(3) reach_step by simp
  qed
qed

lemma install_answer_step:
  assumes "install_answer e ck rd wr d s review approve now = (d', s', Inr out)" "orderly 4 e ck (ts_audit s)" "ts_reachable e s"
    "d_inv (te_rxok e) d" "rust_strings d"
  shows "ts_reachable e s'"
  using assms(1)
proof (cases rule: install_answer_cases)
  case kept
  then show ?thesis using assms(3) by simp
next
  case (new r)
  let ?i = "install_of d r"
  have r: "(review, r) \<in> set (dp_reviews d)" using new(1) by (rule map_of_SomeD)
  have i: "install_good (te_rxok e) ?i"
    using d_inv_review [OF assms(4) new(1)] r assms(5) by (intro install_of_good) (auto simp: rust_strings_def)
  have "ts_step e s s'"
    by (rule step_record [OF new(5)]) (use install_record_ok [OF install_good_strings [OF i]] orderly_4 [OF assms(2), of 1] in \<open>simp_all add: answered_def\<close>)
  then show ?thesis using assms(3) reach_step by simp
qed


text \<open>The operations on a named task run at most one transition, \<open>exited\<close> at most two.\<close>

definition moved :: "env \<Rightarrow> clocks \<Rightarrow> task_store \<Rightarrow> task_store \<Rightarrow> bool" where
  "moved e ck s s' \<longleftrightarrow> (\<exists>i p ev why out. dispatch_transition e ck s i p ev why = (s', Inr out))"

lemma movedI: "dispatch_transition e ck s i p ev why = (s', Inr out) \<Longrightarrow> moved e ck s s'"
  unfolding moved_def by blast

lemma paused_self: "d = d\<lparr>dp_paused := dp_paused d\<rparr>"
  by simp

lemma pause_moves:
  "dispatch_pause e ck d s req txt = (d', s', Inr out) \<Longrightarrow> (s' = s \<or> moved e ck s s') \<and> (\<exists>x. d' = d\<lparr>dp_paused := x\<rparr>)"
  by (auto simp: dispatch_pause_def moved_def split: option.splits if_splits prod.splits sum.splits intro: paused_self)

lemma unpause_moves:
  "dispatch_unpause e ck d s req txt = (d', s', Inr out) \<Longrightarrow> (s' = s \<or> moved e ck s s') \<and> (\<exists>x. d' = d\<lparr>dp_paused := x\<rparr>)"
  by (auto simp: dispatch_unpause_def moved_def split: option.splits if_splits prod.splits sum.splits intro: paused_self)

lemma cancel_moves:
  "dispatch_cancel e ck d s req txt mode = (d', s', Inr out) \<Longrightarrow> (s' = s \<or> moved e ck s s') \<and> (\<exists>x. d' = d\<lparr>dp_paused := x\<rparr>)"
  by (auto simp: dispatch_cancel_def moved_def Let_def split: option.splits if_splits prod.splits sum.splits intro: paused_self)

lemma exited_moves:
  assumes "dispatch_exited e ck d s req txt how = (d', s', Inr out)"
  shows "(s' = s \<or> moved e ck s s' \<or> (\<exists>s1. moved e ck s s1 \<and> moved e ck s1 s')) \<and> (\<exists>x. d' = d\<lparr>dp_paused := x\<rparr>)"
proof (cases "task_named s txt")
  case None
  then show ?thesis using assms by (auto simp: dispatch_exited_def intro: paused_self)
next
  case (Some t)
  let ?run = "\<lambda>s ev. dispatch_transition e ck s (t_id t) (t_principal t) ev ''exited''"
  show ?thesis
  proof (cases "\<not> is_live (t_state t) \<or> how \<noteq> ''completed''")
    case True
    then show ?thesis using assms Some
      by (auto simp: dispatch_exited_def moved_def Let_def split: if_splits prod.splits sum.splits intro: paused_self)
  next
    case False
    obtain s1 r1 where one: "(if t_state t \<noteq> Draining then ?run s Drain else (s, Inr [])) = (s1, r1)" by fastforce
    obtain out1 where r1: "r1 = Inr out1" using assms Some False one
      by (cases r1) (auto simp: dispatch_exited_def Let_def ts_bind_def)
    obtain s2 r2 where two: "?run s1 Drained = (s2, r2)" by fastforce
    obtain out2 where r2: "r2 = Inr out2" using assms Some False one two r1
      by (cases r2) (auto simp: dispatch_exited_def Let_def ts_bind_def)
    have "s' = s2" "\<exists>x. d' = d\<lparr>dp_paused := x\<rparr>" using assms Some False one two r1 r2
      by (auto simp: dispatch_exited_def Let_def ts_bind_def)
    moreover have "moved e ck s1 s2" using two unfolding r2 by (rule movedI)
    moreover have "s1 = s \<or> moved e ck s s1" using one r1 by (auto split: if_splits intro: movedI)
    ultimately show ?thesis by blast
  qed
qed

lemma moved_step: "moved e ck s s' \<Longrightarrow> orderly 2 e ck (ts_audit s) \<Longrightarrow> ts_reachable e s \<Longrightarrow> ts_reachable e s'"
  unfolding moved_def by (blast intro: transition_step)

lemma moved_orderly: "moved e ck s s' \<Longrightarrow> orderly 4 e ck (ts_audit s) \<Longrightarrow> ts_reachable e s \<Longrightarrow> orderly 2 e ck (ts_audit s')"
  unfolding moved_def by (blast intro: transition_orderly)

lemma answer_step:
  assumes "answer e pe dr at d s m = (d', s', Inr out)" "draw_ok e s at dr" "ts_reachable e s" "d_inv (te_rxok e) d" "rust_strings d" "seq_room d"
    and m: "\<And>req p scope u. m = TMint req p scope u \<Longrightarrow> rstr scope"
  shows "ts_reachable e s' \<and> d_inv (te_rxok e) d'"
proof -
  have o4: "orderly 4 e (dr_clocks dr) (ts_audit s)" using assms(2) unfolding draw_ok_def by blast
  have o2: "orderly 2 e (dr_clocks dr) (ts_audit s)" by (rule orderly_4 [OF o4]) simp
  have o1: "orderly 1 e (dr_clocks dr) (ts_audit s)" by (rule orderly_4 [OF o4]) simp
  note ord = o4 o2 o1
  have env: "env_ok e" using ts_reachable_inv [OF assms(3)] by (auto simp: ts_inv_def replays_def holds_def)
  note run = assms(1) [unfolded answer_def Let_def]
  have moves: ?thesis if "(s' = s \<or> moved e (dr_clocks dr) s s') \<and> (\<exists>x. d' = d\<lparr>dp_paused := x\<rparr>)"
    using that moved_step [OF _ ord(2) assms(3)] assms(3) same_installs_inv [OF assms(4)] by auto
  have cancel: ?thesis if c: "d' = d" "ts_bind (cancel_principal e (dr_clocks dr) s p) (\<lambda>s _. (s, Inr (f s))) = (s', Inr out)" for p f
    using cancel_answer [OF c(2) ord(2) assms(3)] assms(4) c(1) by blast
  show ?thesis
  proof (cases m)
    case (TRevoke p)
    then show ?thesis using run by (intro cancel [of p]) auto
  next
    case (TTerminate p)
    then show ?thesis using run by (intro cancel [of p]) auto
  next
    case (TMint req p scope u)
    then have "d' = d" "ts_reachable e s'"
      using run mint_answer [OF _ ord(3) assms(3) m [OF TMint]] assms(2) by (auto simp: draw_ok_def)
    then show ?thesis using assms(4) by blast
  next
    case (TPreviewTask req slot package statement deadline narrow_to continuation resumes account)
    then show ?thesis using run preview_inv [OF _ assms(4)] assms(3) by (auto split: prod.splits)
  next
    case (TCreateTask req slot pv)
    then show ?thesis using run create_step [OF _ ord(1) assms(3-5)] assms(2) by (auto simp: draw_ok_def)
  next
    case (TUnpauseTask req slot task)
    then show ?thesis using run unpause_moves by (intro moves) auto
  next
    case (TInstallBegin req path)
    then show ?thesis using run install_begin_inv [OF _ assms(4) env] assms(3) by (auto split: prod.splits)
  next
    case (TInstallAnswer review approve)
    then show ?thesis using run install_answer_step [OF _ ord(1) assms(3-5)] install_answer_inv [OF _ assms(4-6)] by auto
  next
    case (TPauseTask req task)
    then show ?thesis using run pause_moves by (intro moves) auto
  next
    case (TCancelTask req task mode)
    then show ?thesis using run cancel_moves by (intro moves) auto
  next
    case (TExited req task reason)
    then have x: "(s' = s \<or> moved e (dr_clocks dr) s s' \<or> (\<exists>s1. moved e (dr_clocks dr) s s1 \<and> moved e (dr_clocks dr) s1 s')) \<and>
        (\<exists>x. d' = d\<lparr>dp_paused := x\<rparr>)" using run by (intro exited_moves) auto
    have "ts_reachable e s'"
      using x moved_step [OF _ ord(2) assms(3)] moved_step moved_orderly [OF _ ord(1) assms(3)] assms(3) by blast
    then show ?thesis using x same_installs_inv [OF assms(4)] by auto
  qed (use run assms(3,4) in auto)
qed

lemma daemon_step_inv:
  assumes "receive r b = Some p" "daemon_step e pe dr at dm p = (dm', Inr out)" "draw_ok e (dm_store dm) at dr"
    "rust_strings (dm_dispatch dm)" "seq_room (dm_dispatch dm)" "ts_reachable e (dm_store dm)" "d_inv (te_rxok e) (dm_dispatch dm)"
  shows "ts_reachable e (dm_store dm') \<and> d_inv (te_rxok e) (dm_dispatch dm')"
proof (cases p)
  case (AcMessage m)
  obtain d s o' where a: "answer e pe dr at (dm_dispatch dm) (dm_store dm) m = (d, s, o')" by (cases "answer e pe dr at (dm_dispatch dm) (dm_store dm) m") auto
  then have "dm' = \<lparr>dm_store = s, dm_dispatch = d\<rparr>" "o' = Inr out" using assms(2) AcMessage by (simp_all add: daemon_step_def)
  moreover have "rstr scope" if "m = TMint req p scope u" for req p scope u
    using received_mint assms(1) AcMessage that by simp
  ultimately show ?thesis using answer_step [OF a [unfolded \<open>o' = Inr out\<close>] assms(3,6,7,4,5)] by simp
next
  case (AcEmission em)
  obtain s1 r1 where t: "task_record e (dr_clocks dr) (dm_store dm) em = (s1, r1)" by fastforce
  then have dm': "dm' = dm\<lparr>dm_store := s1\<rparr>" "r1 = Inr ()" using assms(2) AcEmission by (cases r1; simp add: daemon_step_def)+
  have em: "may_emit r (e_kind em)" "emission_ok em" "item 7 (e_body em)" using received_emission assms(1) AcEmission by blast+
  have "orderly 4 e (dr_clocks dr) (ts_audit (dm_store dm))" using assms(3) unfolding draw_ok_def by blast
  then have "orderly 1 e (dr_clocks dr) (ts_audit (dm_store dm))" by (rule orderly_4) (rule one_le_numeral)
  then have "ts_step e (dm_store dm) s1"
    by (intro step_record [OF t _ _ em(2,3) may_emit_kinds [OF em(1)]]) (simp_all add: answered_def dm'(2))
  then show ?thesis using assms(6,7) dm' reach_step by auto
qed

lemma dm_step_inv:
  assumes "dm_step e pe dm dm'" "ts_reachable e (dm_store dm)" "d_inv (te_rxok e) (dm_dispatch dm)"
  shows "ts_reachable e (dm_store dm') \<and> d_inv (te_rxok e) (dm_dispatch dm')"
  using assms(1)
proof cases
  case (dm_packet r b p dr at out)
  then show ?thesis using daemon_step_inv assms(2,3) by blast
next
  case (dm_restart now d s roots)
  then show ?thesis using reach_step [OF assms(2) step_restart] reopen_inv [OF assms(3)] by auto
qed

lemma dm_reachable_inv: "dm_reachable e pe dm \<Longrightarrow> ts_reachable e (dm_store dm) \<and> d_inv (te_rxok e) (dm_dispatch dm)"
proof (induction rule: dm_reachable.induct)
  case (dm_boot now d s roots)
  then show ?case using reach_boot d_inv_first by auto
next
  case (dm_next dm dm')
  then show ?case using dm_step_inv by blast
qed

end
