(* ===== verification/Daemon_Samples.thy ===== *)
theory Daemon_Samples
  imports Daemon_Steps TaskStore_Samples
begin

text \<open>
  A sample run of the daemon: a package with one request is installed, previewed and started.
\<close>

section \<open>A sample run\<close>

definition sample_node :: "string \<Rightarrow> string list \<Rightarrow> kdl_node list option \<Rightarrow> kdl_node" where
  "sample_node n vs cs = KdNode n (map (\<lambda>v. (None, KdStr v)) vs) cs"

definition sample_doc :: "kdl_node list" where
  "sample_doc = [sample_node ''agent'' [] (Some [sample_node ''id'' [''pkg''] None, sample_node ''name'' [''Reader''] None,
     sample_node ''version'' [''1''] None, sample_node ''publisher'' [''local''] None, sample_node ''entrypoint'' [''run''] None,
     sample_node ''capabilities'' [] (Some [sample_node ''scene.list'' [''scope''] (Some [sample_node ''class'' [''private''] None]),
       sample_node ''because'' [''read''] None])])]"

definition sample_pkgs :: pkg_env where
  "sample_pkgs = \<lparr>pe_kp = (\<lambda>_. Some sample_doc), pe_canon = Some\<rparr>"

definition sample_read :: reads where "sample_read d = Some ''x''"

definition sample_dir :: string where "sample_dir = ''/a/pkg/1''"

definition sample_request :: requested where
  "sample_request = \<lparr>rq_name = ''scene.list'', rq_scopes = [''class:private''], rq_because = ''read''\<rparr>"

definition sample_manifest :: manifest where
  "sample_manifest = \<lparr>mf_id = ''pkg'', mf_name = ''Reader'', mf_version = ''1'', mf_publisher = ''local'', mf_entrypoint = [''run''],
     mf_deadline_ms = 7200000, mf_max_depth = 0, mf_capabilities = [sample_request],
     mf_resumable = None, mf_sandbox = [], mf_inference = None\<rparr>"

lemma sample_load: "manifest_load (te_rxok sample_env) (pe_kp sample_pkgs) sample_read sample_dir PkOwner = Inr sample_manifest"
proof -
  have "manifest_load (\<lambda>_. True) (\<lambda>_. Some sample_doc) sample_read sample_dir PkOwner = Inr sample_manifest" by code_simp
  then show ?thesis by (simp add: sample_env_def sample_pkgs_def)
qed

lemma sample_origin: "origin_of (pe_canon sample_pkgs) sample_dir [(''/a'', PkOwner)] = Some PkOwner"
proof -
  have "origin_of Some sample_dir [(''/a'', PkOwner)] = Some PkOwner" by code_simp
  then show ?thesis by (simp add: sample_pkgs_def)
qed

lemma sample_line: "requested_line sample_request = sample_scope"
  by (simp add: requested_line_def sample_request_def sample_scope_def)

definition sample_draw :: draw where
  "sample_draw = \<lparr>dr_clocks = sample_clocks, dr_read1 = sample_read, dr_read2 = sample_read, dr_write = True, dr_id = 0,
     dr_entropy = sample_entropy, dr_create = \<lparr>cr_suffix = [7, 7, 7], cr_task = sample_entropy, cr_grant = sample_entropy\<rparr>\<rparr>"

definition sample_facts :: facts where
  "sample_facts = \<lparr>fa_now_ms = 5, fa_table_version = 7, fa_agentd_live = True\<rparr>"

definition sample_review :: review where
  "sample_review = \<lparr>rv_req = 1, rv_manifest = sample_manifest, rv_dir = sample_dir, rv_hash = replicate 32 1, rv_expires_ms = 300005\<rparr>"

definition sample_install :: install where
  "sample_install = \<lparr>in_id = ''pkg'', in_version = ''1'', in_dir = sample_dir, in_hash = replicate 32 1, in_lines = [sample_scope], in_seq = 1\<rparr>"

definition sample_preview :: preview where
  "sample_preview = \<lparr>pw_slot = 4, pw_package = ''pkg'', pw_version = ''1'', pw_statement = ''read the page'', pw_deadline_ms = 7200000,
     pw_lines = [sample_scope], pw_continuation = [], pw_resumes = [], pw_account = [], pw_table_version = 7, pw_install_seq = 1\<rparr>"

definition sample_dispatch :: "nat \<Rightarrow> dispatch" where
  "sample_dispatch n = \<lparr>dp_files = (if n < 2 then [] else [(''pkg.cbor'', encode_install sample_install)]), dp_roots = [(''/a'', PkOwner)],
     dp_installs = (if n < 2 then [] else [(''pkg'', sample_install)]), dp_reviews = (if n = 1 then [(2, sample_review)] else []),
     dp_previews = (if n = 3 then [(3, sample_preview)] else []), dp_paused = [], dp_next = (if n = 0 then 1 else if n < 3 then 2 else 3)\<rparr>"

lemma sample_begin: "\<exists>out. install_begin sample_env sample_pkgs sample_read sample_read 0 (sample_dispatch 0) 1 sample_dir 5 = (sample_dispatch 1, out)"
proof -
  have t: "(5::u64) + REVIEW_TTL_MS = 300005" by (simp add: REVIEW_TTL_MS_def)
  have "pe_canon sample_pkgs sample_dir = Some sample_dir" by (simp add: sample_pkgs_def)
  then show ?thesis
    by (simp add: install_begin_def sample_dispatch_def sample_origin sample_load Let_def sample_read_def dispatch_id_def sample_review_def t)
      (simp add: sample_env_def sample_hash_def)
qed

lemma sample_install_of: "install_of (sample_dispatch 1) sample_review = sample_install"
  by (simp add: install_of_def sample_install_def sample_review_def sample_manifest_def installed_def sample_dispatch_def sample_line)

lemma sample_narrow: "narrow [sample_scope] [] = Some [sample_scope]"
  by (simp add: narrow_def)

lemma sample_previewed: "\<exists>out. dispatch_preview sample_env sample_pkgs sample_read sample_read 0 (sample_dispatch 2) s 1 4 ''pkg'' ''read the page'' 0 [] [] [] [] 7 True
   = (sample_dispatch 3, out)"
proof -
  have c: "char_count ''read the page'' = 13" by (simp add: char_count_def)
  have i: "installed (sample_dispatch 2) ''pkg'' = Some sample_install" by (simp add: installed_def sample_dispatch_def)
  have h: "te_b3 sample_env (str_bytes ''x'') = in_hash sample_install" by (simp add: sample_env_def sample_hash_def sample_install_def)
  have m: "current_manifest sample_env sample_pkgs sample_read sample_read (sample_dispatch 2) sample_install = Inr sample_manifest"
    using h sample_origin sample_load by (simp add: current_manifest_def sample_read_def sample_install_def sample_dispatch_def)
  have "preview_checks sample_env sample_pkgs sample_read sample_read (sample_dispatch 2) s ''pkg'' ''read the page'' 0 [] [] [] [] 7 True =
      Inr (sample_install, sample_manifest, 7200000, [sample_scope])"
    by (simp add: preview_checks_def account_ok_def c i m MAX_STATEMENT_def MAX_DEADLINE_MS_def Let_def)
      (simp add: sample_manifest_def sample_install_def sample_narrow)
  then show ?thesis
    by (simp add: dispatch_preview_def Let_def MAX_PREVIEWS_def dispatch_id_def sample_dispatch_def sample_preview_def)
      (simp add: sample_manifest_def sample_install_def)
qed


lemma message_received:
  assumes "to_ok m" "to_clamp m = m" "may_send r m" "length (to_encode m) \<le> MAX_EMISSION"
  shows "receive r (to_encode m) = Some (AcMessage m)"
proof -
  have "f_m (to_fields m) \<noteq> None" by (cases m) (simp_all add: tagged_def)
  then have "is_message (to_encode m)" by (simp add: to_encode_fields is_message_fields)
  moreover have "to_encode m \<noteq> []" by (simp add: to_encode_fields put_entries_def put_map_def put_head_def Let_def)
  ultimately show ?thesis using to_decode_encode [OF assms(1)] assms(2-4) by (simp add: receive_def accept_def)
qed

lemma compositor_packet:
  assumes "to_ok m" "to_clamp m = m" "\<not> agentd_message m" "length (to_encode m) \<le> MAX_EMISSION"
    and "answer e pe dr at d s m = (d', s', Inr out)" "draw_ok e s at dr" "rust_strings d" "seq_room d"
    and "dm_reachable e pe \<lparr>dm_store = s, dm_dispatch = d\<rparr>"
  shows "dm_reachable e pe \<lparr>dm_store = s', dm_dispatch = d'\<rparr>"
proof (rule dm_next [OF assms(9)])
  have "receive RoCompositor (to_encode m) = Some (AcMessage m)" by (rule message_received) (use assms in simp_all)
  then show "dm_step e pe \<lparr>dm_store = s, dm_dispatch = d\<rparr> \<lparr>dm_store = s', dm_dispatch = d'\<rparr>"
    by (rule dm_packet [where dr = dr and at = at and out = out]) (use assms(5-8) in \<open>simp_all add: daemon_step_def\<close>)
qed

lemma sample_strings: "rust_strings (sample_dispatch n)" "seq_room (sample_dispatch n)"
proof -
  have "rstr sample_dir" by (simp add: sample_dir_def rstr_def utf8_ascii)
  then show "rust_strings (sample_dispatch n)" using rstr_samples(3)
    by (simp add: rust_strings_def sample_dispatch_def sample_review_def sample_preview_def sample_manifest_def sample_line)
  show "seq_room (sample_dispatch n)" by (simp add: seq_room_def sample_dispatch_def sample_install_def)
qed

lemma sample_draw_ok:
  assumes "orderly n sample_env sample_clocks (ts_audit s)" "4 \<le> n" "ts_tasks s = []" "ts_grants s = []"
  shows "draw_ok sample_env s at sample_draw"
  using orderly_mono [OF assms(2,1)] assms(3,4) rstr_samples(4)
  by (simp only: draw_ok_def fresh_task_def fresh_grant_def sample_draw_def draw.select_convs create_random.select_convs) simp

lemma packet_length:
  "entries_size (fields_entries (to_fields m)) \<le> 60000 \<Longrightarrow> length (to_encode m) \<le> MAX_EMISSION"
  unfolding to_encode_fields by (rule order_trans [OF length_put_entries]) (simp add: MAX_EMISSION_def)

lemmas sample_sizes = length_puts(1) [of 0] length_puts(1) [of 1] length_puts(1) [of 2] length_puts(1) [of 3] length_puts(1) [of 4]
  length_puts(1) [of 9] length_puts(1) [of MESSAGE_VERSION] length_puts(2) [of "[]"] length_puts(3) [of "[]"] length_puts(3) [of "''pkg''"]
  length_puts(3) [of "''read the page''"] length_puts(3) [of sample_dir] length_puts(3) [of "''preview_task''"] length_puts(3) [of "''create_task''"]
  length_puts(3) [of "''install_begin''"] length_puts(3) [of "''install_answer''"] length_bool [of True]

lemma sample_packets:
  "length (to_encode (TInstallBegin 1 sample_dir)) \<le> MAX_EMISSION" "length (to_encode (TInstallAnswer 2 True)) \<le> MAX_EMISSION"
  "length (to_encode (TCreateTask 9 4 3)) \<le> MAX_EMISSION"
  "length (to_encode (TPreviewTask 1 4 ''pkg'' ''read the page'' 0 [] [] [] [])) \<le> MAX_EMISSION"
  by (rule packet_length, use sample_sizes in \<open>simp add: fields_entries_def tagged_def fields_default_def sample_dir_def\<close>)+

text \<open>The install record the daemon journals.\<close>

lemma sample_install_good: "install_strings sample_install"
  using rstr_samples(3) by (simp add: install_strings_def sample_install_def sample_dir_def rstr_def utf8_ascii)

lemma sample_recorded:
  obtains s1 where "task_record sample_env sample_clocks first_store (install_record sample_install) = (s1, Inr ())"
    "ts_tasks s1 = []" "ts_grants s1 = []" "orderly 12 sample_env sample_clocks (ts_audit s1)"
proof -
  let ?r = "record_from_emission (install_record sample_install)"
  have ok: "emission_ok (install_record sample_install)" "item 7 (e_body (install_record sample_install))"
    using install_record_ok [OF sample_install_good] by blast+
  then have "submit_ok ?r" by (auto simp: submit_ok_def record_ok_def record_from_emission_def emission_ok_def GENESIS_def item_def)
  moreover have "length (ar_principal ?r) + length (ar_body ?r) \<le> 4000000"
  proof -
    have "length (e_body (install_record sample_install)) \<le> 1000"
      unfolding install_body_eq
      by (rule order_trans [OF length_put_entries])
        (use length_puts(1) [of 1] length_puts(2) [of "replicate 32 1"] length_puts(3) [of "''pkg''"] length_puts(3) [of "''1''"] length_puts(3) [of "''install''"]
          in \<open>simp add: install_body_def sample_install_def\<close>)
    then show ?thesis by (simp add: record_from_emission_def) (simp add: install_record_def)
  qed
  ultimately obtain a r where a: "store_append sample_hash id sample_clocks sample_store ?r = Inr (a, r)"
    using store_append_total [OF sample_holds _ sample_hash_length] by (metis sample_disk sample_next(1))
  then obtain b where b: "append_frame sample_hash sample_clocks sample_store ?r = Inr (b, r)"
    and rot: "(if SEGMENT_BYTES \<le> st_written b then rbind (store_rotate sample_hash id sample_clocks b) (\<lambda>s. Inr (s, r)) else Inr (b, r)) = Inr (a, r)"
    by (auto simp: store_append_def rbind_Inr_iff split: if_splits)
  have w: "st_written b \<le> MAX_FRAME + 4" and d: "\<exists>f. st_disk b = [(OPEN_PATH, f)]"
    using b by (auto simp: append_frame_def Let_def store_sync_def sample_store_def split: if_splits)
  then have "a = b" using rot by (simp add: MAX_FRAME_def SEGMENT_BYTES_def)
  obtain f where "st_disk b = [(OPEN_PATH, f)]" using d by blast
  then have "orderly 12 sample_env sample_clocks b"
    by (rule orderly_roomy [OF sample_next(1) sample_next(1)]) (use w in \<open>simp add: MAX_FRAME_def SEGMENT_BYTES_def\<close>)
  with a \<open>a = b\<close> show thesis
    by (intro that [of "snd (fst (task_record sample_env sample_clocks first_store (install_record sample_install)), fst (task_record sample_env sample_clocks first_store (install_record sample_install)))"])
      (simp_all add: task_record_def first_store_def sample_env_def)
qed

lemma sample_approval:
  assumes "task_record sample_env sample_clocks first_store (install_record sample_install) = (s1, Inr ())"
  shows "answer sample_env sample_pkgs sample_draw sample_facts (sample_dispatch 1) first_store (TInstallAnswer 2 True) = (sample_dispatch 2, s1, Inr [(ToAsker, FDone 1)])"
proof -
  have x: "map_of (dp_reviews (sample_dispatch 1)) 2 = Some sample_review" "sample_read (rv_dir sample_review) = Some ''x''"
    "te_b3 sample_env (str_bytes ''x'') = rv_hash sample_review" "(5 :: u64) < rv_expires_ms sample_review" "rv_req sample_review = 1"
    by (simp_all add: sample_dispatch_def sample_review_def sample_read_def sample_env_def sample_hash_def)
  have i: "\<lparr>in_id = mf_id (rv_manifest sample_review), in_version = mf_version (rv_manifest sample_review), in_dir = rv_dir sample_review,
      in_hash = rv_hash sample_review, in_lines = map requested_line (mf_capabilities (rv_manifest sample_review)),
      in_seq = (case installed (sample_dispatch 1\<lparr>dp_reviews := r\<rparr>) (mf_id (rv_manifest sample_review)) of None \<Rightarrow> 1 | Some i \<Rightarrow> in_seq i + 1)\<rparr> = sample_install" for r
    using sample_install_of by (simp add: install_of_def installed_def)
  have "install_answer sample_env sample_clocks sample_read True (sample_dispatch 1) first_store 2 True 5 = (sample_dispatch 2, s1, Inr [(ToAsker, FDone 1)])"
    unfolding install_answer_def Let_def x(1) option.case
    using assms x by (simp only: i) (simp add: sample_dispatch_def write_install_def sample_install_def)
  then show "answer sample_env sample_pkgs sample_draw sample_facts (sample_dispatch 1) first_store (TInstallAnswer 2 True) = (sample_dispatch 2, s1, Inr [(ToAsker, FDone 1)])"
    by (simp add: answer_def sample_draw_def sample_facts_def)
qed

lemma sample_approved:
  obtains s1 out where "answer sample_env sample_pkgs sample_draw sample_facts (sample_dispatch 1) first_store (TInstallAnswer 2 True) = (sample_dispatch 2, s1, Inr out)"
proof -
  obtain s1 where "task_record sample_env sample_clocks first_store (install_record sample_install) = (s1, Inr ())" by (rule sample_recorded)
  from sample_approval [OF this] show thesis using that by blast
qed

lemma sample_to_preview:
  obtains s where "dm_reachable sample_env sample_pkgs \<lparr>dm_store = s, dm_dispatch = sample_dispatch 3\<rparr>"
    "ts_tasks s = []" "ts_grants s = []" "orderly 12 sample_env sample_clocks (ts_audit s)"
proof -
  have o12: "orderly 12 sample_env sample_clocks (ts_audit first_store)"
    by (simp only: first_store_def task_store.select_convs) (rule sample_orderly, simp)
  have first: "ts_tasks first_store = []" "ts_grants first_store = []" by (simp_all add: first_store_def)
  have "dispatch_open [] [(''/a'', PkOwner)] = sample_dispatch 0" by (simp add: dispatch_open_def sample_dispatch_def)
  then have r0: "dm_reachable sample_env sample_pkgs \<lparr>dm_store = first_store, dm_dispatch = sample_dispatch 0\<rparr>"
    using dm_boot [OF sample_env_ok first_boot, of sample_pkgs "[(''/a'', PkOwner)]"] by simp
  have dr: "draw_ok sample_env first_store sample_facts sample_draw" by (rule sample_draw_ok [OF o12 _ first]) simp
  note str = sample_strings
  obtain out1 where "answer sample_env sample_pkgs sample_draw sample_facts (sample_dispatch 0) first_store (TInstallBegin 1 sample_dir) =
      (sample_dispatch 1, first_store, Inr out1)"
    using sample_begin by (auto simp: answer_def sample_draw_def sample_facts_def)
  from compositor_packet [OF _ _ _ sample_packets(1) this dr str r0]
  have r1: "dm_reachable sample_env sample_pkgs \<lparr>dm_store = first_store, dm_dispatch = sample_dispatch 1\<rparr>"
    by (simp add: agentd_message_def sample_dir_def rstr_def utf8_ascii)
  obtain s1 where s1: "task_record sample_env sample_clocks first_store (install_record sample_install) = (s1, Inr ())"
    "ts_tasks s1 = []" "ts_grants s1 = []" "orderly 12 sample_env sample_clocks (ts_audit s1)" by (rule sample_recorded)
  have "answer sample_env sample_pkgs sample_draw sample_facts (sample_dispatch 1) first_store (TInstallAnswer 2 True) = (sample_dispatch 2, s1, Inr [(ToAsker, FDone 1)])"
    by (rule sample_approval [OF s1(1)])
  from compositor_packet [OF _ _ _ sample_packets(2) this dr str r1]
  have r2: "dm_reachable sample_env sample_pkgs \<lparr>dm_store = s1, dm_dispatch = sample_dispatch 2\<rparr>"
    by (simp add: agentd_message_def)
  have dr1: "draw_ok sample_env s1 sample_facts sample_draw" by (rule sample_draw_ok [OF s1(4) _ s1(2,3)]) simp
  obtain out3 where "answer sample_env sample_pkgs sample_draw sample_facts (sample_dispatch 2) s1 (TPreviewTask 1 4 ''pkg'' ''read the page'' 0 [] [] [] []) =
      (sample_dispatch 3, s1, Inr out3)"
    using sample_previewed [of s1] by (auto simp: answer_def sample_draw_def sample_facts_def)
  from compositor_packet [OF _ _ _ sample_packets(4) this dr1 str r2]
  have "dm_reachable sample_env sample_pkgs \<lparr>dm_store = s1, dm_dispatch = sample_dispatch 3\<rparr>"
    by (simp add: agentd_message_def rstr_def utf8_ascii account_ok_def)
  then show thesis using that s1(2-4) by blast
qed

abbreviation "sample_agent \<equiv> ''agent:pkg-070707''"

definition sample_opened :: "task_store \<Rightarrow> task" where
  "sample_opened s = new_task s sample_id sample_agent OriginHuman ''slot:4'' ''read the page'' 7200005 5 None"

lemma sample_opened_simps [simp]:
  "t_id (sample_opened s) = sample_id" "t_principal (sample_opened s) = sample_agent" "t_state (sample_opened s) = Active"
  "t_deadline_ms (sample_opened s) = 7200005"
  by (simp_all add: sample_opened_def)

lemma sample_opened_bytes: "task_bytes (sample_opened s) \<le> 2000"
  using length_default_counters by (simp add: task_bytes_def sample_opened_def new_task_def)

lemma sample_caps_line: "capabilities (te_rxok sample_env) (join_lines [sample_scope]) = Some sample_caps" "split_ws [] (join_lines [sample_scope]) \<noteq> []"
  using sample_scope_parses by simp_all

lemma sample_create:
  assumes inv: "ts_inv sample_env s" and s: "ts_tasks s = []" "ts_grants s = []" "orderly 12 sample_env sample_clocks (ts_audit s)"
  obtains s' cose where "open_for_human sample_env sample_clocks sample_entropy sample_entropy s sample_agent ''read the page'' 7200005 (join_lines [sample_scope])
      ''slot:4'' None 5 = (s', Inr (sample_id, cose))" "ts_tasks s' = [sample_opened s]" "\<exists>g. ts_grants s' = [g] \<and> g_id (is_grant g) = sample_id"
    "orderly 10 sample_env sample_clocks (ts_audit s')"
proof -
  have o: "orderly (Suc 11) sample_env sample_clocks (ts_audit s)" by (rule orderly_mono [OF _ s(3)]) simp
  have none: "live_task s sample_agent = None" by (simp add: live_task_def s(1))
  have rs: "rstr sample_agent" "rstr ''slot:4''" by (simp_all add: rstr_def utf8_ascii)
  have size: "task_bytes (new_task s sample_id sample_agent OriginHuman ''slot:4'' ''read the page'' 7200005 5 None) \<le> 1400000"
    using sample_opened_bytes [of s] by (simp add: sample_opened_def)
  from open_total [OF inv o none rs rstr_samples(4) size] obtain s1 where
    op: "open_task_from sample_env sample_clocks sample_entropy s sample_agent OriginHuman ''slot:4'' ''read the page'' 7200005 5 None = (s1, Inr sample_id)"
    by blast
  have fresh: "\<forall>t \<in> set (ts_tasks s). t_id t \<noteq> sample_id" by (simp add: s(1))
  from open_task_from_inv [OF inv o op rs rstr_samples(4) fresh]
  have s1: "ts_inv sample_env s1" "orderly (Suc 10) sample_env sample_clocks (ts_audit s1)" "ts_grants s1 = []" "ts_tasks s1 = [sample_opened s]"
    by (simp_all add: sample_opened_def s)
  let ?g = "first_grant sample_id sample_caps 5 7200005 False"
  have of: "task_of s1 (g_task_id ?g) = Some (sample_opened s)" by (simp add: task_of_def s1(4))
  have gsize: "task_bytes (sample_opened s) + grant_bytes ?g \<le> 1400000"
    using sample_opened_bytes [of s] sample_grant_bytes [of sample_id 5 7200005 False] by simp
  have "\<exists>s'. issue_grant sample_env sample_clocks sample_entropy s1 ?g GrManifest 5 =
      (s', Inr (sealed sample_env (stamped ?g (sample_opened s) (ulid_from_parts 5 sample_entropy) 5)))"
    by (rule issue_total [OF s1(1,2) of _ _ _ sample_request rstr_samples(4) gsize]) simp_all
  then obtain s2 cose where ig: "issue_grant sample_env sample_clocks sample_entropy s1 ?g GrManifest 5 = (s2, Inr cose)" by blast
  have "\<forall>i \<in> set (ts_grants s1). g_id (is_grant i) \<noteq> sample_id" by (simp add: s1(3))
  from issue_inv [OF s1(1,2) ig sample_request rstr_samples(4) this]
  have s2: "orderly 10 sample_env sample_clocks (ts_audit s2)" "ts_tasks s2 = [sample_opened s]"
    "\<exists>g. ts_grants s2 = [g] \<and> g_id (is_grant g) = sample_id" by (auto simp: s1)
  have "open_for_human sample_env sample_clocks sample_entropy sample_entropy s sample_agent ''read the page'' 7200005 (join_lines [sample_scope])
      ''slot:4'' None 5 = (s2, Inr (sample_id, cose))"
    unfolding open_for_human_def sample_caps_line(1) using sample_caps_line(2) by (simp add: op ig ts_bind_def)
  with s2 show thesis using that by blast
qed

lemma sample_created:
  obtains dm dm' out where "dm_reachable sample_env sample_pkgs dm" "dm_dispatch dm = sample_dispatch 3" "draw_ok sample_env (dm_store dm) sample_facts sample_draw"
    "daemon_step sample_env sample_pkgs sample_draw sample_facts dm (AcMessage (TCreateTask 9 4 3)) = (dm', Inr out)"
    "(ToAsker, FTaskCreated 9 (ulid_to_text sample_id)) \<in> set out" "dm_reachable sample_env sample_pkgs dm'"
    "ts_tasks (dm_store dm') = [sample_opened (dm_store dm)]" "\<exists>g. ts_grants (dm_store dm') = [g] \<and> g_id (is_grant g) = sample_id"
    "orderly 10 sample_env sample_clocks (ts_audit (dm_store dm'))"
proof -
  obtain s where s: "dm_reachable sample_env sample_pkgs \<lparr>dm_store = s, dm_dispatch = sample_dispatch 3\<rparr>"
    "ts_tasks s = []" "ts_grants s = []" "orderly 12 sample_env sample_clocks (ts_audit s)" by (rule sample_to_preview)
  have inv: "ts_inv sample_env s" using dm_reachable_inv [OF s(1)] ts_reachable_inv by simp
  obtain s' cose where run: "open_for_human sample_env sample_clocks sample_entropy sample_entropy s sample_agent ''read the page'' 7200005 (join_lines [sample_scope])
      ''slot:4'' None 5 = (s', Inr (sample_id, cose))" and s': "ts_tasks s' = [sample_opened s]" "\<exists>g. ts_grants s' = [g] \<and> g_id (is_grant g) = sample_id"
      "orderly 10 sample_env sample_clocks (ts_audit s')" by (rule sample_create [OF inv s(2-4)])
  have p: "task_principal ''pkg'' [7, 7, 7] = sample_agent" "''slot:'' @ dec_digits (unat (4 :: u64)) = ''slot:4''"
    by code_simp+
  have v: "map_of (dp_previews (sample_dispatch 3)) 3 = Some sample_preview"
    "installed (sample_dispatch 3\<lparr>dp_previews := x\<rparr>) ''pkg'' = Some sample_install" for x by (simp_all add: sample_dispatch_def installed_def)
  have "\<exists>d' out. answer sample_env sample_pkgs sample_draw sample_facts (sample_dispatch 3) s (TCreateTask 9 4 3) = (d', s', Inr out) \<and>
      (ToAsker, FTaskCreated 9 (ulid_to_text sample_id)) \<in> set out"
    using run unfolding p(1,2) [symmetric]
    by (simp add: answer_def sample_draw_def sample_facts_def dispatch_create_def Let_def v sample_preview_def sample_install_def)
  then obtain d' out where a: "answer sample_env sample_pkgs sample_draw sample_facts (sample_dispatch 3) s (TCreateTask 9 4 3) = (d', s', Inr out)"
    and o: "(ToAsker, FTaskCreated 9 (ulid_to_text sample_id)) \<in> set out" by blast
  have dr: "draw_ok sample_env s sample_facts sample_draw" by (rule sample_draw_ok [OF s(4) _ s(2,3)]) simp
  have "dm_reachable sample_env sample_pkgs \<lparr>dm_store = s', dm_dispatch = d'\<rparr>"
    by (rule compositor_packet [OF _ _ _ sample_packets(3) a dr sample_strings s(1)]) (simp_all add: agentd_message_def)
  moreover have "daemon_step sample_env sample_pkgs sample_draw sample_facts \<lparr>dm_store = s, dm_dispatch = sample_dispatch 3\<rparr> (AcMessage (TCreateTask 9 4 3)) =
      (\<lparr>dm_store = s', dm_dispatch = d'\<rparr>, Inr out)" using a by (simp add: daemon_step_def)
  ultimately show thesis using that [OF s(1)] s' o dr by simp
qed


end
