(* ===== verification/Daemon_Laws.thy ===== *)
theory Daemon_Laws
  imports Daemon_Samples
begin

text \<open>
  What the daemon promises: its task store is a reachable one, grants are what the human reviewed, nothing is
  installed without approval, only the compositor creates authority, an exited agent loses everything, and
  a restart finds what was installed.
\<close>

text \<open>C13: the daemon refines the task store. Whatever packets its peers send and however often it restarts,
  the task store inside the daemon stays one that the store's own operations reach, so every law of the
  task store (\<open>TaskStore_Laws\<close>) holds of a running daemon.\<close>

theorem daemon_refines_task_store:
  assumes "dm_reachable e pe dm"
  shows "ts_reachable e (dm_store dm)"
  using dm_reachable_inv [OF assms] by blast

section \<open>Lines and capabilities\<close>

definition cap_line :: "capability \<Rightarrow> string" where
  "cap_line c = line_of (cap_name c) (cap_scopes c)"

definition request_cap :: "requested \<Rightarrow> capability" where
  "request_cap r = \<lparr>cap_name = rq_name r, cap_scopes = rq_scopes r, cap_quota = None\<rparr>"

lemma cap_line_request [simp]: "cap_line (request_cap r) = requested_line r"
  by (simp add: cap_line_def request_cap_def requested_line_eq)

lemma capability_lines_requests:
  "\<forall>r \<in> set rs. request_good rxok r \<Longrightarrow> capability_lines rxok (map requested_line rs) = Some (map request_cap rs)"
  by (induction rs) (simp_all add: request_line_capability request_cap_def)

lemma join_requests:
  assumes "\<forall>r \<in> set rs. request_good rxok r" "rs \<noteq> []"
  shows "capabilities rxok (join_lines (map requested_line rs)) = Some (map request_cap rs)"
proof -
  have "str_lines (join_lines (map requested_line rs)) = map requested_line rs"
    by (rule str_lines_join) (use assms(1) request_line_good in auto)
  then show ?thesis using capability_lines_requests [OF assms(1)] assms(2) by (simp add: capabilities_def)
qed

lemma split_ws_join:
  assumes "\<forall>r \<in> set rs. request_good rxok r"
  shows "split_ws [] (join_lines (map requested_line rs)) = [] \<longleftrightarrow> rs = []"
proof (cases rs)
  case (Cons r rest)
  have n: "rq_name r \<noteq> []" "\<not> has_ws (rq_name r)" "rq_scopes r \<noteq> []"
    using assms name_no_ws Cons by (auto simp: request_good_def)
  obtain t where "requested_line r = rq_name r @ CHR '' '' # t" using n(3) by (cases "rq_scopes r") (auto simp: requested_line_def)
  then have "\<exists>u. join_lines (map requested_line rs) = rq_name r @ CHR '' '' # u" unfolding Cons by (cases rest) auto
  then show ?thesis using split_ws_word [OF n(2), of "[]"] n(1) Cons by auto
qed simp

text \<open>a grant says what the manifest said. Whatever requests of a manifest that loads are joined into one
  scope, line by line as the human saw them, the task store parses that scope back into exactly those
  requests, names and clauses in their order.\<close>

theorem manifest_lines_are_capabilities:
  assumes "manifest_load rxok kp rd dir orig = Inr m" "set rs \<subseteq> set (mf_capabilities m)" "rs \<noteq> []"
  shows "capabilities rxok (join_lines (map requested_line rs)) =
    Some (map (\<lambda>r. \<lparr>cap_name = rq_name r, cap_scopes = rq_scopes r, cap_quota = None\<rparr>) rs)"
proof -
  have "\<forall>r \<in> set rs. request_good rxok r" using load_good [OF assms(1)] assms(2) by (auto simp: requests_good_def)
  from join_requests [OF this assms(3)] show ?thesis by (simp add: request_cap_def [abs_def])
qed

section \<open>Creating\<close>

lemma sublist_requests:
  assumes "lines_good rxok ls" "set xs \<subseteq> set ls"
  obtains rs where "xs = map requested_line rs" "\<forall>r \<in> set rs. request_good rxok r"
proof -
  from assms(1) obtain qs where qs: "ls = map requested_line qs" "\<forall>r \<in> set qs. request_good rxok r" by (auto simp: lines_good_def)
  have "\<exists>rs. xs = map requested_line rs \<and> (\<forall>r \<in> set rs. request_good rxok r)"
    using assms(2) unfolding qs(1)
  proof (induction xs)
    case (Cons x xs)
    then obtain rs where rs: "xs = map requested_line rs" "\<forall>r \<in> set rs. request_good rxok r" by auto
    from Cons.prems obtain r where "r \<in> set qs" "x = requested_line r" by auto
    then have "x # xs = map requested_line (r # rs) \<and> (\<forall>r \<in> set (r # rs). request_good rxok r)" using rs qs(2) by simp
    then show ?case by (rule exI)
  qed simp
  then show thesis using that by blast
qed

lemma new_task_statement [simp]: "t_statement (new_task s i p orig oref stmt dl now res) = stmt"
  by (simp add: new_task_def Let_def split: option.split)

text \<open>C10: a task gets what the human committed to. When the commit of a preview reports a task, the preview
  was made for that slot under the table version now in force and the package has not been installed
  again since; its lines are among those the human approved when the package was installed; exactly one
  task and one grant were added; the task has the previewed statement and deadline; the grant is for
  that task, lasts as long, and its capabilities are the previewed lines, no more and no fewer; and the
  preview cannot be used again.\<close>

theorem create_grants_what_was_reviewed:
  assumes "dm_reachable e pe dm" "draw_ok e (dm_store dm) at dr" "rust_strings (dm_dispatch dm)"
    and "daemon_step e pe dr at dm (AcMessage (TCreateTask req slot pv)) = (dm', Inr out)" "(ToAsker, FTaskCreated req tid) \<in> set out"
  shows "\<exists>p i t g. map_of (dp_previews (dm_dispatch dm)) pv = Some p \<and> pw_slot p = slot \<and> pw_table_version p = fa_table_version at \<and>
    installed (dm_dispatch dm) (pw_package p) = Some i \<and> set (pw_lines p) \<subseteq> set (in_lines i) \<and>
    ts_tasks (dm_store dm') = ts_tasks (dm_store dm) @ [t] \<and> ts_grants (dm_store dm') = ts_grants (dm_store dm) @ [g] \<and>
    ulid_to_text (t_id t) = tid \<and> t_statement t = pw_statement p \<and> t_deadline_ms t = fa_now_ms at + pw_deadline_ms p \<and>
    pw_deadline_ms p \<le> MAX_DEADLINE_MS \<and> g_task_id (is_grant g) = t_id t \<and> g_principal (is_grant g) = t_principal t \<and>
    g_expires_ms (is_grant g) = t_deadline_ms t \<and> \<not> g_unattended (is_grant g) \<and> map cap_line (g_capabilities (is_grant g)) = pw_lines p \<and>
    map_of (dp_previews (dm_dispatch dm')) pv = None"
proof -
  let ?d = "dm_dispatch dm" and ?s = "dm_store dm" and ?cr = "dr_create dr" and ?now = "fa_now_ms at"
  from dm_reachable_inv [OF assms(1)] have inv: "ts_reachable e ?s" "d_inv (te_rxok e) ?d" by blast+
  have dr: "orderly 4 e (dr_clocks dr) (ts_audit ?s)" "fresh_task ?s ?now (cr_task ?cr)" "fresh_grant ?s ?now (cr_grant ?cr)" "length (cr_suffix ?cr) = 3"
    using assms(2) unfolding draw_ok_def by blast+
  have o3: "orderly 3 e (dr_clocks dr) (ts_audit ?s)" by (rule orderly_4 [OF dr(1)]) simp
  have run: "dispatch_create e (dr_clocks dr) ?cr ?d ?s req slot pv (fa_table_version at) (fa_agentd_live at) ?now = (dm_dispatch dm', dm_store dm', Inr out)"
    using assms(4) by (auto simp: daemon_step_def answer_def split: prod.splits)
  from run show ?thesis
  proof (cases rule: create_cases)
    case (refused why)
    then show ?thesis using assms(5) by (simp add: refused_def)
  next
    case (opened p res r)
    from opened(10) assms(5) obtain tk cose where r: "r = Inr (tk, cose)" "ulid_to_text tk = tid"
      by (auto simp: refused_def split: sum.splits)
    from opened(5) obtain i where i: "installed ?d (pw_package p) = Some i" "in_seq i = pw_install_seq p" by auto
    have g: "preview_good ?d p" using d_inv_preview [OF inv(2) opened(2)] .
    then have sub: "set (pw_lines p) \<subseteq> set (in_lines i)" and dl: "pw_deadline_ms p \<le> MAX_DEADLINE_MS" and pk: "id_ok (pw_package p)"
      using i by (auto simp: preview_good_def)
    have "lines_good (te_rxok e) (in_lines i)" using d_inv_installed [OF inv(2) i(1)] by (simp add: install_good_def)
    then obtain rs where rs: "pw_lines p = map requested_line rs" "\<forall>r \<in> set rs. request_good (te_rxok e) r"
      using sublist_requests [OF _ sub] by blast
    have caps: "(if split_ws [] (join_lines (pw_lines p)) = [] then Some [] else capabilities (te_rxok e) (join_lines (pw_lines p))) = Some (map request_cap rs)"
      using split_ws_join [OF rs(2)] join_requests [OF rs(2)] unfolding rs(1) by auto
    have "(pv, p) \<in> set (dp_previews ?d)" using opened(2) by (rule map_of_SomeD)
    then have scope: "rstr (join_lines (pw_lines p))" using assms(3) unfolding rust_strings_def by blast
    let ?t = "new_task ?s tk (task_principal (pw_package p) (cr_suffix ?cr)) OriginHuman (''slot:'' @ dec_digits (unat slot)) (pw_statement p)
      (?now + pw_deadline_ms p) ?now res"
    let ?g = "\<lparr>is_grant = (first_grant tk (map request_cap rs) ?now (?now + pw_deadline_ms p) False)\<lparr>g_id := ulid_from_parts ?now (cr_grant ?cr),
      g_principal := task_principal (pw_package p) (cr_suffix ?cr)\<rparr>, is_cose = cose, is_revoked = False\<rparr>"
    from open_for_human_split [OF ts_reachable_inv [OF inv(1)] o3 principal_rstr [OF pk dr(4)] slot_rstr scope dr(2,3) opened(8)]
    have "ts_tasks (dm_store dm') = ts_tasks ?s @ [?t]" "ts_grants (dm_store dm') = ts_grants ?s @ [?g]" unfolding r caps by simp_all
    moreover have "map_of (dp_previews (dm_dispatch dm')) pv = None" unfolding opened(1) by (simp add: delete_conv')
    moreover have "map cap_line (map request_cap rs) = pw_lines p" by (simp add: rs(1) comp_def)
    ultimately show ?thesis using opened(2-4) i(1) sub dl r(2)
      by (intro exI [of _ p] exI [of _ i] exI [of _ ?t] exI [of _ ?g] conjI) (simp_all add: first_grant_def del: map_map)
  qed
qed


section \<open>Installing\<close>

lemma answer_installs:
  assumes "answer e pe dr at d s m = (d', s', Inr out)" "\<And>review approve. m \<noteq> TInstallAnswer review approve"
  shows "dp_installs d' = dp_installs d"
proof -
  have x: "(\<exists>x. d' = d\<lparr>dp_paused := x\<rparr>) \<Longrightarrow> ?thesis" by auto
  note run = assms(1) [unfolded answer_def Let_def]
  show ?thesis
  proof (cases m)
    case (TPreviewTask req slot package statement deadline narrow_to continuation resumes account)
    then show ?thesis using run by (auto simp: dispatch_preview_def dispatch_id_def Let_def split: prod.splits sum.splits)
  next
    case (TCreateTask req slot pv)
    then have "dispatch_create e (dr_clocks dr) (dr_create dr) d s req slot pv (fa_table_version at) (fa_agentd_live at) (fa_now_ms at) = (d', s', Inr out)"
      using run by simp
    then show ?thesis by (cases rule: create_cases) simp_all
  next
    case (TInstallBegin req path)
    then show ?thesis using run
      by (auto simp: install_begin_def dispatch_id_def Let_def split: prod.splits sum.splits option.splits)
  next
    case (TUnpauseTask req slot task)
    then show ?thesis using run unpause_moves by (intro x) auto
  next
    case (TPauseTask req task)
    then show ?thesis using run pause_moves by (intro x) auto
  next
    case (TCancelTask req task mode)
    then show ?thesis using run cancel_moves by (intro x) auto
  next
    case (TExited req task reason)
    then show ?thesis using run exited_moves by (intro x) auto
  qed (use run assms(2) in auto)
qed

text \<open>C11: nothing is installed behind the human's back. When a packet changes what is installed under a name,
  it is the compositor's approval of a pending review of the package of that name; the manifest on disk
  still hashes to what was reviewed; the lines recorded are the requests of the reviewed manifest; and
  the review cannot be answered again.\<close>

theorem installed_only_when_approved:
  assumes "receive r b = Some p" "daemon_step e pe dr at dm p = (dm', Inr out)"
    and "installed (dm_dispatch dm') k \<noteq> installed (dm_dispatch dm) k"
  shows "\<exists>review rv x i. r = RoCompositor \<and> p = AcMessage (TInstallAnswer review True) \<and> map_of (dp_reviews (dm_dispatch dm)) review = Some rv \<and>
    fa_now_ms at < rv_expires_ms rv \<and> mf_id (rv_manifest rv) = k \<and>
    dr_read1 dr (rv_dir rv) = Some x \<and> te_b3 e (str_bytes x) = rv_hash rv \<and>
    installed (dm_dispatch dm') k = Some i \<and> in_lines i = map requested_line (mf_capabilities (rv_manifest rv)) \<and> in_hash i = rv_hash rv \<and>
    map_of (dp_reviews (dm_dispatch dm')) review = None"
proof (cases p)
  case (AcEmission em)
  then show ?thesis using assms(2,3) by (auto simp: daemon_step_def split: prod.splits)
next
  case (AcMessage m)
  then have run: "answer e pe dr at (dm_dispatch dm) (dm_store dm) m = (dm_dispatch dm', dm_store dm', Inr out)"
    using assms(2) by (auto simp: daemon_step_def split: prod.splits)
  obtain review approve where m: "m = TInstallAnswer review approve"
    using answer_installs [OF run] assms(3) unfolding installed_def by metis
  have "may_send r m" using received_message assms(1) AcMessage by blast
  then have r: "r = RoCompositor" unfolding m by (cases r) (simp_all add: agentd_message_def)
  have "install_answer e (dr_clocks dr) (dr_read1 dr) (dr_write dr) (dm_dispatch dm) (dm_store dm) review approve (fa_now_ms at) =
      (dm_dispatch dm', dm_store dm', Inr out)" using run by (simp add: answer_def m Let_def)
  then show ?thesis
  proof (cases rule: install_answer_cases)
    case kept
    then show ?thesis using assms(3) by (simp add: installed_def)
  next
    case (new rv)
    let ?i = "install_of (dm_dispatch dm) rv"
    have ins: "installed (dm_dispatch dm') = (installed (dm_dispatch dm))(in_id ?i \<mapsto> ?i)" unfolding new(6) by (rule installed_new)
    then have k: "k = in_id ?i" using assms(3) by (auto split: if_splits)
    obtain x where x: "dr_read1 dr (rv_dir rv) = Some x" "te_b3 e (str_bytes x) = rv_hash rv" using new(4) by blast
    have "map_of (dp_reviews (dm_dispatch dm')) review = None" unfolding new(6) by (simp add: delete_conv')
    then show ?thesis using r AcMessage m new(1-3) x k ins
      by (intro exI [of _ review] exI [of _ rv] exI [of _ x] exI [of _ ?i]) (simp add: install_of_def)
  qed
qed

text \<open>C15: a restart finds the installed packages. Opening the directory of a running daemon gives back every
  install record of at most 256 lines as it was, and nothing else: a package with more lines, which could
  be installed, is silently not installed any more.\<close>

theorem restart_keeps_short_installs:
  assumes "dm_reachable e pe dm"
  shows "installed (dispatch_open (dp_files (dm_dispatch dm)) roots) k = Some i \<longleftrightarrow>
    installed (dm_dispatch dm) k = Some i \<and> length (in_lines i) \<le> 256"
proof -
  have "d_inv (te_rxok e) (dm_dispatch dm)" using dm_reachable_inv [OF assms] by blast
  from reopen_installs(2) [OF this, of roots k] show ?thesis by (cases "installed (dm_dispatch dm) k") (auto simp: short_def)
qed

section \<open>Roles\<close>

text \<open>A transition changes the state of a task and revokes grants; it adds none.\<close>

lemma moved_same:
  assumes "moved e ck s s'" "orderly 2 e ck (ts_audit s)" "ts_reachable e s"
  shows "map t_id (ts_tasks s') = map t_id (ts_tasks s) \<and> map is_grant (ts_grants s') = map is_grant (ts_grants s)"
proof -
  from assms(1) obtain i p ev why out where run: "dispatch_transition e ck s i p ev why = (s', Inr out)" unfolding moved_def by blast
  obtain s1 r where ap: "task_apply e ck s i ev = (s1, r)" by fastforce
  then have s1: "s1 = s'" "answered r"
    using run by (auto simp: dispatch_transition_def answered_def Let_def split: sum.splits task_error.splits task_state.splits)
  show ?thesis
  proof (cases r)
    case (Inl err)
    then have "s' = s" using ap s1 apply_Inl unfolding answered_def by blast
    then show ?thesis by simp
  next
    case (Inr nxt)
    have "orderly (Suc (Suc 0)) e ck (ts_audit s)" using assms(2) by (simp only: numeral_2_eq_2)
    from apply_inv [OF ts_reachable_inv [OF assms(3)] this ap [unfolded Inr]] s1(1) obtain k where
      k: "position (\<lambda>t. t_id t = i) (ts_tasks s) = Some k" "ts_tasks s' = (ts_tasks s)[k := (ts_tasks s ! k)\<lparr>t_state := nxt\<rparr>]"
      and g: "ts_grants s' = (if is_live nxt then ts_grants s else revoke_all (live_ids (ts_grants s) i) (ts_grants s))" by blast
    have "map t_id ((ts_tasks s)[k := (ts_tasks s ! k)\<lparr>t_state := nxt\<rparr>]) = map t_id (ts_tasks s)"
      using position_Some [OF k(1)] by (simp add: map_update list_update_same_conv)
    moreover have "map is_grant (revoke_all ids (ts_grants s)) = map is_grant (ts_grants s)" for ids
      by (simp add: revoke_all_def)
    ultimately show ?thesis using k(2) g by simp
  qed
qed

text \<open>C12: only the compositor creates authority. A packet from any other role never adds a task or a grant,
  and changes nothing that is installed.\<close>

theorem only_the_compositor_creates:
  assumes "dm_reachable e pe dm" "draw_ok e (dm_store dm) at dr"
    and "receive r b = Some p" "r \<noteq> RoCompositor" "daemon_step e pe dr at dm p = (dm', Inr out)"
  shows "map t_id (ts_tasks (dm_store dm')) = map t_id (ts_tasks (dm_store dm)) \<and>
    map is_grant (ts_grants (dm_store dm')) = map is_grant (ts_grants (dm_store dm)) \<and>
    dp_installs (dm_dispatch dm') = dp_installs (dm_dispatch dm)"
proof (cases p)
  case (AcEmission em)
  then show ?thesis using assms(5) by (auto simp: daemon_step_def task_record_def split: prod.splits sum.splits)
next
  case (AcMessage m)
  let ?s = "dm_store dm" and ?s' = "dm_store dm'" and ?ck = "dr_clocks dr"
  from dm_reachable_inv [OF assms(1)] have inv: "ts_reachable e ?s" by blast
  have o4: "orderly 4 e ?ck (ts_audit ?s)" using assms(2) unfolding draw_ok_def by blast
  have o2: "orderly 2 e ?ck (ts_audit ?s)" by (rule orderly_4 [OF o4]) simp
  have run: "answer e pe dr at (dm_dispatch dm) ?s m = (dm_dispatch dm', ?s', Inr out)"
    using assms(5) AcMessage by (auto simp: daemon_step_def split: prod.splits)
  have "may_send r m" using received_message assms(3) AcMessage by blast
  then have am: "agentd_message m" using assms(4) by (cases r) simp_all
  then have "dp_installs (dm_dispatch dm') = dp_installs (dm_dispatch dm)"
    by (intro answer_installs [OF run]) (auto simp: agentd_message_def)
  moreover have "?s' = ?s \<or> moved e ?ck ?s ?s' \<or> (\<exists>s1. moved e ?ck ?s s1 \<and> moved e ?ck s1 ?s')"
  proof (cases m)
    case (TPauseTask req task)
    then show ?thesis using run by (auto simp: answer_def Let_def dest!: pause_moves)
  next
    case (TCancelTask req task mode)
    then show ?thesis using run by (auto simp: answer_def Let_def dest!: cancel_moves)
  next
    case (TExited req task reason)
    then show ?thesis using run by (auto simp: answer_def Let_def dest!: exited_moves)
  qed (use am in \<open>simp_all add: agentd_message_def\<close>)
  ultimately show ?thesis
    using moved_same [OF _ o2 inv] moved_same [OF _ moved_orderly [OF _ o4 inv] moved_step [OF _ o2 inv]] by metis
qed


section \<open>An agent that exits\<close>

lemma drain_total:
  assumes inv: "ts_inv e s" and ord: "orderly (Suc n) e ck (ts_audit s)" and t: "t \<in> set (ts_tasks s)"
    and st: "t_state t = Active \<or> t_state t = Paused" and size: "task_bytes t \<le> 1400000"
  shows "\<exists>s'. task_apply e ck s (t_id t) Drain = (s', Inr Draining)"
proof -
  from inv obtain rs where rs: "replays (holds e) (ts_audit s) rs" "tasks_ok (ts_tasks s)"
    "\<forall>k h. ts_hashes s k = Some h \<longrightarrow> length h = 32" "env_ok e" by (rule ts_invD)
  from task_of_live [OF rs(2) t] obtain k where k: "position (\<lambda>x. t_id x = t_id t) (ts_tasks s) = Some k" "ts_tasks s ! k = t" by blast
  have tr: "transition (t_state t) Drain = Inr Draining" using st by auto
  let ?t = "t\<lparr>t_state := Draining\<rparr>"
  have tok: "task_ok ?t" using rs(2) t by (simp add: tasks_ok_def task_ok_def)
  have "small_task ?t ''state''" using size by (intro task_small tok) simp_all
  from journal_total [OF rs(1) ord tok rstr_ops(3) rs(4,3) this] show ?thesis
    using k tr by (auto simp: task_apply_def Let_def ts_bind_def)
qed

lemma transition_out:
  assumes "task_apply e ck s i ev = (s', Inr nxt)"
  shows "\<exists>o'. dispatch_transition e ck s i p ev why = (s', Inr o') \<and> (\<not> is_live nxt \<longrightarrow> (ToAll, FRevoked p) \<in> set o')"
  using assms by (cases nxt) (auto simp: dispatch_transition_def Let_def)

text \<open>The task after it is closed, and its grants.\<close>

lemma closed_task:
  assumes inv: "ts_inv e s" and ord: "orderly 2 e ck (ts_audit s)" and t: "t \<in> set (ts_tasks s)"
    and run: "task_apply e ck s (t_id t) ev = (s', Inr (Closed r))"
  shows "(\<exists>t' \<in> set (ts_tasks s'). t_id t' = t_id t \<and> t_state t' = Closed r) \<and>
    (\<forall>g \<in> set (ts_grants s'). g_task_id (is_grant g) = t_id t \<longrightarrow> is_revoked g)"
proof -
  have "orderly (Suc (Suc 0)) e ck (ts_audit s)" using ord by (simp only: numeral_2_eq_2)
  from apply_inv [OF inv this run] obtain k where inv': "ts_inv e s'" and
    k: "position (\<lambda>x. t_id x = t_id t) (ts_tasks s) = Some k" "ts_tasks s' = (ts_tasks s)[k := (ts_tasks s ! k)\<lparr>t_state := Closed r\<rparr>]" by blast
  let ?c = "(ts_tasks s ! k)\<lparr>t_state := Closed r\<rparr>"
  have kl: "k < length (ts_tasks s)" "t_id (ts_tasks s ! k) = t_id t" using position_Some [OF k(1)] by simp_all
  have c: "?c \<in> set (ts_tasks s')" unfolding k(2) using kl(1) by (rule set_update_memI)
  have ok: "tasks_ok (ts_tasks s')" using inv' by (simp add: ts_inv_def)
  have "is_revoked g" if g: "g \<in> set (ts_grants s')" "g_task_id (is_grant g) = t_id t" for g
  proof -
    have "issued_ok e (ts_tasks s') g" using inv' g(1) by (simp add: ts_inv_def grants_ok_def)
    then obtain u where u: "u \<in> set (ts_tasks s')" "t_id u = t_id t" "\<not> is_revoked g \<longrightarrow> is_live (t_state u)"
      using g(2) by (auto simp: issued_ok_def Let_def)
    then have "u = ?c" using distinct_idD [OF ok u(1) c] kl(2) by simp
    then show ?thesis using u(3) by auto
  qed
  then show ?thesis using c kl(2) by (intro conjI bexI [of _ ?c]) auto
qed

text \<open>C14: an agent that is gone loses everything. When agentd reports that the agent of a live task of ordinary
  size has exited, however the task stood, the daemon answers, the task is closed (completed when the
  agent says so, failed otherwise), every grant it ever had is revoked, and every link is told.\<close>

theorem exited_closes:
  assumes "dm_reachable e pe dm" "draw_ok e (dm_store dm) at dr" "task_named (dm_store dm) txt = Some t" "is_live (t_state t)"
    and "task_bytes t \<le> 1400000" "length (live_ids (ts_grants (dm_store dm)) (t_id t)) \<le> 100000"
  shows "\<exists>dm' out. daemon_step e pe dr at dm (AcMessage (TExited req txt how)) = (dm', Inr out) \<and>
    (ToAsker, FDone req) \<in> set out \<and> (ToAll, FRevoked (t_principal t)) \<in> set out \<and>
    (\<exists>t' \<in> set (ts_tasks (dm_store dm')). t_id t' = t_id t \<and> t_state t' = Closed (if how = ''completed'' then Completed else Failed)) \<and>
    (\<forall>g \<in> set (ts_grants (dm_store dm')). g_task_id (is_grant g) = t_id t \<longrightarrow> is_revoked g)"
proof -
  let ?s = "dm_store dm" and ?ck = "dr_clocks dr"
  let ?run = "\<lambda>s ev. dispatch_transition e ?ck s (t_id t) (t_principal t) ev ''exited''"
  let ?r = "if how = ''completed'' then Completed else Failed"
  from dm_reachable_inv [OF assms(1)] have inv: "ts_inv e ?s" using ts_reachable_inv by blast
  have o4: "orderly 4 e ?ck (ts_audit ?s)" using assms(2) unfolding draw_ok_def by blast
  have o2: "orderly 2 e ?ck (ts_audit ?s)" by (rule orderly_4 [OF o4]) simp
  have t: "t \<in> set (ts_tasks ?s)" using assms(3) by (auto simp: task_named_def dest: find_SomeD)
  have s2: "orderly (Suc (Suc 0)) e ?ck (ts_audit s)" if "orderly 2 e ?ck (ts_audit s)" for s :: task_store
    using that by (simp only: numeral_2_eq_2)
  text \<open>The store the closing transition starts from, and what was sent before.\<close>
  have "\<exists>s1 o1 t1. (if how = ''completed'' \<and> t_state t \<noteq> Draining then ?run ?s Drain else (?s, Inr [])) = (s1, Inr o1) \<and> ts_inv e s1 \<and>
      orderly 2 e ?ck (ts_audit s1) \<and> t1 \<in> set (ts_tasks s1) \<and> t_id t1 = t_id t \<and> task_bytes t1 = task_bytes t \<and>
      ts_grants s1 = ts_grants ?s \<and> transition (t_state t1) (if how = ''completed'' then Drained else Fault) = Inr (Closed ?r)"
  proof (cases "how = ''completed'' \<and> t_state t \<noteq> Draining")
    case False
    then have "transition (t_state t) (if how = ''completed'' then Drained else Fault) = Inr (Closed ?r)"
      using live_events(2) [OF assms(4)] by auto
    then show ?thesis using False inv o2 t by auto
  next
    case True
    then have st: "t_state t = Active \<or> t_state t = Paused" using assms(4) by (cases "t_state t") auto
    have o4': "orderly (Suc (Suc 2)) e ?ck (ts_audit ?s)" using o4 by (simp add: eval_nat_numeral)
    obtain s1 where ap: "task_apply e ?ck ?s (t_id t) Drain = (s1, Inr Draining)" using drain_total [OF inv o4' t st assms(5)] by blast
    obtain o1 where run: "?run ?s Drain = (s1, Inr o1)" using transition_out [OF ap] by blast
    from apply_inv [OF inv o4' ap] obtain k where k: "ts_inv e s1" "orderly 2 e ?ck (ts_audit s1)" "ts_grants s1 = ts_grants ?s"
      "position (\<lambda>x. t_id x = t_id t) (ts_tasks ?s) = Some k" "ts_tasks s1 = (ts_tasks ?s)[k := (ts_tasks ?s ! k)\<lparr>t_state := Draining\<rparr>]" by auto
    have kt: "k < length (ts_tasks ?s)" "ts_tasks ?s ! k = t"
      using position_Some [OF k(4)] task_of_live(2) [OF _ t] inv k(4) by (auto simp: ts_inv_def)
    have "t\<lparr>t_state := Draining\<rparr> \<in> set (ts_tasks s1)" using set_update_memI [OF kt(1)] unfolding k(5) kt(2) by blast
    then show ?thesis using True run k(1-3) by (intro exI [of _ s1] exI [of _ o1] exI [of _ "t\<lparr>t_state := Draining\<rparr>"]) simp
  qed
  then obtain s1 o1 t1 where one: "(if how = ''completed'' \<and> t_state t \<noteq> Draining then ?run ?s Drain else (?s, Inr [])) = (s1, Inr o1)"
    and s1: "ts_inv e s1" "orderly 2 e ?ck (ts_audit s1)" and t1: "t1 \<in> set (ts_tasks s1)" "t_id t1 = t_id t" "task_bytes t1 = task_bytes t"
      "ts_grants s1 = ts_grants ?s" "transition (t_state t1) (if how = ''completed'' then Drained else Fault) = Inr (Closed ?r)" by blast
  obtain s2 where ap: "task_apply e ?ck s1 (t_id t1) (if how = ''completed'' then Drained else Fault) = (s2, Inr (Closed ?r))"
    using close_total [OF s1(1) s2 [OF s1(2)] t1(1,5)] assms(5,6) t1(2-4) by auto
  obtain o2' where two: "?run s1 (if how = ''completed'' then Drained else Fault) = (s2, Inr o2')" and rv: "(ToAll, FRevoked (t_principal t)) \<in> set o2'"
    using transition_out [OF ap [unfolded t1(2)], of "t_principal t" "''exited''"] by auto
  have "\<exists>d'. dispatch_exited e ?ck (dm_dispatch dm) ?s req txt how = (d', s2, Inr ((ToAsker, FDone req) # o1 @ o2'))"
    using one two assms(3,4) by (auto simp: dispatch_exited_def Let_def ts_bind_def split: if_splits)
  then obtain d' where "daemon_step e pe dr at dm (AcMessage (TExited req txt how)) = (\<lparr>dm_store = s2, dm_dispatch = d'\<rparr>, Inr ((ToAsker, FDone req) # o1 @ o2'))"
    by (auto simp: daemon_step_def answer_def Let_def)
  then show ?thesis using closed_task [OF s1 t1(1) ap] rv t1(2)
    by (intro exI [of _ "\<lparr>dm_store = s2, dm_dispatch = d'\<rparr>"] exI [of _ "(ToAsker, FDone req) # o1 @ o2'"]) simp
qed


section \<open>Resuming\<close>

lemma strip_prefix_append [simp]: "strip_prefix p (p @ s) = Some s"
  by (simp add: strip_prefix_def starts_with_def)

text \<open>C34: the package check of \<open>resume\<close> takes longer names. A closed task of a package whose name only begins
  with the resuming package's name and a dash passes as a task of that package, so with the original
  statement it can be resumed by it.\<close>

theorem resume_takes_longer_names:
  assumes "is_resumable m" "task_named s txt = Some t" "\<not> is_live (t_state t)"
    and "t_principal t = task_principal (mf_id m @ ''-'' @ x) rnd" "ts_hashes s (ulid_bytes (t_id t)) = Some (te_b3 e (str_bytes statement))"
  shows "resume_ok e s m txt statement = Inr ()"
proof -
  have "t_principal t = ''agent:'' @ mf_id m @ ''-'' @ x @ ''-'' @ concat (map hex_byte rnd)" by (simp add: assms(4) task_principal_def)
  then have "strip_prefix ''agent:'' (t_principal t) = Some (mf_id m @ ''-'' @ x @ ''-'' @ concat (map hex_byte rnd))"
    by (simp only: strip_prefix_append)
  then show ?thesis using assms by (simp add: resume_ok_def starts_with_def)
qed

lemma daemon_refines_task_store_witness:
  "\<exists>dm :: daemon. ts_reachable sample_env (dm_store dm) \<and> length (ts_tasks (dm_store dm)) = 1"
proof (rule sample_created)
  fix dm dm' :: daemon
  assume "dm_reachable sample_env sample_pkgs dm'" "ts_tasks (dm_store dm') = [sample_opened (dm_store dm)]"
  then show ?thesis using daemon_refines_task_store by (intro exI [of _ dm']) simp
qed

lemma manifest_lines_are_capabilities_witness:
  "capabilities (te_rxok sample_env) (join_lines [requested_line sample_request]) =
    Some [\<lparr>cap_name = ''scene.list'', cap_scopes = [''class:private''], cap_quota = None\<rparr>]"
  using manifest_lines_are_capabilities [OF sample_load, of "[sample_request]"] by (simp add: sample_manifest_def sample_request_def)

lemma create_grants_what_was_reviewed_witness:
  "\<exists>(dm :: daemon) (dm' :: daemon) (t :: task) (g :: issued). ts_tasks (dm_store dm') = ts_tasks (dm_store dm) @ [t] \<and> ts_grants (dm_store dm') = ts_grants (dm_store dm) @ [g] \<and>
     map cap_line (g_capabilities (is_grant g)) = [sample_scope]"
proof (rule sample_created)
  fix dm dm' :: daemon and out
  assume a: "dm_reachable sample_env sample_pkgs dm" "dm_dispatch dm = sample_dispatch 3" "draw_ok sample_env (dm_store dm) sample_facts sample_draw"
    "daemon_step sample_env sample_pkgs sample_draw sample_facts dm (AcMessage (TCreateTask 9 4 3)) = (dm', Inr out)"
    "(ToAsker, FTaskCreated 9 (ulid_to_text sample_id)) \<in> set out"
  have "rust_strings (dm_dispatch dm)" using sample_strings a(2) by simp
  from create_grants_what_was_reviewed [OF a(1,3) this a(4,5)] obtain p t g where
    p: "map_of (dp_previews (dm_dispatch dm)) 3 = Some p" "ts_tasks (dm_store dm') = ts_tasks (dm_store dm) @ [t]"
      "ts_grants (dm_store dm') = ts_grants (dm_store dm) @ [g]" "map cap_line (g_capabilities (is_grant g)) = pw_lines p" by blast
  have "pw_lines p = [sample_scope]" using p(1) a(2) by (auto simp: sample_dispatch_def sample_preview_def)
  then show ?thesis using p(2-4) by (intro exI [of _ dm] exI [of _ dm'] exI [of _ t] exI [of _ g]) simp
qed


lemma sample_installed:
  obtains s s1 out where "daemon_step sample_env sample_pkgs sample_draw sample_facts \<lparr>dm_store = s, dm_dispatch = sample_dispatch 1\<rparr>
      (AcMessage (TInstallAnswer 2 True)) = (\<lparr>dm_store = s1, dm_dispatch = sample_dispatch 2\<rparr>, Inr out)"
    "receive RoCompositor (to_encode (TInstallAnswer 2 True)) = Some (AcMessage (TInstallAnswer 2 True))"
proof -
  obtain s1 out where "answer sample_env sample_pkgs sample_draw sample_facts (sample_dispatch 1) first_store (TInstallAnswer 2 True) = (sample_dispatch 2, s1, Inr out)"
    by (rule sample_approved)
  moreover have "receive RoCompositor (to_encode (TInstallAnswer 2 True)) = Some (AcMessage (TInstallAnswer 2 True))"
    by (rule message_received [OF _ _ _ sample_packets(2)]) (simp_all add: agentd_message_def)
  ultimately show thesis using that [of first_store s1 out] by (simp add: daemon_step_def)
qed

lemma installed_only_when_approved_witness:
  "\<exists>review rv. AcMessage (TInstallAnswer 2 True) = AcMessage (TInstallAnswer review True) \<and>
     map_of (dp_reviews (sample_dispatch 1)) review = Some rv \<and> mf_id (rv_manifest rv) = ''pkg'' \<and>
     map_option in_lines (installed (sample_dispatch 2) ''pkg'') = Some (map requested_line (mf_capabilities (rv_manifest rv)))"
proof (rule sample_installed)
  fix s s1 out
  assume st: "daemon_step sample_env sample_pkgs sample_draw sample_facts \<lparr>dm_store = s, dm_dispatch = sample_dispatch 1\<rparr>
      (AcMessage (TInstallAnswer 2 True)) = (\<lparr>dm_store = s1, dm_dispatch = sample_dispatch 2\<rparr>, Inr out)"
    "receive RoCompositor (to_encode (TInstallAnswer 2 True)) = Some (AcMessage (TInstallAnswer 2 True))"
  have "installed (sample_dispatch 2) ''pkg'' \<noteq> installed (sample_dispatch 1) ''pkg''" by (simp add: installed_def sample_dispatch_def)
  then have "installed (dm_dispatch \<lparr>dm_store = s1, dm_dispatch = sample_dispatch 2\<rparr>) ''pkg'' \<noteq>
      installed (dm_dispatch \<lparr>dm_store = s, dm_dispatch = sample_dispatch 1\<rparr>) ''pkg''" by simp
  from installed_only_when_approved [OF st(2,1) this] show ?thesis by (elim exE conjE) auto
qed

lemma restart_keeps_short_installs_witness:
  "installed (dispatch_open (dp_files (sample_dispatch 3)) []) ''pkg'' = Some sample_install"
proof (rule sample_to_preview)
  fix s assume "dm_reachable sample_env sample_pkgs \<lparr>dm_store = s, dm_dispatch = sample_dispatch 3\<rparr>"
  from restart_keeps_short_installs [OF this, of "[]" "''pkg''" sample_install] show ?thesis
    by (simp add: installed_def sample_dispatch_def) (simp add: sample_install_def)
qed

definition later :: facts where
  "later = \<lparr>fa_now_ms = 9, fa_table_version = 7, fa_agentd_live = True\<rparr>"

lemma sample_later:
  assumes "orderly 10 sample_env sample_clocks (ts_audit s)" "ts_tasks s = [t]" "t_id t = sample_id" "\<exists>g. ts_grants s = [g] \<and> g_id (is_grant g) = sample_id"
  shows "draw_ok sample_env s later sample_draw"
proof -
  have n: "ulid_from_parts 9 sample_entropy \<noteq> sample_id" by code_simp
  have "orderly 4 sample_env sample_clocks (ts_audit s)" by (rule orderly_mono [OF _ assms(1)]) simp
  moreover have "fresh_task s 9 sample_entropy" "fresh_grant s 9 sample_entropy"
    using assms(2-4) n rstr_samples(4) by (auto simp: fresh_task_def fresh_grant_def)
  ultimately show ?thesis by (simp only: draw_ok_def sample_draw_def draw.select_convs create_random.select_convs later_def facts.select_convs) simp
qed

lemma exited_closes_witness:
  "\<exists>(dm :: daemon) (dm' :: daemon). \<exists>out. daemon_step sample_env sample_pkgs sample_draw later dm (AcMessage (TExited 3 (ulid_to_text sample_id) ''completed'')) = (dm', Inr out) \<and>
     length (ts_grants (dm_store dm)) = 1 \<and> (\<exists>t \<in> set (ts_tasks (dm_store dm')). t_id t = sample_id \<and> t_state t = Closed Completed) \<and>
     (ToAll, FRevoked sample_agent) \<in> set out"
proof (rule sample_created)
  fix dm dm' :: daemon
  assume a: "dm_reachable sample_env sample_pkgs dm'" "ts_tasks (dm_store dm') = [sample_opened (dm_store dm)]"
    "\<exists>g. ts_grants (dm_store dm') = [g] \<and> g_id (is_grant g) = sample_id" "orderly 10 sample_env sample_clocks (ts_audit (dm_store dm'))"
  have dr: "draw_ok sample_env (dm_store dm') later sample_draw" by (rule sample_later [OF a(4,2) _ a(3)]) simp
  have t: "task_named (dm_store dm') (ulid_to_text sample_id) = Some (sample_opened (dm_store dm))" by (simp add: task_named_def a(2))
  have size: "task_bytes (sample_opened (dm_store dm)) \<le> 1400000" using sample_opened_bytes [of "dm_store dm"] by simp
  have ids: "length (live_ids (ts_grants (dm_store dm')) (t_id (sample_opened (dm_store dm)))) \<le> 100000" using a(3) by (auto simp: live_ids_def)
  from exited_closes [OF a(1) dr t _ size ids, of 3 "''completed''"] obtain dm2 out where
    "daemon_step sample_env sample_pkgs sample_draw later dm' (AcMessage (TExited 3 (ulid_to_text sample_id) ''completed'')) = (dm2, Inr out)"
    "(ToAll, FRevoked sample_agent) \<in> set out" "\<exists>t \<in> set (ts_tasks (dm_store dm2)). t_id t = sample_id \<and> t_state t = Closed Completed" by auto
  then show ?thesis using a(3) by (intro exI [of _ dm'] exI [of _ dm2] exI [of _ out]) auto
qed

lemma only_the_compositor_creates_witness:
  "\<exists>(dm :: daemon) (dm' :: daemon). length (ts_grants (dm_store dm)) = 1 \<and> map is_grant (ts_grants (dm_store dm')) = map is_grant (ts_grants (dm_store dm)) \<and>
     daemon_step sample_env sample_pkgs sample_draw later dm (AcMessage (TPauseTask 3 ''none'')) = (dm', Inr (refused 3 ''not_active''))"
proof (rule sample_created)
  fix dm dm' :: daemon
  assume a: "dm_reachable sample_env sample_pkgs dm'" "ts_tasks (dm_store dm') = [sample_opened (dm_store dm)]"
    "\<exists>g. ts_grants (dm_store dm') = [g] \<and> g_id (is_grant g) = sample_id" "orderly 10 sample_env sample_clocks (ts_audit (dm_store dm'))"
  have dr: "draw_ok sample_env (dm_store dm') later sample_draw" by (rule sample_later [OF a(4,2) _ a(3)]) simp
  let ?m = "TPauseTask 3 ''none''"
  have "length (to_encode ?m) \<le> MAX_EMISSION"
    by (rule packet_length, use sample_sizes length_puts(3) [of "''none''"] length_puts(3) [of "''pause_task''"]
      in \<open>simp add: fields_entries_def tagged_def fields_default_def\<close>)
  then have r: "receive RoAgentd (to_encode ?m) = Some (AcMessage ?m)"
    by (intro message_received) (simp_all add: agentd_message_def task_id_ok_def ascii_graphic_def)
  have "length (ulid_to_text sample_id) = 26" by (simp add: ulid_to_text_def Let_def)
  then have "ulid_to_text sample_id \<noteq> ''none''" by auto
  then have "task_named (dm_store dm') ''none'' = None" by (simp add: task_named_def a(2))
  then have st: "daemon_step sample_env sample_pkgs sample_draw later dm' (AcMessage ?m) =
      (\<lparr>dm_store = dm_store dm', dm_dispatch = dm_dispatch dm'\<rparr>, Inr (refused 3 ''not_active''))"
    by (simp add: daemon_step_def answer_def dispatch_pause_def Let_def)
  from only_the_compositor_creates [OF a(1) dr r _ st] show ?thesis using st a(3)
    by (intro exI [of _ dm'] exI [of _ "\<lparr>dm_store = dm_store dm', dm_dispatch = dm_dispatch dm'\<rparr>"]) auto
qed


lemma resume_takes_longer_names_witness:
  "\<exists>(s :: task_store) t. ts_tasks s = [t] \<and> t_principal t = task_principal ''pkg-archive'' [1, 2, 3] \<and> mf_id sample_manifest = ''pkg'' \<and>
     resume_ok sample_env s sample_manifest (ulid_to_text (t_id t)) ''read the page'' = Inr ()"
proof -
  define t where "t = sample_task\<lparr>t_principal := task_principal ''pkg-archive'' [1, 2, 3], t_state := Closed Completed\<rparr>"
  define s where "s = first_store\<lparr>ts_tasks := [t], ts_hashes := (\<lambda>_. Some (te_b3 sample_env (str_bytes ''read the page'')))\<rparr>"
  have "resume_ok sample_env s sample_manifest (ulid_to_text (t_id t)) ''read the page'' = Inr ()"
    by (rule resume_takes_longer_names [where t = t and x = "''archive''" and rnd = "[1, 2, 3]"])
      (simp_all add: s_def t_def task_named_def sample_manifest_def is_resumable_def)
  then show ?thesis by (intro exI [of _ s] exI [of _ t]) (simp add: s_def t_def sample_manifest_def)
qed

end
