(* ===== verification/Policy.thy ===== *)
theory Policy
  imports Manifest Table_Codec
begin

text \<open>
  The policy compiler: \<open>ec-policyd/src/policy.rs\<close>, from the KDL of the policy files to the rules and the
  classifier of an enforcement table, and \<open>recompile\<close> of \<open>main.rs\<close>, which replaces the table that is pushed.
  As in \<open>Manifest\<close> the KDL parser is the argument \<open>kp\<close>, from a text to the nodes of a document or the
  text of a syntax error; \<open>rxlim\<close> is whether the regex crate builds a pattern within its size limit.
  Directories are read by the caller: a directory that cannot be listed is \<open>None\<close>, a file that cannot be
  read carries the text of its error.
\<close>

section \<open>Numbers\<close>

text \<open>A double is kept as its bits. \<open>(0.0..=1.0).contains\<close> holds of both zeros and of no NaN; the
  fraction a double in that range stands for; and \<open>as f32\<close>, to the nearest.\<close>

definition F64_ONE :: f64 where "F64_ONE = 0x3FF0000000000000"
definition F64_NEG_ZERO :: f64 where "F64_NEG_ZERO = 0x8000000000000000"

definition f64_unit :: "f64 \<Rightarrow> bool" where
  "f64_unit b \<longleftrightarrow> b \<le> F64_ONE \<or> b = F64_NEG_ZERO"

definition f64_ratio :: "f64 \<Rightarrow> nat \<times> nat" where
  "f64_ratio b =
    (let x = unat b div 2 ^ 52; m = unat b mod 2 ^ 52 in
     if x = 0 then (m, 2 ^ 1074) else scaled (int x - 1075) 2 (2 ^ 52 + m, 1))"

definition f64_to_f32 :: "f64 \<Rightarrow> f32" where
  "f64_to_f32 b = (if b = F64_NEG_ZERO then 0x80000000 else case f64_ratio b of (n, d) \<Rightarrow> f32_of_ratio n d)"

text \<open>\<open>as_float\<close>, or an integer cast to a double, from 0 to 1: of the integers only 0 and 1 are cast
  into the range.\<close>

fun unit_number :: "kdl_value \<Rightarrow> f64 option" where
  "unit_number (KdFloat b) = (if f64_unit b then Some b else None)"
| "unit_number (KdInt i) = (if i = 0 then Some 0 else if i = 1 then Some F64_ONE else None)"
| "unit_number _ = None"

section \<open>Errors\<close>

record compile_error =
  ce_file :: string
  ce_rule :: "string option"
  ce_what :: string

record compiled =
  cp_rules :: phases
  cp_classifier :: classifier
  cp_not_enforced :: "string list"

text \<open>The text of a message in back quotes, and the ellipsis two messages quote.\<close>

definition ticked :: "string \<Rightarrow> string" where
  "ticked s = CHR 0x60 # s @ [CHR 0x60]"

definition ELLIPSIS :: string where "ELLIPSIS = [CHR 0xE2, CHR 0x80, CHR 0xA6]"

fun class_debug :: "sclass \<Rightarrow> string" where
  "class_debug Public = ''Public''" | "class_debug Private = ''Private''" | "class_debug Secret = ''Secret''"

fun trust_debug :: "trust \<Rightarrow> string" where
  "trust_debug Untrusted = ''Untrusted''" | "trust_debug Standard = ''Standard''"
| "trust_debug Trusted = ''Trusted''" | "trust_debug TrustHuman = ''Human''"

section \<open>Node accessors\<close>

text \<open>The string arguments of a node: arguments of another kind are passed over.\<close>

definition strings :: "kdl_node \<Rightarrow> string list" where
  "strings n = List.map_filter (\<lambda>(k, v). if k = None then as_string v else None) (kd_entries n)"

definition kd_prop :: "kdl_node \<Rightarrow> string \<Rightarrow> kdl_value option" where
  "kd_prop n name = map_option snd (find (\<lambda>(k, _). k = Some name) (kd_entries n))"

text \<open>The first entry, when it is the only one and has no name.\<close>

definition sole_arg :: "kdl_node \<Rightarrow> kdl_value option" where
  "sole_arg n = (case kd_entries n of [(None, v)] \<Rightarrow> Some v | _ \<Rightarrow> None)"

section \<open>Matchers\<close>

definition matcher_globs :: "string \<Rightarrow> kdl_node \<Rightarrow> string + glob list" where
  "matcher_globs what m =
    (if strings m = [] \<or> has_props m
     then Inl (what @ '': '' @ ticked (kd_name m) @ '' takes one or more string arguments'')
     else Inr (map Glob (strings m)))"

definition compile_matcher :: "(regex \<Rightarrow> bool) \<Rightarrow> string \<Rightarrow> kdl_node \<Rightarrow> string + matcher" where
  "compile_matcher rxlim what m =
    (let name = kd_name m; globs = matcher_globs what m in
     if name = ''app_id'' then map_sum id MAppId globs
     else if name = ''url'' then map_sum id MUrl globs
     else if name = ''output'' then map_sum id MOutput globs
     else if name = ''launched_by'' then map_sum id MLaunchedBy globs
     else if name = ''title'' then
       (case strings m of
          [src] \<Rightarrow> if has_props m then Inl (what @ '': '' @ ticked ''title'' @ '' takes one regex argument'')
            else if rxlim src then Inr (MTitle src) else Inl (what @ '': the title regex does not compile'')
        | _ \<Rightarrow> Inl (what @ '': '' @ ticked ''title'' @ '' takes one regex argument''))
     else if name = ''xwayland'' then
       map_sum id MXwayland (ok_or (what @ '': '' @ ticked ''xwayland'' @ '' takes #true or #false'')
         (Option.bind (sole_arg m) as_bool))
     else if name = ''node_role'' \<or> name = ''node_name'' then
       Inl (what @ '': '' @ ticked name @ '' needs the semantic tree (COMP-09), which is not built; the rule is refused rather than compiled without its raise'')
     else if name = ''workspace'' \<or> name = ''pid_exe_hash'' \<or> name = ''path'' then
       Inl (what @ '': '' @ ticked name @ '' is not supported by this build's classifier'')
     else Inl (what @ '': unknown matcher '' @ ticked name))"

definition compile_matchers :: "(regex \<Rightarrow> bool) \<Rightarrow> kdl_node \<Rightarrow> string \<Rightarrow> string + matcher list" where
  "compile_matchers rxlim n what =
    (case kd_children n of
       None \<Rightarrow> Inl (what @ '' needs a matcher block'')
     | Some ms \<Rightarrow> rbind (collect_results (map (compile_matcher rxlim what) ms)) (\<lambda>out.
         if out = [] then Inl (what @ '' needs at least one matcher'') else Inr out))"

definition compile_classify :: "(regex \<Rightarrow> bool) \<Rightarrow> kdl_node \<Rightarrow> string + classify_rule" where
  "compile_classify rxlim n =
     rbind (case strings n of
        [c] \<Rightarrow> ok_or (''classify: unknown class '' @ ticked c) (class_of c)
      | _ \<Rightarrow> Inl ''classify takes one class: classify \"secret\" { ... }'') (\<lambda>class.
     rbind (compile_matchers rxlim n (''classify '' @ class_debug class)) (\<lambda>ms.
       Inr \<lparr>cr_class = class, cr_matchers = ms\<rparr>))"

definition compile_trust :: "(regex \<Rightarrow> bool) \<Rightarrow> kdl_node \<Rightarrow> string + trust_rule" where
  "compile_trust rxlim n =
     rbind (case strings n of
        [t] \<Rightarrow> (case trust_of t of
            None \<Rightarrow> Inl (''trust: '' @ ticked t @ '' is not untrusted, standard or trusted'')
          | Some TrustHuman \<Rightarrow> Inl (''trust: '' @ ticked t @ '' is not untrusted, standard or trusted'')
          | Some l \<Rightarrow> Inr l)
      | _ \<Rightarrow> Inl ''trust takes one level: trust \"trusted\" { ... }'') (\<lambda>trust.
     rbind (compile_matchers rxlim n (''trust '' @ trust_debug trust)) (\<lambda>ms.
       Inr \<lparr>tr_trust = trust, tr_matchers = ms\<rparr>))"

section \<open>Rules\<close>

datatype phase = PhDeny | PhPrompt | PhDefer | PhAllow

definition DEFER_ONLY :: "string list" where
  "DEFER_ONLY = [''time'', ''rate_gt'', ''grant_scope'', ''target_handle'', ''provenance_min_trust'', ''provenance_head'',
     ''provenance_age_gt'', ''provenance_mismatch'', ''egress_bytes_gt'', ''secret_bound_host_mismatch'',
     ''node_credential'', ''terminal_cmd'']"

definition pred_words :: "kdl_node \<Rightarrow> string + string list" where
  "pred_words n =
    (if strings n = [] \<or> has_props n then Inl (ticked (kd_name n) @ '' takes one or more string arguments'')
     else Inr (strings n))"

definition one_re :: "(regex \<Rightarrow> bool) \<Rightarrow> kdl_node \<Rightarrow> string + regex" where
  "one_re rxlim n =
    (case strings n of
       [src] \<Rightarrow> if has_props n then Inl (ticked (kd_name n) @ '' takes one regex argument'')
         else if rxlim src then Inr src else Inl (ticked (kd_name n) @ '': the regex does not compile'')
     | _ \<Rightarrow> Inl (ticked (kd_name n) @ '' takes one regex argument''))"

definition PROVENANCE_USAGE :: string where
  "PROVENANCE_USAGE = ''provenance_contains takes one of trust=\"'' @ ELLIPSIS @ ''\" or source=\"'' @ ELLIPSIS @ ''\"''"

definition compile_provenance :: "kdl_node \<Rightarrow> string + pred" where
  "compile_provenance n =
    (if length (kd_entries n) \<noteq> 1 then Inl PROVENANCE_USAGE
     else case (kd_prop n ''trust'', kd_prop n ''source'') of
       (Some t, None) \<Rightarrow> map_sum id PProvenanceContainsTrust
          (ok_or ''provenance_contains trust= must be a trust level'' (Option.bind (as_string t) trust_of))
     | (None, Some s) \<Rightarrow> map_sum id PProvenanceContainsSource
          (ok_or ''provenance_contains source= must be a string'' (as_string s))
     | _ \<Rightarrow> Inl PROVENANCE_USAGE)"

definition compile_pred :: "(regex \<Rightarrow> bool) \<Rightarrow> kdl_node \<Rightarrow> string + pred" where
  "compile_pred rxlim n =
    (let name = kd_name n; words = pred_words n; globs = map_sum id (map Glob) words; re = one_re rxlim n in
     if name = ''capability'' then map_sum id PCapability globs
     else if name = ''target_class'' then rbind words (\<lambda>cs. map_sum id PTargetClass
       (collect_results (map (\<lambda>c. ok_or (''unknown class '' @ ticked c) (class_of c)) cs)))
     else if name = ''target_app_id'' then map_sum id PTargetAppId globs
     else if name = ''title'' then map_sum id PTitle re
     else if name = ''node_role'' then map_sum id PNodeRole words
     else if name = ''node_name'' then map_sum id PNodeName re
     else if name = ''node_source'' then map_sum id PNodeSource words
     else if name = ''node_confidence_lt'' then map_sum id (\<lambda>v. PNodeConfidenceLt (f64_to_f32 v))
       (ok_or ''node_confidence_lt takes one number from 0 to 1'' (Option.bind (sole_arg n) unit_number))
     else if name = ''irreversible'' then map_sum id PIrreversible globs
     else if name = ''url'' then map_sum id PUrl globs
     else if name = ''principal'' then map_sum id PPrincipal globs
     else if name = ''principal_profile'' then map_sum id PPrincipalProfile words
     else if name = ''app_trust'' then rbind words (\<lambda>ts. map_sum id PAppTrust
       (collect_results (map (\<lambda>t. ok_or (''unknown trust '' @ ticked t) (trust_of t)) ts)))
     else if name = ''app_irreversible_capable'' then map_sum id PAppIrreversibleCapable
       (ok_or ''app_irreversible_capable takes #true or #false'' (Option.bind (sole_arg n) as_bool))
     else if name = ''provenance_contains'' then compile_provenance n
     else if name = ''provenance_absent'' then
       (if kd_entries n \<noteq> [] then Inl ''provenance_absent takes no arguments'' else Inr PProvenanceAbsent)
     else if name \<in> set DEFER_ONLY then
       Inl (ticked name @ '' is not supported in this build's enforcement table; the rule is refused rather than compiled without it'')
     else Inl (''unknown predicate '' @ ticked name))"

definition grant_has :: "kdl_node \<Rightarrow> string + unless" where
  "grant_has g =
    (if kd_name g \<noteq> ''grant_has''
     then Inl (''unless may only test grant facts (grant_has), not '' @ ticked (kd_name g))
     else rbind (case kd_prop g ''unattended'' of None \<Rightarrow> Inr False
         | Some v \<Rightarrow> ok_or ''unattended must be #true or #false'' (as_bool v)) (\<lambda>unattended.
       case strings g of
         [cap] \<Rightarrow> if 2 < length (kd_entries g) then Inl ''grant_has takes one capability and an optional unattended=''
           else Inr \<lparr>un_capability = cap, un_unattended = unattended\<rparr>
       | _ \<Rightarrow> Inl ''grant_has takes one capability and an optional unattended=''))"

definition compile_unless :: "kdl_node \<Rightarrow> string + unless list" where
  "compile_unless n =
    (case kd_children n of
       None \<Rightarrow> Inl ''unless takes a block: unless { grant_has \"<cap>\" }''
     | Some gs \<Rightarrow> collect_results (map grant_has gs))"

text \<open>One child of a rule: an \<open>unless\<close> block or a predicate.\<close>

definition rule_part :: "(regex \<Rightarrow> bool) \<Rightarrow> kdl_node \<Rightarrow> pred list \<times> unless list \<Rightarrow> string + pred list \<times> unless list" where
  "rule_part rxlim p = (\<lambda>(preds, unls).
     if kd_name p = ''unless'' then rbind (compile_unless p) (\<lambda>us. Inr (preds, unls @ us))
     else rbind (compile_pred rxlim p) (\<lambda>q. Inr (preds @ [q], unls)))"

definition phase_of :: "kdl_value \<Rightarrow> phase option" where
  "phase_of v =
    (case as_string v of
       None \<Rightarrow> None
     | Some s \<Rightarrow> if s = ''deny'' then Some PhDeny else if s = ''prompt'' then Some PhPrompt
         else if s = ''defer'' then Some PhDefer else if s = ''allow'' then Some PhAllow else None)"

definition rule_args :: "kdl_node \<Rightarrow> kdl_value list" where
  "rule_args n = map snd (filter (\<lambda>(k, _). k = None) (kd_entries n))"

text \<open>The first argument of a rule, a string that is not empty.\<close>

definition rule_id :: "kdl_node \<Rightarrow> string option" where
  "rule_id n = (case rule_args n of
     v # _ \<Rightarrow> (case as_string v of Some s \<Rightarrow> if s = [] then None else Some s | None \<Rightarrow> None) | [] \<Rightarrow> None)"

definition compile_rule :: "(regex \<Rightarrow> bool) \<Rightarrow> kdl_node \<Rightarrow> (string option \<times> string) + (phase \<times> compiled_rule)" where
  "compile_rule rxlim n =
     rbind (ok_or (None, ''a rule needs an id: rule \"<id>\" <phase> { ... }'') (rule_id n)) (\<lambda>i.
     let e = (\<lambda>what. (Some i, what)) in
     if length (rule_args n) \<noteq> 2 \<or> has_props n then Inl (e ''a rule takes exactly an id and a phase'')
     else rbind (ok_or (e ''phase must be deny, prompt, defer or allow'') (phase_of (rule_args n ! 1))) (\<lambda>phase.
     case kd_children n of
       None \<Rightarrow> Inl (e ''a rule needs a predicate block'')
     | Some ps \<Rightarrow> rbind (map_err e (rfold (rule_part rxlim) ps ([], []))) (\<lambda>(preds, unls).
         if preds = [] then
           Inl (e ''a rule needs at least one predicate; write capability \"*\" to match everything'')
         else Inr (phase, \<lparr>r_id = i, r_preds = preds, r_unless = unls\<rparr>))))"

section \<open>Files\<close>

definition phases_rules :: "phases \<Rightarrow> compiled_rule list" where
  "phases_rules p = ph_deny p @ ph_prompt p @ ph_defer p @ ph_allow p"

definition push_rule :: "phase \<Rightarrow> compiled_rule \<Rightarrow> phases \<Rightarrow> phases" where
  "push_rule ph r p =
    (case ph of PhDeny \<Rightarrow> p\<lparr>ph_deny := ph_deny p @ [r]\<rparr> | PhPrompt \<Rightarrow> p\<lparr>ph_prompt := ph_prompt p @ [r]\<rparr>
     | PhDefer \<Rightarrow> p\<lparr>ph_defer := ph_defer p @ [r]\<rparr> | PhAllow \<Rightarrow> p\<lparr>ph_allow := ph_allow p @ [r]\<rparr>)"

definition not_enforced :: "string \<Rightarrow> string \<Rightarrow> compiled \<Rightarrow> compiled" where
  "not_enforced file what c = c\<lparr>cp_not_enforced := cp_not_enforced c @ [file @ '': '' @ what @ '' parsed, not yet enforced'']\<rparr>"

definition default_node :: "string \<Rightarrow> kdl_node \<Rightarrow> compiled \<Rightarrow> compile_error + compiled" where
  "default_node file d c =
    (if kd_name d = ''sensitivity'' then
       (if strings d = [''private''] then Inr (c\<lparr>cp_classifier := (cp_classifier c)\<lparr>cl_default := Private\<rparr>\<rparr>)
        else if strings d = [''secret''] then Inr (c\<lparr>cp_classifier := (cp_classifier c)\<lparr>cl_default := Secret\<rparr>\<rparr>)
        else Inl \<lparr>ce_file = file, ce_rule = None,
          ce_what = ''defaults sensitivity must be \"private\" or \"secret\"; only a classify \"public\" rule makes something public''\<rparr>)
     else Inr (not_enforced file (''defaults '' @ ticked (kd_name d)) c))"

definition compile_node :: "(regex \<Rightarrow> bool) \<Rightarrow> string \<Rightarrow> kdl_node \<Rightarrow> compiled \<Rightarrow> compile_error + compiled" where
  "compile_node rxlim file n c =
    (let err = (\<lambda>r what. \<lparr>ce_file = file, ce_rule = r, ce_what = what\<rparr>); name = kd_name n in
     if name = ''rule'' then
       rbind (map_err (\<lambda>(r, what). err r what) (compile_rule rxlim n)) (\<lambda>(ph, r).
         if list_ex (\<lambda>q. r_id q = r_id r) (phases_rules (cp_rules c))
         then Inl (err (Some (r_id r)) ''duplicate rule id'')
         else Inr (c\<lparr>cp_rules := push_rule ph r (cp_rules c)\<rparr>))
     else if name = ''classify'' then
       rbind (map_err (err None) (compile_classify rxlim n)) (\<lambda>r.
         Inr (c\<lparr>cp_classifier := (cp_classifier c)\<lparr>cl_classify := cl_classify (cp_classifier c) @ [r]\<rparr>\<rparr>))
     else if name = ''trust'' then
       rbind (map_err (err None) (compile_trust rxlim n)) (\<lambda>r.
         Inr (c\<lparr>cp_classifier := (cp_classifier c)\<lparr>cl_trust := cl_trust (cp_classifier c) @ [r]\<rparr>\<rparr>))
     else if name = ''defaults'' then rfold (default_node file) (kd_nodes n) c
     else if name \<in> set [''irreversible'', ''profile'', ''dedupe_exclude'', ''trusted_endpoint''] then
       Inr (not_enforced file (ticked name) c)
     else Inl (err None (''unknown node '' @ ticked name)))"

definition compiled_new :: compiled where
  "compiled_new = \<lparr>cp_rules = phases_default, cp_classifier = classifier_default, cp_not_enforced = []\<rparr>"

definition compile_file ::
  "(regex \<Rightarrow> bool) \<Rightarrow> (string \<Rightarrow> string + kdl_node list) \<Rightarrow> string \<times> string \<Rightarrow> compiled \<Rightarrow> compile_error + compiled" where
  "compile_file rxlim kp = (\<lambda>(file, text) c.
     case kp text of
       Inl e \<Rightarrow> Inl \<lparr>ce_file = file, ce_rule = None, ce_what = ''not KDL: '' @ e\<rparr>
     | Inr nodes \<Rightarrow> rfold (compile_node rxlim file) nodes c)"

definition policy_compile ::
  "(regex \<Rightarrow> bool) \<Rightarrow> (string \<Rightarrow> string + kdl_node list) \<Rightarrow> (string \<times> string) list \<Rightarrow> compile_error + compiled" where
  "policy_compile rxlim kp files = rfold (compile_file rxlim kp) files compiled_new"

definition policy_table :: "compiled \<Rightarrow> u64 \<Rightarrow> table" where
  "policy_table c v = \<lparr>tb_version = v, tb_rules = cp_rules c, tb_classifier = cp_classifier c\<rparr>"

section \<open>Reading\<close>

text \<open>A directory as \<open>read\<close> sees it: the entries with their names and contents, in the order the file
  system lists them. The extension of a name is what follows its last dot, unless the dot comes first.\<close>

type_synonym policy_dir = "(string \<times> (string + string)) list option"

definition extension :: "string \<Rightarrow> string option" where
  "extension name =
    (let after = rev (takeWhile (\<lambda>c. c \<noteq> CHR ''.'') (rev name)) in
     if length after + 1 < length name then Some after else None)"

definition read_file :: "string \<times> (string + string) \<Rightarrow> compile_error + string \<times> string" where
  "read_file = (\<lambda>(path, r). case r of
     Inl e \<Rightarrow> Inl \<lparr>ce_file = path, ce_rule = None, ce_what = ''cannot read: '' @ e\<rparr>
   | Inr text \<Rightarrow> Inr (path, text))"

definition policy_read :: "(string \<times> policy_dir) list \<Rightarrow> compile_error + (string \<times> string) list" where
  "policy_read dirs =
     collect_results (concat (map (\<lambda>(dir, rd). case rd of None \<Rightarrow> []
       | Some es \<Rightarrow> map (\<lambda>(name, r). read_file (dir @ ''/'' @ name, r))
           (sort_key (\<lambda>(name, _). str_bytes name) (filter (\<lambda>(name, _). extension name = Some ''kdl'') es))) dirs))"

definition policy_load :: "string \<Rightarrow> (string \<times> policy_dir) list \<Rightarrow> compile_error + (string \<times> string) list" where
  "policy_load default_policy dirs =
     rbind (policy_read dirs) (\<lambda>files.
       Inr (if files = [] then [(''<default policy>'', default_policy)] else files))"

section \<open>Pushing\<close>

text \<open>\<open>Push\<close>, without its connections: what each of them is sent is the new message.\<close>

record push =
  pu_table :: "byte list option"
  pu_version :: u64

definition recompile ::
  "(regex \<Rightarrow> bool) \<Rightarrow> (string \<Rightarrow> string + kdl_node list) \<Rightarrow> string \<Rightarrow> (byte list \<Rightarrow> byte list) \<Rightarrow>
   (string \<times> policy_dir) list \<Rightarrow> u64 \<Rightarrow> push \<Rightarrow> push" where
  "recompile rxlim kp default_policy sign dirs now p =
    (case rbind (policy_load default_policy dirs) (policy_compile rxlim kp) of
       Inl _ \<Rightarrow> p
     | Inr c \<Rightarrow>
         (let version = max now (pu_version p + 1);
              bytes = table_encode (policy_table c version)
          in if MAX_MESSAGE < length bytes + 128 then p
             else \<lparr>pu_table = Some (from_encode (FTable bytes (sign (table_message bytes)))), pu_version = version\<rparr>))"

end
