(* ===== verification/Policy_Laws.thy ===== *)
theory Policy_Laws
  imports Policy Manifest_Laws
begin

text \<open>
  What a policy compiles to: ids are unique and every rule and matcher is well formed (\<open>compiled_ok\<close>), files
  that follow others only add (\<open>extends\<close>), and no line of a file is left out (\<open>carried\<close>).
\<close>

section \<open>Loops\<close>

lemma rfold_append: "rfold f (xs @ ys) s = rbind (rfold f xs s) (rfold f ys)"
proof (induction xs arbitrary: s)
  case (Cons x xs)
  then show ?case by (cases "f x s") simp_all
qed simp

lemma map_sum_id_Inr [simp]: "map_sum id h x = Inr b \<longleftrightarrow> (\<exists>a. x = Inr a \<and> b = h a)"
  by (rule map_sum_Inr)

section \<open>What a rule compiles to\<close>

fun pred_ok :: "(regex \<Rightarrow> bool) \<Rightarrow> pred \<Rightarrow> bool" where
  "pred_ok rxlim (PTitle re) = rxlim re"
| "pred_ok rxlim (PNodeName re) = rxlim re"
| "pred_ok rxlim (PCapability g) = (g \<noteq> [])"
| "pred_ok rxlim (PTargetClass c) = (c \<noteq> [])"
| "pred_ok rxlim (PTargetAppId g) = (g \<noteq> [])"
| "pred_ok rxlim (PNodeRole r) = (r \<noteq> [])"
| "pred_ok rxlim (PNodeSource s) = (s \<noteq> [])"
| "pred_ok rxlim (PIrreversible g) = (g \<noteq> [])"
| "pred_ok rxlim (PUrl g) = (g \<noteq> [])"
| "pred_ok rxlim (PPrincipal g) = (g \<noteq> [])"
| "pred_ok rxlim (PPrincipalProfile p) = (p \<noteq> [])"
| "pred_ok rxlim (PAppTrust t) = (t \<noteq> [])"
| "pred_ok rxlim _ = True"

definition rule_ok :: "(regex \<Rightarrow> bool) \<Rightarrow> compiled_rule \<Rightarrow> bool" where
  "rule_ok rxlim r \<longleftrightarrow> r_id r \<noteq> [] \<and> r_preds r \<noteq> [] \<and> (\<forall>p \<in> set (r_preds r). pred_ok rxlim p)"

fun matcher_ok :: "(regex \<Rightarrow> bool) \<Rightarrow> matcher \<Rightarrow> bool" where
  "matcher_ok rxlim (MTitle re) = rxlim re"
| "matcher_ok rxlim (MXwayland _) = True"
| "matcher_ok rxlim (MAppId g) = (g \<noteq> [])"
| "matcher_ok rxlim (MUrl g) = (g \<noteq> [])"
| "matcher_ok rxlim (MOutput g) = (g \<noteq> [])"
| "matcher_ok rxlim (MLaunchedBy g) = (g \<noteq> [])"

definition matchers_ok :: "(regex \<Rightarrow> bool) \<Rightarrow> matcher list \<Rightarrow> bool" where
  "matchers_ok rxlim ms \<longleftrightarrow> ms \<noteq> [] \<and> (\<forall>m \<in> set ms. matcher_ok rxlim m)"

definition classifier_ok :: "(regex \<Rightarrow> bool) \<Rightarrow> classifier \<Rightarrow> bool" where
  "classifier_ok rxlim c \<longleftrightarrow> cl_default c \<noteq> Public \<and>
     (\<forall>r \<in> set (cl_classify c). matchers_ok rxlim (cr_matchers r)) \<and>
     (\<forall>r \<in> set (cl_trust c). tr_trust r \<noteq> TrustHuman \<and> matchers_ok rxlim (tr_matchers r))"

text \<open>The invariant of a compilation: ids are unique over all phases, every rule is a rule, and the
  classifier is one the wire accepts.\<close>

definition compiled_ok :: "(regex \<Rightarrow> bool) \<Rightarrow> compiled \<Rightarrow> bool" where
  "compiled_ok rxlim c \<longleftrightarrow> distinct (map r_id (phases_rules (cp_rules c))) \<and>
     (\<forall>r \<in> set (phases_rules (cp_rules c)). rule_ok rxlim r) \<and> classifier_ok rxlim (cp_classifier c)"

lemma pred_words_nonempty: "pred_words n = Inr ws \<Longrightarrow> ws \<noteq> []"
  by (auto simp: pred_words_def split: if_splits)

lemma one_re_ok: "one_re rxlim n = Inr re \<Longrightarrow> rxlim re"
  by (auto simp: one_re_def split: list.splits if_splits)

lemma collect_results_length: "collect_results (map f xs) = Inr ys \<Longrightarrow> length ys = length xs"
  using collect_results_map [of f xs ys] by (metis length_map)

lemma collected_nonempty: "collect_results (map f xs) = Inr ys \<Longrightarrow> xs \<noteq> [] \<Longrightarrow> ys \<noteq> []"
  using collect_results_length by fastforce

lemma compile_provenance_ok: "compile_provenance n = Inr p \<Longrightarrow> pred_ok rxlim p"
  by (auto simp: compile_provenance_def split: if_splits option.splits)

lemma compile_pred_ok: "compile_pred rxlim n = Inr p \<Longrightarrow> pred_ok rxlim p"
  unfolding compile_pred_def Let_def
  by (auto simp: rbind_Inr_iff dest: pred_words_nonempty one_re_ok collected_nonempty compile_provenance_ok
      split: if_splits)

lemma rule_part_ok:
  "rule_part rxlim n (ps, us) = Inr (ps', us') \<Longrightarrow> \<forall>p \<in> set ps. pred_ok rxlim p \<Longrightarrow> \<forall>p \<in> set ps'. pred_ok rxlim p"
  by (auto simp: rule_part_def rbind_Inr_iff dest: compile_pred_ok split: if_splits)

lemma compile_rule_ok: "compile_rule rxlim n = Inr (ph, r) \<Longrightarrow> rule_ok rxlim r"
proof -
  assume "compile_rule rxlim n = Inr (ph, r)"
  then obtain i ps preds us where n: "rule_id n = Some i" "rfold (rule_part rxlim) ps ([], []) = Inr (preds, us)"
      "preds \<noteq> []" "r = \<lparr>r_id = i, r_preds = preds, r_unless = us\<rparr>"
    by (auto simp: compile_rule_def Let_def rbind_Inr_iff split: if_splits option.splits)
  have "\<forall>p \<in> set (fst (preds, us)). pred_ok rxlim p"
    by (rule rfold_inv [where P = "\<lambda>(ps, us). \<forall>p \<in> set ps. pred_ok rxlim p", OF _ n(2), simplified case_prod_beta])
      (auto dest: rule_part_ok)
  moreover have "i \<noteq> []" using n(1) by (auto simp: rule_id_def split: list.splits option.splits if_splits)
  ultimately show ?thesis using n(3,4) by (simp add: rule_ok_def)
qed

lemma compile_matcher_ok: "compile_matcher rxlim what n = Inr m \<Longrightarrow> matcher_ok rxlim m"
  unfolding compile_matcher_def Let_def
  by (auto simp: matcher_globs_def split: if_splits list.splits)

lemma compile_matchers_ok: "compile_matchers rxlim n what = Inr ms \<Longrightarrow> matchers_ok rxlim ms"
  by (auto simp: compile_matchers_def matchers_ok_def rbind_Inr_iff dest!: collect_results_Inr_set
      dest: compile_matcher_ok split: option.splits if_splits)

lemma compile_trust_not_human: "compile_trust rxlim n = Inr r \<Longrightarrow> tr_trust r \<noteq> TrustHuman \<and> matchers_ok rxlim (tr_matchers r)"
  by (auto simp: compile_trust_def rbind_Inr_iff dest: compile_matchers_ok split: list.splits option.splits trust.splits)

lemma compile_classify_ok: "compile_classify rxlim n = Inr r \<Longrightarrow> matchers_ok rxlim (cr_matchers r)"
  by (auto simp: compile_classify_def rbind_Inr_iff dest: compile_matchers_ok)

section \<open>The invariant\<close>

lemma push_rule_rules: "set (phases_rules (push_rule ph r p)) = insert r (set (phases_rules p))"
  by (cases ph) (auto simp: push_rule_def phases_rules_def)

lemma push_rule_ids:
  "distinct (map r_id (phases_rules (push_rule ph r p))) \<longleftrightarrow>
   distinct (map r_id (phases_rules p)) \<and> (\<forall>q \<in> set (phases_rules p). r_id q \<noteq> r_id r)"
proof -
  have "mset (phases_rules (push_rule ph r p)) = mset (r # phases_rules p)"
    by (cases ph) (simp_all add: push_rule_def phases_rules_def)
  then have "mset (map r_id (phases_rules (push_rule ph r p))) = mset (map r_id (r # phases_rules p))"
    by (simp only: mset_map)
  then have "distinct (map r_id (phases_rules (push_rule ph r p))) = distinct (map r_id (r # phases_rules p))"
    by (rule mset_eq_imp_distinct_iff)
  then show ?thesis by (auto simp: image_iff simp del: distinct_map intro: sym)
qed

lemma default_node_cases:
  assumes "default_node file d c = Inr c'"
  obtains (Sensitivity) k where "k \<noteq> Public" "c' = c\<lparr>cp_classifier := (cp_classifier c)\<lparr>cl_default := k\<rparr>\<rparr>"
    | (Other) "c' = not_enforced file (''defaults '' @ ticked (kd_name d)) c"
proof (cases "kd_name d = ''sensitivity''")
  case True
  show thesis
  proof (cases "strings d = [''private'']")
    case p: True
    have "c' = c\<lparr>cp_classifier := (cp_classifier c)\<lparr>cl_default := Private\<rparr>\<rparr>"
      using assms unfolding default_node_def if_P [OF True] if_P [OF p] by (simp only: sum.inject)
    then show thesis using Sensitivity [of Private] by simp
  next
    case p: False
    have "c' = c\<lparr>cp_classifier := (cp_classifier c)\<lparr>cl_default := Secret\<rparr>\<rparr>"
    proof (cases "strings d = [''secret'']")
      case q: True
      show ?thesis using assms unfolding default_node_def if_P [OF True] if_not_P [OF p] if_P [OF q] by (simp only: sum.inject)
    next
      case q: False
      show ?thesis using assms unfolding default_node_def if_P [OF True] if_not_P [OF p] if_not_P [OF q] by (simp only: sum.distinct)
    qed
    then show thesis using Sensitivity [of Secret] by simp
  qed
next
  case False
  have "c' = not_enforced file (''defaults '' @ ticked (kd_name d)) c"
    using assms unfolding default_node_def if_not_P [OF False] by (simp only: sum.inject)
  then show thesis by (rule Other)
qed

lemma default_node_ok:
  assumes "default_node file d c = Inr c'" and "compiled_ok rxlim c"
  shows "compiled_ok rxlim c'"
  using assms(1)
proof (cases rule: default_node_cases)
  case (Sensitivity k)
  then show ?thesis using assms(2) by (simp add: compiled_ok_def classifier_ok_def)
next
  case Other
  then show ?thesis using assms(2) by (simp add: compiled_ok_def not_enforced_def)
qed

lemma compile_node_cases:
  assumes "compile_node rxlim file n c = Inr c'"
  obtains (Rule) ph r where "kd_name n = ''rule''" "compile_rule rxlim n = Inr (ph, r)"
      "\<forall>q \<in> set (phases_rules (cp_rules c)). r_id q \<noteq> r_id r" "c' = c\<lparr>cp_rules := push_rule ph r (cp_rules c)\<rparr>"
    | (Classify) r where "kd_name n = ''classify''" "compile_classify rxlim n = Inr r"
      "c' = c\<lparr>cp_classifier := (cp_classifier c)\<lparr>cl_classify := cl_classify (cp_classifier c) @ [r]\<rparr>\<rparr>"
    | (Trust) r where "kd_name n = ''trust''" "compile_trust rxlim n = Inr r"
      "c' = c\<lparr>cp_classifier := (cp_classifier c)\<lparr>cl_trust := cl_trust (cp_classifier c) @ [r]\<rparr>\<rparr>"
    | (Defaults) "kd_name n = ''defaults''" "rfold (default_node file) (kd_nodes n) c = Inr c'"
    | (Other) "kd_name n \<in> set [''irreversible'', ''profile'', ''dedupe_exclude'', ''trusted_endpoint'']"
      "c' = not_enforced file (ticked (kd_name n)) c"
proof -
  consider "kd_name n = ''rule''" | "kd_name n = ''classify''" | "kd_name n = ''trust''" | "kd_name n = ''defaults''"
    | "kd_name n \<notin> set [''rule'', ''classify'', ''trust'', ''defaults'']" by auto
  then show thesis
  proof cases
    case 1
    then obtain ph r where "compile_rule rxlim n = Inr (ph, r)" "\<not> list_ex (\<lambda>q. r_id q = r_id r) (phases_rules (cp_rules c))"
        "c' = c\<lparr>cp_rules := push_rule ph r (cp_rules c)\<rparr>"
      using assms by (auto simp: compile_node_def Let_def rbind_Inr_iff split: if_splits)
    with 1 show thesis by (intro Rule) (auto simp: list_ex_iff)
  next
    case 2
    then show thesis using assms by (auto simp: compile_node_def Let_def rbind_Inr_iff intro: Classify)
  next
    case 3
    then show thesis using assms by (auto simp: compile_node_def Let_def rbind_Inr_iff intro: Trust)
  next
    case 4
    then show thesis using assms by (auto simp: compile_node_def Let_def intro: Defaults)
  next
    case 5
    then show thesis using assms by (auto simp: compile_node_def Let_def split: if_splits intro: Other)
  qed
qed

lemma compile_node_ok:
  assumes "compile_node rxlim file n c = Inr c'" and "compiled_ok rxlim c"
  shows "compiled_ok rxlim c'"
  using assms(1)
proof (cases rule: compile_node_cases)
  case (Rule ph r)
  then show ?thesis using assms(2) compile_rule_ok [OF Rule(2)] by (auto simp: compiled_ok_def push_rule_rules push_rule_ids)
next
  case (Classify r)
  then show ?thesis using assms(2) compile_classify_ok [OF Classify(2)] by (auto simp: compiled_ok_def classifier_ok_def)
next
  case (Trust r)
  then show ?thesis using assms(2) compile_trust_not_human [OF Trust(2)] by (auto simp: compiled_ok_def classifier_ok_def)
next
  case Defaults
  show ?thesis by (rule rfold_inv [where P = "compiled_ok rxlim", OF _ Defaults(2) assms(2)]) (rule default_node_ok)
next
  case Other
  then show ?thesis using assms(2) by (simp add: compiled_ok_def not_enforced_def)
qed

lemma compile_file_ok: "compile_file rxlim kp f c = Inr c' \<Longrightarrow> compiled_ok rxlim c \<Longrightarrow> compiled_ok rxlim c'"
proof -
  have r: "rfold (compile_node rxlim path) ns c = Inr c' \<Longrightarrow> compiled_ok rxlim c \<Longrightarrow> compiled_ok rxlim c'" for path ns
    by (rule rfold_inv [where P = "compiled_ok rxlim"]) (rule compile_node_ok)
  show "compile_file rxlim kp f c = Inr c' \<Longrightarrow> compiled_ok rxlim c \<Longrightarrow> compiled_ok rxlim c'"
    by (auto simp: compile_file_def split: prod.splits sum.splits intro: r)
qed

lemma compiled_new_ok: "compiled_ok rxlim compiled_new"
  by (simp add: compiled_ok_def compiled_new_def phases_default_def classifier_default_def phases_rules_def classifier_ok_def)

lemma policy_compile_ok: "policy_compile rxlim kp files = Inr c \<Longrightarrow> compiled_ok rxlim c"
  unfolding policy_compile_def
  by (rule rfold_inv [where P = "compiled_ok rxlim", OF _ _ compiled_new_ok]) (rule compile_file_ok)

section \<open>Files after files\<close>

definition phase_rules :: "phase \<Rightarrow> phases \<Rightarrow> compiled_rule list" where
  "phase_rules ph p = (case ph of PhDeny \<Rightarrow> ph_deny p | PhPrompt \<Rightarrow> ph_prompt p | PhDefer \<Rightarrow> ph_defer p | PhAllow \<Rightarrow> ph_allow p)"

lemma phase_rules_push: "phase_rules q (push_rule ph r p) = phase_rules q p @ (if q = ph then [r] else [])"
  by (cases q; cases ph) (simp_all add: phase_rules_def push_rule_def)

text \<open>Compiling more only adds at the end of the lists: \<open>extends c c'\<close>.\<close>

definition extends :: "compiled \<Rightarrow> compiled \<Rightarrow> bool" where
  "extends c c' \<longleftrightarrow> (\<forall>ph. \<exists>rs. phase_rules ph (cp_rules c') = phase_rules ph (cp_rules c) @ rs) \<and>
     (\<exists>ks. cl_classify (cp_classifier c') = cl_classify (cp_classifier c) @ ks) \<and>
     (\<exists>ts. cl_trust (cp_classifier c') = cl_trust (cp_classifier c) @ ts)"

lemma extends_refl [simp]: "extends c c" by (simp add: extends_def)

lemma extends_trans: "extends a b \<Longrightarrow> extends b c \<Longrightarrow> extends a c"
  unfolding extends_def by (metis (no_types, lifting) append_assoc)

lemma default_node_extends: "default_node file d c = Inr c' \<Longrightarrow> extends c c'"
  by (erule default_node_cases) (simp_all add: not_enforced_def extends_def)

lemma rfold_extends:
  assumes "\<And>x s s'. f x s = Inr s' \<Longrightarrow> extends s s'" and "rfold f xs c = Inr c'"
  shows "extends c c'"
  by (rule rfold_inv [where P = "extends c", OF _ assms(2)]) (auto intro: extends_trans assms(1))

lemma compile_node_extends:
  assumes "compile_node rxlim file n c = Inr c'"
  shows "extends c c'"
  using assms
proof (cases rule: compile_node_cases)
  case (Rule ph r)
  then show ?thesis by (simp add: extends_def phase_rules_push)
next
  case Defaults
  show ?thesis by (rule rfold_extends [OF _ Defaults(2)]) (rule default_node_extends)
qed (simp_all add: extends_def not_enforced_def)

lemma compile_file_extends: "compile_file rxlim kp f c = Inr c' \<Longrightarrow> extends c c'"
  by (auto simp: compile_file_def split: prod.splits sum.splits intro: rfold_extends compile_node_extends)

text \<open>A compilation of files and more files: the first part compiles, and the rest only adds.\<close>

lemma policy_compile_append:
  assumes "policy_compile rxlim kp (fs @ gs) = Inr c"
  obtains c0 where "policy_compile rxlim kp fs = Inr c0" "extends c0 c"
proof -
  from assms obtain c0 where c0: "policy_compile rxlim kp fs = Inr c0" "rfold (compile_file rxlim kp) gs c0 = Inr c"
    by (auto simp: policy_compile_def rfold_append rbind_Inr_iff)
  have "extends c0 c" by (rule rfold_extends [OF _ c0(2)]) (rule compile_file_extends)
  with c0(1) show thesis by (rule that)
qed

lemma extends_hit:
  "extends c c' \<Longrightarrow> hit rx ctx (phase_rules ph (cp_rules c)) \<Longrightarrow> hit rx ctx (phase_rules ph (cp_rules c'))"
  unfolding extends_def hit_def by (metis Un_iff set_append)

text \<open>How far an outcome is from running: \<open>Allow\<close> runs, \<open>Deny\<close> never does.\<close>

fun strictness :: "outcome \<Rightarrow> nat" where
  "strictness Allow = 0" | "strictness Defer = 1" | "strictness Prompt = 2" | "strictness Deny = 3"

lemma check_by_phases:
  "d_outcome (check rx (policy_table c v) ctx) =
    (if hard ctx \<noteq> None \<or> hit rx ctx (phase_rules PhDeny (cp_rules c)) then Deny
     else if hit rx ctx (phase_rules PhPrompt (cp_rules c)) then Prompt
     else if hit rx ctx (phase_rules PhDefer (cp_rules c)) then Defer
     else if hit rx ctx (phase_rules PhAllow (cp_rules c)) then Allow
     else Deny)"
  by (simp add: check_outcome_eq policy_table_def phase_rules_def)

lemma extends_no_laxer:
  assumes "extends c c'" and "\<exists>ph. hit rx ctx (phase_rules ph (cp_rules c))"
  shows "strictness (d_outcome (check rx (policy_table c v) ctx)) \<le> strictness (d_outcome (check rx (policy_table c' v') ctx))"
proof -
  have h: "hit rx ctx (phase_rules ph (cp_rules c)) \<Longrightarrow> hit rx ctx (phase_rules ph (cp_rules c'))" for ph
    by (rule extends_hit [OF assms(1)])
  from assms(2) obtain ph where "hit rx ctx (phase_rules ph (cp_rules c))" by blast
  then show ?thesis
    unfolding check_by_phases using h by (cases ph) auto
qed


section \<open>No line is skipped\<close>

lemma rfold_visits:
  assumes "rfold f xs s = Inr s'" and "x \<in> set xs" and "\<And>x s s'. f x s = Inr s' \<Longrightarrow> extends s s'"
  obtains s1 s2 where "f x s1 = Inr s2" "extends s2 s'"
proof -
  from assms(2) obtain ys zs where x: "xs = ys @ x # zs" by (meson split_list)
  with assms(1) obtain s1 s2 where "f x s1 = Inr s2" "rfold f zs s2 = Inr s'"
    by (auto simp: rfold_append rbind_Inr_iff)
  then show thesis using rfold_extends [OF assms(3)] by (intro that) auto
qed

lemma extends_mem: "extends c c' \<Longrightarrow> r \<in> set (phase_rules ph (cp_rules c)) \<Longrightarrow> r \<in> set (phase_rules ph (cp_rules c'))"
  unfolding extends_def by (metis Un_iff set_append)

definition unless_nodes :: "kdl_node list \<Rightarrow> kdl_node list" where
  "unless_nodes ps = filter (\<lambda>p. kd_name p = ''unless'') ps"

definition pred_nodes :: "kdl_node list \<Rightarrow> kdl_node list" where
  "pred_nodes ps = filter (\<lambda>p. kd_name p \<noteq> ''unless'') ps"

lemma rule_parts:
  "rfold (rule_part rxlim) ns (ps, us) = Inr (ps', us') \<Longrightarrow>
   \<exists>qs vss. ps' = ps @ qs \<and> us' = us @ concat vss \<and> map (compile_pred rxlim) (pred_nodes ns) = map Inr qs \<and>
     map compile_unless (unless_nodes ns) = map Inr vss"
proof (induction ns arbitrary: ps us)
  case Nil
  then show ?case by (simp add: pred_nodes_def unless_nodes_def)
next
  case (Cons n ns)
  then obtain ps1 us1 where st: "rule_part rxlim n (ps, us) = Inr (ps1, us1)" "rfold (rule_part rxlim) ns (ps1, us1) = Inr (ps', us')"
    by (auto simp: rbind_Inr_iff)
  from Cons.IH [OF st(2)] obtain qs vss where i: "ps' = ps1 @ qs" "us' = us1 @ concat vss"
      "map (compile_pred rxlim) (pred_nodes ns) = map Inr qs" "map compile_unless (unless_nodes ns) = map Inr vss" by blast
  show ?case
  proof (cases "kd_name n = ''unless''")
    case True
    with st(1) obtain vs where "compile_unless n = Inr vs" "ps1 = ps" "us1 = us @ vs" by (auto simp: rule_part_def rbind_Inr_iff)
    with i True show ?thesis
      by (intro exI [of _ qs] exI [of _ "vs # vss"]) (simp add: pred_nodes_def unless_nodes_def)
  next
    case False
    with st(1) obtain q where "compile_pred rxlim n = Inr q" "ps1 = ps @ [q]" "us1 = us" by (auto simp: rule_part_def rbind_Inr_iff)
    with i False show ?thesis
      by (intro exI [of _ "q # qs"] exI [of _ vss]) (simp add: pred_nodes_def unless_nodes_def)
  qed
qed

text \<open>A rule that was compiled from a node: every child is in it.\<close>

definition rule_of_node :: "(regex \<Rightarrow> bool) \<Rightarrow> kdl_node \<Rightarrow> phase \<Rightarrow> compiled_rule \<Rightarrow> bool" where
  "rule_of_node rxlim n ph r \<longleftrightarrow> rule_id n = Some (r_id r) \<and> phase_of (rule_args n ! 1) = Some ph \<and>
     (\<exists>ns vss. kd_children n = Some ns \<and> map (compile_pred rxlim) (pred_nodes ns) = map Inr (r_preds r) \<and>
        map compile_unless (unless_nodes ns) = map Inr vss \<and> r_unless r = concat vss)"

lemma compile_rule_of_node: "compile_rule rxlim n = Inr (ph, r) \<Longrightarrow> rule_of_node rxlim n ph r"
proof -
  assume "compile_rule rxlim n = Inr (ph, r)"
  then obtain i ns preds us where n: "rule_id n = Some i" "phase_of (rule_args n ! 1) = Some ph" "kd_children n = Some ns"
      "rfold (rule_part rxlim) ns ([], []) = Inr (preds, us)" "r = \<lparr>r_id = i, r_preds = preds, r_unless = us\<rparr>"
    by (auto simp: compile_rule_def Let_def rbind_Inr_iff split: if_splits option.splits)
  with rule_parts [OF n(4)] show ?thesis by (auto simp: rule_of_node_def)
qed

text \<open>The lines of a node that the table must carry.\<close>

definition carried :: "(regex \<Rightarrow> bool) \<Rightarrow> kdl_node \<Rightarrow> compiled \<Rightarrow> bool" where
  "carried rxlim n c \<longleftrightarrow>
     (if kd_name n = ''rule'' then \<exists>ph. \<exists>r \<in> set (phase_rules ph (cp_rules c)). rule_of_node rxlim n ph r
      else if kd_name n = ''classify'' then \<exists>k \<in> set (cl_classify (cp_classifier c)). compile_classify rxlim n = Inr k
      else if kd_name n = ''trust'' then \<exists>k \<in> set (cl_trust (cp_classifier c)). compile_trust rxlim n = Inr k
      else kd_name n \<in> set [''defaults'', ''irreversible'', ''profile'', ''dedupe_exclude'', ''trusted_endpoint''])"

lemma carried_mono: "carried rxlim n c \<Longrightarrow> extends c c' \<Longrightarrow> carried rxlim n c'"
  unfolding carried_def by (auto simp: extends_def split: if_splits) (metis UnCI set_append)+

lemma compile_node_carried: "compile_node rxlim file n c = Inr c' \<Longrightarrow> carried rxlim n c'"
proof (erule compile_node_cases, goal_cases)
  case (1 ph r)
  have "r \<in> set (phase_rules ph (cp_rules c'))" using 1(4) by (simp add: phase_rules_push)
  with 1(1) compile_rule_of_node [OF 1(2)] show ?case unfolding carried_def if_P [OF 1(1)] by blast
qed (auto simp: carried_def)

text \<open>C37: No line is skipped: when the policy files compile, every file parses and each of its nodes is in the
  table - a rule with its id and phase, one predicate per predicate line and the exceptions of every
  \<open>unless\<close> block, in order; a classify or trust node as the rule it compiles to. Only \<open>defaults\<close> and the
  four kinds reported as not yet enforced leave no rule.\<close>

theorem no_line_is_skipped:
  assumes "policy_compile rxlim kp files = Inr c" and "(file, text) \<in> set files"
  shows "\<exists>nodes. kp text = Inr nodes \<and> (\<forall>n \<in> set nodes. carried rxlim n c)"
proof -
  obtain c1 c2 where f: "compile_file rxlim kp (file, text) c1 = Inr c2" "extends c2 c"
    by (rule rfold_visits [OF assms(1) [unfolded policy_compile_def] assms(2) compile_file_extends])
  from f(1) obtain nodes where n: "kp text = Inr nodes" "rfold (compile_node rxlim file) nodes c1 = Inr c2"
    by (auto simp: compile_file_def split: sum.splits)
  have "carried rxlim n c" if m: "n \<in> set nodes" for n
  proof -
    obtain s1 s2 where "compile_node rxlim file n s1 = Inr s2" "extends s2 c2"
      by (rule rfold_visits [OF n(2) m compile_node_extends])
    with f(2) show ?thesis by (blast intro: carried_mono compile_node_carried extends_trans)
  qed
  with n(1) show ?thesis by blast
qed

end
