(* ===== verification/Table_Laws.thy ===== *)
theory Table_Laws
  imports Policy_Laws Grant_Laws
begin

text \<open>
  The enforcement table on the wire: a well-formed table whose lists are within the limits of
  \<open>ec-policy-eval/src/table.rs\<close> decodes from its encoding, thresholds rounded to thousandths (\<open>wire_table\<close>).
\<close>

section \<open>Tables that fit the wire\<close>

text \<open>The confidence threshold travels in thousandths: what a predicate, a rule and a table are on the
  other side.\<close>

fun wire_pred :: "pred \<Rightarrow> pred" where
  "wire_pred (PNodeConfidenceLt v) = PNodeConfidenceLt (of_milli (to_milli v))"
| "wire_pred p = p"

definition wire_rule :: "compiled_rule \<Rightarrow> compiled_rule" where
  "wire_rule r = r\<lparr>r_preds := map wire_pred (r_preds r)\<rparr>"

definition wire_phases :: "phases \<Rightarrow> phases" where
  "wire_phases p = \<lparr>ph_deny = map wire_rule (ph_deny p), ph_prompt = map wire_rule (ph_prompt p),
     ph_defer = map wire_rule (ph_defer p), ph_allow = map wire_rule (ph_allow p)\<rparr>"

definition wire_table :: "table \<Rightarrow> table" where
  "wire_table t = t\<lparr>tb_rules := wire_phases (tb_rules t)\<rparr>"

fun pred_items :: "pred \<Rightarrow> string list" where
  "pred_items (PCapability g) = map glob_as_str g"
| "pred_items (PTargetClass c) = map class_str c"
| "pred_items (PTargetAppId g) = map glob_as_str g"
| "pred_items (PTitle re) = [re]"
| "pred_items (PNodeRole r) = r"
| "pred_items (PNodeName re) = [re]"
| "pred_items (PNodeSource s) = s"
| "pred_items (PNodeConfidenceLt _) = []"
| "pred_items (PIrreversible g) = map glob_as_str g"
| "pred_items (PUrl g) = map glob_as_str g"
| "pred_items (PPrincipal g) = map glob_as_str g"
| "pred_items (PPrincipalProfile p) = p"
| "pred_items (PAppTrust t) = map trust_str t"
| "pred_items (PAppIrreversibleCapable _) = []"
| "pred_items (PProvenanceContainsTrust t) = [trust_str t]"
| "pred_items (PProvenanceContainsSource s) = [s]"
| "pred_items PProvenanceAbsent = []"

definition items_fit :: "string list \<Rightarrow> bool" where
  "items_fit ss \<longleftrightarrow> length ss \<le> unat MAX_ITEMS \<and> (\<forall>s \<in> set ss. rstr s)"

fun milli_fits :: "pred \<Rightarrow> bool" where
  "milli_fits (PNodeConfidenceLt v) = (to_milli v \<le> 1000)"
| "milli_fits _ = True"

definition pred_fits :: "pred \<Rightarrow> bool" where
  "pred_fits p \<longleftrightarrow> items_fit (pred_items p) \<and> milli_fits p"

definition rule_fits :: "compiled_rule \<Rightarrow> bool" where
  "rule_fits r \<longleftrightarrow> rstr (r_id r) \<and> length (r_preds r) \<le> unat MAX_ITEMS \<and> (\<forall>p \<in> set (r_preds r). pred_fits p) \<and>
     length (r_unless r) \<le> unat MAX_ITEMS \<and> (\<forall>u \<in> set (r_unless r). rstr (un_capability u))"

fun matcher_items :: "matcher \<Rightarrow> string list" where
  "matcher_items (MAppId g) = map glob_as_str g"
| "matcher_items (MTitle re) = [re]"
| "matcher_items (MUrl g) = map glob_as_str g"
| "matcher_items (MOutput g) = map glob_as_str g"
| "matcher_items (MLaunchedBy g) = map glob_as_str g"
| "matcher_items (MXwayland _) = []"

definition matchers_fit :: "matcher list \<Rightarrow> bool" where
  "matchers_fit ms \<longleftrightarrow> length ms \<le> unat MAX_ITEMS \<and> (\<forall>m \<in> set ms. items_fit (matcher_items m))"

definition classifier_fits :: "classifier \<Rightarrow> bool" where
  "classifier_fits c \<longleftrightarrow> length (cl_classify c) \<le> unat MAX_RULES \<and> length (cl_trust c) \<le> unat MAX_RULES \<and>
     (\<forall>r \<in> set (cl_classify c). matchers_fit (cr_matchers r)) \<and> (\<forall>r \<in> set (cl_trust c). matchers_fit (tr_matchers r))"

definition phase_fits :: "compiled_rule list \<Rightarrow> bool" where
  "phase_fits rs \<longleftrightarrow> length rs \<le> unat MAX_RULES \<and> (\<forall>r \<in> set rs. rule_fits r)"

definition table_fits :: "phases \<Rightarrow> classifier \<Rightarrow> bool" where
  "table_fits p c \<longleftrightarrow> phase_fits (ph_deny p) \<and> phase_fits (ph_prompt p) \<and> phase_fits (ph_defer p) \<and>
     phase_fits (ph_allow p) \<and> classifier_fits c"

section \<open>Lists on the wire\<close>

lemma limits: "unat MAX_ITEMS = 256" "unat MAX_RULES = 4096"
  by (simp_all add: MAX_ITEMS_def MAX_RULES_def)

lemma word_count:
  assumes "n \<le> unat k" "unat (k :: u64) \<le> 4096"
  shows "unat (word_of_nat n :: u64) = n" "\<not> k < word_of_nat n" "(word_of_nat n :: u64) = 0 \<longleftrightarrow> n = 0" "n < 2 ^ 64"
proof -
  show n: "unat (word_of_nat n :: u64) = n" "n < 2 ^ 64" using assms by (simp_all add: unat_word_of_nat64)
  then show "\<not> k < word_of_nat n" "(word_of_nat n :: u64) = 0 \<longleftrightarrow> n = 0"
    using assms(1) by (simp_all add: word_less_nat_alt unat_eq_zero [symmetric])
qed

lemma reads_many_map:
  assumes "\<forall>x \<in> set xs. reads d p (f x) (g x)" "n = length xs"
  shows "reads d (rd_many n p) (concat (map f xs)) (map g xs)"
proof -
  have "reads d (loop_n (length xs) (\<lambda>acc. andthen p (\<lambda>x. ret (acc @ [x]))) acc) (concat (map f xs)) (acc @ map g xs)" for acc
    using assms(1)
  proof (induction xs arbitrary: acc)
    case (Cons x xs)
    have "reads d (andthen p (\<lambda>x. ret (acc @ [x]))) (f x) (acc @ [g x])"
      by (rule reads_andthen1) (use Cons.prems in auto)
    moreover have "reads d (loop_n (length xs) (\<lambda>acc. andthen p (\<lambda>x. ret (acc @ [x]))) (acc @ [g x]))
        (concat (map f xs)) (acc @ map g (x # xs))"
      using Cons.IH [of "acc @ [g x]"] Cons.prems by simp
    ultimately show ?case by (simp add: reads_andthen)
  qed simp
  from this [of "[]"] show ?thesis using assms(2) by (simp add: rd_many_def)
qed

lemma reads_tc_text: "rstr s \<Longrightarrow> reads d (tc rd_text) (put_text s) s"
  by (rule reads_lift) (rule reads_text)

lemma reads_texts:
  assumes "items_fit ss" "ss \<noteq> []"
  shows "reads d read_texts (texts ss) ss"
proof -
  have l: "length ss \<le> unat MAX_ITEMS" "unat MAX_ITEMS \<le> 4096" "\<forall>s \<in> set ss. rstr s"
    using assms by (simp_all add: items_fit_def limits)
  note w = word_count [OF l(1,2)]
  have m: "reads d (rd_many (length ss) (tc rd_text)) (concat (map put_text ss)) ss"
    using reads_many_map [of ss d "tc rd_text" put_text "\<lambda>s. s"] l(3) reads_tc_text by simp
  show ?thesis
    unfolding read_texts_def texts_def
    by (rule reads_andthen [OF reads_lift [OF reads_array_len [OF w(4)]]]) (use w m assms(2) in simp)
qed

lemma reads_read_seq:
  assumes "\<forall>x \<in> set xs. reads d p (f x) (g x)" "length xs \<le> unat lim" "unat lim \<le> 4096"
  shows "reads d (read_seq lim p) (put_seq f xs) (map g xs)"
proof -
  note w = word_count [OF assms(2,3)]
  show ?thesis
    unfolding read_seq_def put_seq_def
    by (rule reads_andthen [OF reads_lift [OF reads_array_len [OF w(4)]]])
      (use w reads_many_map [OF assms(1) refl] in simp)
qed

section \<open>Predicates\<close>

lemma pred_keys: "keys_ok [''a'', ''p'']" "keys_ok [''b'', ''p'']" "keys_ok [''p'', ''re'']" "keys_ok [''p'', ''milli'']" "keys_ok [''p'']"
  by code_simp+

lemma pred_steps:
  "items_fit ss \<Longrightarrow> ss \<noteq> [] \<Longrightarrow> reads d (pred_step ''a'' acc) (texts ss) (acc\<lparr>pa_a := Some ss\<rparr>)"
  "reads d (pred_step ''b'' acc) (put_bool b) (acc\<lparr>pa_b := Some b\<rparr>)"
  "rstr s \<Longrightarrow> reads d (pred_step ''p'' acc) (put_text s) (acc\<lparr>pa_name := Some s\<rparr>)"
  "rstr s \<Longrightarrow> reads d (pred_step ''re'' acc) (put_text s) (acc\<lparr>pa_re := Some s\<rparr>)"
  "reads d (pred_step ''milli'' acc) (put_u64 m) (acc\<lparr>pa_milli := Some m\<rparr>)"
  by (simp_all add: pred_step_def)
    (rule reads_andthen1 reads_lift reads_texts reads_text reads_bool reads_u64 reads_retI | simp)+

lemma reads_pred:
  assumes "steps 0 pred_step pred_acc_new es acc" "keys_ok (map fst es)" "length es < 2 ^ 64"
    "pa_name acc = Some name" "pred_of rxlim acc name = Inr p" "p = PProvenanceAbsent \<or> pred_fields acc = 1"
  shows "reads 1 (decode_pred rxlim) (put_entries es) p"
proof -
  have "reads 1 (rd_map TblCbor pred_step pred_acc_new) (put_entries es) acc"
    using reads_map [OF assms(1) keys_ok_canonical [OF assms(2,3)]] by simp
  then show ?thesis
    unfolding decode_pred_def
    by (rule reads_andthen1) (use assms(4-6) in \<open>auto simp: andthen_def of_result_def ret_def reads_def adv_def\<close>)
qed

lemma encode_pred_entries:
  "pred_wire p = (name, Some (k, v)) \<Longrightarrow> k \<in> {''a'', ''b''} \<Longrightarrow> encode_pred p = put_entries [(k, v), (''p'', put_text name)]"
  "pred_wire p = (name, Some (k, v)) \<Longrightarrow> k \<in> {''re'', ''milli''} \<Longrightarrow> encode_pred p = put_entries [(''p'', put_text name), (k, v)]"
  "pred_wire p = (name, None) \<Longrightarrow> encode_pred p = put_entries [(''p'', put_text name)]"
  by (auto simp: encode_pred_def mb_insert_Nil intro!: keys_ok_finish simp: pred_keys)

lemma reads_pred_a:
  assumes "pred_wire p = (name, Some (''a'', texts ss))" "items_fit ss" "ss \<noteq> []" "rstr name"
    "pred_of rxlim (pred_acc_new\<lparr>pa_a := Some ss, pa_name := Some name\<rparr>) name = Inr q"
  shows "reads 1 (decode_pred rxlim) (encode_pred p) q"
  unfolding encode_pred_entries(1) [OF assms(1), simplified]
proof (rule reads_pred [where acc = "pred_acc_new\<lparr>pa_a := Some ss, pa_name := Some name\<rparr>"])
  show "steps 0 pred_step pred_acc_new [(''a'', texts ss), (''p'', put_text name)] (pred_acc_new\<lparr>pa_a := Some ss, pa_name := Some name\<rparr>)"
    by (rule stepsI pred_steps assms | simp)+
qed (use assms(5) in \<open>simp_all add: pred_keys pred_acc_new_def pred_fields_def\<close>)

lemma reads_pred_re:
  assumes "pred_wire p = (name, Some (''re'', put_text s))" "rstr s" "rstr name"
    "pred_of rxlim (pred_acc_new\<lparr>pa_name := Some name, pa_re := Some s\<rparr>) name = Inr q"
  shows "reads 1 (decode_pred rxlim) (encode_pred p) q"
  unfolding encode_pred_entries(2) [OF assms(1), simplified]
proof (rule reads_pred [where acc = "pred_acc_new\<lparr>pa_name := Some name, pa_re := Some s\<rparr>"])
  show "steps 0 pred_step pred_acc_new [(''p'', put_text name), (''re'', put_text s)] (pred_acc_new\<lparr>pa_name := Some name, pa_re := Some s\<rparr>)"
    by (rule stepsI pred_steps assms | simp)+
qed (use assms(4) in \<open>simp_all add: pred_keys pred_acc_new_def pred_fields_def\<close>)

lemma reads_pred_b:
  assumes "pred_wire p = (name, Some (''b'', put_bool b))" "rstr name"
    "pred_of rxlim (pred_acc_new\<lparr>pa_b := Some b, pa_name := Some name\<rparr>) name = Inr q"
  shows "reads 1 (decode_pred rxlim) (encode_pred p) q"
  unfolding encode_pred_entries(1) [OF assms(1), simplified]
proof (rule reads_pred [where acc = "pred_acc_new\<lparr>pa_b := Some b, pa_name := Some name\<rparr>"])
  show "steps 0 pred_step pred_acc_new [(''b'', put_bool b), (''p'', put_text name)] (pred_acc_new\<lparr>pa_b := Some b, pa_name := Some name\<rparr>)"
    by (rule stepsI pred_steps assms | simp)+
qed (use assms(3) in \<open>simp_all add: pred_keys pred_acc_new_def pred_fields_def\<close>)

lemma reads_pred_milli:
  assumes "pred_wire p = (name, Some (''milli'', put_u64 m))" "rstr name"
    "pred_of rxlim (pred_acc_new\<lparr>pa_name := Some name, pa_milli := Some m\<rparr>) name = Inr q"
  shows "reads 1 (decode_pred rxlim) (encode_pred p) q"
  unfolding encode_pred_entries(2) [OF assms(1), simplified]
proof (rule reads_pred [where acc = "pred_acc_new\<lparr>pa_name := Some name, pa_milli := Some m\<rparr>"])
  show "steps 0 pred_step pred_acc_new [(''p'', put_text name), (''milli'', put_u64 m)] (pred_acc_new\<lparr>pa_name := Some name, pa_milli := Some m\<rparr>)"
    by (rule stepsI pred_steps assms | simp)+
qed (use assms(3) in \<open>simp_all add: pred_keys pred_acc_new_def pred_fields_def\<close>)

lemma rstr_short: "list_all (\<lambda>c. (of_char c :: nat) < 128) s \<Longrightarrow> length s < 256 \<Longrightarrow> rstr s"
  using utf8_ascii [of s] by (simp add: rstr_def list_all_iff)

lemma pred_names:
  "rstr ''capability''" "rstr ''target_class''" "rstr ''target_app_id''" "rstr ''title''" "rstr ''node_role''"
  "rstr ''node_name''" "rstr ''node_source''" "rstr ''node_confidence_lt''" "rstr ''irreversible''" "rstr ''url''"
  "rstr ''principal''" "rstr ''principal_profile''" "rstr ''app_trust''" "rstr ''app_irreversible_capable''"
  "rstr ''provenance_contains_trust''" "rstr ''provenance_contains_source''" "rstr ''provenance_absent''"
  by (rule rstr_short; simp)+

lemma class_of_str [simp]: "class_of (class_str c) = Some c" by (cases c) (simp_all add: class_of_def)

lemma trust_of_str [simp]: "trust_of (trust_str t) = Some t" by (cases t) (simp_all add: trust_of_def)

lemma collect_some: "collect_results (map (\<lambda>c. ok_or e (f c)) (map g cs)) = Inr cs" if "\<And>c. f (g c) = Some c"
  using that by (simp add: comp_def)

lemma globs_back [simp]: "map (Glob \<circ> glob_as_str) gs = gs"
proof -
  have "Glob (glob_as_str g) = g" for g by (cases g) (simp add: glob_as_str_def)
  then show ?thesis by (simp add: comp_def)
qed

lemmas pred_reading = pred_of_def pred_acc_new_def Let_def tbl_regex_def one_def

lemma reads_encode_pred:
  assumes "pred_ok rxlim p" "pred_fits p"
  shows "reads 1 (decode_pred rxlim) (encode_pred p) (wire_pred p)"
proof -
  have f: "items_fit (pred_items p)" "milli_fits p" using assms(2) by (simp_all add: pred_fits_def)
  have g: "\<forall>s \<in> set (pred_items p). rstr s" using f(1) by (simp add: items_fit_def)
  show ?thesis
  proof (cases p)
    case (PCapability x) then show ?thesis using assms f
      by (intro reads_pred_a [where ss = "pred_items p", OF _ f(1) _ pred_names(1)]) (simp_all add: pred_reading)
  next
    case (PTargetClass x) then show ?thesis using assms f
      by (intro reads_pred_a [where ss = "pred_items p", OF _ f(1) _ pred_names(2)]) (simp_all add: pred_reading collect_some del: map_map)
  next
    case (PTargetAppId x) then show ?thesis using assms f
      by (intro reads_pred_a [where ss = "pred_items p", OF _ f(1) _ pred_names(3)]) (simp_all add: pred_reading)
  next
    case (PTitle x) then show ?thesis using assms g
      by (intro reads_pred_re [where s = x, OF _ _ pred_names(4)]) (simp_all add: pred_reading)
  next
    case (PNodeRole x) then show ?thesis using assms f
      by (intro reads_pred_a [where ss = "pred_items p", OF _ f(1) _ pred_names(5)]) (simp_all add: pred_reading)
  next
    case (PNodeName x) then show ?thesis using assms g
      by (intro reads_pred_re [where s = x, OF _ _ pred_names(6)]) (simp_all add: pred_reading)
  next
    case (PNodeSource x) then show ?thesis using assms f
      by (intro reads_pred_a [where ss = "pred_items p", OF _ f(1) _ pred_names(7)]) (simp_all add: pred_reading)
  next
    case (PNodeConfidenceLt x) then show ?thesis using assms f
      by (intro reads_pred_milli [where m = "to_milli x", OF _ pred_names(8)]) (simp_all add: pred_reading not_less)
  next
    case (PIrreversible x) then show ?thesis using assms f
      by (intro reads_pred_a [where ss = "pred_items p", OF _ f(1) _ pred_names(9)]) (simp_all add: pred_reading)
  next
    case (PUrl x) then show ?thesis using assms f
      by (intro reads_pred_a [where ss = "pred_items p", OF _ f(1) _ pred_names(10)]) (simp_all add: pred_reading)
  next
    case (PPrincipal x) then show ?thesis using assms f
      by (intro reads_pred_a [where ss = "pred_items p", OF _ f(1) _ pred_names(11)]) (simp_all add: pred_reading)
  next
    case (PPrincipalProfile x) then show ?thesis using assms f
      by (intro reads_pred_a [where ss = "pred_items p", OF _ f(1) _ pred_names(12)]) (simp_all add: pred_reading)
  next
    case (PAppTrust x) then show ?thesis using assms f
      by (intro reads_pred_a [where ss = "pred_items p", OF _ f(1) _ pred_names(13)]) (simp_all add: pred_reading collect_some del: map_map)
  next
    case (PAppIrreversibleCapable x) then show ?thesis
      by (intro reads_pred_b [where b = x, OF _ pred_names(14)]) (simp_all add: pred_reading)
  next
    case (PProvenanceContainsTrust x) then show ?thesis using f
      by (intro reads_pred_a [where ss = "pred_items p", OF _ f(1) _ pred_names(15)]) (simp_all add: pred_reading)
  next
    case (PProvenanceContainsSource x) then show ?thesis using f
      by (intro reads_pred_a [where ss = "pred_items p", OF _ f(1) _ pred_names(16)]) (simp_all add: pred_reading)
  next
    case PProvenanceAbsent
    have "steps 0 pred_step pred_acc_new [(''p'', put_text ''provenance_absent'')] (pred_acc_new\<lparr>pa_name := Some ''provenance_absent''\<rparr>)"
      by (rule stepsI pred_steps pred_names | simp)+
    then have "reads 1 (decode_pred rxlim) (put_entries [(''p'', put_text ''provenance_absent'')]) PProvenanceAbsent"
      by (rule reads_pred [where name = "''provenance_absent''"]) (simp_all add: pred_keys pred_reading pred_fields_def)
    then show ?thesis using PProvenanceAbsent encode_pred_entries(3) [of p] by simp
  qed
qed

section \<open>Rules\<close>

lemma unless_keys: "keys_ok [''capability'', ''unattended'']" by code_simp

lemma unless_steps:
  "rstr s \<Longrightarrow> reads d (unless_step ''capability'' (c, u)) (put_text s) (Some s, u)"
  "reads d (unless_step ''unattended'' (c, u)) (put_bool b) (c, Some b)"
  by (simp_all add: unless_step_def) (rule reads_andthen1 reads_lift reads_text reads_bool reads_retI | simp)+

lemma reads_unless: "rstr (un_capability u) \<Longrightarrow> reads 1 decode_unless (encode_unless u) u"
proof -
  assume u: "rstr (un_capability u)"
  let ?es = "[(''capability'', put_text (un_capability u)), (''unattended'', put_bool (un_unattended u))]"
  have e: "encode_unless u = put_entries ?es"
    unfolding encode_unless_def Let_def mb_insert_Nil mb_of_simps by (rule keys_ok_finish) (simp_all add: unless_keys)
  have "steps 0 unless_step (None, None) ?es (Some (un_capability u), Some (un_unattended u))"
    by (rule stepsI unless_steps u | simp)+
  from reads_map [OF this keys_ok_canonical, of TblCbor] show ?thesis
    unfolding decode_unless_def e One_nat_def
    by (rule reads_andthen1) (simp_all add: unless_keys andthen_def of_result_def ret_def reads_def adv_def)
qed

lemma rule_keys: "keys_ok [''id'', ''preds'', ''unless'']" by code_simp

lemma reads_seq_field:
  assumes "\<forall>x \<in> set xs. reads d p (f x) (g x)" "length xs \<le> unat lim" "unat lim \<le> 4096" "y = h (map g xs)"
  shows "reads d (andthen (read_seq lim p) (\<lambda>v. ret (h v))) (put_seq f xs) y"
  unfolding assms(4) by (rule reads_andthen1 [OF reads_read_seq [OF assms(1-3)]]) simp

lemma reads_map_at:
  "steps d step s es s' \<Longrightarrow> keys_ok (map fst es) \<Longrightarrow> length es < 2 ^ 64 \<Longrightarrow> e = Suc d \<Longrightarrow>
   reads e (rd_map g step s) (put_entries es) s'"
  using reads_map [OF _ keys_ok_canonical] by simp

lemma rule_steps:
  "rstr s \<Longrightarrow> reads d (rule_step rxlim ''id'' acc) (put_text s) (acc\<lparr>rl_id := Some s\<rparr>)"
  "\<forall>p \<in> set ps. pred_ok rxlim p \<and> pred_fits p \<Longrightarrow> length ps \<le> unat MAX_ITEMS \<Longrightarrow>
   reads 1 (rule_step rxlim ''preds'' acc) (put_seq encode_pred ps) (acc\<lparr>rl_preds := Some (map wire_pred ps)\<rparr>)"
  "\<forall>u \<in> set us. rstr (un_capability u) \<Longrightarrow> length us \<le> unat MAX_ITEMS \<Longrightarrow>
   reads 1 (rule_step rxlim ''unless'' acc) (put_seq encode_unless us) (acc\<lparr>rl_unless := Some us\<rparr>)"
proof -
  have k: "rule_step rxlim ''id'' acc = andthen (tc rd_text) (\<lambda>v. ret (acc\<lparr>rl_id := Some v\<rparr>))"
      "rule_step rxlim ''preds'' acc = andthen (read_seq MAX_ITEMS (decode_pred rxlim)) (\<lambda>v. ret (acc\<lparr>rl_preds := Some v\<rparr>))"
      "rule_step rxlim ''unless'' acc = andthen (read_seq MAX_ITEMS decode_unless) (\<lambda>v. ret (acc\<lparr>rl_unless := Some v\<rparr>))"
    by (simp_all add: rule_step_def)
  show "rstr s \<Longrightarrow> reads d (rule_step rxlim ''id'' acc) (put_text s) (acc\<lparr>rl_id := Some s\<rparr>)"
    unfolding k by (rule reads_andthen1 [OF reads_tc_text]) simp_all
  show "\<forall>p \<in> set ps. pred_ok rxlim p \<and> pred_fits p \<Longrightarrow> length ps \<le> unat MAX_ITEMS \<Longrightarrow>
      reads 1 (rule_step rxlim ''preds'' acc) (put_seq encode_pred ps) (acc\<lparr>rl_preds := Some (map wire_pred ps)\<rparr>)"
    unfolding k by (rule reads_seq_field [where g = wire_pred]) (auto intro: reads_encode_pred simp: limits simp del: One_nat_def)
  show "\<forall>u \<in> set us. rstr (un_capability u) \<Longrightarrow> length us \<le> unat MAX_ITEMS \<Longrightarrow>
      reads 1 (rule_step rxlim ''unless'' acc) (put_seq encode_unless us) (acc\<lparr>rl_unless := Some us\<rparr>)"
    unfolding k by (rule reads_seq_field [where g = "\<lambda>u. u"]) (auto intro: reads_unless simp: limits simp del: One_nat_def)
qed

lemma reads_need: "x = Some a \<Longrightarrow> reads d (f a) [] y \<Longrightarrow> reads d (andthen (need x) f) [] y"
  by (simp add: reads_andthen1)

lemma reads_rule:
  assumes "rule_ok rxlim r" "rule_fits r"
  shows "reads 2 (decode_rule rxlim) (encode_rule r) (wire_rule r)"
proof -
  let ?es = "[(''id'', put_text (r_id r)), (''preds'', put_seq encode_pred (r_preds r)), (''unless'', put_seq encode_unless (r_unless r))]"
  let ?acc = "\<lparr>rl_id = Some (r_id r), rl_preds = Some (map wire_pred (r_preds r)), rl_unless = Some (r_unless r)\<rparr>"
  have e: "encode_rule r = put_entries ?es"
    unfolding encode_rule_def Let_def mb_insert_Nil mb_of_simps by (rule keys_ok_finish) (simp_all add: rule_keys)
  have "steps 1 (rule_step rxlim) \<lparr>rl_id = None, rl_preds = None, rl_unless = None\<rparr> ?es ?acc"
    by (rule stepsI rule_steps | use assms in \<open>simp add: rule_ok_def rule_fits_def\<close>)+
  then have "reads 2 (rd_map TblCbor (rule_step rxlim) \<lparr>rl_id = None, rl_preds = None, rl_unless = None\<rparr>) (put_entries ?es) ?acc"
    by (rule reads_map_at) (simp_all add: rule_keys)
  then show ?thesis
    unfolding decode_rule_def e
    by (rule reads_andthen1) (use assms(1) in \<open>simp add: rule_ok_def wire_rule_def andthen_def of_result_def ret_def reads_def adv_def\<close>)
qed

lemma reads_phase:
  assumes "\<forall>r \<in> set rs. rule_ok rxlim r" "phase_fits rs"
  shows "reads 2 (decode_phase rxlim) (encode_phase rs) (map wire_rule rs)"
  unfolding decode_phase_def encode_phase_def
  by (rule reads_read_seq) (use assms reads_rule in \<open>auto simp: phase_fits_def limits\<close>)

section \<open>The classifier\<close>

lemma matcher_keys: "keys_ok [''a'', ''p'']" "keys_ok [''b'', ''p'']" "keys_ok [''p'', ''re'']" by code_simp+

lemma matcher_steps:
  "items_fit ss \<Longrightarrow> ss \<noteq> [] \<Longrightarrow> reads d (matcher_step ''a'' acc) (texts ss) (acc\<lparr>ma_a := Some ss\<rparr>)"
  "reads d (matcher_step ''b'' acc) (put_bool b) (acc\<lparr>ma_b := Some b\<rparr>)"
  "rstr s \<Longrightarrow> reads d (matcher_step ''p'' acc) (put_text s) (acc\<lparr>ma_name := Some s\<rparr>)"
  "rstr s \<Longrightarrow> reads d (matcher_step ''re'' acc) (put_text s) (acc\<lparr>ma_re := Some s\<rparr>)"
  by (simp_all add: matcher_step_def)
    (rule reads_andthen1 reads_lift reads_texts reads_text reads_bool reads_retI | simp)+

definition matcher_acc_new :: matcher_acc where
  "matcher_acc_new = \<lparr>ma_name = None, ma_a = None, ma_re = None, ma_b = None\<rparr>"

lemma reads_matcher:
  assumes "steps 0 matcher_step matcher_acc_new es acc" "keys_ok (map fst es)" "length es < 2 ^ 64"
    "ma_name acc = Some name" "matcher_of rxlim acc name = Inr m"
    "length (filter id [ma_a acc \<noteq> None, ma_b acc \<noteq> None, ma_re acc \<noteq> None]) = 1"
  shows "reads 1 (decode_matcher rxlim) (put_entries es) m"
proof -
  have "reads 1 (rd_map TblCbor matcher_step matcher_acc_new) (put_entries es) acc"
    using reads_map [OF assms(1) keys_ok_canonical [OF assms(2,3)]] by simp
  then show ?thesis
    unfolding decode_matcher_def matcher_acc_new_def [symmetric]
    by (rule reads_andthen1) (use assms(4-6) in \<open>auto simp: andthen_def of_result_def ret_def reads_def adv_def\<close>)
qed

lemma encode_matcher_entries:
  "matcher_wire m = (name, k, v) \<Longrightarrow> k \<in> {''a'', ''b''} \<Longrightarrow> encode_matcher m = put_entries [(k, v), (''p'', put_text name)]"
  "matcher_wire m = (name, k, v) \<Longrightarrow> k = ''re'' \<Longrightarrow> encode_matcher m = put_entries [(''p'', put_text name), (k, v)]"
  by (auto simp: encode_matcher_def mb_insert_Nil intro!: keys_ok_finish simp: matcher_keys)

lemma reads_matcher_a:
  assumes "matcher_wire m = (name, ''a'', texts ss)" "items_fit ss" "ss \<noteq> []" "rstr name"
    "matcher_of rxlim (matcher_acc_new\<lparr>ma_a := Some ss, ma_name := Some name\<rparr>) name = Inr m"
  shows "reads 1 (decode_matcher rxlim) (encode_matcher m) m"
  unfolding encode_matcher_entries(1) [OF assms(1), simplified]
proof (rule reads_matcher [where acc = "matcher_acc_new\<lparr>ma_a := Some ss, ma_name := Some name\<rparr>" and name = name])
  show "steps 0 matcher_step matcher_acc_new [(''a'', texts ss), (''p'', put_text name)] (matcher_acc_new\<lparr>ma_a := Some ss, ma_name := Some name\<rparr>)"
    by (rule stepsI matcher_steps assms | simp)+
qed (use assms(5) in \<open>simp_all add: matcher_keys matcher_acc_new_def\<close>)

lemma matcher_names:
  "rstr ''app_id''" "rstr ''title''" "rstr ''url''" "rstr ''output''" "rstr ''launched_by''" "rstr ''xwayland''"
  by (rule rstr_short; simp)+

lemmas matcher_reading = matcher_of_def matcher_acc_new_def Let_def tbl_regex_def

lemma reads_encode_matcher:
  assumes "matcher_ok rxlim m" "items_fit (matcher_items m)"
  shows "reads 1 (decode_matcher rxlim) (encode_matcher m) m"
proof (cases m)
  case (MAppId x) then show ?thesis using assms
    by (intro reads_matcher_a [where ss = "matcher_items m", OF _ assms(2) _ matcher_names(1)]) (simp_all add: matcher_reading)
next
  case (MUrl x) then show ?thesis using assms
    by (intro reads_matcher_a [where ss = "matcher_items m", OF _ assms(2) _ matcher_names(3)]) (simp_all add: matcher_reading)
next
  case (MOutput x) then show ?thesis using assms
    by (intro reads_matcher_a [where ss = "matcher_items m", OF _ assms(2) _ matcher_names(4)]) (simp_all add: matcher_reading)
next
  case (MLaunchedBy x) then show ?thesis using assms
    by (intro reads_matcher_a [where ss = "matcher_items m", OF _ assms(2) _ matcher_names(5)]) (simp_all add: matcher_reading)
next
  case (MTitle x)
  then have x: "rstr x" "rxlim x" using assms by (simp_all add: items_fit_def)
  have "steps 0 matcher_step matcher_acc_new [(''p'', put_text ''title''), (''re'', put_text x)]
      (matcher_acc_new\<lparr>ma_name := Some ''title'', ma_re := Some x\<rparr>)"
    by (rule stepsI matcher_steps matcher_names x | simp)+
  then have "reads 1 (decode_matcher rxlim) (put_entries [(''p'', put_text ''title''), (''re'', put_text x)]) (MTitle x)"
    by (rule reads_matcher [where name = "''title''"]) (use x in \<open>simp_all add: matcher_keys matcher_reading\<close>)
  then show ?thesis using MTitle encode_matcher_entries(2) [of m] by simp
next
  case (MXwayland b)
  have "steps 0 matcher_step matcher_acc_new [(''b'', put_bool b), (''p'', put_text ''xwayland'')]
      (matcher_acc_new\<lparr>ma_b := Some b, ma_name := Some ''xwayland''\<rparr>)"
    by (rule stepsI matcher_steps matcher_names | simp)+
  then have "reads 1 (decode_matcher rxlim) (put_entries [(''b'', put_bool b), (''p'', put_text ''xwayland'')]) (MXwayland b)"
    by (rule reads_matcher [where name = "''xwayland''"]) (simp_all add: matcher_keys matcher_reading)
  then show ?thesis using MXwayland encode_matcher_entries(1) [of m] by simp
qed

lemma reads_matchers:
  assumes "matchers_ok rxlim ms" "matchers_fit ms"
  shows "reads 1 (decode_matchers rxlim) (put_seq encode_matcher ms) ms"
proof -
  have l: "length ms \<le> unat MAX_ITEMS" "unat MAX_ITEMS \<le> 4096" using assms(2) by (simp_all add: matchers_fit_def limits)
  note w = word_count [OF l]
  have "\<forall>m \<in> set ms. reads 1 (decode_matcher rxlim) (encode_matcher m) m"
    using assms by (auto simp: matchers_ok_def matchers_fit_def simp del: One_nat_def intro: reads_encode_matcher)
  then have "reads 1 (rd_many (length ms) (decode_matcher rxlim)) (concat (map encode_matcher ms)) ms"
    using reads_many_map [of ms 1 "decode_matcher rxlim" encode_matcher "\<lambda>m. m"] by simp
  then show ?thesis
    unfolding decode_matchers_def put_seq_def
    by (intro reads_andthen [OF reads_lift [OF reads_array_len [OF w(4)]]])
      (use w assms(1) in \<open>simp add: matchers_ok_def\<close>)
qed

lemma str_names: "rstr (class_str c)" "rstr (trust_str t)"
  by (cases c; rule rstr_short; simp) (cases t; rule rstr_short; simp)

lemma trust_rule_keys: "keys_ok [''trust'', ''matchers'']" "keys_ok [''class'', ''matchers'']" by code_simp+

lemma reads_trust_rule:
  assumes "tr_trust r \<noteq> TrustHuman" "matchers_ok rxlim (tr_matchers r)" "matchers_fit (tr_matchers r)"
  shows "reads 2 (decode_trust_rule rxlim) (encode_trust_rule r) r"
proof -
  let ?es = "[(''trust'', put_text (trust_str (tr_trust r))), (''matchers'', put_seq encode_matcher (tr_matchers r))]"
  have e: "encode_trust_rule r = put_entries ?es"
    unfolding encode_trust_rule_def Let_def mb_insert_Nil mb_of_simps by (rule keys_ok_finish) (simp_all add: trust_rule_keys)
  have "reads 1 (trust_rule_step rxlim ''trust'' (None, None)) (put_text (trust_str (tr_trust r))) (Some (tr_trust r), None)"
    unfolding trust_rule_step_def by simp (rule reads_andthen1 [OF reads_tc_text] str_names reads_need reads_retI | simp)+
  moreover have "reads 1 (trust_rule_step rxlim ''matchers'' (t, None)) (put_seq encode_matcher (tr_matchers r)) (t, Some (tr_matchers r))" for t
  proof -
    have k: "trust_rule_step rxlim ''matchers'' (t, None) = andthen (decode_matchers rxlim) (\<lambda>v. ret (t, Some v))"
      by (simp add: trust_rule_step_def)
    show ?thesis unfolding k by (rule reads_andthen1 [OF reads_matchers [OF assms(2,3)]]) simp
  qed
  ultimately have "steps 1 (trust_rule_step rxlim) (None, None) ?es (Some (tr_trust r), Some (tr_matchers r))"
    by (simp only: steps.simps) blast
  then have "reads 2 (rd_map TblCbor (trust_rule_step rxlim) (None, None)) (put_entries ?es) (Some (tr_trust r), Some (tr_matchers r))"
    by (rule reads_map_at) (simp_all add: trust_rule_keys)
  then show ?thesis
    unfolding decode_trust_rule_def e
    by (rule reads_andthen1) (use assms(1) in \<open>simp add: andthen_def of_result_def ret_def reads_def adv_def\<close>)
qed

lemma reads_classify_rule:
  assumes "matchers_ok rxlim (cr_matchers r)" "matchers_fit (cr_matchers r)"
  shows "reads 2 (decode_classify_rule rxlim) (encode_classify_rule r) r"
proof -
  let ?es = "[(''class'', put_text (class_str (cr_class r))), (''matchers'', put_seq encode_matcher (cr_matchers r))]"
  have e: "encode_classify_rule r = put_entries ?es"
    unfolding encode_classify_rule_def Let_def mb_insert_Nil mb_of_simps by (rule keys_ok_finish) (simp_all add: trust_rule_keys)
  have "reads 1 (classify_rule_step rxlim ''class'' (None, None)) (put_text (class_str (cr_class r))) (Some (cr_class r), None)"
    unfolding classify_rule_step_def by simp (rule reads_andthen1 [OF reads_tc_text] str_names reads_need reads_retI | simp)+
  moreover have "reads 1 (classify_rule_step rxlim ''matchers'' (t, None)) (put_seq encode_matcher (cr_matchers r)) (t, Some (cr_matchers r))" for t
  proof -
    have k: "classify_rule_step rxlim ''matchers'' (t, None) = andthen (decode_matchers rxlim) (\<lambda>v. ret (t, Some v))"
      by (simp add: classify_rule_step_def)
    show ?thesis unfolding k by (rule reads_andthen1 [OF reads_matchers [OF assms]]) simp
  qed
  ultimately have "steps 1 (classify_rule_step rxlim) (None, None) ?es (Some (cr_class r), Some (cr_matchers r))"
    by (simp only: steps.simps) blast
  then have "reads 2 (rd_map TblCbor (classify_rule_step rxlim) (None, None)) (put_entries ?es) (Some (cr_class r), Some (cr_matchers r))"
    by (rule reads_map_at) (simp_all add: trust_rule_keys)
  then show ?thesis
    unfolding decode_classify_rule_def e
    by (rule reads_andthen1) (simp add: andthen_def of_result_def ret_def reads_def adv_def)
qed

lemma classifier_keys: "keys_ok [''trust'', ''default'', ''classify'']" by code_simp

lemma classifier_steps:
  assumes "classifier_ok rxlim c" "classifier_fits c"
  shows "reads 2 (classifier_step rxlim ''trust'' acc) (put_seq encode_trust_rule (cl_trust c)) (acc\<lparr>ka_trust := Some (cl_trust c)\<rparr>)"
    and "reads 2 (classifier_step rxlim ''default'' acc) (put_text (class_str (cl_default c))) (acc\<lparr>ka_default := Some (cl_default c)\<rparr>)"
    and "reads 2 (classifier_step rxlim ''classify'' acc) (put_seq encode_classify_rule (cl_classify c)) (acc\<lparr>ka_classify := Some (cl_classify c)\<rparr>)"
proof -
  have k: "classifier_step rxlim ''trust'' acc = andthen (read_seq MAX_RULES (decode_trust_rule rxlim)) (\<lambda>v. ret (acc\<lparr>ka_trust := Some v\<rparr>))"
      "classifier_step rxlim ''classify'' acc = andthen (read_seq MAX_RULES (decode_classify_rule rxlim)) (\<lambda>v. ret (acc\<lparr>ka_classify := Some v\<rparr>))"
    by (simp_all add: classifier_step_def)
  show "reads 2 (classifier_step rxlim ''trust'' acc) (put_seq encode_trust_rule (cl_trust c)) (acc\<lparr>ka_trust := Some (cl_trust c)\<rparr>)"
    unfolding k by (rule reads_seq_field [where g = "\<lambda>r. r"])
      (use assms in \<open>auto simp: classifier_ok_def classifier_fits_def limits intro: reads_trust_rule\<close>)
  show "reads 2 (classifier_step rxlim ''classify'' acc) (put_seq encode_classify_rule (cl_classify c)) (acc\<lparr>ka_classify := Some (cl_classify c)\<rparr>)"
    unfolding k by (rule reads_seq_field [where g = "\<lambda>r. r"])
      (use assms in \<open>auto simp: classifier_ok_def classifier_fits_def limits intro: reads_classify_rule\<close>)
  show "reads 2 (classifier_step rxlim ''default'' acc) (put_text (class_str (cl_default c))) (acc\<lparr>ka_default := Some (cl_default c)\<rparr>)"
    using assms(1) unfolding classifier_step_def classifier_ok_def
    by simp (rule reads_andthen1 [OF reads_tc_text] str_names reads_need reads_retI | simp)+
qed

lemma reads_classifier:
  assumes "classifier_ok rxlim c" "classifier_fits c"
  shows "reads 3 (decode_classifier rxlim) (encode_classifier c) c"
proof -
  let ?es = "[(''trust'', put_seq encode_trust_rule (cl_trust c)), (''default'', put_text (class_str (cl_default c))),
    (''classify'', put_seq encode_classify_rule (cl_classify c))]"
  let ?acc = "\<lparr>ka_default = Some (cl_default c), ka_classify = Some (cl_classify c), ka_trust = Some (cl_trust c)\<rparr>"
  have e: "encode_classifier c = put_entries ?es"
    unfolding encode_classifier_def Let_def mb_insert_Nil mb_of_simps by (rule keys_ok_finish) (simp_all add: classifier_keys)
  have "steps 2 (classifier_step rxlim) \<lparr>ka_default = None, ka_classify = None, ka_trust = None\<rparr> ?es ?acc"
    by (rule stepsI classifier_steps [OF assms] | simp)+
  then have "reads 3 (rd_map TblCbor (classifier_step rxlim) \<lparr>ka_default = None, ka_classify = None, ka_trust = None\<rparr>) (put_entries ?es) ?acc"
    by (rule reads_map_at) (simp_all add: classifier_keys)
  then show ?thesis
    unfolding decode_classifier_def e
    by (rule reads_andthen1) (simp add: andthen_def of_result_def ret_def reads_def adv_def)
qed

section \<open>Tables\<close>

definition table_entries :: "table \<Rightarrow> entries" where
  "table_entries t = [(''v'', put_u64 TABLE_VERSION), (''deny'', encode_phase (ph_deny (tb_rules t))),
     (''allow'', encode_phase (ph_allow (tb_rules t))), (''defer'', encode_phase (ph_defer (tb_rules t))),
     (''prompt'', encode_phase (ph_prompt (tb_rules t))), (''version'', put_u64 (tb_version t)),
     (''classifier'', encode_classifier (tb_classifier t))]"

lemma table_keys: "keys_ok [''v'', ''deny'', ''allow'', ''defer'', ''prompt'', ''version'', ''classifier'']" by code_simp

lemma table_encode_entries: "table_encode t = put_entries (table_entries t)"
  unfolding table_encode_def table_entries_def Let_def mb_insert_Nil mb_of_simps
  by (rule keys_ok_finish) (simp_all add: table_keys add_mset_commute)

definition table_ok :: "(regex \<Rightarrow> bool) \<Rightarrow> table \<Rightarrow> bool" where
  "table_ok rxlim t \<longleftrightarrow> (\<forall>r \<in> set (phases_rules (tb_rules t)). rule_ok rxlim r) \<and> classifier_ok rxlim (tb_classifier t) \<and>
     table_fits (tb_rules t) (tb_classifier t)"

lemma reads_phase_field:
  assumes "table_ok rxlim t" "ph \<in> {ph_deny, ph_prompt, ph_defer, ph_allow}" "y = h (map wire_rule (ph (tb_rules t)))"
  shows "reads 3 (andthen (decode_phase rxlim) (\<lambda>v. ret (h v))) (encode_phase (ph (tb_rules t))) y"
proof -
  have "reads 2 (decode_phase rxlim) (encode_phase (ph (tb_rules t))) (map wire_rule (ph (tb_rules t)))"
    by (rule reads_phase) (use assms(1,2) in \<open>auto simp: table_ok_def table_fits_def phases_rules_def\<close>)
  then have "reads 3 (decode_phase rxlim) (encode_phase (ph (tb_rules t))) (map wire_rule (ph (tb_rules t)))"
    by (rule reads_mono) simp
  then show ?thesis unfolding assms(3) by (rule reads_andthen1) simp
qed

lemma table_steps:
  assumes "table_ok rxlim t"
  shows "reads 3 (table_step rxlim ''v'' acc) (put_u64 TABLE_VERSION) (acc\<lparr>ta_v := Some TABLE_VERSION\<rparr>)"
    and "reads 3 (table_step rxlim ''deny'' acc) (encode_phase (ph_deny (tb_rules t))) (acc\<lparr>ta_deny := Some (map wire_rule (ph_deny (tb_rules t)))\<rparr>)"
    and "reads 3 (table_step rxlim ''allow'' acc) (encode_phase (ph_allow (tb_rules t))) (acc\<lparr>ta_allow := Some (map wire_rule (ph_allow (tb_rules t)))\<rparr>)"
    and "reads 3 (table_step rxlim ''defer'' acc) (encode_phase (ph_defer (tb_rules t))) (acc\<lparr>ta_defer := Some (map wire_rule (ph_defer (tb_rules t)))\<rparr>)"
    and "reads 3 (table_step rxlim ''prompt'' acc) (encode_phase (ph_prompt (tb_rules t))) (acc\<lparr>ta_prompt := Some (map wire_rule (ph_prompt (tb_rules t)))\<rparr>)"
    and "reads 3 (table_step rxlim ''version'' acc) (put_u64 (tb_version t)) (acc\<lparr>ta_version := Some (tb_version t)\<rparr>)"
    and "reads 3 (table_step rxlim ''classifier'' acc) (encode_classifier (tb_classifier t)) (acc\<lparr>ta_classifier := Some (tb_classifier t)\<rparr>)"
proof -
  have k: "table_step rxlim ''deny'' acc = andthen (decode_phase rxlim) (\<lambda>v. ret (acc\<lparr>ta_deny := Some v\<rparr>))"
      "table_step rxlim ''allow'' acc = andthen (decode_phase rxlim) (\<lambda>v. ret (acc\<lparr>ta_allow := Some v\<rparr>))"
      "table_step rxlim ''defer'' acc = andthen (decode_phase rxlim) (\<lambda>v. ret (acc\<lparr>ta_defer := Some v\<rparr>))"
      "table_step rxlim ''prompt'' acc = andthen (decode_phase rxlim) (\<lambda>v. ret (acc\<lparr>ta_prompt := Some v\<rparr>))"
      "table_step rxlim ''v'' acc = andthen (tc rd_u64) (\<lambda>v. ret (acc\<lparr>ta_v := Some v\<rparr>))"
      "table_step rxlim ''version'' acc = andthen (tc rd_u64) (\<lambda>v. ret (acc\<lparr>ta_version := Some v\<rparr>))"
      "table_step rxlim ''classifier'' acc = andthen (decode_classifier rxlim) (\<lambda>v. ret (acc\<lparr>ta_classifier := Some v\<rparr>))"
    by (simp_all add: table_step_def)
  note p = reads_phase_field [OF assms]
  show "reads 3 (table_step rxlim ''deny'' acc) (encode_phase (ph_deny (tb_rules t))) (acc\<lparr>ta_deny := Some (map wire_rule (ph_deny (tb_rules t)))\<rparr>)"
    and "reads 3 (table_step rxlim ''allow'' acc) (encode_phase (ph_allow (tb_rules t))) (acc\<lparr>ta_allow := Some (map wire_rule (ph_allow (tb_rules t)))\<rparr>)"
    and "reads 3 (table_step rxlim ''defer'' acc) (encode_phase (ph_defer (tb_rules t))) (acc\<lparr>ta_defer := Some (map wire_rule (ph_defer (tb_rules t)))\<rparr>)"
    and "reads 3 (table_step rxlim ''prompt'' acc) (encode_phase (ph_prompt (tb_rules t))) (acc\<lparr>ta_prompt := Some (map wire_rule (ph_prompt (tb_rules t)))\<rparr>)"
    unfolding k by (rule p [where ph = ph_deny]; simp) (rule p [where ph = ph_allow]; simp; fail | rule p [where ph = ph_defer]; simp; fail | rule p [where ph = ph_prompt]; simp; fail)+
  show "reads 3 (table_step rxlim ''v'' acc) (put_u64 TABLE_VERSION) (acc\<lparr>ta_v := Some TABLE_VERSION\<rparr>)"
    and "reads 3 (table_step rxlim ''version'' acc) (put_u64 (tb_version t)) (acc\<lparr>ta_version := Some (tb_version t)\<rparr>)"
    unfolding k by (rule reads_andthen1 [OF reads_lift [OF reads_u64]]; simp)+
  show "reads 3 (table_step rxlim ''classifier'' acc) (encode_classifier (tb_classifier t)) (acc\<lparr>ta_classifier := Some (tb_classifier t)\<rparr>)"
    unfolding k by (rule reads_andthen1 [OF reads_classifier]) (use assms in \<open>simp_all add: table_ok_def table_fits_def\<close>)
qed

lemma reads_table:
  assumes "table_ok rxlim t"
  shows "reads 4 (rd_map TblCbor (table_step rxlim) table_acc_new) (table_encode t)
    \<lparr>ta_v = Some TABLE_VERSION, ta_version = Some (tb_version t), ta_classifier = Some (tb_classifier t),
      ta_deny = Some (map wire_rule (ph_deny (tb_rules t))), ta_prompt = Some (map wire_rule (ph_prompt (tb_rules t))),
      ta_defer = Some (map wire_rule (ph_defer (tb_rules t))), ta_allow = Some (map wire_rule (ph_allow (tb_rules t)))\<rparr>"
  unfolding table_encode_entries
proof (rule reads_map_at)
  show "keys_ok (map fst (table_entries t))" by (simp add: table_entries_def table_keys)
qed (simp_all only: table_entries_def, (rule stepsI table_steps [OF assms] | simp add: table_acc_new_def)+)

lemma decode_encoded_table:
  assumes "table_ok rxlim t"
  shows "table_decode rxlim (table_encode t) = Inr (wire_table t)"
  unfolding table_decode_def
  by (subst run_whole_reads [OF reads_table [OF assms]]) (simp_all add: MAX_MAP_DEPTH_def wire_table_def wire_phases_def)

lemma compiled_table_ok:
  "policy_compile rxlim kp files = Inr c \<Longrightarrow> table_fits (cp_rules c) (cp_classifier c) \<Longrightarrow> table_ok rxlim (policy_table c v)"
  using policy_compile_ok [of rxlim kp files c] by (simp add: compiled_ok_def table_ok_def policy_table_def)

text \<open>Without a node the confidence threshold is never consulted, so the wire changes no decision.\<close>

lemma wire_rule_matches: "rc_node ctx = None \<Longrightarrow> rule_matches rx (wire_rule r) ctx = rule_matches rx r ctx"
proof -
  assume n: "rc_node ctx = None"
  have "pred_matches rx (wire_pred p) ctx = pred_matches rx p ctx" for p
    using n by (cases p) (simp_all add: is_some_and_def)
  then show ?thesis by (simp add: rule_matches_def wire_rule_def)
qed

lemma wire_first: "rc_node ctx = None \<Longrightarrow> first rx (map wire_rule rs) ctx = first rx rs ctx"
  by (induction rs) (simp_all add: first_def wire_rule_matches, simp add: wire_rule_def)

lemma wire_check: "rc_node ctx = None \<Longrightarrow> check rx (wire_table t) ctx = check rx t ctx"
  by (simp add: check_def phase_list_def wire_table_def wire_phases_def wire_first split: option.split)

text \<open>C36: A compiled policy survives the wire: when the policy files compile and every list is within the
  wire's limits, the encoded table decodes to the same rules in the same order and the same classifier,
  confidence thresholds rounded to thousandths, and every request on a window without a semantic node is
  decided alike, by the same rule.\<close>

theorem compiled_policy_survives_the_wire:
  assumes "policy_compile rxlim kp files = Inr c" and "table_fits (cp_rules c) (cp_classifier c)"
  shows "table_decode rxlim (table_encode (policy_table c v)) = Inr (wire_table (policy_table c v)) \<and>
    (rc_node ctx = None \<longrightarrow> check rx (wire_table (policy_table c v)) ctx = check rx (policy_table c v) ctx)"
  using decode_encoded_table [OF compiled_table_ok [OF assms]] wire_check by blast

end
