(* ===== verification/Spec2Isabelle.thy ===== *)
theory Spec2Isabelle
  imports Task_Laws Grant_Laws Scope Check Table_Codec Emission_Laws Link_Laws AuditStore_Samples TaskStore_Laws Daemon_Laws Policy_Push
begin

text \<open>
  A model of the policy core of EclipseOS: the crates under \<open>abyss/crates\<close> that decide what an agent
  may do and keep the record of it.

  \<^bold>\<open>The program.\<close> \<open>abyss\<close> is a Wayland compositor; \<open>policyd\<close> is the daemon that owns policy, tasks,
  grants and the audit log. Both link the crate \<open>ec-policy-eval\<close>, which holds everything the two
  must agree on: the canonical CBOR they exchange, the enforcement table \<open>policyd\<close> compiles and
  \<open>abyss\<close> evaluates for every request, the grants \<open>policyd\<close> signs and \<open>abyss\<close> verifies, the audit
  emissions \<open>abyss\<close> sends and the messages of \<open>policyd.sock\<close>.

  \<^bold>\<open>The theories.\<close>
  \<^item> \<open>Prelude\<close>: machine integers, big-endian bytes, strings as UTF-8 byte strings, results as sums,
    and the uniqueness of strictly sorted lists.
  \<^item> \<open>Cbor\<close> (\<open>ec-policy-eval/src/cbor.rs\<close>): writer, map builder and reader; a reader is a record of
    the buffer, the position and the stack of open maps, and a decoder is a function from readers
    to an error or a value and a reader. \<open>Cbor_Laws\<close> states what a codec promises as two locales,
    \<open>put_get\<close> (the reader takes back what the writer put) and \<open>codec\<close> (and nothing else), and
    interprets them for every scalar; \<open>Cbor_Skip\<close> does the same for maps and for skipping an item,
    \<open>Cbor_Keys\<close> for key order, and \<open>Cbor_Fields\<close> holds the locale \<open>field_reader\<close> of decoders that
    keep one optional variable per key.
  \<^item> \<open>Task_Obj\<close>, \<open>Task_Laws\<close> (\<open>task.rs\<close>): ULIDs, the task state machine, rate rings and counters.
  \<^item> \<open>Grant\<close>, \<open>Grant_Laws\<close> (\<open>grant.rs\<close>): the grant payload, its COSE envelope and verification.
  \<^item> \<open>Scope\<close> (\<open>scope.rs\<close>): the scope grammar, globs and which windows a principal sees.
  \<^item> \<open>Check\<close> (\<open>check.rs\<close>, \<open>classify.rs\<close>): the decision procedure and the classifier.
  \<^item> \<open>Table_Codec\<close> (\<open>table.rs\<close>): the wire form of an enforcement table.
  \<^item> \<open>Emission\<close>, \<open>Emission_Laws\<close> (\<open>audit.rs\<close>): audit emissions.
  \<^item> \<open>Link\<close>, \<open>Link_Laws\<close> (\<open>link.rs\<close>): the key offer and the messages of both directions.
  \<^item> \<open>AuditStore\<close>, \<open>AuditStore_Frames\<close>, \<open>AuditStore_Laws\<close>, \<open>AuditStore_Samples\<close>
    (\<open>ec-policyd/src/audit.rs\<close>): the hash-chained log on disk: records and frames, replay and repair,
    append and rotation, \<open>verify\<close>; the laws, and a concrete store on which they are applied.
  \<^item> \<open>TaskStore\<close> (\<open>ec-policyd/src/tasks.rs\<close>): the tasks and the grant ledger, every operation of
    \<open>TaskStore\<close> with the record it journals, replay at start-up, capability lines. An operation takes
    the store and returns the store it leaves with its result, errors included; \<open>env\<close> holds what comes
    from outside. \<open>TaskStore_Codec\<close> reads the journalled bodies back, \<open>TaskStore_Journal\<close> says what
    replay rebuilds after an append (the locale \<open>audit_log\<close>, interpreted on the audit store),
    \<open>TaskStore_Inv\<close> and \<open>Capability_Text\<close> carry the invariant, \<open>TaskStore_Steps\<close> the step relation over
    all operations and restarts, \<open>TaskStore_Total\<close> the bounds under which appends succeed,
    \<open>TaskStore_Samples\<close> a run on a new store and \<open>TaskStore_Laws\<close> the properties.
  \<^item> \<open>Peer\<close> (\<open>ec-policyd/src/peer.rs\<close>, \<open>accept\<close> of \<open>main.rs\<close>): roles of peers and what each may send.
  \<^item> \<open>Manifest\<close> (\<open>ec-policyd/src/manifest.rs\<close>): parsing and validating agent manifests, over the nodes of
    the KDL parser, which is an argument. \<open>Manifest_Laws\<close>: the lines of a manifest's requests parse back.
  \<^item> \<open>Dispatch\<close> (\<open>ec-policyd/src/dispatch.rs\<close>): reviews, installs, previews, tasks. An operation takes the
    dispatch state and the task store and returns both with the messages it sends. \<open>Install_Laws\<close> and
    \<open>Dispatch_Laws\<close>: the records on disk and the invariant of the dispatch state.
  \<^item> \<open>Daemon\<close> (\<open>answer\<close> and \<open>write\<close> of \<open>main.rs\<close>): one answer per packet. \<open>Skip_Depth\<close>: what an accepted
    emission may nest; \<open>Daemon_Steps\<close>: the daemon as a state machine over packets and restarts, whose task
    store stays reachable; \<open>Daemon_Samples\<close> a run that installs a package and starts it; \<open>Daemon_Laws\<close> the
    properties.
  \<^item> \<open>Policy\<close> (\<open>ec-policyd/src/policy.rs\<close>, \<open>recompile\<close> of \<open>main.rs\<close>): policy files to rules and classifier, and
    the table that is pushed. \<open>Policy_Laws\<close>: the invariant of a compilation, files that follow others, and
    that no line is skipped. \<open>Table_Laws\<close>: a compiled table decodes from its encoding. \<open>Policy_Push\<close>: versions
    across recompiles, and what a policy line does not say.

  \<^bold>\<open>Conventions.\<close> \<open>u8\<close>, \<open>u32\<close>, \<open>u64\<close> and \<open>u128\<close> are words; \<open>&str\<close> and \<open>String\<close> are lists of characters
  that stand for bytes, and \<open>rstr\<close> says a list is one Rust could hold (valid UTF-8, shorter than
  \<open>2 ^ 64\<close>). Ed25519, BLAKE3 and the regular-expression engine are not in the repository: they are
  arguments of the definitions that call them. An error is the left side of a sum. The glob loop,
  whose index can move back, is a partial function shown total; skipping an item takes fuel, shown
  to be enough. No other loop needs either.
  A rotation of the log under a clock that stepped back can break the order of its segments; the step
  relation therefore assumes \<open>orderly\<close> clocks, and that a store error ends the daemon, as \<open>main.rs\<close> has it.
  The daemon's step relation assumes besides that strings are Rust's (\<open>rust_strings\<close>), that random
  identifiers are new (\<open>draw_ok\<close>) and that no package was installed \<open>2 ^ 64\<close> times (\<open>seq_room\<close>).

  \<^bold>\<open>Not modelled.\<close> Sockets, threads and clocks as such; files are maps from names to
  contents; \<open>Display\<close> instances; signing (a call of
  the Ed25519 crate). The daemons around this core are listed in the manifest with their status.
\<close>

end
